(* ===== verification/Prelude.thy ===== *)
theory Prelude
  imports Complex_Main "HOL-Library.Word" "HOL-Library.Monad_Syntax" "HOL-Library.Multiset"
begin

text \<open>
  Shared types, conventions and helper lemmas of the development.

  Conventions:
  \<^item> The binaries are built with \<^verbatim>\<open>cargo build --release\<close> (\<^verbatim>\<open>build.sh\<close>,
    \<^verbatim>\<open>update-binaries.sh\<close>), so integer overflow wraps. A \<^verbatim>\<open>u32\<close> is a
    \<^verbatim>\<open>32 word\<close>, an \<^verbatim>\<open>i32\<close> the same word read by \<^verbatim>\<open>sint\<close>; a
    \<^verbatim>\<open>usize\<close> that is a quantity (a speed) is a \<^verbatim>\<open>64 word\<close>; a
    \<^verbatim>\<open>usize\<close> that is an index or a length is a \<^verbatim>\<open>nat\<close>, and where the code
    subtracts such values the wrap-around of \<^verbatim>\<open>usize_sub\<close> is written out.
  \<^item> A computation that can panic (index out of range, \<^verbatim>\<open>unwrap\<close> of
    \<^verbatim>\<open>None\<close>, a failed \<^verbatim>\<open>assert\<close>) has the type \<^verbatim>\<open>'a option\<close>;
    \<^verbatim>\<open>None\<close> is the panic. A Rust \<^verbatim>\<open>Option\<close> inside it is a second
    \<^verbatim>\<open>option\<close>; a Rust \<^verbatim>\<open>Result\<close> is a sum, \<^verbatim>\<open>Inl\<close> the error.
\<close>

section \<open>Machine integers\<close>

type_synonym u8 = "8 word"
type_synonym u16 = "16 word"
type_synonym u32 = "32 word"
type_synonym u64 = "64 word"

text \<open>\<^verbatim>\<open>usize\<close> subtraction on index values, with the wrap-around of a release build.\<close>

definition usize_sub :: "nat \<Rightarrow> nat \<Rightarrow> nat" where
  "usize_sub a b = (if b \<le> a then a - b else a + 2 ^ 64 - b)"

lemma usize_sub_le [simp]: "b \<le> a \<Longrightarrow> usize_sub a b = a - b"
  by (simp add: usize_sub_def)

definition usize_add :: "nat \<Rightarrow> nat \<Rightarrow> nat" where
  "usize_add a b = (a + b) mod 2 ^ 64"

lemma usize_add_small [simp]: "a + b < 2 ^ 64 \<Longrightarrow> usize_add a b = a + b"
  by (simp add: usize_add_def)

section \<open>Panicking accesses\<close>

definition get_at :: "'a list \<Rightarrow> nat \<Rightarrow> 'a option" where
  "get_at xs i = (if i < length xs then Some (xs ! i) else None)"

definition set_at :: "'a list \<Rightarrow> nat \<Rightarrow> 'a \<Rightarrow> 'a list option" where
  "set_at xs i x = (if i < length xs then Some (xs[i := x]) else None)"

lemma get_at_Some [simp]: "i < length xs \<Longrightarrow> get_at xs i = Some (xs ! i)"
  by (simp add: get_at_def)

lemma get_at_None [simp]: "length xs \<le> i \<Longrightarrow> get_at xs i = None"
  by (simp add: get_at_def)

lemma set_at_Some [simp]: "i < length xs \<Longrightarrow> set_at xs i x = Some (xs[i := x])"
  by (simp add: set_at_def)

lemma set_at_None [simp]: "length xs \<le> i \<Longrightarrow> set_at xs i x = None"
  by (simp add: set_at_def)

lemma get_at_eq_Some: "get_at xs i = Some x \<longleftrightarrow> i < length xs \<and> xs ! i = x"
  by (auto simp: get_at_def)

lemma set_at_eq_Some: "set_at xs i x = Some ys \<longleftrightarrow> i < length xs \<and> ys = xs[i := x]"
  by (auto simp: set_at_def)

section \<open>Loops over a list with a panicking body\<close>

fun fold_opt :: "('a \<Rightarrow> 's \<Rightarrow> 's option) \<Rightarrow> 'a list \<Rightarrow> 's \<Rightarrow> 's option" where
  "fold_opt f [] s = Some s"
| "fold_opt f (x # xs) s = (case f x s of None \<Rightarrow> None | Some s' \<Rightarrow> fold_opt f xs s')"

fun map_opt :: "('a \<Rightarrow> 'b option) \<Rightarrow> 'a list \<Rightarrow> 'b list option" where
  "map_opt f [] = Some []"
| "map_opt f (x # xs) =
     (case f x of None \<Rightarrow> None
      | Some y \<Rightarrow> (case map_opt f xs of None \<Rightarrow> None | Some ys \<Rightarrow> Some (y # ys)))"

lemma fold_opt_total:
  assumes "\<And>x s. x \<in> set xs \<Longrightarrow> I s \<Longrightarrow> f x s = Some (g x s) \<and> I (g x s)" and "I s"
  shows "fold_opt f xs s = Some (fold g xs s)"
  using assms by (induction xs arbitrary: s) auto

lemma fold_opt_invar:
  assumes "fold_opt f xs s = Some s'" and "I s"
    and "\<And>x s s'. x \<in> set xs \<Longrightarrow> I s \<Longrightarrow> f x s = Some s' \<Longrightarrow> I s'"
  shows "I s'"
  using assms
proof (induction xs arbitrary: s)
  case (Cons x xs)
  then obtain s1 where s1: "f x s = Some s1" and rest: "fold_opt f xs s1 = Some s'"
    by (auto split: option.splits)
  have "I s1" using Cons.prems(2) Cons.prems(3) [OF _ _ s1] by simp
  then show ?case by (rule Cons.IH [OF rest]) (use Cons.prems(3) in auto)
qed simp

text \<open>A loop whose body keeps an invariant ends with it, and with what each of its turns
  established and the later turns kept.\<close>

lemma fold_opt_done:
  assumes step: "\<And>x s. x \<in> set xs \<Longrightarrow> I s \<Longrightarrow> \<exists>s'. f x s = Some s' \<and> I s' \<and> D x s'"
    and keep: "\<And>x y s s'. x \<in> set xs \<Longrightarrow> y \<in> set xs \<Longrightarrow> I s \<Longrightarrow> D x s \<Longrightarrow> f y s = Some s' \<Longrightarrow> D x s'"
    and start: "I s"
  shows "\<exists>s'. fold_opt f xs s = Some s' \<and> I s' \<and> (\<forall>x \<in> set xs. D x s')"
proof -
  have "\<exists>s'. fold_opt f ys s = Some s' \<and> I s' \<and> (\<forall>x \<in> set ys \<union> E. D x s')"
    if "set ys \<subseteq> set xs" "E \<subseteq> set xs" "I s" "\<forall>x \<in> E. D x s" for ys E s
    using that
  proof (induction ys arbitrary: s E)
    case (Cons y ys)
    have y: "y \<in> set xs" using Cons.prems(1) by simp
    obtain s1 where s1: "f y s = Some s1" "I s1" "D y s1" using step [OF y Cons.prems(3)] by blast
    have "D x s1" if "x \<in> insert y E" for x
    proof (cases "x = y")
      case False
      with that have "x \<in> set xs" "D x s" using Cons.prems(2,4) by auto
      then show ?thesis using keep [OF _ y Cons.prems(3) _ s1(1)] by blast
    qed (simp add: s1)
    then have "\<exists>s'. fold_opt f ys s1 = Some s' \<and> I s' \<and> (\<forall>x \<in> set ys \<union> insert y E. D x s')"
      using Cons.IH [of "insert y E" s1] Cons.prems(1,2) y s1(2) by simp
    with s1(1) show ?case by simp
  qed simp
  from this [of xs "{}" s] start show ?thesis by simp
qed

lemma fold_opt_inv:
  assumes "\<And>x s. x \<in> set xs \<Longrightarrow> I s \<Longrightarrow> \<exists>s'. f x s = Some s' \<and> I s'" and "I s"
  shows "\<exists>s'. fold_opt f xs s = Some s' \<and> I s'"
  using fold_opt_done [of xs I f "\<lambda>_ _. True" s] assms by blast

lemma fold_opt_append:
  "fold_opt f (xs @ ys) s = (case fold_opt f xs s of None \<Rightarrow> None | Some s' \<Rightarrow> fold_opt f ys s')"
  by (induction xs arbitrary: s) (auto split: option.splits)

lemma fold_opt_cong [fundef_cong]:
  "xs = ys \<Longrightarrow> s = t \<Longrightarrow> (\<And>x u. x \<in> set ys \<Longrightarrow> f x u = g x u) \<Longrightarrow> fold_opt f xs s = fold_opt g ys t"
  by (induction xs arbitrary: ys s t) (auto split: option.splits)

lemma fold_opt_map: "fold_opt f (map g xs) s = fold_opt (\<lambda>x. f (g x)) xs s"
  by (induction xs arbitrary: s) (auto split: option.splits)

lemma fold_opt_filter:
  "fold_opt f (filter P xs) s = fold_opt (\<lambda>x s. if P x then f x s else Some s) xs s"
  by (induction xs arbitrary: s) (auto split: option.splits)

lemma fold_invar:
  "I s \<Longrightarrow> (\<And>x s. x \<in> set xs \<Longrightarrow> I s \<Longrightarrow> I (f x s)) \<Longrightarrow> I (fold f xs s)"
  by (induction xs arbitrary: s) auto

lemma map_opt_total: "(\<And>x. x \<in> set xs \<Longrightarrow> f x = Some (g x)) \<Longrightarrow> map_opt f xs = Some (map g xs)"
  by (induction xs) auto

lemma map_opt_Some_iff:
  "map_opt f xs = Some ys \<longleftrightarrow> list_all2 (\<lambda>x y. f x = Some y) xs ys"
proof (induction xs arbitrary: ys)
  case (Cons x xs)
  show ?case
    by (cases ys; cases "f x"; cases "map_opt f xs") (auto simp: Cons.IH [symmetric])
qed auto

lemma map_opt_length: "map_opt f xs = Some ys \<Longrightarrow> length ys = length xs"
  by (simp add: map_opt_Some_iff list_all2_lengthD)

section \<open>Words\<close>

lemma word_min_le [simp]: "min (a :: 'a::len word) b \<le> a" "min (a :: 'a::len word) b \<le> b"
  by simp_all

lemma min_max_word [simp]: "min (- 1 :: 'a::len word) x = x"
  by (simp add: min_absorb2)

lemma unat_add_no_wrap:
  fixes a b :: u32
  assumes "unat a + unat b < 2 ^ 32"
  shows "unat (a + b) = unat a + unat b"
  using assms by (simp add: unat_word_ariths)

lemma unat_of_nat_small: "n < 2 ^ 32 \<Longrightarrow> unat (of_nat n :: u32) = n"
  by (simp add: unsigned_of_nat take_bit_nat_eq_self)

lemma unat_diff_no_wrap:
  fixes a b :: u32
  shows "b \<le> a \<Longrightarrow> unat (a - b) = unat a - unat b"
  by (simp add: unat_sub word_le_nat_alt)

end
