(* ===== verification/Floats.thy ===== *)
theory Floats
  imports Prelude "HOL-Library.Log_Nat"
begin

text \<open>
  The floating-point numbers of the code: Rust's \<^verbatim>\<open>f64\<close> and \<^verbatim>\<open>f32\<close>, IEEE 754
  binary formats with round-to-nearest, ties to even. A finite value is the rational number it
  denotes; the two infinities and NaN are constructors. The sign of a zero is the one thing
  left out: no operation of the code divides by a negative zero or prints a zero.
\<close>

section \<open>Rounding\<close>

datatype fval = Fin rat | PInf | NInf | NaN

record fformat =
  fprec :: nat
  femin :: int
  femax :: nat

definition F64 :: fformat where
  "F64 = \<lparr>fprec = 53, femin = - 1074, femax = 1024\<rparr>"

definition F32 :: fformat where
  "F32 = \<lparr>fprec = 24, femin = - 149, femax = 128\<rparr>"

definition pow2 :: "int \<Rightarrow> rat" where
  "pow2 e = (if 0 \<le> e then 2 ^ nat e else 1 / 2 ^ nat (- e))"

text \<open>The binary exponent of a positive rational.\<close>

definition rexp :: "rat \<Rightarrow> int" where
  "rexp q = (let (a, b) = quotient_of q; e = bitlen a - bitlen b
             in if pow2 e \<le> q then e else e - 1)"

text \<open>Round to the nearest integer, ties to even.\<close>

definition rne :: "rat \<Rightarrow> int" where
  "rne x = (let f = \<lfloor>x\<rfloor>; d = x - of_int f
            in if d < 1 / 2 then f else if 1 / 2 < d then f + 1 else if even f then f else f + 1)"

definition fround :: "fformat \<Rightarrow> rat \<Rightarrow> fval" where
  "fround fmt q =
     (if q = 0 then Fin 0
      else let u = max (rexp \<bar>q\<bar> - int (fprec fmt) + 1) (femin fmt);
               r = of_int (rne (q / pow2 u)) * pow2 u
           in if 2 ^ femax fmt \<le> r then PInf else if r \<le> - (2 ^ femax fmt) then NInf else Fin r)"

section \<open>Arithmetic, comparison and conversion\<close>

fun fneg :: "fval \<Rightarrow> fval" where
  "fneg (Fin a) = Fin (- a)"
| "fneg PInf = NInf"
| "fneg NInf = PInf"
| "fneg NaN = NaN"

fun fadd :: "fformat \<Rightarrow> fval \<Rightarrow> fval \<Rightarrow> fval" where
  "fadd fmt (Fin a) (Fin b) = fround fmt (a + b)"
| "fadd fmt NaN _ = NaN"
| "fadd fmt _ NaN = NaN"
| "fadd fmt PInf NInf = NaN"
| "fadd fmt NInf PInf = NaN"
| "fadd fmt PInf _ = PInf"
| "fadd fmt _ PInf = PInf"
| "fadd fmt NInf _ = NInf"
| "fadd fmt _ NInf = NInf"

definition fsub :: "fformat \<Rightarrow> fval \<Rightarrow> fval \<Rightarrow> fval" where
  "fsub fmt a b = fadd fmt a (fneg b)"

definition finf :: "rat \<Rightarrow> fval" where
  "finf s = (if 0 < s then PInf else if s < 0 then NInf else NaN)"

fun fmul :: "fformat \<Rightarrow> fval \<Rightarrow> fval \<Rightarrow> fval" where
  "fmul fmt (Fin a) (Fin b) = fround fmt (a * b)"
| "fmul fmt NaN _ = NaN"
| "fmul fmt _ NaN = NaN"
| "fmul fmt (Fin a) PInf = finf a"
| "fmul fmt (Fin a) NInf = finf (- a)"
| "fmul fmt PInf (Fin b) = finf b"
| "fmul fmt NInf (Fin b) = finf (- b)"
| "fmul fmt PInf PInf = PInf"
| "fmul fmt NInf NInf = PInf"
| "fmul fmt PInf NInf = NInf"
| "fmul fmt NInf PInf = NInf"

text \<open>Division by a (positive) zero gives an infinity, or NaN for zero over zero.\<close>

fun fdiv :: "fformat \<Rightarrow> fval \<Rightarrow> fval \<Rightarrow> fval" where
  "fdiv fmt (Fin a) (Fin b) = (if b = 0 then finf a else fround fmt (a / b))"
| "fdiv fmt NaN _ = NaN"
| "fdiv fmt _ NaN = NaN"
| "fdiv fmt (Fin a) _ = Fin 0"
| "fdiv fmt PInf (Fin b) = (if b < 0 then NInf else PInf)"
| "fdiv fmt NInf (Fin b) = (if b < 0 then PInf else NInf)"
| "fdiv fmt _ _ = NaN"

text \<open>Comparisons are false as soon as one side is NaN.\<close>

fun fle :: "fval \<Rightarrow> fval \<Rightarrow> bool" where
  "fle NaN _ = False"
| "fle _ NaN = False"
| "fle NInf _ = True"
| "fle _ PInf = True"
| "fle (Fin a) (Fin b) = (a \<le> b)"
| "fle _ _ = False"

fun flt :: "fval \<Rightarrow> fval \<Rightarrow> bool" where
  "flt NaN _ = False"
| "flt _ NaN = False"
| "flt NInf x = (x \<noteq> NInf)"
| "flt x PInf = (x \<noteq> PInf)"
| "flt (Fin a) (Fin b) = (a < b)"
| "flt _ _ = False"

text \<open>\<^verbatim>\<open>as\<close> casts: an integer to the nearest float; a float to an unsigned integer by
  truncation, saturating at both ends, NaN to zero.\<close>

definition f_of_int :: "fformat \<Rightarrow> int \<Rightarrow> fval" where
  "f_of_int fmt i = fround fmt (of_int i)"

fun f_to_unsigned :: "nat \<Rightarrow> fval \<Rightarrow> nat" where
  "f_to_unsigned mx (Fin q) = min (nat \<lfloor>q\<rfloor>) mx"
| "f_to_unsigned mx PInf = mx"
| "f_to_unsigned mx NInf = 0"
| "f_to_unsigned mx NaN = 0"

definition f_to_usize :: "fval \<Rightarrow> nat" where
  "f_to_usize x = f_to_unsigned (2 ^ 64 - 1) x"

definition f_to_u32 :: "fval \<Rightarrow> u32" where
  "f_to_u32 x = of_nat (f_to_unsigned (2 ^ 32 - 1) x)"

section \<open>Exact values\<close>

lemma pow2_pos [simp]: "0 < pow2 e"
  by (simp add: pow2_def)

lemma pow2_nonzero [simp]: "pow2 e \<noteq> 0"
  using pow2_pos [of e] by linarith

lemma pow2_add: "pow2 (a + b) = pow2 a * pow2 b"
proof -
  have *: "pow2 e = 2 powi e" for e :: int
    by (simp add: pow2_def power_int_def inverse_eq_divide power_one_over)
  show ?thesis by (simp add: * power_int_add)
qed

lemma pow2_diff: "pow2 (a - b) = pow2 a / pow2 b"
  using pow2_add [of "a - b" b] by simp

lemma pow2_mono: "a \<le> b \<Longrightarrow> pow2 a \<le> pow2 b"
proof -
  assume "a \<le> b"
  have "pow2 b = pow2 (b - a) * pow2 a" using pow2_add [of "b - a" a] by simp
  moreover have "1 \<le> pow2 (b - a)" using \<open>a \<le> b\<close> by (simp add: pow2_def)
  ultimately show ?thesis by simp
qed

lemma pow2_less_iff: "pow2 a < pow2 b \<longleftrightarrow> a < b"
proof
  assume "pow2 a < pow2 b"
  then show "a < b" using pow2_mono [of b a] by force
next
  assume "a < b"
  have "pow2 b = pow2 (b - a) * pow2 a" using pow2_add [of "b - a" a] by simp
  moreover have "1 < pow2 (b - a)" using \<open>a < b\<close> by (simp add: pow2_def)
  ultimately show "pow2 a < pow2 b" by simp
qed

lemma pow2_nat [simp]: "pow2 (int n) = 2 ^ n"
  by (simp add: pow2_def)

lemma rne_of_int [simp]: "rne (of_int i) = i"
  by (simp add: rne_def)

lemma rexp_lower:
  assumes "0 < q"
  shows "pow2 (rexp q) \<le> q"
proof -
  obtain a b where ab: "quotient_of q = (a, b)" by fastforce
  then have q: "q = of_int a / of_int b" and b: "0 < b"
    by (auto dest: quotient_of_div quotient_of_denom_pos)
  with assms have a: "0 < a" by (simp add: zero_less_divide_iff)
  let ?la = "bitlen a" and ?lb = "bitlen b"
  have la: "0 \<le> ?la - 1" and lb: "0 \<le> ?lb"
    using a b bitlen_eq_zero_iff [of a] bitlen_nonneg [of a] bitlen_nonneg [of b] by linarith+
  have "pow2 (?la - 1) \<le> of_int a"
  proof -
    have "(of_int (2 ^ nat (?la - 1)) :: rat) \<le> of_int a"
      using bitlen_bounds [OF a] by (subst of_int_le_iff) simp
    then show ?thesis using la by (simp add: pow2_def)
  qed
  moreover have "of_int b \<le> pow2 ?lb"
  proof -
    have "(of_int b :: rat) \<le> of_int (2 ^ nat ?lb)"
      using bitlen_bounds [OF b] by (subst of_int_le_iff) simp
    then show ?thesis using lb by (simp add: pow2_def)
  qed
  ultimately have "pow2 (?la - 1) / pow2 ?lb \<le> q"
    unfolding q using a b by (intro frac_le) (auto intro: less_imp_le)
  then have "pow2 (?la - ?lb - 1) \<le> q"
    using pow2_diff [of "?la - 1" ?lb] by (simp add: algebra_simps)
  then show ?thesis by (simp add: rexp_def ab Let_def)
qed

lemma rexp_less:
  assumes "0 < q" and "q < pow2 k"
  shows "rexp q < k"
  using rexp_lower [OF assms(1)] assms(2) pow2_less_iff [of "rexp q" k] by linarith

text \<open>A number with at most \<^verbatim>\<open>fprec\<close> significant bits, in range, is not rounded.\<close>

lemma fround_exact:
  assumes q: "q = of_int m * pow2 e" and m: "\<bar>m\<bar> < 2 ^ fprec fmt"
    and e: "femin fmt \<le> e" and range: "\<bar>q\<bar> < 2 ^ femax fmt"
  shows "fround fmt q = Fin q"
proof (cases "q = 0")
  case True
  then show ?thesis by (simp add: fround_def)
next
  case False
  let ?u = "max (rexp \<bar>q\<bar> - int (fprec fmt) + 1) (femin fmt)"
  have abs: "\<bar>q\<bar> = of_int \<bar>m\<bar> * pow2 e"
    by (simp add: q abs_mult less_imp_le)
  have "\<bar>q\<bar> < pow2 (int (fprec fmt) + e)"
  proof -
    have "(of_int \<bar>m\<bar> :: rat) < of_int (2 ^ fprec fmt)"
      using m by (subst of_int_less_iff)
    then show ?thesis by (simp add: abs pow2_add)
  qed
  then have "rexp \<bar>q\<bar> < int (fprec fmt) + e"
    using False by (intro rexp_less) auto
  with e have u: "?u \<le> e" by simp
  have pd: "pow2 e / pow2 ?u = of_int (2 ^ nat (e - ?u))"
    using u pow2_diff [of e ?u] by (simp add: pow2_def)
  have "q / pow2 ?u = of_int m * (pow2 e / pow2 ?u)"
    by (simp add: q)
  then have "q / pow2 ?u = of_int (m * 2 ^ nat (e - ?u))"
    by (simp only: pd of_int_mult)
  then have "of_int (rne (q / pow2 ?u)) = q / pow2 ?u"
    by (simp only: rne_of_int)
  then have "of_int (rne (q / pow2 ?u)) * pow2 ?u = q" by simp
  with False range show ?thesis
    by (auto simp: fround_def Let_def abs_less_iff)
qed

text \<open>In particular every integer below two to the 53 and every half of one is an \<^verbatim>\<open>f64\<close>.\<close>

lemma f64_int_exact: "\<bar>m\<bar> < 2 ^ 53 \<Longrightarrow> fround F64 (of_int m) = Fin (of_int m)"
proof -
  assume m: "\<bar>m\<bar> < 2 ^ 53"
  have "\<bar>of_int m :: rat\<bar> < 2 ^ 1024"
  proof -
    have "(of_int \<bar>m\<bar> :: rat) < of_int (2 ^ 53)" using m by (subst of_int_less_iff)
    also have "\<dots> \<le> 2 ^ 1024" by simp
    finally show ?thesis by simp
  qed
  then show ?thesis
    using m by (intro fround_exact [where m = m and e = 0]) (simp_all add: F64_def pow2_def)
qed

lemma f64_half_exact: "\<bar>m\<bar> < 2 ^ 53 \<Longrightarrow> fround F64 (of_int m / 2) = Fin (of_int m / 2)"
proof -
  assume m: "\<bar>m\<bar> < 2 ^ 53"
  have "\<bar>of_int m / 2 :: rat\<bar> < 2 ^ 1024"
  proof -
    have "(of_int \<bar>m\<bar> :: rat) < of_int (2 ^ 53)" using m by (subst of_int_less_iff)
    also have "\<dots> \<le> 2 ^ 1024" by simp
    finally show ?thesis by simp
  qed
  then show ?thesis
    using m by (intro fround_exact [where m = m and e = "- 1"]) (simp_all add: F64_def pow2_def)
qed

end
