(* ===== verification/SymMatrix.thy ===== *)
theory SymMatrix
  imports Floats
begin

text \<open>
  The crate \<^verbatim>\<open>matrix\<close> (\<^verbatim>\<open>matrix/src/lib.rs\<close>): the symmetric matrix stored as
  the upper triangle in one vector, with the index arithmetic in \<^verbatim>\<open>i32\<close> and
  \<^verbatim>\<open>f64\<close> that the code uses, and the dense matrix. The index lemmas hold for matrices of
  fewer than two to the 26 rows, where every intermediate \<^verbatim>\<open>f64\<close> is exact. The locale
  \<^verbatim>\<open>sym_store\<close> is the interface that the network, the cluster graph and the orchestrator
  use; the symmetric matrix interprets it.
\<close>

section \<open>Index arithmetic\<close>

type_synonym i32 = "32 word"

definition f64_of_i32 :: "i32 \<Rightarrow> fval" where
  "f64_of_i32 w = f_of_int F64 (sint w)"

definition f64_of_usize :: "nat \<Rightarrow> fval" where
  "f64_of_usize n = f_of_int F64 (int n)"

definition i32_to_usize :: "i32 \<Rightarrow> nat" where
  "i32_to_usize w = unat (scast w :: u64)"

definition out_to_in_index :: "nat \<Rightarrow> nat \<Rightarrow> nat \<Rightarrow> nat" where
  "out_to_in_index row0 col0 n =
     (let (row, col) = (if col0 < row0 then (col0, row0) else (row0, col0));
          row_offset =
            (if 0 < row then
               let r = (- 1 :: i32);
                   u_1 = (of_nat n :: i32);
                   n_row = (of_nat row :: i32);
                   u_n = u_1 + (n_row - 1) * r;
                   x = fmul F64 (f64_of_i32 n_row)
                         (fdiv F64 (fadd F64 (f64_of_i32 u_1) (f64_of_i32 u_n)) (Fin 2))
               in f_to_usize x
             else 0);
          col_offset = col - row
      in row_offset + col_offset)"

text \<open>The search loop of \<^verbatim>\<open>in_to_out_index\<close>: \<^verbatim>\<open>None\<close> if it does not end.\<close>

partial_function (option) in_to_out_loop :: "nat \<Rightarrow> nat \<Rightarrow> i32 \<Rightarrow> (i32 \<times> nat) option" where
  "in_to_out_loop i n next_row =
     (let next_row_adj = next_row + 1;
          u_n = (of_nat n :: i32) + (next_row_adj - 1) * - 1;
          x = fmul F64 (f64_of_i32 next_row_adj)
                (fdiv F64 (fadd F64 (f64_of_usize n) (f64_of_i32 u_n)) (Fin 2));
          next_row_index = f_to_usize x;
          current_row_index = usize_sub next_row_index (i32_to_usize u_n);
          next_row' = next_row + 1
      in if i < next_row_index \<and> current_row_index \<le> i then Some (next_row', current_row_index)
         else in_to_out_loop i n next_row')"

definition in_to_out_index :: "nat \<Rightarrow> nat \<Rightarrow> (nat \<times> nat) option" where
  "in_to_out_index i n =
     (case in_to_out_loop i n 0 of
        None \<Rightarrow> None
      | Some (next_row, current_row_index) \<Rightarrow>
          let row = usize_sub (i32_to_usize next_row) 1;
              offset = usize_sub i current_row_index
          in Some (row, offset + row))"

section \<open>The symmetric matrix\<close>

record 'a sym_matrix =
  sm_n :: nat
  sm_data :: "'a list"

definition sm_size :: "'a sym_matrix \<Rightarrow> nat" where
  "sm_size m = sm_n m"

definition sm_get :: "'a sym_matrix \<Rightarrow> nat \<Rightarrow> nat \<Rightarrow> 'a option" where
  "sm_get m row col = get_at (sm_data m) (out_to_in_index row col (sm_n m))"

definition sm_set :: "'a sym_matrix \<Rightarrow> nat \<Rightarrow> nat \<Rightarrow> 'a \<Rightarrow> 'a sym_matrix option" where
  "sm_set m row col x =
     (case set_at (sm_data m) (out_to_in_index row col (sm_n m)) x of
        None \<Rightarrow> None
      | Some d \<Rightarrow> Some (m\<lparr>sm_data := d\<rparr>))"

text \<open>\<^verbatim>\<open>new_fn\<close>: the length of the vector is computed in \<^verbatim>\<open>f64\<close>; the closure may
  panic.\<close>

definition sm_size_vec :: "nat \<Rightarrow> nat" where
  "sm_size_vec n =
     f_to_usize (fmul F64 (f64_of_usize n) (fdiv F64 (fadd F64 (f64_of_usize n) (Fin 1)) (Fin 2)))"

definition sm_new_fn :: "nat \<Rightarrow> (nat \<Rightarrow> nat \<Rightarrow> 'a option) \<Rightarrow> 'a sym_matrix option" where
  "sm_new_fn n f =
     (case map_opt
             (\<lambda>i. case in_to_out_index i n of None \<Rightarrow> None | Some (row, col) \<Rightarrow> f row col)
             [0..<sm_size_vec n] of
        None \<Rightarrow> None
      | Some d \<Rightarrow> Some \<lparr>sm_n = n, sm_data = d\<rparr>)"

definition sm_grow_fn ::
  "'a sym_matrix \<Rightarrow> nat \<Rightarrow> (nat \<Rightarrow> nat \<Rightarrow> 'a option) \<Rightarrow> 'a sym_matrix option" where
  "sm_grow_fn m added f =
     sm_new_fn (sm_n m + added)
       (\<lambda>row col. if sm_n m \<le> row \<or> sm_n m \<le> col then f row col else sm_get m row col)"

definition sm_remove_id :: "'a sym_matrix \<Rightarrow> nat \<Rightarrow> 'a sym_matrix option" where
  "sm_remove_id m ident =
     sm_new_fn (usize_sub (sm_n m) 1)
       (\<lambda>row col.
          let row = (if ident \<le> row then row + 1 else row);
              col = (if ident \<le> col then col + 1 else col)
          in sm_get m row col)"

section \<open>The dense matrix\<close>

record 'a matrix =
  mx_n :: nat
  mx_data :: "'a list list"

definition mx_get :: "'a matrix \<Rightarrow> nat \<Rightarrow> nat \<Rightarrow> 'a option" where
  "mx_get m row col = (case get_at (mx_data m) row of None \<Rightarrow> None | Some r \<Rightarrow> get_at r col)"

definition mx_set :: "'a matrix \<Rightarrow> nat \<Rightarrow> nat \<Rightarrow> 'a \<Rightarrow> 'a matrix option" where
  "mx_set m row col x =
     (case get_at (mx_data m) row of
        None \<Rightarrow> None
      | Some r \<Rightarrow>
          (case set_at r col x of
             None \<Rightarrow> None
           | Some r' \<Rightarrow> Some (m\<lparr>mx_data := (mx_data m)[row := r']\<rparr>)))"

definition mx_new_fn :: "nat \<Rightarrow> (nat \<Rightarrow> nat \<Rightarrow> 'a option) \<Rightarrow> 'a matrix option" where
  "mx_new_fn n f =
     (case map_opt (\<lambda>row. map_opt (\<lambda>col. f row col) [0..<n]) [0..<n] of
        None \<Rightarrow> None
      | Some d \<Rightarrow> Some \<lparr>mx_n = n, mx_data = d\<rparr>)"

definition mx_grow_fn :: "'a matrix \<Rightarrow> nat \<Rightarrow> (nat \<Rightarrow> nat \<Rightarrow> 'a option) \<Rightarrow> 'a matrix option" where
  "mx_grow_fn m added f =
     mx_new_fn (mx_n m + added)
       (\<lambda>row col. if mx_n m \<le> row \<or> mx_n m \<le> col then f row col else mx_get m row col)"

section \<open>Where the rows of the triangle start\<close>

primrec row_start :: "nat \<Rightarrow> nat \<Rightarrow> nat" where
  "row_start n 0 = 0"
| "row_start n (Suc k) = row_start n k + (n - k)"

lemma row_start_double: "k \<le> n \<Longrightarrow> 2 * row_start n k = k * (2 * n + 1 - k)"
proof (induction k)
  case (Suc k)
  then obtain d where n: "n = Suc k + d" using le_Suc_ex by blast
  with Suc show ?case by (simp add: algebra_simps)
qed simp

lemma row_start_mono: "j \<le> k \<Longrightarrow> row_start n j \<le> row_start n k"
  by (induction k) (auto simp: le_Suc_eq intro: trans_le_add1)

lemma row_start_full: "row_start n n = n * (n + 1) div 2"
  using row_start_double [of n n] by simp

lemma row_start_find:
  "i < row_start n k \<Longrightarrow> \<exists>r < k. row_start n r \<le> i \<and> i < row_start n (Suc r)"
proof (induction k)
  case (Suc k)
  show ?case
  proof (cases "i < row_start n k")
    case True
    then show ?thesis using Suc.IH less_SucI by blast
  next
    case False
    then show ?thesis using Suc.prems by (intro exI [of _ k]) simp
  qed
qed simp

lemma row_start_bound: "k \<le> n \<Longrightarrow> n < 2 ^ 26 \<Longrightarrow> row_start n k < 2 ^ 53"
proof -
  assume k: "k \<le> n" and n: "n < 2 ^ 26"
  have "k * (2 * n + 1 - k) \<le> 2 ^ 26 * (2 ^ 27)"
    using k n by (intro mult_le_mono) auto
  then show ?thesis using row_start_double [OF k] by simp
qed

section \<open>The floating-point index computations are exact\<close>

lemma sint_i32: "- (2 ^ 31) \<le> i \<Longrightarrow> i < 2 ^ 31 \<Longrightarrow> sint (word_of_int i :: i32) = i"
  by (simp add: sint_sbintrunc' signed_take_bit_int_eq_self)

lemma i32_of_nat: "n < 2 ^ 31 \<Longrightarrow> sint (of_nat n :: i32) = int n"
  using sint_i32 [of "int n"] by simp

lemma f64_of_i32_nat: "n < 2 ^ 31 \<Longrightarrow> f64_of_i32 (of_nat n) = Fin (of_nat n)"
  using f64_int_exact [of "int n"] by (simp add: f64_of_i32_def f_of_int_def i32_of_nat)

lemma f64_of_usize_nat: "n < 2 ^ 53 \<Longrightarrow> f64_of_usize n = Fin (of_nat n)"
  using f64_int_exact [of "int n"] by (simp add: f64_of_usize_def f_of_int_def)

lemma i32_to_usize_nat: "n < 2 ^ 31 \<Longrightarrow> i32_to_usize (of_nat n) = n"
  by (simp add: i32_to_usize_def scast_eq i32_of_nat unat_of_nat take_bit_nat_eq_self)

lemma u_n_word: "k \<le> n \<Longrightarrow> (of_nat n :: i32) + (of_nat k - 1) * - 1 = of_nat (n + 1 - k)"
proof -
  assume "k \<le> n"
  then have "(of_nat (n + 1) :: i32) = of_nat (n + 1 - k) + of_nat k"
    by (metis add_diff_cancel_right' le_add_diff_inverse2 of_nat_add trans_le_add1)
  then show ?thesis by (simp add: algebra_simps)
qed

lemma seq_sum_exact:
  assumes "k \<le> n" and "n < 2 ^ 26"
  shows "f_to_usize (fmul F64 (Fin (of_nat k))
           (fdiv F64 (fadd F64 (Fin (of_nat n)) (Fin (of_nat (n + 1 - k)))) (Fin 2))) = row_start n k"
proof -
  define s where "s = n + (n + 1 - k)"
  have s: "s < 2 ^ 28" and ks: "k * s = 2 * row_start n k"
    using assms row_start_double [of k n] by (auto simp: s_def)
  have rs: "row_start n k < 2 ^ 53" using assms row_start_bound by blast
  have add: "fadd F64 (Fin (of_nat n)) (Fin (of_nat (n + 1 - k))) = Fin (of_nat s)"
    using f64_int_exact [of "int s"] s by (simp add: s_def)
  have div: "fdiv F64 (Fin (of_nat s)) (Fin 2) = Fin (of_nat s / 2)"
    using f64_half_exact [of "int s"] s by simp
  have prod: "(of_nat k * (of_nat s / 2) :: rat) = of_nat (row_start n k)"
  proof -
    have "(of_nat (k * s) :: rat) = of_nat (2 * row_start n k)" by (simp only: ks)
    then show ?thesis by (simp add: field_simps)
  qed
  have mul: "fmul F64 (Fin (of_nat k)) (Fin (of_nat s / 2)) = Fin (of_nat (row_start n k))"
    using f64_int_exact [of "int (row_start n k)"] rs by (simp only: fmul.simps prod) simp
  show ?thesis
    using rs by (simp only: add div mul) (simp add: f_to_usize_def)
qed

lemma out_to_in_index_upper:
  assumes "row \<le> col" and "row \<le> n" and "n < 2 ^ 26"
  shows "out_to_in_index row col n = row_start n row + (col - row)"
proof (cases "row = 0")
  case True
  then show ?thesis by (simp add: out_to_in_index_def Let_def)
next
  case False
  have b: "n < 2 ^ 31" "row < 2 ^ 31" "n + 1 - row < 2 ^ 31" using assms by auto
  show ?thesis
    using assms(1) False seq_sum_exact [OF assms(2,3)]
    by (simp add: out_to_in_index_def Let_def u_n_word [OF assms(2), simplified]
        f64_of_i32_nat [OF b(1)] f64_of_i32_nat [OF b(2)] f64_of_i32_nat [OF b(3), simplified])
qed

lemma out_to_in_index_sym: "out_to_in_index row col n = out_to_in_index col row n"
  by (cases "row = col") (auto simp: out_to_in_index_def)

lemma sm_size_vec_eq: "n < 2 ^ 26 \<Longrightarrow> sm_size_vec n = row_start n n"
proof -
  assume n: "n < 2 ^ 26"
  have "f64_of_usize n = Fin (of_nat n)" using n by (intro f64_of_usize_nat) simp
  then show ?thesis
    using seq_sum_exact [of n n] n by (simp add: sm_size_vec_def)
qed

text \<open>The search loop, started at a row not after the right one, stops at the right one.\<close>

lemma in_to_out_loop_step:
  assumes "k < n" and "n < 2 ^ 26"
  shows "in_to_out_loop i n (of_nat k) =
    (if i < row_start n (Suc k) \<and> row_start n k \<le> i then Some (of_nat (Suc k), row_start n k)
     else in_to_out_loop i n (of_nat (Suc k)))"
proof -
  have b: "Suc k < 2 ^ 31" "n + 1 - Suc k < 2 ^ 31" "n < 2 ^ 53" using assms by auto
  have un: "(of_nat n :: i32) + (of_nat (Suc k) - 1) * - 1 = of_nat (n + 1 - Suc k)"
    using assms by (intro u_n_word) simp
  have seq: "f_to_usize (fmul F64 (f64_of_i32 (of_nat (Suc k)))
       (fdiv F64 (fadd F64 (f64_of_usize n) (f64_of_i32 (of_nat (n + 1 - Suc k)))) (Fin 2)))
     = row_start n (Suc k)"
    using seq_sum_exact [of "Suc k" n] assms
    by (simp only: f64_of_i32_nat [OF b(1)] f64_of_i32_nat [OF b(2)] f64_of_usize_nat [OF b(3)])
  have next_eq: "(of_nat k :: i32) + 1 = of_nat (Suc k)" by simp
  show ?thesis
    using b
    by (subst in_to_out_loop.simps)
       (simp only: Let_def next_eq un seq i32_to_usize_nat [OF b(2)], simp)
qed

lemma in_to_out_loop_finds:
  assumes "j \<le> r" and "r < n" and "n < 2 ^ 26"
    and "row_start n r \<le> i" and "i < row_start n (Suc r)"
  shows "in_to_out_loop i n (of_nat j) = Some (of_nat (Suc r), row_start n r)"
  using assms(1)
proof (induction "r - j" arbitrary: j)
  case 0
  then have "j = r" by simp
  then show ?case using assms by (simp only: in_to_out_loop_step) simp
next
  case (Suc d)
  then have j: "j < r" by simp
  have "row_start n (Suc j) \<le> row_start n r" using j by (intro row_start_mono) simp
  with assms(4) have "\<not> i < row_start n (Suc j)" by simp
  moreover have "in_to_out_loop i n (of_nat (Suc j)) = Some (of_nat (Suc r), row_start n r)"
    using Suc j by (intro Suc.hyps(1)) auto
  moreover have "j < n" using j assms(2) by simp
  ultimately show ?case using assms(3) by (simp only: in_to_out_loop_step) simp
qed

lemma in_to_out_index_row:
  assumes "r < n" and "n < 2 ^ 26" and "row_start n r \<le> i" and "i < row_start n (Suc r)"
  shows "in_to_out_index i n = Some (r, i - row_start n r + r)"
proof -
  have "in_to_out_loop i n (of_nat 0) = Some (of_nat (Suc r), row_start n r)"
    using assms by (intro in_to_out_loop_finds) auto
  moreover have "i32_to_usize (of_nat (Suc r)) = Suc r"
    using assms by (intro i32_to_usize_nat) simp
  ultimately show ?thesis using assms by (simp add: in_to_out_index_def Let_def)
qed

section \<open>The triangle is in bijection with the vector\<close>

lemma tri_index_row:
  assumes "row \<le> col" and "col < n"
  shows "row_start n row + (col - row) < row_start n (Suc row)"
  using assms by simp

lemma tri_index_lt:
  assumes "row \<le> col" and "col < n"
  shows "row_start n row + (col - row) < row_start n n"
proof -
  have "row_start n (Suc row) \<le> row_start n n" using assms by (intro row_start_mono) simp
  with tri_index_row [OF assms] show ?thesis by simp
qed

lemma out_to_in_index_eq:
  assumes "i < n" and "j < n" and "n < 2 ^ 26"
  shows "out_to_in_index i j n = row_start n (min i j) + (max i j - min i j)"
proof (cases "i \<le> j")
  case True
  then show ?thesis using assms by (simp add: out_to_in_index_upper min_def max_def)
next
  case False
  then show ?thesis
    using assms by (subst out_to_in_index_sym) (simp add: out_to_in_index_upper min_def max_def)
qed

lemma out_to_in_index_lt:
  "i < n \<Longrightarrow> j < n \<Longrightarrow> n < 2 ^ 26 \<Longrightarrow> out_to_in_index i j n < row_start n n"
  using tri_index_lt [of "min i j" "max i j" n] by (simp add: out_to_in_index_eq)

lemma in_out_index_upper:
  assumes "r \<le> c" and "c < n" and "n < 2 ^ 26"
  shows "in_to_out_index (row_start n r + (c - r)) n = Some (r, c)"
  using in_to_out_index_row [of r n "row_start n r + (c - r)"] assms by simp

lemma in_out_index:
  assumes "i < n" and "j < n" and "n < 2 ^ 26"
  shows "in_to_out_index (out_to_in_index i j n) n = Some (min i j, max i j)"
  using assms in_out_index_upper [of "min i j" "max i j" n] by (simp add: out_to_in_index_eq)

lemma out_in_index:
  assumes "i < row_start n n" and "n < 2 ^ 26"
  shows "\<exists>row col. in_to_out_index i n = Some (row, col) \<and> row \<le> col \<and> col < n
    \<and> out_to_in_index row col n = i"
proof -
  obtain r where r: "r < n" "row_start n r \<le> i" "i < row_start n (Suc r)"
    using row_start_find [OF assms(1)] by blast
  then have "i - row_start n r + r < n" by simp
  then show ?thesis
    using r assms(2) in_to_out_index_row [OF r(1) assms(2) r(2,3)]
    by (auto simp: out_to_in_index_upper)
qed

lemma out_to_in_index_inj:
  assumes "i < n" "j < n" "k < n" "l < n" "n < 2 ^ 26"
  shows "out_to_in_index i j n = out_to_in_index k l n \<longleftrightarrow> i = k \<and> j = l \<or> i = l \<and> j = k"
proof
  assume "out_to_in_index i j n = out_to_in_index k l n"
  then have "(min i j, max i j) = (min k l, max k l)"
    using in_out_index [of i n j] in_out_index [of k n l] assms by simp
  then show "i = k \<and> j = l \<or> i = l \<and> j = k"
    by (auto simp: min_def max_def split: if_splits)
qed (auto simp: out_to_in_index_sym)

section \<open>The interface of a symmetric store\<close>

text \<open>\<^verbatim>\<open>m[(i, j)] = f(m[(i, j)])\<close>, the read-modify-write that every client uses.\<close>

definition store_modify ::
  "('m \<Rightarrow> nat \<Rightarrow> nat \<Rightarrow> 'a option) \<Rightarrow> ('m \<Rightarrow> nat \<Rightarrow> nat \<Rightarrow> 'a \<Rightarrow> 'm option)
   \<Rightarrow> nat \<Rightarrow> nat \<Rightarrow> ('a \<Rightarrow> 'a) \<Rightarrow> 'm \<Rightarrow> 'm option" where
  "store_modify get put i j f m = (case get m i j of None \<Rightarrow> None | Some x \<Rightarrow> put m i j (f x))"

fun on_pair :: "nat \<Rightarrow> nat \<Rightarrow> nat \<times> nat \<times> ('a \<Rightarrow> 'a) \<Rightarrow> 'a \<Rightarrow> 'a" where
  "on_pair k l (i, j, f) x = (if i = k \<and> j = l \<or> i = l \<and> j = k then f x else x)"

locale sym_store =
  fixes get :: "'m \<Rightarrow> nat \<Rightarrow> nat \<Rightarrow> 'a option"
    and put :: "'m \<Rightarrow> nat \<Rightarrow> nat \<Rightarrow> 'a \<Rightarrow> 'm option"
    and dim :: "'m \<Rightarrow> nat"
    and wf :: "'m \<Rightarrow> bool"
  assumes get_sym: "get m i j = get m j i"
    and get_total: "wf m \<Longrightarrow> i < dim m \<Longrightarrow> j < dim m \<Longrightarrow> \<exists>x. get m i j = Some x"
    and put_total: "wf m \<Longrightarrow> i < dim m \<Longrightarrow> j < dim m \<Longrightarrow>
      \<exists>m'. put m i j x = Some m' \<and> wf m' \<and> dim m' = dim m"
    and get_put: "wf m \<Longrightarrow> i < dim m \<Longrightarrow> j < dim m \<Longrightarrow> k < dim m \<Longrightarrow> l < dim m \<Longrightarrow>
      put m i j x = Some m' \<Longrightarrow>
      get m' k l = (if i = k \<and> j = l \<or> i = l \<and> j = k then Some x else get m k l)"
begin

lemma modify_total:
  assumes "wf m" and "i < dim m" and "j < dim m"
  shows "\<exists>m'. store_modify get put i j f m = Some m' \<and> wf m' \<and> dim m' = dim m
    \<and> (\<forall>k < dim m. \<forall>l < dim m. get m' k l = map_option (on_pair k l (i, j, f)) (get m k l))"
proof -
  obtain x where x: "get m i j = Some x" using get_total assms by blast
  obtain m' where m': "put m i j (f x) = Some m'" "wf m'" "dim m' = dim m"
    using put_total assms by blast
  have "get m' k l = map_option (on_pair k l (i, j, f)) (get m k l)"
    if kl: "k < dim m" "l < dim m" for k l
  proof -
    obtain y where y: "get m k l = Some y" using get_total assms(1) kl by blast
    show ?thesis
      using get_put [OF assms kl m'(1)] x y get_sym [of m i j] by auto
  qed
  with x m' show ?thesis by (auto simp: store_modify_def)
qed

text \<open>A loop of read-modify-writes inside the matrix never panics, and leaves in each cell what
  the writes to that cell, in order, make of it.\<close>

lemma fold_modify:
  assumes "wf m" and "\<forall>(i, j, f) \<in> set ops. i < dim m \<and> j < dim m"
  shows "\<exists>m'. fold_opt (\<lambda>(i, j, f). store_modify get put i j f) ops m = Some m'
    \<and> wf m' \<and> dim m' = dim m
    \<and> (\<forall>k < dim m. \<forall>l < dim m. get m' k l = map_option (fold (on_pair k l) ops) (get m k l))"
  using assms
proof (induction ops arbitrary: m)
  case Nil
  then show ?case by (simp add: option.map_ident)
next
  case (Cons op ops)
  obtain i j f where op: "op = (i, j, f)" by (cases op) auto
  with Cons.prems have "i < dim m" "j < dim m" by auto
  with Cons.prems(1) obtain m1 where m1: "store_modify get put i j f m = Some m1" "wf m1"
    "dim m1 = dim m"
    and g1: "\<forall>k < dim m. \<forall>l < dim m. get m1 k l = map_option (on_pair k l op) (get m k l)"
    using modify_total [of m i j f] op by auto
  have rng: "\<forall>(i, j, f) \<in> set ops. i < dim m1 \<and> j < dim m1"
    using Cons.prems(2) m1(3) by auto
  from Cons.IH [OF m1(2) rng] obtain m2 where
    m2: "fold_opt (\<lambda>(i, j, f). store_modify get put i j f) ops m1 = Some m2" "wf m2"
    "dim m2 = dim m1"
    and g2: "\<forall>k < dim m1. \<forall>l < dim m1.
      get m2 k l = map_option (fold (on_pair k l) ops) (get m1 k l)"
    by auto
  with m1 g1 op show ?case
    by (auto simp: option.map_comp comp_def)
qed

end

section \<open>The symmetric matrix provides the interface\<close>

definition sm_wf :: "'a sym_matrix \<Rightarrow> bool" where
  "sm_wf m \<longleftrightarrow> sm_n m < 2 ^ 26 \<and> length (sm_data m) = row_start (sm_n m) (sm_n m)"

interpretation sm: sym_store sm_get sm_set sm_size sm_wf
proof unfold_locales
  fix m :: "'a sym_matrix" and i j k l :: nat and x :: 'a and m' :: "'a sym_matrix"
  show "sm_get m i j = sm_get m j i"
    by (simp add: sm_get_def out_to_in_index_sym [of i])
  assume wf: "sm_wf m" and ij: "i < sm_size m" "j < sm_size m"
  have lt: "out_to_in_index i j (sm_n m) < length (sm_data m)"
    using wf ij out_to_in_index_lt by (simp add: sm_wf_def sm_size_def)
  then show "\<exists>x. sm_get m i j = Some x" by (simp add: sm_get_def)
  from lt wf show "\<exists>m'. sm_set m i j x = Some m' \<and> sm_wf m' \<and> sm_size m' = sm_size m"
    by (simp add: sm_set_def sm_wf_def sm_size_def)
  assume kl: "k < sm_size m" "l < sm_size m" and put: "sm_set m i j x = Some m'"
  have "out_to_in_index k l (sm_n m) < length (sm_data m)"
    using wf kl out_to_in_index_lt by (simp add: sm_wf_def sm_size_def)
  with lt put show
    "sm_get m' k l = (if i = k \<and> j = l \<or> i = l \<and> j = k then Some x else sm_get m k l)"
    using wf ij kl out_to_in_index_inj [of i "sm_n m" j k l]
    by (auto simp: sm_get_def sm_set_def sm_wf_def sm_size_def nth_list_update)
qed

section \<open>Construction, growth and removal\<close>

lemma sm_new_fn_Some:
  assumes "n < 2 ^ 26" and "sm_new_fn n f = Some m"
  shows "sm_wf m" and "sm_n m = n"
    and "\<And>i j. i < n \<Longrightarrow> j < n \<Longrightarrow> sm_get m i j = f (min i j) (max i j)"
proof -
  let ?g = "\<lambda>i. case in_to_out_index i n of None \<Rightarrow> None | Some (row, col) \<Rightarrow> f row col"
  obtain d where d: "map_opt ?g [0..<row_start n n] = Some d" and m: "m = \<lparr>sm_n = n, sm_data = d\<rparr>"
    using assms by (auto simp: sm_new_fn_def sm_size_vec_eq split: option.splits)
  have len: "length d = row_start n n" using map_opt_length [OF d] by simp
  with assms(1) m show "sm_wf m" "sm_n m = n" by (simp_all add: sm_wf_def)
  fix i j assume ij: "i < n" "j < n"
  let ?k = "out_to_in_index i j n"
  have k: "?k < row_start n n" using ij assms(1) by (rule out_to_in_index_lt)
  then have "?g ?k = Some (d ! ?k)"
    using d by (auto simp: map_opt_Some_iff list_all2_conv_all_nth)
  with ij k len assms(1) m show "sm_get m i j = f (min i j) (max i j)"
    by (simp add: sm_get_def in_out_index)
qed

lemma sm_new_fn_total:
  assumes "n < 2 ^ 26" and "\<And>row col. row \<le> col \<Longrightarrow> col < n \<Longrightarrow> \<exists>x. f row col = Some x"
  shows "\<exists>m. sm_new_fn n f = Some m"
proof -
  let ?g = "\<lambda>i. case in_to_out_index i n of None \<Rightarrow> None | Some (row, col) \<Rightarrow> f row col"
  have "?g i = Some (the (?g i))" if "i \<in> set [0..<row_start n n]" for i
    using out_in_index [of i n] assms that by fastforce
  then have "map_opt ?g [0..<row_start n n] = Some (map (\<lambda>i. the (?g i)) [0..<row_start n n])"
    by (rule map_opt_total)
  then show ?thesis using assms(1) by (simp add: sm_new_fn_def sm_size_vec_eq)
qed

lemma sm_grow_fn_Some:
  assumes "sm_n m + added < 2 ^ 26" and "sm_grow_fn m added f = Some m'"
  shows "sm_wf m'" and "sm_n m' = sm_n m + added"
    and "\<And>i j. i < sm_n m + added \<Longrightarrow> j < sm_n m + added \<Longrightarrow>
      sm_get m' i j = (if i < sm_n m \<and> j < sm_n m then sm_get m i j else f (min i j) (max i j))"
  using sm_new_fn_Some [OF assms(1) assms(2) [unfolded sm_grow_fn_def]] sm.get_sym [of m]
  by (auto simp: min_def max_def)

lemma sm_grow_fn_total:
  assumes "sm_wf m" and "sm_n m + added < 2 ^ 26"
    and "\<And>row col. row \<le> col \<Longrightarrow> col < sm_n m + added \<Longrightarrow> sm_n m \<le> col \<Longrightarrow> \<exists>x. f row col = Some x"
  shows "\<exists>m'. sm_grow_fn m added f = Some m'"
  unfolding sm_grow_fn_def
  using assms sm.get_total [of m] by (intro sm_new_fn_total) (auto simp: sm_size_def)

definition skip_id :: "nat \<Rightarrow> nat \<Rightarrow> nat" where
  "skip_id ident i = (if ident \<le> i then i + 1 else i)"

lemma sm_remove_id_Some:
  assumes "sm_wf m" and "0 < sm_n m" and "sm_remove_id m ident = Some m'"
  shows "sm_wf m'" and "sm_n m' = sm_n m - 1"
    and "\<And>i j. i < sm_n m - 1 \<Longrightarrow> j < sm_n m - 1 \<Longrightarrow>
      sm_get m' i j = sm_get m (skip_id ident i) (skip_id ident j)"
proof -
  have n: "sm_n m - 1 < 2 ^ 26" using assms(1) unfolding sm_wf_def by linarith
  have new: "sm_new_fn (sm_n m - 1)
      (\<lambda>row col. sm_get m (skip_id ident row) (skip_id ident col)) = Some m'"
    using assms by (simp add: sm_remove_id_def skip_id_def Let_def cong: if_cong)
  show "sm_wf m'" "sm_n m' = sm_n m - 1" using sm_new_fn_Some [OF n new] by auto
  fix i j assume ij: "i < sm_n m - 1" "j < sm_n m - 1"
  show "sm_get m' i j = sm_get m (skip_id ident i) (skip_id ident j)"
    using sm_new_fn_Some(3) [OF n new ij] sm.get_sym [of m]
    by (auto simp: min_def max_def)
qed

lemma sm_remove_id_total:
  assumes "sm_wf m" and "0 < sm_n m"
  shows "\<exists>m'. sm_remove_id m ident = Some m'"
proof -
  have "\<exists>m'. sm_new_fn (sm_n m - 1)
      (\<lambda>row col. sm_get m (skip_id ident row) (skip_id ident col)) = Some m'"
    using assms sm.get_total [of m]
    by (intro sm_new_fn_total) (auto simp: sm_wf_def sm_size_def skip_id_def)
  with assms show ?thesis by (simp add: sm_remove_id_def skip_id_def Let_def cong: if_cong)
qed

end
