(* ===== verification/Hash_Collections.thy ===== *)
theory Hash_Collections
  imports Prelude
begin

text \<open>
  Rust's \<^verbatim>\<open>HashMap\<close> and \<^verbatim>\<open>HashSet\<close> as the code uses them: keyed by the type's own
  \<^verbatim>\<open>Eq\<close>, which is passed as an argument. A collection is the list of its entries in
  iteration order. The order of a real hash collection is arbitrary; a theorem about every
  list is a theorem about every order. The locale \<^verbatim>\<open>rust_eq\<close> is the contract of
  \<^verbatim>\<open>Eq\<close> (an equivalence); the laws of the collections are proved in it.
\<close>

section \<open>Maps\<close>

type_synonym ('k, 'v) hmap = "('k \<times> 'v) list"
type_synonym 'k eq_impl = "'k \<Rightarrow> 'k \<Rightarrow> bool"

fun hm_get :: "'k eq_impl \<Rightarrow> ('k, 'v) hmap \<Rightarrow> 'k \<Rightarrow> 'v option" where
  "hm_get eq [] k = None"
| "hm_get eq ((k', v) # m) k = (if eq k' k then Some v else hm_get eq m k)"

text \<open>\<^verbatim>\<open>insert\<close> keeps the key already there and replaces its value.\<close>

fun hm_insert :: "'k eq_impl \<Rightarrow> 'k \<Rightarrow> 'v \<Rightarrow> ('k, 'v) hmap \<Rightarrow> ('k, 'v) hmap" where
  "hm_insert eq k v [] = [(k, v)]"
| "hm_insert eq k v ((k', v') # m) =
     (if eq k' k then (k', v) # m else (k', v') # hm_insert eq k v m)"

fun hm_remove :: "'k eq_impl \<Rightarrow> 'k \<Rightarrow> ('k, 'v) hmap \<Rightarrow> ('k, 'v) hmap" where
  "hm_remove eq k [] = []"
| "hm_remove eq k ((k', v') # m) = (if eq k' k then m else (k', v') # hm_remove eq k m)"

text \<open>\<^verbatim>\<open>if let Some(x) = m.get_mut(k)\<close> followed by an update of the value.\<close>

fun hm_update :: "'k eq_impl \<Rightarrow> 'k \<Rightarrow> ('v \<Rightarrow> 'v) \<Rightarrow> ('k, 'v) hmap \<Rightarrow> ('k, 'v) hmap" where
  "hm_update eq k f [] = []"
| "hm_update eq k f ((k', v') # m) =
     (if eq k' k then (k', f v') # m else (k', v') # hm_update eq k f m)"

definition hm_keys :: "('k, 'v) hmap \<Rightarrow> 'k list" where
  "hm_keys m = map fst m"

section \<open>Sets\<close>

definition hs_contains :: "'k eq_impl \<Rightarrow> 'k list \<Rightarrow> 'k \<Rightarrow> bool" where
  "hs_contains eq s x = list_ex (\<lambda>y. eq y x) s"

definition hs_get :: "'k eq_impl \<Rightarrow> 'k list \<Rightarrow> 'k \<Rightarrow> 'k option" where
  "hs_get eq s x = find (\<lambda>y. eq y x) s"

text \<open>\<^verbatim>\<open>insert\<close> leaves the set as it is when an equal element is there.\<close>

definition hs_insert :: "'k eq_impl \<Rightarrow> 'k \<Rightarrow> 'k list \<Rightarrow> 'k list" where
  "hs_insert eq x s = (if hs_contains eq s x then s else s @ [x])"

fun hs_replace :: "'k eq_impl \<Rightarrow> 'k \<Rightarrow> 'k list \<Rightarrow> 'k list" where
  "hs_replace eq x [] = [x]"
| "hs_replace eq x (y # s) = (if eq y x then x # s else y # hs_replace eq x s)"

fun hs_remove :: "'k eq_impl \<Rightarrow> 'k \<Rightarrow> 'k list \<Rightarrow> 'k list" where
  "hs_remove eq x [] = []"
| "hs_remove eq x (y # s) = (if eq y x then s else y # hs_remove eq x s)"

definition hs_difference :: "'k eq_impl \<Rightarrow> 'k list \<Rightarrow> 'k list \<Rightarrow> 'k list" where
  "hs_difference eq s t = filter (\<lambda>x. \<not> hs_contains eq t x) s"

definition hs_intersection :: "'k eq_impl \<Rightarrow> 'k list \<Rightarrow> 'k list \<Rightarrow> 'k list" where
  "hs_intersection eq s t = filter (hs_contains eq t) s"

definition hs_collect :: "'k eq_impl \<Rightarrow> 'k list \<Rightarrow> 'k list" where
  "hs_collect eq xs = fold (hs_insert eq) xs []"

fun hs_distinct :: "'k eq_impl \<Rightarrow> 'k list \<Rightarrow> bool" where
  "hs_distinct eq [] = True"
| "hs_distinct eq (x # s) = (\<not> hs_contains eq s x \<and> hs_distinct eq s)"

definition hm_distinct :: "'k eq_impl \<Rightarrow> ('k, 'v) hmap \<Rightarrow> bool" where
  "hm_distinct eq m = hs_distinct eq (hm_keys m)"

section \<open>The contract of Eq and the laws of the collections\<close>

lemma hm_get_in: "hm_get eq m k = Some v \<Longrightarrow> \<exists>k'. (k', v) \<in> set m \<and> eq k' k"
  by (induction m) (auto split: if_splits)

lemma hs_contains_iff: "hs_contains eq s x \<longleftrightarrow> (\<exists>y \<in> set s. eq y x)"
  by (simp add: hs_contains_def list_ex_iff)

lemma hs_get_Some: "hs_get eq s x = Some y \<Longrightarrow> y \<in> set s \<and> eq y x"
  by (auto simp: hs_get_def find_Some_iff)

lemma hs_get_None: "hs_get eq s x = None \<longleftrightarrow> \<not> hs_contains eq s x"
  by (auto simp: hs_get_def hs_contains_iff find_None_iff)

lemma set_hs_insert: "set (hs_insert eq x s) \<subseteq> insert x (set s)"
  by (auto simp: hs_insert_def)

lemma set_hs_replace: "set (hs_replace eq x s) \<subseteq> insert x (set s)"
  by (induction s) auto

lemma set_hs_remove: "set (hs_remove eq x s) \<subseteq> set s"
  by (induction s) auto

lemma in_hs_replace: "x \<in> set (hs_replace eq x s)"
  by (induction s) auto

lemma hs_contains_simps:
  "hs_contains eq [] x \<longleftrightarrow> False"
  "hs_contains eq (y # s) x \<longleftrightarrow> eq y x \<or> hs_contains eq s x"
  "hs_contains eq (s @ t) x \<longleftrightarrow> hs_contains eq s x \<or> hs_contains eq t x"
  by (auto simp: hs_contains_def)

lemma hs_distinct_append2:
  "hs_distinct eq (s @ t) \<longleftrightarrow>
     hs_distinct eq s \<and> hs_distinct eq t \<and> (\<forall>x \<in> set s. \<not> hs_contains eq t x)"
  by (induction s) (auto simp: hs_contains_simps)

lemma hs_insert_new: "\<not> hs_contains eq s x \<Longrightarrow> hs_insert eq x s = s @ [x]"
  by (simp add: hs_insert_def)

locale rust_eq =
  fixes eq :: "'k eq_impl"
  assumes trans: "eq x y \<Longrightarrow> eq y z \<Longrightarrow> eq x z"
    and sym: "eq x y \<Longrightarrow> eq y x"
    and refl: "eq x x"
begin

lemma eq_left: "eq x y \<Longrightarrow> eq x z \<longleftrightarrow> eq y z"
  using sym trans by blast

lemma eq_right: "eq x y \<Longrightarrow> eq z x \<longleftrightarrow> eq z y"
  using sym trans by blast

lemma hm_get_cong: "eq k k' \<Longrightarrow> hm_get eq m k = hm_get eq m k'"
proof (induction m)
  case (Cons p m)
  then show ?case using eq_right [of k k' "fst p"] by (cases p) simp
qed simp

lemma hm_get_insert:
  "hm_get eq (hm_insert eq k v m) k' = (if eq k k' then Some v else hm_get eq m k')"
proof (induction m)
  case (Cons p m)
  then show ?case
    using eq_left [of "fst p" k k'] eq_right [of k k' "fst p"] by (cases p) auto
qed simp

lemma hm_get_update:
  "hm_get eq (hm_update eq k f m) k' = (if eq k k' then map_option f (hm_get eq m k') else hm_get eq m k')"
proof (induction m)
  case (Cons p m)
  then show ?case
    using eq_left [of "fst p" k k'] eq_right [of k k' "fst p"] by (cases p) auto
qed simp

lemma hm_keys_insert: "hm_keys (hm_insert eq k v m) = hs_insert eq k (hm_keys m)"
  by (induction m) (auto simp: hm_keys_def hs_insert_def hs_contains_def)

lemma hm_keys_remove: "hm_keys (hm_remove eq k m) = hs_remove eq k (hm_keys m)"
  by (induction m) (auto simp: hm_keys_def)

lemma hm_keys_update: "hm_keys (hm_update eq k f m) = hm_keys m"
  by (induction m) (auto simp: hm_keys_def)

lemma hm_get_none: "\<not> hs_contains eq (hm_keys m) k \<Longrightarrow> hm_get eq m k = None"
  by (induction m) (auto simp: hm_keys_def hs_contains_def)

lemma hs_contains_cong: "eq x y \<Longrightarrow> hs_contains eq s x = hs_contains eq s y"
  using eq_right by (auto simp: hs_contains_iff)

lemma hm_get_remove:
  "hm_distinct eq m \<Longrightarrow>
   hm_get eq (hm_remove eq k m) k' = (if eq k k' then None else hm_get eq m k')"
proof (induction m)
  case (Cons p m)
  obtain a b where p: "p = (a, b)" by (cases p)
  have none: "hm_get eq m k' = None" if "eq a k" "eq k k'"
    using Cons.prems p hs_contains_cong [OF trans [OF that]]
    by (intro hm_get_none) (simp add: hm_distinct_def hm_keys_def)
  show ?case
    using Cons p none eq_left [of a k k'] eq_right [of k k' a]
    by (auto simp: hm_distinct_def hm_keys_def)
qed (simp add: hm_distinct_def)

lemma hs_contains_insert: "hs_contains eq (hs_insert eq x s) y \<longleftrightarrow> eq x y \<or> hs_contains eq s y"
proof -
  have "eq x y \<Longrightarrow> hs_contains eq s x = hs_contains eq s y" by (rule hs_contains_cong)
  then show ?thesis by (cases "hs_contains eq s x") (auto simp: hs_insert_def hs_contains_def)
qed

lemma hs_contains_replace: "hs_contains eq (hs_replace eq x s) y \<longleftrightarrow> eq x y \<or> hs_contains eq s y"
proof (induction s)
  case (Cons z s)
  then show ?case using eq_left [of z x y] by (auto simp: hs_contains_def)
qed (simp add: hs_contains_def)

lemma hs_distinct_append:
  "hs_distinct eq (s @ [x]) \<longleftrightarrow> hs_distinct eq s \<and> \<not> hs_contains eq s x"
proof (induction s)
  case (Cons y s)
  then show ?case using sym by (auto simp: hs_contains_def)
qed (simp add: hs_contains_def)

lemma hs_distinct_insert: "hs_distinct eq s \<Longrightarrow> hs_distinct eq (hs_insert eq x s)"
  by (simp add: hs_insert_def hs_distinct_append)

lemma hs_distinct_replace: "hs_distinct eq s \<Longrightarrow> hs_distinct eq (hs_replace eq x s)"
proof (induction s)
  case (Cons y s)
  then show ?case
    using eq_right [of y x] by (auto simp: hs_contains_replace) (auto simp: hs_contains_iff dest: sym)
qed (simp add: hs_contains_def)

lemma hs_distinct_filter: "hs_distinct eq s \<Longrightarrow> hs_distinct eq (filter P s)"
  by (induction s) (auto simp: hs_contains_iff)

lemma hs_distinct_remove: "hs_distinct eq s \<Longrightarrow> hs_distinct eq (hs_remove eq x s)"
proof (induction s)
  case (Cons y s)
  then show ?case using set_hs_remove [of eq x s] by (auto simp: hs_contains_iff)
qed simp

lemma hs_contains_remove:
  "hs_distinct eq s \<Longrightarrow> hs_contains eq (hs_remove eq x s) y \<longleftrightarrow> hs_contains eq s y \<and> \<not> eq x y"
proof (induction s)
  case (Cons z s)
  have "\<not> hs_contains eq s y" if "eq z x" "eq x y"
    using Cons.prems hs_contains_cong [OF trans [OF that]] by simp
  then show ?case
    using Cons eq_left [of z x y] eq_right [of x y z] by (auto simp: hs_contains_def)
qed (simp add: hs_contains_def)

lemma hm_distinct_insert: "hm_distinct eq m \<Longrightarrow> hm_distinct eq (hm_insert eq k v m)"
  by (simp add: hm_distinct_def hm_keys_insert hs_distinct_insert)

lemma hm_distinct_remove: "hm_distinct eq m \<Longrightarrow> hm_distinct eq (hm_remove eq k m)"
  by (simp add: hm_distinct_def hm_keys_remove hs_distinct_remove)

lemma hm_distinct_update: "hm_distinct eq m \<Longrightarrow> hm_distinct eq (hm_update eq k f m)"
  by (simp add: hm_distinct_def hm_keys_update)

lemma hs_distinct_unique:
  "hs_distinct eq s \<Longrightarrow> x \<in> set s \<Longrightarrow> y \<in> set s \<Longrightarrow> eq x y \<Longrightarrow> x = y"
  by (induction s) (auto simp: hs_contains_iff dest: sym)

lemma hm_get_member: "hm_distinct eq m \<Longrightarrow> (k, v) \<in> set m \<Longrightarrow> hm_get eq m k = Some v"
proof (induction m)
  case (Cons p m)
  obtain a b where p: "p = (a, b)" by (cases p)
  have "\<not> eq a k" if "(k, v) \<in> set m"
  proof
    assume "eq a k"
    then have "eq (fst (k, v)) a" by (simp add: sym)
    with that Cons.prems(1) show False
      by (auto simp: p hm_distinct_def hm_keys_def hs_contains_iff)
  qed
  then show ?case using Cons by (auto simp: p hm_distinct_def hm_keys_def refl)
qed simp

lemma hs_distinct_nth:
  "hs_distinct eq s \<Longrightarrow> i < length s \<Longrightarrow> j < length s \<Longrightarrow> i \<noteq> j \<Longrightarrow> \<not> eq (s ! i) (s ! j)"
proof (induction s arbitrary: i j)
  case (Cons y s)
  then show ?case
    by (cases i; cases j) (auto simp: hs_contains_iff dest: sym)
qed simp

lemma hs_get_member: "hs_distinct eq s \<Longrightarrow> y \<in> set s \<Longrightarrow> eq y x \<Longrightarrow> hs_get eq s x = Some y"
proof (induction s)
  case (Cons z s)
  then show ?case
    by (auto simp: hs_get_def hs_contains_iff dest: sym trans)
qed simp

lemma hs_distinct_collect: "hs_distinct eq (hs_collect eq xs)"
  unfolding hs_collect_def by (rule fold_invar [where I = "hs_distinct eq"]) (auto intro: hs_distinct_insert)

lemma hs_contains_fold_insert:
  "hs_contains eq (fold (hs_insert eq) xs s) y \<longleftrightarrow> hs_contains eq s y \<or> hs_contains eq xs y"
  by (induction xs arbitrary: s) (simp_all add: hs_contains_insert hs_contains_simps disj_ac)

lemma hs_contains_collect: "hs_contains eq (hs_collect eq xs) y \<longleftrightarrow> hs_contains eq xs y"
  by (simp add: hs_collect_def hs_contains_fold_insert hs_contains_simps)

lemma fold_insert_new: "hs_distinct eq (s @ xs) \<Longrightarrow> fold (hs_insert eq) xs s = s @ xs"
proof (induction xs arbitrary: s)
  case (Cons x xs)
  have s: "hs_distinct eq ((s @ [x]) @ xs)" using Cons.prems by simp
  then have "hs_distinct eq (s @ [x])" unfolding hs_distinct_append2 by blast
  then have "\<not> hs_contains eq s x" by (simp add: hs_distinct_append)
  then show ?case using Cons.IH [OF s] by (simp add: hs_insert_new)
qed simp

lemma hs_collect_distinct: "hs_distinct eq xs \<Longrightarrow> hs_collect eq xs = xs"
  using fold_insert_new [of "[]" xs] by (simp add: hs_collect_def)

lemma hs_difference_filter:
  assumes "hs_distinct eq xs"
  shows "hs_difference eq xs (filter P xs) = filter (\<lambda>x. \<not> P x) xs"
  unfolding hs_difference_def
proof (rule filter_cong [OF HOL.refl])
  fix x assume x: "x \<in> set xs"
  have "y = x" if "y \<in> set xs" "eq y x" for y using hs_distinct_unique [OF assms that(1) x that(2)] .
  then show "(\<not> hs_contains eq (filter P xs) x) = (\<not> P x)"
    using x refl [of x] unfolding hs_contains_iff by auto
qed

lemma hs_distinct_partition:
  assumes "hs_distinct eq (s @ xs)"
  shows "hs_distinct eq (s @ filter P xs @ filter (\<lambda>x. \<not> P x) xs)"
proof -
  have d: "hs_distinct eq xs" using assms by (simp add: hs_distinct_append2)
  have "\<not> hs_contains eq (filter (\<lambda>x. \<not> P x) xs) x" if "x \<in> set (filter P xs)" for x
  proof
    assume "hs_contains eq (filter (\<lambda>x. \<not> P x) xs) x"
    then obtain y where y: "y \<in> set xs" "\<not> P y" "eq y x" by (auto simp: hs_contains_iff)
    then have "y = x" using hs_distinct_unique [OF d y(1) _ y(3)] that by simp
    with y(2) that show False by simp
  qed
  then show ?thesis
    using assms hs_distinct_filter [OF d]
    by (auto simp: hs_distinct_append2 hs_contains_iff)
qed

lemma hs_get_cong: "eq x y \<Longrightarrow> hs_get eq s x = hs_get eq s y"
  using eq_right unfolding hs_get_def by (induction s) auto

lemma hs_get_append:
  "hs_get eq (s @ t) x = (case hs_get eq s x of None \<Rightarrow> hs_get eq t x | Some y \<Rightarrow> Some y)"
  by (induction s) (auto simp: hs_get_def)

lemma hs_get_filter:
  assumes "\<And>x y. eq x y \<Longrightarrow> P x = P y"
  shows "hs_get eq (filter P s) x = (if P x then hs_get eq s x else None)"
proof (induction s)
  case (Cons y s)
  then show ?case using assms [of y x] by (auto simp: hs_get_def)
qed (simp add: hs_get_def)

lemma hs_get_map:
  assumes "\<And>k. k \<in> set ks \<Longrightarrow> eq (h k) k"
  shows "hs_get eq (map h ks) x = map_option h (hs_get eq ks x)"
  using assms
proof (induction ks)
  case (Cons k ks)
  have "eq (h k) x \<longleftrightarrow> eq k x" using eq_left [of "h k" k x] Cons.prems by simp
  then show ?case using Cons by (simp add: hs_get_def)
qed (simp add: hs_get_def)

lemma hs_contains_map:
  assumes "\<And>k. k \<in> set ks \<Longrightarrow> eq (h k) k"
  shows "hs_contains eq (map h ks) x = hs_contains eq ks x"
  using hs_get_map [OF assms, of ks x] hs_get_None [of eq ks x] hs_get_None [of eq "map h ks" x] by auto

lemma hs_distinct_map:
  "hs_distinct eq ks \<Longrightarrow> (\<And>k. k \<in> set ks \<Longrightarrow> eq (h k) k) \<Longrightarrow> hs_distinct eq (map h ks)"
proof (induction ks)
  case (Cons k ks)
  have "hs_contains eq (map h ks) (h k) = hs_contains eq ks (h k)"
    by (rule hs_contains_map) (use Cons.prems in auto)
  also have "\<dots> = hs_contains eq ks k" using Cons.prems by (intro hs_contains_cong) simp
  finally show ?case using Cons by simp
qed simp

lemma hs_contains_get: "hs_contains eq s x \<longleftrightarrow> (\<exists>y. hs_get eq s x = Some y)"
  using hs_get_None [of eq s x] by auto

lemma hs_get_self: "hs_distinct eq s \<Longrightarrow> x \<in> set s \<Longrightarrow> hs_get eq s x = Some x"
  by (rule hs_get_member) (simp_all add: refl)

lemma hs_get_remove:
  "hs_distinct eq s \<Longrightarrow> hs_get eq (hs_remove eq x s) y = (if eq x y then None else hs_get eq s y)"
proof (induction s)
  case (Cons z s)
  have none: "hs_get eq s y = None" if "eq z x" "eq x y"
    using Cons.prems hs_contains_cong [OF trans [OF that]] by (simp add: hs_get_None)
  show ?case
    using Cons none eq_left [of z x y] eq_right [of x y z] by (auto simp: hs_get_def)
qed (simp add: hs_get_def)

lemma hs_get_replace:
  "hs_get eq (hs_replace eq x s) y = (if eq x y then Some x else hs_get eq s y)"
proof (induction s)
  case (Cons z s)
  then show ?case using eq_left [of z x y] eq_right [of x y z] by (auto simp: hs_get_def)
qed (simp add: hs_get_def)

lemma hs_get_fold_replace:
  "hs_distinct eq xs \<Longrightarrow> hs_get eq (fold (hs_replace eq) xs s) y
     = (case hs_get eq xs y of None \<Rightarrow> hs_get eq s y | Some x \<Rightarrow> Some x)"
proof (induction xs arbitrary: s)
  case (Cons x xs)
  have "hs_get eq xs y = None" if "eq x y"
    using Cons.prems hs_contains_cong [OF that] by (simp add: hs_get_None)
  moreover have "hs_get eq (x # xs) y = (if eq x y then Some x else hs_get eq xs y)"
    by (simp add: hs_get_def)
  ultimately show ?case
    using Cons.IH [of "hs_replace eq x s"] Cons.prems
    by (cases "eq x y") (auto simp: hs_get_replace split: option.splits)
qed (simp add: hs_get_def)

lemma hs_distinct_pairs:
  "hs_distinct eq s \<longleftrightarrow> (\<forall>x \<in># mset s. \<forall>y \<in># mset s - {#x#}. \<not> eq x y)"
proof (induction s)
  case (Cons z s)
  have "(\<forall>x \<in># mset (z # s). \<forall>y \<in># mset (z # s) - {#x#}. \<not> eq x y)
    \<longleftrightarrow> (\<forall>y \<in># mset s. \<not> eq z y) \<and> (\<forall>x \<in># mset s. \<not> eq x z \<and> (\<forall>y \<in># mset s - {#x#}. \<not> eq x y))"
    by (auto simp: add_mset_remove_trivial_If diff_union_single_conv insert_DiffM2)
  also have "\<dots> \<longleftrightarrow> hs_distinct eq (z # s)"
    using Cons sym by (auto simp: hs_contains_iff)
  finally show ?case by simp
qed simp

lemma hs_distinct_mset: "mset s = mset t \<Longrightarrow> hs_distinct eq s = hs_distinct eq t"
  unfolding hs_distinct_pairs by simp

lemma hs_distinct_fold_replace: "hs_distinct eq s \<Longrightarrow> hs_distinct eq (fold (hs_replace eq) xs s)"
  by (rule fold_invar [where I = "hs_distinct eq"]) (simp_all add: hs_distinct_replace)

end

text \<open>Types that derive \<^verbatim>\<open>Eq\<close> structurally use the equality of HOL.\<close>

interpretation hol_eq: rust_eq "(=)"
  by unfold_locales auto

section \<open>Collections with plain equality\<close>

lemma hs_contains_HOL: "hs_contains (=) s x \<longleftrightarrow> x \<in> set s"
  by (auto simp: hs_contains_iff)

lemma set_hs_insert_HOL: "set (hs_insert (=) x s) = insert x (set s)"
  by (auto simp: hs_insert_def hs_contains_HOL)

lemma hs_distinct_HOL: "hs_distinct (=) s \<longleftrightarrow> distinct s"
  by (induction s) (auto simp: hs_contains_HOL)

lemma distinct_hs_insert_HOL: "distinct s \<Longrightarrow> distinct (hs_insert (=) x s)"
  using hol_eq.hs_distinct_insert[of s x] by (simp add: hs_distinct_HOL)

lemma hs_remove_HOL: "distinct s \<Longrightarrow> hs_remove (=) x s = filter (\<lambda>y. y \<noteq> x) s"
  by (induction s) (auto intro!: filter_True[symmetric])

lemmas plain_sets = hs_contains_HOL set_hs_insert_HOL hs_distinct_HOL distinct_hs_insert_HOL hs_remove_HOL

lemma hm_get_distinct: "distinct (hm_keys m) \<Longrightarrow> (k, v) \<in> set m \<Longrightarrow> hm_get (=) m k = Some v"
  by (induction m) (auto simp: hm_keys_def rev_image_eqI)

lemma hm_remove_filter: "distinct (map fst m) \<Longrightarrow> hm_remove (=) k m = filter (\<lambda>e. fst e \<noteq> k) m"
proof (induction m)
  case (Cons p m)
  obtain a b where p: "p = (a, b)" by (cases p)
  have "filter (\<lambda>e. fst e \<noteq> k) m = m" if "a = k"
    using Cons.prems that by (auto simp: p intro!: filter_True)
  then show ?case using Cons by (auto simp: p)
qed simp

lemma set_hm_insert_HOL: "set (hm_insert (=) k v m) \<subseteq> insert (k, v) (set m)"
  by (induction m) (auto split: if_splits)

lemma hm_get_None_HOL: "hm_get (=) m k = None \<longleftrightarrow> k \<notin> set (hm_keys m)"
  by (induction m) (auto simp: hm_keys_def split: if_splits)

end
