(* ===== verification/Netgraph.thy ===== *)
theory Netgraph
  imports SymMatrix Hash_Collections
begin

text \<open>
  The crate \<^verbatim>\<open>netgraph\<close> (\<^verbatim>\<open>netgraph/src/lib.rs\<close>): links, networks and the
  queries on them. A vertex type is a type variable with its \<^verbatim>\<open>Eq\<close> passed as
  \<^verbatim>\<open>veq\<close> (the trait bound of \<^verbatim>\<open>Vertex\<close>). The two path searches and the walks
  along the parents vector are written as the code has them; their correctness is in the
  theory \<^verbatim>\<open>Netpaths\<close>.
\<close>

section \<open>Links\<close>

datatype duplex = HalfDuplex | FullDuplex

record 'v link =
  lk_internal_source :: nat
  lk_internal_destination :: nat
  lk_source :: 'v
  lk_destination :: 'v
  lk_bandwidth :: u32
  lk_drop :: fval
  lk_latency_jitter :: "fval \<times> fval"
  lk_duplex :: duplex

definition link_build :: "'v \<Rightarrow> 'v \<Rightarrow> nat \<Rightarrow> nat \<Rightarrow> u32 \<Rightarrow> 'v link" where
  "link_build source destination internal_source internal_destination bandwidth =
     \<lparr>lk_internal_source = internal_source, lk_internal_destination = internal_destination,
      lk_source = source, lk_destination = destination, lk_bandwidth = bandwidth,
      lk_drop = Fin 0, lk_latency_jitter = (Fin 0, Fin 0), lk_duplex = FullDuplex\<rparr>"

definition link_build_all ::
  "'v \<Rightarrow> 'v \<Rightarrow> nat \<Rightarrow> nat \<Rightarrow> u32 \<Rightarrow> fval \<times> fval \<Rightarrow> fval \<Rightarrow> 'v link" where
  "link_build_all source destination internal_source internal_destination bandwidth
       latency_jitter drop_ratio =
     \<lparr>lk_internal_source = internal_source, lk_internal_destination = internal_destination,
      lk_source = source, lk_destination = destination, lk_bandwidth = bandwidth,
      lk_drop = drop_ratio, lk_latency_jitter = latency_jitter, lk_duplex = FullDuplex\<rparr>"

definition link_set_duplex :: "'v link \<Rightarrow> duplex \<Rightarrow> 'v link" where
  "link_set_duplex lk d = lk\<lparr>lk_duplex := d\<rparr>"

definition link_bandwidth :: "'v link \<Rightarrow> u32" where
  "link_bandwidth lk =
     (case lk_duplex lk of FullDuplex \<Rightarrow> lk_bandwidth lk | HalfDuplex \<Rightarrow> lk_bandwidth lk div 2)"

text \<open>Links are equal when they join the same two vertices, in either direction.\<close>

definition link_eq :: "('v \<Rightarrow> 'v \<Rightarrow> bool) \<Rightarrow> 'v link \<Rightarrow> 'v link \<Rightarrow> bool" where
  "link_eq veq a b \<longleftrightarrow>
     veq (lk_source a) (lk_source b) \<and> veq (lk_destination a) (lk_destination b) \<or>
     veq (lk_destination a) (lk_source b) \<and> veq (lk_source a) (lk_destination b)"

text \<open>What \<^verbatim>\<open>Hash\<close> feeds to the hasher: the two internal indices, smaller first.\<close>

definition link_hash_key :: "'v link \<Rightarrow> nat \<times> nat" where
  "link_hash_key lk =
     (let src = lk_internal_source lk; dest = lk_internal_destination lk
      in if dest < src then (dest, src) else (src, dest))"

datatype ordering = Less | Equal | Greater

definition link_cmp :: "'v link \<Rightarrow> 'v link \<Rightarrow> ordering" where
  "link_cmp a b =
     (if link_bandwidth a < link_bandwidth b then Less
      else if link_bandwidth b < link_bandwidth a then Greater else Equal)"

section \<open>Paths and networks\<close>

record 'v path =
  pth_links :: "'v link list"
  pth_links_set :: "'v link list"

definition path_new :: "'v path" where
  "path_new = \<lparr>pth_links = [], pth_links_set = []\<rparr>"

definition path_shared_edges :: "('v \<Rightarrow> 'v \<Rightarrow> bool) \<Rightarrow> 'v path \<Rightarrow> 'v path \<Rightarrow> 'v link list" where
  "path_shared_edges veq p other =
     hs_collect (link_eq veq)
       (hs_intersection (link_eq veq) (pth_links_set p) (pth_links_set other))"

datatype path_strategy = WidestPath | ShortestPath

record 'v network =
  net_links :: "'v link option sym_matrix"
  net_mapper :: "('v, nat) hmap"
  net_strategy :: path_strategy

definition net_size :: "'v network \<Rightarrow> nat" where
  "net_size net = sm_n (net_links net)"

text \<open>\<^verbatim>\<open>Network::new\<close>: no link; every vertex mapped to its position.\<close>

definition network_new ::
  "('v \<Rightarrow> 'v \<Rightarrow> bool) \<Rightarrow> 'v list \<Rightarrow> path_strategy \<Rightarrow> 'v network option" where
  "network_new veq vertices strategy =
     (case sm_new_fn (length vertices) (\<lambda>_ _. Some None) of
        None \<Rightarrow> None
      | Some links \<Rightarrow> Some
          \<lparr>net_links = links,
           net_mapper = fold (\<lambda>i acc. hm_insert veq (vertices ! i) i acc) [0..<length vertices] [],
           net_strategy = strategy\<rparr>)"

text \<open>The mapper is serialized with keys and values exchanged and read back entry by entry.\<close>

definition mapper_serialize :: "('v, nat) hmap \<Rightarrow> (nat \<times> 'v) list" where
  "mapper_serialize m = map (\<lambda>(k, v). (v, k)) m"

definition mapper_visit_map ::
  "('v \<Rightarrow> 'v \<Rightarrow> bool) \<Rightarrow> (nat \<times> 'v) list \<Rightarrow> ('v, nat) hmap" where
  "mapper_visit_map veq entries = fold (\<lambda>(key, value) m. hm_insert veq value key m) entries []"

definition net_map :: "('v \<Rightarrow> 'v \<Rightarrow> bool) \<Rightarrow> 'v network \<Rightarrow> 'v \<Rightarrow> nat option" where
  "net_map veq net vertex = hm_get veq (net_mapper net) vertex"

definition net_map_two ::
  "('v \<Rightarrow> 'v \<Rightarrow> bool) \<Rightarrow> 'v network \<Rightarrow> 'v \<Rightarrow> 'v \<Rightarrow> (nat \<times> nat) option" where
  "net_map_two veq net vertex1 vertex2 =
     (case (net_map veq net vertex1, net_map veq net vertex2) of
        (Some a, Some b) \<Rightarrow> Some (a, b)
      | _ \<Rightarrow> None)"

definition net_vertices :: "'v network \<Rightarrow> 'v list" where
  "net_vertices net = hm_keys (net_mapper net)"

text \<open>\<^verbatim>\<open>edit_vertex\<close>: remove the equal key, insert the new one with the same index.\<close>

definition net_edit_vertex :: "('v \<Rightarrow> 'v \<Rightarrow> bool) \<Rightarrow> 'v network \<Rightarrow> 'v \<Rightarrow> 'v network" where
  "net_edit_vertex veq net new_vertex =
     (case hm_get veq (net_mapper net) new_vertex of
        None \<Rightarrow> net
      | Some v \<Rightarrow> net\<lparr>net_mapper :=
          hm_insert veq new_vertex v (hm_remove veq new_vertex (net_mapper net))\<rparr>)"

definition net_put_link :: "'v network \<Rightarrow> nat \<Rightarrow> nat \<Rightarrow> 'v link option \<Rightarrow> 'v network option" where
  "net_put_link net i j lk =
     (case sm_set (net_links net) i j lk of
        None \<Rightarrow> None
      | Some links \<Rightarrow> Some (net\<lparr>net_links := links\<rparr>))"

definition net_add_edge ::
  "('v \<Rightarrow> 'v \<Rightarrow> bool) \<Rightarrow> 'v network \<Rightarrow> 'v \<Rightarrow> 'v \<Rightarrow> u32 \<Rightarrow> 'v network option" where
  "net_add_edge veq net from to bandwidth =
     (case net_map_two veq net from to of
        None \<Rightarrow> Some net
      | Some (from_inter, to_inter) \<Rightarrow>
          net_put_link net from_inter to_inter
            (Some (link_build from to from_inter to_inter bandwidth)))"

definition net_add_edge_with_props ::
  "('v \<Rightarrow> 'v \<Rightarrow> bool) \<Rightarrow> 'v network \<Rightarrow> 'v \<Rightarrow> 'v \<Rightarrow> u32 \<Rightarrow> fval \<times> fval \<Rightarrow> fval
   \<Rightarrow> 'v network option" where
  "net_add_edge_with_props veq net from to bandwidth latency_jitter drop_ratio =
     (case net_map_two veq net from to of
        None \<Rightarrow> Some net
      | Some (from_inter, to_inter) \<Rightarrow>
          net_put_link net from_inter to_inter
            (Some (link_build_all from to from_inter to_inter bandwidth latency_jitter drop_ratio)))"

definition net_update_bandwidth_inter ::
  "'v network \<Rightarrow> nat \<Rightarrow> nat \<Rightarrow> u32 \<Rightarrow> 'v network option" where
  "net_update_bandwidth_inter net from to bandwidth =
     (case sm_get (net_links net) from to of
        None \<Rightarrow> None
      | Some None \<Rightarrow> Some net
      | Some (Some lk) \<Rightarrow> net_put_link net from to (Some (lk\<lparr>lk_bandwidth := bandwidth\<rparr>)))"

definition net_update_bandwidth ::
  "('v \<Rightarrow> 'v \<Rightarrow> bool) \<Rightarrow> 'v network \<Rightarrow> 'v \<Rightarrow> 'v \<Rightarrow> u32 \<Rightarrow> 'v network option" where
  "net_update_bandwidth veq net from to bandwidth =
     (case net_map_two veq net from to of
        None \<Rightarrow> Some net
      | Some (f, t) \<Rightarrow> net_update_bandwidth_inter net f t bandwidth)"

text \<open>\<^verbatim>\<open>self.links[(i, j)].as_ref().unwrap()\<close>\<close>

definition net_link :: "'v network \<Rightarrow> nat \<Rightarrow> nat \<Rightarrow> 'v link option" where
  "net_link net i j = (case sm_get (net_links net) i j of None \<Rightarrow> None | Some lk \<Rightarrow> lk)"

definition net_neighbours :: "'v network \<Rightarrow> nat \<Rightarrow> nat list option" where
  "net_neighbours net from =
     fold_opt
       (\<lambda>i neighbours. case sm_get (net_links net) from i of
            None \<Rightarrow> None
          | Some lk \<Rightarrow> Some (if lk \<noteq> None \<and> i \<noteq> from then neighbours @ [i] else neighbours))
       [0..<net_size net] []"

section \<open>The priority queue\<close>

text \<open>\<^verbatim>\<open>Pair\<close> and its reversed \<^verbatim>\<open>Ord\<close>, and the standard library's
  \<^verbatim>\<open>BinaryHeap\<close>: \<^verbatim>\<open>pop\<close> takes out a greatest element.\<close>

datatype pair = Pair (pair_node: nat) (pair_val: u32)

text \<open>\<^verbatim>\<open>Ord::cmp\<close> of the numbers and \<^verbatim>\<open>Ordering::then_with\<close> of the standard library.\<close>

definition ord_cmp :: "'a::linorder \<Rightarrow> 'a \<Rightarrow> ordering" where
  "ord_cmp a b = (if a < b then Less else if b < a then Greater else Equal)"

definition then_with :: "ordering \<Rightarrow> ordering \<Rightarrow> ordering" where
  "then_with r s = (if r = Equal then s else r)"

definition pair_cmp :: "pair \<Rightarrow> pair \<Rightarrow> ordering" where
  "pair_cmp a b = then_with (ord_cmp (pair_val b) (pair_val a)) (ord_cmp (pair_node b) (pair_node a))"

definition pair_partial_cmp :: "pair \<Rightarrow> pair \<Rightarrow> ordering option" where
  "pair_partial_cmp a b = Some (pair_cmp a b)"

instantiation pair :: linorder
begin

definition less_eq_pair :: "pair \<Rightarrow> pair \<Rightarrow> bool" where
  "less_eq_pair a b \<longleftrightarrow> pair_cmp a b \<noteq> Greater"

definition less_pair :: "pair \<Rightarrow> pair \<Rightarrow> bool" where
  "less_pair a b \<longleftrightarrow> pair_cmp a b = Less"

instance
  by standard (auto simp: less_eq_pair_def less_pair_def pair_cmp_def ord_cmp_def then_with_def pair.expand
      split: if_splits)

end

type_synonym heap = "pair list"

definition heap_push :: "pair \<Rightarrow> heap \<Rightarrow> heap" where
  "heap_push p h = p # h"

definition heap_pop :: "heap \<Rightarrow> (pair \<times> heap) option" where
  "heap_pop h = (case h of [] \<Rightarrow> None | x # xs \<Rightarrow> let m = fold max xs x in Some (m, remove1 m h))"

lemma heap_pop_None [simp]: "heap_pop h = None \<longleftrightarrow> h = []"
  by (auto simp: heap_pop_def Let_def split: list.splits)

lemma fold_max_in: "fold max xs x \<in> insert x (set xs)"
  by (induction xs arbitrary: x) (auto simp: max_def split: if_splits)

lemma fold_max_ge: "y \<in> insert x (set xs) \<Longrightarrow> y \<le> fold max xs (x :: 'a :: linorder)"
proof (induction xs arbitrary: x y)
  case (Cons z xs)
  have "max z x \<le> fold max xs (max z x)" by (rule Cons.IH) simp
  then have "z \<le> fold max xs (max z x)" "x \<le> fold max xs (max z x)"
    by (simp_all only: max.bounded_iff)
  with Cons show ?case by auto
qed simp

lemma heap_pop_Some:
  "heap_pop h = Some (p, h') \<Longrightarrow> p \<in> set h \<and> h' = remove1 p h \<and> (\<forall>q \<in> set h. q \<le> p)"
  using fold_max_in fold_max_ge by (fastforce simp: heap_pop_def Let_def split: list.splits)

end
