(* ===== verification/Netsearch.thy ===== *)
theory Netsearch
  imports Netgraph
begin

text \<open>
  The searches and queries of \<^verbatim>\<open>netgraph/src/lib.rs\<close>: \<^verbatim>\<open>shortest_path\<close> and
  \<^verbatim>\<open>widest_path\<close> with their priority queue, \<^verbatim>\<open>path_between\<close>, and the walks from
  a vertex to the source along the parents vector. Both searches are total: every push
  strictly improves a label, so twice the sum of the labels' distances to their best value,
  plus the length of the queue, decreases with every pop.
\<close>

type_synonym labels = "u32 option list"
type_synonym parents = "nat option list"
type_synonym search_state = "labels \<times> parents \<times> heap"

section \<open>shortest\_path\<close>

definition shortest_relax :: "nat \<Rightarrow> nat \<Rightarrow> search_state \<Rightarrow> search_state option" where
  "shortest_relax vert neigh st =
     (let (dists, parents, to_visit) = st in
      case get_at dists vert of
        None \<Rightarrow> None
      | Some None \<Rightarrow> None
      | Some (Some d) \<Rightarrow>
          let alt = d + 1 in
          (case get_at dists neigh of
             None \<Rightarrow> None
           | Some dn \<Rightarrow>
               if (case dn of None \<Rightarrow> True | Some d' \<Rightarrow> alt < d') then
                 (case (set_at dists neigh (Some alt), set_at parents neigh (Some vert)) of
                    (Some dists', Some parents') \<Rightarrow>
                      Some (dists', parents', heap_push (Pair neigh alt) to_visit)
                  | _ \<Rightarrow> None)
               else Some (dists, parents, to_visit)))"

definition shortest_weight :: "u32 option \<Rightarrow> nat" where
  "shortest_weight l = (case l of None \<Rightarrow> 2 ^ 32 | Some d \<Rightarrow> unat d)"

definition widest_weight :: "u32 option \<Rightarrow> nat" where
  "widest_weight l = (case l of None \<Rightarrow> 2 ^ 32 | Some b \<Rightarrow> 2 ^ 32 - 1 - unat b)"

definition search_measure :: "(u32 option \<Rightarrow> nat) \<Rightarrow> search_state \<Rightarrow> nat" where
  "search_measure w st = (let (labs, parents, q) = st in 2 * sum_list (map w labs) + length q)"

lemma sum_list_update_less:
  assumes "i < length xs" and "w x < (w (xs ! i) :: nat)"
  shows "Suc (sum_list (map w (xs[i := x]))) \<le> sum_list (map w xs)"
proof -
  have "w (xs ! i) \<le> sum_list (map w xs)" using assms(1) by (simp add: member_le_sum_list)
  then show ?thesis
    using assms by (simp add: map_update sum_list_update)
qed

lemma unat_less_32: "unat (x :: u32) < 2 ^ 32"
  using unsigned_less [of x, where 'a = nat] by simp

lemma search_measure_push:
  assumes "i < length labs" and "w l < w (labs ! i)"
  shows "search_measure w (labs[i := l], parents', heap_push p q) \<le> search_measure w (labs, parents, q)"
  using sum_list_update_less [OF assms] by (simp add: search_measure_def heap_push_def)

lemma shortest_weight_less:
  "shortest_weight (Some d) < shortest_weight None"
  "d < d' \<Longrightarrow> shortest_weight (Some d) < shortest_weight (Some d')"
  using unat_less_32 [of d] by (simp_all add: shortest_weight_def word_less_nat_alt)

lemma shortest_relax_measure:
  "shortest_relax u v st = Some st' \<Longrightarrow>
   search_measure shortest_weight st' \<le> search_measure shortest_weight st"
  by (auto simp: shortest_relax_def Let_def get_at_eq_Some set_at_eq_Some
        split: prod.splits option.splits if_splits
        intro!: search_measure_push shortest_weight_less)

lemma fold_opt_measure:
  assumes "\<And>x s s'. f x s = Some s' \<Longrightarrow> (m s' :: nat) \<le> m s" and "fold_opt f xs s = Some s'"
  shows "m s' \<le> m s"
  using fold_opt_invar [OF assms(2), where I = "\<lambda>t. m t \<le> m s"] assms(1) order_trans by blast

lemma heap_pop_measure:
  "heap_pop q = Some (p, q') \<Longrightarrow>
   search_measure w (labs, parents, q') < search_measure w (labs, parents, q)"
  by (auto dest!: heap_pop_Some simp: search_measure_def length_remove1 split: if_splits)
     (metis Suc_pred length_pos_if_in_set lessI)

lemma search_step_less:
  assumes "heap_pop q = Some (p, q')" and "fold_opt f ns (labs, parents, q') = Some st"
    and "\<And>v st st'. f v st = Some st' \<Longrightarrow> search_measure w st' \<le> search_measure w st"
  shows "search_measure w st < search_measure w (labs, parents, q)"
proof -
  have "search_measure w st \<le> search_measure w (labs, parents, q')"
    by (rule fold_opt_measure [where f = f, OF _ assms(2)]) (rule assms(3))
  with heap_pop_measure [OF assms(1), of w labs parents] show ?thesis by simp
qed

function shortest_loop :: "'v network \<Rightarrow> search_state \<Rightarrow> (labels \<times> parents) option" where
  "shortest_loop net (dists, parents, to_visit) =
     (case heap_pop to_visit of
        None \<Rightarrow> Some (dists, parents)
      | Some (vert, rest) \<Rightarrow>
          (case get_at dists (pair_node vert) of
             None \<Rightarrow> None
           | Some None \<Rightarrow> None
           | Some (Some d) \<Rightarrow>
               if d < pair_val vert then shortest_loop net (dists, parents, rest)
               else
                 (case net_neighbours net (pair_node vert) of
                    None \<Rightarrow> None
                  | Some neighs \<Rightarrow>
                      (case fold_opt (shortest_relax (pair_node vert)) neighs (dists, parents, rest) of
                         None \<Rightarrow> None
                       | Some st \<Rightarrow> shortest_loop net st))))"
  by pat_completeness auto
termination
proof (relation "measure (\<lambda>(net, st). search_measure shortest_weight st)", goal_cases)
  case 1
  then show ?case by simp
next
  case 2
  then show ?case by (auto dest: heap_pop_measure)
next
  case 3
  then show ?case
    by (auto intro: search_step_less [OF _ _ shortest_relax_measure])
qed

declare shortest_loop.simps [simp del]

definition net_shortest_path :: "'v network \<Rightarrow> nat \<Rightarrow> (labels \<times> parents) option" where
  "net_shortest_path net from =
     (case set_at (replicate (net_size net) None) from (Some 0) of
        None \<Rightarrow> None
      | Some dists \<Rightarrow>
          shortest_loop net (dists, replicate (net_size net) None, heap_push (Pair from 0) []))"

section \<open>widest\_path\<close>

definition widest_relax ::
  "'v network \<Rightarrow> nat \<Rightarrow> nat \<Rightarrow> search_state \<Rightarrow> search_state option" where
  "widest_relax net current_src n st =
     (let (bandwidths, parents, to_visit) = st in
      case net_link net current_src n of
        None \<Rightarrow> None
      | Some lk \<Rightarrow>
          let current_link_bandwidth = link_bandwidth lk in
          (case (get_at bandwidths n, get_at bandwidths current_src) of
             (Some bn, Some (Some b)) \<Rightarrow>
               let current_bandwidth =
                 (case bn of Some bw \<Rightarrow> max bw (min b current_link_bandwidth)
                           | None \<Rightarrow> min b current_link_bandwidth)
               in if (case bn of None \<Rightarrow> True | Some bw \<Rightarrow> bw < current_bandwidth) then
                    (case (set_at bandwidths n (Some current_bandwidth),
                           set_at parents n (Some current_src)) of
                       (Some bandwidths', Some parents') \<Rightarrow>
                         Some (bandwidths', parents', heap_push (Pair n current_bandwidth) to_visit)
                     | _ \<Rightarrow> None)
                  else Some (bandwidths, parents, to_visit)
           | _ \<Rightarrow> None))"

lemma widest_weight_less: "bw < b \<Longrightarrow> widest_weight (Some b) < widest_weight (Some bw)"
  using unat_less_32 [of b] by (simp add: widest_weight_def word_less_nat_alt)

lemma widest_weight_None: "widest_weight (Some b) < widest_weight None"
  by (simp add: widest_weight_def)

lemma widest_relax_measure:
  "widest_relax net u v st = Some st' \<Longrightarrow>
   search_measure widest_weight st' \<le> search_measure widest_weight st"
  by (auto simp: widest_relax_def Let_def get_at_eq_Some set_at_eq_Some
        split: prod.splits option.splits if_splits
        intro!: search_measure_push widest_weight_less widest_weight_None)

function widest_loop :: "'v network \<Rightarrow> search_state \<Rightarrow> (labels \<times> parents) option" where
  "widest_loop net (bandwidths, parents, to_visit) =
     (case heap_pop to_visit of
        None \<Rightarrow> Some (bandwidths, parents)
      | Some (vert, rest) \<Rightarrow>
          let current_src = pair_node vert; bandwidth = pair_val vert in
          (case get_at bandwidths current_src of
             None \<Rightarrow> None
           | Some label \<Rightarrow>
               if (case label of Some bw \<Rightarrow> bandwidth < bw | None \<Rightarrow> False)
               then widest_loop net (bandwidths, parents, rest)
               else
                 (case net_neighbours net current_src of
                    None \<Rightarrow> None
                  | Some neighs \<Rightarrow>
                      (case fold_opt (widest_relax net current_src) neighs (bandwidths, parents, rest) of
                         None \<Rightarrow> None
                       | Some st \<Rightarrow> widest_loop net st))))"
  by pat_completeness auto
termination
proof (relation "measure (\<lambda>(net, st). search_measure widest_weight st)", goal_cases)
  case 1
  then show ?case by simp
next
  case 2
  then show ?case by (auto dest: heap_pop_measure)
next
  case 3
  then show ?case
    by (auto intro: search_step_less [OF _ _ widest_relax_measure])
qed

declare widest_loop.simps [simp del]

definition net_widest_path :: "'v network \<Rightarrow> nat \<Rightarrow> (labels \<times> parents) option" where
  "net_widest_path net from =
     (case set_at (replicate (net_size net) None) from (Some (- 1)) of
        None \<Rightarrow> None
      | Some bandwidths \<Rightarrow>
          widest_loop net (bandwidths, replicate (net_size net) None, heap_push (Pair from (- 1)) []))"

definition net_path_between :: "'v network \<Rightarrow> nat \<Rightarrow> (labels \<times> parents) option" where
  "net_path_between net from =
     (case net_strategy net of
        WidestPath \<Rightarrow> net_widest_path net from
      | ShortestPath \<Rightarrow> net_shortest_path net from)"

section \<open>Walks along the parents\<close>

text \<open>Each \<^verbatim>\<open>while let Some(parent) = path[dest]\<close> loop; \<^verbatim>\<open>None\<close> is a panic or
  a cycle.\<close>

partial_function (option) bandwidth_walk ::
  "'v network \<Rightarrow> parents \<Rightarrow> nat \<Rightarrow> u32 \<Rightarrow> u32 option" where
  "bandwidth_walk net path dest speed =
     (case get_at path dest of
        None \<Rightarrow> None
      | Some None \<Rightarrow> Some speed
      | Some (Some parent) \<Rightarrow>
          (case net_link net dest parent of
             None \<Rightarrow> None
           | Some lk \<Rightarrow> bandwidth_walk net path parent (min speed (link_bandwidth lk))))"

definition net_bandwidth_between ::
  "('v \<Rightarrow> 'v \<Rightarrow> bool) \<Rightarrow> 'v network \<Rightarrow> 'v \<Rightarrow> 'v \<Rightarrow> u32 option option" where
  "net_bandwidth_between veq net from to =
     (case net_map_two veq net from to of
        None \<Rightarrow> Some None
      | Some (f, t) \<Rightarrow>
          (case net_path_between net f of
             None \<Rightarrow> None
           | Some (val, path) \<Rightarrow>
               (case net_strategy net of
                  WidestPath \<Rightarrow> get_at val t
                | ShortestPath \<Rightarrow>
                    (case get_at path t of
                       None \<Rightarrow> None
                     | Some None \<Rightarrow> Some None
                     | Some (Some _) \<Rightarrow> map_option Some (bandwidth_walk net path t (- 1))))))"

type_synonym properties = "u32 \<times> fval \<times> fval \<times> fval"

partial_function (option) properties_walk ::
  "'v network \<Rightarrow> parents \<Rightarrow> nat \<Rightarrow> properties \<Rightarrow> properties option" where
  "properties_walk net path dest acc =
     (case get_at path dest of
        None \<Rightarrow> None
      | Some None \<Rightarrow> Some acc
      | Some (Some parent) \<Rightarrow>
          (case net_link net dest parent of
             None \<Rightarrow> None
           | Some lk \<Rightarrow>
               let (bandwidth, drop_ratio, latency, jitter) = acc in
               properties_walk net path parent
                 (min bandwidth (link_bandwidth lk), fadd F32 drop_ratio (lk_drop lk),
                  fadd F32 latency (fst (lk_latency_jitter lk)),
                  fadd F32 jitter (snd (lk_latency_jitter lk)))))"

definition net_properties_between ::
  "('v \<Rightarrow> 'v \<Rightarrow> bool) \<Rightarrow> 'v network \<Rightarrow> 'v \<Rightarrow> 'v \<Rightarrow> properties option option" where
  "net_properties_between veq net from to =
     (case net_map_two veq net from to of
        None \<Rightarrow> Some None
      | Some (f, t) \<Rightarrow>
          (case net_path_between net f of
             None \<Rightarrow> None
           | Some (_, path) \<Rightarrow>
               (case get_at path t of
                  None \<Rightarrow> None
                | Some None \<Rightarrow> Some None
                | Some (Some _) \<Rightarrow>
                    map_option Some (properties_walk net path t (- 1, Fin 0, Fin 0, Fin 0)))))"

partial_function (option) update_edges_walk ::
  "parents \<Rightarrow> (u32 \<Rightarrow> u32) \<Rightarrow> nat \<Rightarrow> 'v network \<Rightarrow> 'v network option" where
  "update_edges_walk path func last_child net =
     (case get_at path last_child of
        None \<Rightarrow> None
      | Some None \<Rightarrow> Some net
      | Some (Some parent) \<Rightarrow>
          (case net_link net parent last_child of
             None \<Rightarrow> None
           | Some lk \<Rightarrow>
               (case net_update_bandwidth_inter net parent last_child (func (link_bandwidth lk)) of
                  None \<Rightarrow> None
                | Some net' \<Rightarrow> update_edges_walk path func parent net')))"

definition net_update_edges_along_path_by ::
  "('v \<Rightarrow> 'v \<Rightarrow> bool) \<Rightarrow> 'v network \<Rightarrow> 'v \<Rightarrow> 'v \<Rightarrow> (u32 \<Rightarrow> u32) \<Rightarrow> 'v network option" where
  "net_update_edges_along_path_by veq net from to func =
     (case net_map_two veq net from to of
        None \<Rightarrow> Some net
      | Some (f, t) \<Rightarrow>
          (case net_path_between net f of
             None \<Rightarrow> None
           | Some (_, path) \<Rightarrow> update_edges_walk path func t net))"

text \<open>\<^verbatim>\<open>get_path_between\<close>: collects the links from the destination back, asserts that each
  is new to the set, and reverses the vector at the end.\<close>

partial_function (option) links_walk ::
  "('v \<Rightarrow> 'v \<Rightarrow> bool) \<Rightarrow> 'v network \<Rightarrow> parents \<Rightarrow> nat \<Rightarrow> 'v link list \<Rightarrow> 'v link list
   \<Rightarrow> ('v link list \<times> 'v link list) option" where
  "links_walk veq net parents last_child links edges_set =
     (case get_at parents last_child of
        None \<Rightarrow> None
      | Some None \<Rightarrow> Some (links, edges_set)
      | Some (Some parent) \<Rightarrow>
          (case net_link net parent last_child of
             None \<Rightarrow> None
           | Some lk \<Rightarrow>
               if hs_contains (link_eq veq) edges_set lk then None
               else links_walk veq net parents parent (links @ [lk])
                      (hs_insert (link_eq veq) lk edges_set)))"

definition net_get_path_between ::
  "('v \<Rightarrow> 'v \<Rightarrow> bool) \<Rightarrow> 'v network \<Rightarrow> 'v \<Rightarrow> 'v \<Rightarrow> 'v path option option" where
  "net_get_path_between veq net from to =
     (case net_map_two veq net from to of
        None \<Rightarrow> Some None
      | Some (f, t) \<Rightarrow>
          (case net_path_between net f of
             None \<Rightarrow> None
           | Some (_, parents) \<Rightarrow>
               (case links_walk veq net parents t [] [] of
                  None \<Rightarrow> None
                | Some (links, edges_set) \<Rightarrow>
                    Some (Some \<lparr>pth_links = rev links, pth_links_set = edges_set\<rparr>))))"

definition net_bandwidth_matrix ::
  "('v \<Rightarrow> 'v \<Rightarrow> bool) \<Rightarrow> 'v network \<Rightarrow> ('v \<Rightarrow> bool) \<Rightarrow> (u32 sym_matrix \<times> 'v list) option" where
  "net_bandwidth_matrix veq net predicate =
     (let nodes = filter predicate (hm_keys (net_mapper net)) in
      case sm_new_fn (length nodes)
             (\<lambda>row col. if row = col then Some (- 1)
                else (case net_bandwidth_between veq net (nodes ! row) (nodes ! col) of
                        None \<Rightarrow> None | Some b \<Rightarrow> b)) of
        None \<Rightarrow> None
      | Some m \<Rightarrow> Some (m, nodes))"

end
