(* ===== verification/LabelSearch.thy ===== *)
theory LabelSearch
  imports Netgraph
begin

text \<open>
  What the two searches of the network have in common, as an interface: a label-correcting
  search with a priority queue. A client says when one label is better than another, which
  label an edge offers to its far end, and which labels walks of a given length can have. The
  locale proves, for any order in which the queue is popped, that the labels are those of
  walks from the source, that the parents form a tree rooted at the source, and that when the
  queue is empty no edge can improve a label.
\<close>

section \<open>The interface\<close>

locale label_search =
  fixes better :: "u32 \<Rightarrow> u32 \<Rightarrow> bool"
    and cand :: "nat \<Rightarrow> nat \<Rightarrow> u32 \<Rightarrow> u32"
    and nbrs :: "nat \<Rightarrow> nat list"
    and n :: nat
    and src :: nat
    and init :: u32
    and val_ok :: "nat \<Rightarrow> u32 \<Rightarrow> bool"
  assumes better_irrefl: "\<not> better a a"
    and better_trans: "better a b \<Longrightarrow> better b c \<Longrightarrow> better a c"
    and better_total: "\<not> better a b \<Longrightarrow> \<not> better b a \<Longrightarrow> a = b"
    and nbrs_range: "v \<in> set (nbrs u) \<Longrightarrow> v < n \<and> v \<noteq> u"
    and src_range: "src < n"
    and ok_init: "val_ok 0 init"
    and ok_step: "Suc k < n \<Longrightarrow> val_ok k l \<Longrightarrow> v \<in> set (nbrs u) \<Longrightarrow> val_ok (Suc k) (cand u v l)"
    and degrade: "k < n \<Longrightarrow> val_ok k l \<Longrightarrow> v \<in> set (nbrs u) \<Longrightarrow> \<not> better (cand u v l) l"
    and cand_mono: "j < n \<Longrightarrow> k < n \<Longrightarrow> val_ok j l \<Longrightarrow> val_ok k m \<Longrightarrow> v \<in> set (nbrs u)
      \<Longrightarrow> \<not> better l m \<Longrightarrow> \<not> better (cand u v l) (cand u v m)"
begin

lemma nb_trans: "\<not> better a b \<Longrightarrow> \<not> better b c \<Longrightarrow> \<not> better a c"
  using better_trans better_total by metis

text \<open>The label of a vertex is at least as good as \<open>a\<close>.\<close>

definition good :: "u32 option list \<Rightarrow> nat \<Rightarrow> u32 \<Rightarrow> bool" where
  "good labs v a \<longleftrightarrow> (\<exists>m. labs ! v = Some m \<and> \<not> better a m)"

definition improves :: "u32 option \<Rightarrow> u32 \<Rightarrow> bool" where
  "improves old a \<longleftrightarrow> (case old of None \<Rightarrow> True | Some b \<Rightarrow> better a b)"

lemma not_improves: "\<not> improves (labs ! v) a \<longleftrightarrow> good labs v a"
  by (auto simp: improves_def good_def split: option.splits)

lemma good_weaken: "good labs v a \<Longrightarrow> \<not> better b a \<Longrightarrow> good labs v b"
  using nb_trans unfolding good_def by blast

text \<open>One relaxation of the edge from \<open>u\<close> to \<open>v\<close>.\<close>

definition relax :: "nat \<Rightarrow> nat \<Rightarrow> u32 option list \<times> nat option list \<times> heap
    \<Rightarrow> u32 option list \<times> nat option list \<times> heap" where
  "relax u v st = (let (labs, par, q) = st; a = cand u v (the (labs ! u)) in
     if improves (labs ! v) a then (labs[v := Some a], par[v := Some u], heap_push (Pair v a) q)
     else (labs, par, q))"

lemma good_update:
  assumes "improves (labs ! v) a" and "v < length labs" and "good labs x b"
  shows "good (labs[v := Some a]) x b"
  using assms better_trans better_total
  by (cases "x = v") (fastforce simp: good_def improves_def, auto simp: good_def)

section \<open>Invariants\<close>

text \<open>A walk that witnesses a label: a list of vertices from its end back to the source,
  whose value is computed along it and none of whose vertices has a worse label than the value
  of the walk up to it.\<close>

inductive wit :: "u32 option list \<Rightarrow> nat list \<Rightarrow> u32 \<Rightarrow> bool" for labs where
  wit_src: "good labs src init \<Longrightarrow> wit labs [src] init"
| wit_step: "wit labs (u # p) l \<Longrightarrow> v \<in> set (nbrs u) \<Longrightarrow> good labs v (cand u v l)
    \<Longrightarrow> wit labs (v # u # p) (cand u v l)"

text \<open>The chain of parents from a vertex back to the source.\<close>

inductive pchain :: "nat option list \<Rightarrow> nat list \<Rightarrow> bool" for par where
  pchain_src: "par ! src = None \<Longrightarrow> pchain par [src]"
| pchain_step: "pchain par (u # p) \<Longrightarrow> par ! v = Some u \<Longrightarrow> pchain par (v # u # p)"

definition shape_ok :: "u32 option list \<Rightarrow> nat option list \<Rightarrow> heap \<Rightarrow> bool" where
  "shape_ok labs par q \<longleftrightarrow> length labs = n \<and> length par = n
     \<and> (\<forall>x l. Pair x l \<in> set q \<longrightarrow> x < n \<and> good labs x l)"

definition source_ok :: "u32 option list \<Rightarrow> nat option list \<Rightarrow> bool" where
  "source_ok labs par \<longleftrightarrow> labs ! src = Some init \<and> par ! src = None"

definition walks_ok :: "u32 option list \<Rightarrow> bool" where
  "walks_ok labs \<longleftrightarrow> (\<forall>v < n. \<forall>l. labs ! v = Some l \<longrightarrow>
     (\<exists>p. wit labs (v # p) l \<and> distinct (v # p) \<and> set (v # p) \<subseteq> {..<n}))"

definition tree_ok :: "u32 option list \<Rightarrow> nat option list \<Rightarrow> bool" where
  "tree_ok labs par \<longleftrightarrow>
     (\<forall>v < n. \<forall>u. par ! v = Some u \<longrightarrow> u < n \<and> v \<in> set (nbrs u)
        \<and> (\<exists>l0 k. k < n \<and> val_ok k l0 \<and> good labs u l0 \<and> labs ! v = Some (cand u v l0)))
     \<and> (\<forall>v < n. labs ! v \<noteq> None \<longrightarrow> (\<exists>p. pchain par (v # p)))"

definition done_at :: "u32 option list \<Rightarrow> heap \<Rightarrow> nat \<Rightarrow> bool" where
  "done_at labs q x \<longleftrightarrow> (\<forall>l. labs ! x = Some l \<longrightarrow>
     Pair x l \<in> set q \<or> (\<forall>v \<in> set (nbrs x). good labs v (cand x v l)))"

definition inv0 :: "u32 option list \<times> nat option list \<times> heap \<Rightarrow> bool" where
  "inv0 st \<longleftrightarrow> (let (labs, par, q) = st in
     shape_ok labs par q \<and> source_ok labs par \<and> walks_ok labs \<and> tree_ok labs par)"

definition inv :: "u32 option list \<times> nat option list \<times> heap \<Rightarrow> bool" where
  "inv st \<longleftrightarrow> inv0 st \<and> (let (labs, par, q) = st in \<forall>x < n. done_at labs q x)"

subsection \<open>Witness walks\<close>

lemma wit_mono:
  "wit labs p l \<Longrightarrow> (\<And>x b. good labs x b \<Longrightarrow> good labs' x b) \<Longrightarrow> wit labs' p l"
  by (induction rule: wit.induct) (auto intro: wit.intros)

lemma wit_val_ok: "wit labs p l \<Longrightarrow> length p \<le> n \<Longrightarrow> val_ok (length p - 1) l"
proof (induction rule: wit.induct)
  case (wit_step u p l v)
  then show ?case using ok_step [of "length p" l v u] by simp
qed (simp add: ok_init)

lemma wit_labels:
  "wit labs p l \<Longrightarrow> length p \<le> n \<Longrightarrow> y \<in> set p \<Longrightarrow> good labs y l"
proof (induction rule: wit.induct)
  case (wit_step u p l v)
  have ok: "val_ok (length p) l" using wit_val_ok [OF wit_step.hyps(1)] wit_step.prems by simp
  show ?case
  proof (cases "y = v")
    case True
    with wit_step show ?thesis by simp
  next
    case False
    then have "good labs y l" using wit_step by simp
    moreover have "\<not> better (cand u v l) l"
      using wit_step.prems wit_step.hyps(2) ok by (intro degrade [of "length p"]) auto
    ultimately show ?thesis by (rule good_weaken)
  qed
qed simp

lemma wit_not_better_init: "wit labs p l \<Longrightarrow> length p \<le> n \<Longrightarrow> \<not> better l init"
proof (induction rule: wit.induct)
  case (wit_step u p l v)
  have ok: "val_ok (length p) l" using wit_val_ok [OF wit_step.hyps(1)] wit_step.prems by simp
  have "\<not> better (cand u v l) l"
    using wit_step.prems wit_step.hyps(2) ok by (intro degrade [of "length p"]) auto
  with wit_step show ?case using nb_trans by simp
qed (simp add: better_irrefl)

lemma distinct_length_le: "distinct p \<Longrightarrow> set p \<subseteq> {..<n} \<Longrightarrow> length p \<le> n"
  using card_mono [of "{..<n}" "set p"] by (simp add: distinct_card)

lemma walks_okE:
  assumes "walks_ok labs" and "v < n" and "labs ! v = Some l"
  obtains p where "wit labs (v # p) l" and "distinct (v # p)" and "set (v # p) \<subseteq> {..<n}"
    and "length (v # p) \<le> n" and "val_ok (length p) l"
proof -
  obtain p where p: "wit labs (v # p) l" "distinct (v # p)" "set (v # p) \<subseteq> {..<n}"
    using assms unfolding walks_ok_def by blast
  then have len: "length (v # p) \<le> n" using distinct_length_le by blast
  moreover have "val_ok (length p) l" using wit_val_ok [OF p(1) len] by simp
  ultimately show ?thesis using that p by blast
qed

subsection \<open>Parent chains\<close>

lemma pchain_tail: "pchain par (v # w # p) \<Longrightarrow> pchain par (w # p) \<and> par ! v = Some w"
  by (cases rule: pchain.cases) auto

lemma pchain_None: "pchain par q \<Longrightarrow> hd q = v \<Longrightarrow> par ! v = None \<Longrightarrow> q = [v]"
  by (cases rule: pchain.cases) auto

lemma pchain_Some: "pchain par q \<Longrightarrow> hd q = v \<Longrightarrow> par ! v = Some u
    \<Longrightarrow> \<exists>p. q = v # u # p \<and> pchain par (u # p)"
  by (cases rule: pchain.cases) auto

lemma pchain_unique: "pchain par p \<Longrightarrow> pchain par q \<Longrightarrow> hd p = hd q \<Longrightarrow> p = q"
proof (induction arbitrary: q rule: pchain.induct)
  case pchain_src
  show ?case using pchain_None [OF pchain_src(2) _ pchain_src(1)] pchain_src(3) by simp
next
  case (pchain_step u p v)
  obtain q' where q': "q = v # u # q'" "pchain par (u # q')"
    using pchain_Some [OF pchain_step.prems(1) _ pchain_step.hyps(2)] pchain_step.prems(2) by auto
  then show ?case using pchain_step.IH [OF q'(2)] by simp
qed

lemma pchain_suffix: "pchain par (p @ y # q) \<Longrightarrow> pchain par (y # q)"
proof (induction p)
  case (Cons z p)
  have "pchain par (p @ y # q)"
    using Cons.prems pchain_tail by (cases p) fastforce+
  then show ?case by (rule Cons.IH)
qed simp

lemma pchain_distinct: "pchain par p \<Longrightarrow> distinct p"
proof (induction rule: pchain.induct)
  case (pchain_step u p v)
  have "v \<notin> set (u # p)"
  proof
    assume "v \<in> set (u # p)"
    then obtain a b where ab: "u # p = a @ v # b" by (meson split_list)
    then have "pchain par (v # b)" using pchain_suffix [of par a v b] pchain_step.hyps by simp
    moreover have "pchain par (v # u # p)" using pchain_step.hyps by (rule pchain.pchain_step)
    ultimately have "v # b = v # u # p" by (intro pchain_unique) auto
    with ab have "b = a @ v # b" by simp
    then have "length b = length (a @ v # b)" by simp
    then show False by simp
  qed
  with pchain_step show ?case by simp
qed simp

text \<open>Every vertex on the chain of a vertex has a label at least as good.\<close>

lemma tree_okD:
  assumes "tree_ok labs par" and "v < n" and "par ! v = Some u"
  shows "u < n" and "v \<in> set (nbrs u)"
    and "\<exists>l0 k. k < n \<and> val_ok k l0 \<and> good labs u l0 \<and> labs ! v = Some (cand u v l0)"
  using assms unfolding tree_ok_def by blast+

lemma tree_edge_labels:
  assumes "tree_ok labs par" and "v < n" and "par ! v = Some u" and "labs ! v = Some l"
  shows "\<exists>lu. labs ! u = Some lu \<and> \<not> better l lu"
proof -
  obtain l0 k where k: "k < n" "val_ok k l0" "good labs u l0" "labs ! v = Some (cand u v l0)"
    using tree_okD(3) [OF assms(1-3)] by blast
  then obtain lu where lu: "labs ! u = Some lu" "\<not> better l0 lu" by (auto simp: good_def)
  have "\<not> better (cand u v l0) l0"
    using degrade k(1,2) tree_okD(2) [OF assms(1-3)] by blast
  with lu(2) have "\<not> better (cand u v l0) lu" using nb_trans by blast
  with lu(1) k(4) assms(4) show ?thesis by simp
qed

lemma pchain_labels:
  assumes "pchain par p" and "tree_ok labs par" and "hd p < n"
    and "labs ! hd p = Some l" and "y \<in> set p"
  shows "y < n \<and> good labs y l"
  using assms
proof (induction arbitrary: l rule: pchain.induct)
  case pchain_src
  then show ?case by (auto simp: good_def better_irrefl)
next
  case (pchain_step u p v)
  have v: "v < n" "labs ! v = Some l" using pchain_step.prems by auto
  obtain lu where lu: "labs ! u = Some lu" "\<not> better l lu"
    using tree_edge_labels [OF pchain_step.prems(1) v(1) pchain_step.hyps(2) v(2)] by blast
  have u: "u < n" using tree_okD(1) [OF pchain_step.prems(1) v(1) pchain_step.hyps(2)] .
  show ?case
  proof (cases "y = v")
    case True
    with v show ?thesis by (auto simp: good_def better_irrefl)
  next
    case False
    then have "y < n \<and> good labs y lu"
      using pchain_step.IH [of lu] pchain_step.prems u lu(1) by simp
    with lu(2) show ?thesis using good_weaken by blast
  qed
qed

lemma pchain_keep:
  "pchain par r \<Longrightarrow> v \<notin> set r \<Longrightarrow> pchain (par[v := x]) r"
  by (induction rule: pchain.induct) (auto intro: pchain.intros)

lemma pchain_update:
  assumes "pchain par p" and "pchain par (u # pu)" and "v \<notin> set (u # pu)" and "v < length par"
    and "v \<noteq> src"
  shows "\<exists>p'. pchain (par[v := Some u]) (hd p # p')"
  using assms(1)
proof (induction rule: pchain.induct)
  case pchain_src
  then have "pchain (par[v := Some u]) [src]" using assms(5) by (intro pchain.pchain_src) simp
  then show ?case by auto
next
  case (pchain_step w r x)
  show ?case
  proof (cases "x = v")
    case True
    have "pchain (par[v := Some u]) (u # pu)" using assms by (intro pchain_keep)
    then have "pchain (par[v := Some u]) (v # u # pu)"
      using assms(4) by (intro pchain.pchain_step) auto
    with True show ?thesis by auto
  next
    case False
    from pchain_step.IH obtain p' where "pchain (par[v := Some u]) (w # p')" by auto
    moreover have "par[v := Some u] ! x = Some w" using False pchain_step.hyps by simp
    ultimately have "pchain (par[v := Some u]) (x # w # p')" by (rule pchain.pchain_step)
    then show ?thesis by auto
  qed
qed

section \<open>Relaxation keeps the invariants\<close>

lemma wit_src_in: "wit labs p l \<Longrightarrow> src \<in> set p"
  by (induction rule: wit.induct) auto

lemma inv0D:
  assumes "inv0 (labs, par, q)"
  shows "shape_ok labs par q" and "source_ok labs par" and "walks_ok labs" and "tree_ok labs par"
  using assms unfolding inv0_def by auto

lemma shape_okD:
  assumes "shape_ok labs par q"
  shows "length labs = n" and "length par = n"
    and "Pair x l \<in> set q \<Longrightarrow> x < n" and "Pair x l \<in> set q \<Longrightarrow> good labs x l"
  using assms unfolding shape_ok_def by blast+

lemma inv_lengths: "inv (labs, par, q) \<Longrightarrow> length labs = n \<and> length par = n"
  using shape_okD(1,2) inv0D(1) unfolding inv_def by blast

lemma cand_not_good:
  assumes "good labs v a" and "improves (labs ! v) c" shows "better c a"
  using assms nb_trans unfolding good_def improves_def by fastforce

text \<open>An edge that improves its far end leaves the witness walk and the parent chain of its
  near end.\<close>

lemma improved_fresh:
  assumes "inv0 (labs, par, q)" and "u < n" and "labs ! u = Some a" and "v \<in> set (nbrs u)"
    and "improves (labs ! v) (cand u v a)"
  obtains p pu where "wit labs (u # p) a" and "distinct (v # u # p)" and "set (u # p) \<subseteq> {..<n}"
    and "length p < n" and "val_ok (length p) a" and "pchain par (u # pu)" and "v \<notin> set (u # pu)"
    and "v \<noteq> src"
proof -
  obtain p where p: "wit labs (u # p) a" "distinct (u # p)" "set (u # p) \<subseteq> {..<n}"
    "length (u # p) \<le> n" "val_ok (length p) a"
    using walks_okE [OF inv0D(3) [OF assms(1)] assms(2,3)] by blast
  have deg: "\<not> better (cand u v a) a" using degrade [of "length p"] p(4,5) assms(4) by simp
  then have ng: "\<not> good labs v a" using cand_not_good [OF _ assms(5)] by blast
  then have v1: "v \<notin> set (u # p)" using wit_labels [OF p(1,4)] by blast
  have t: "tree_ok labs par" by (rule inv0D(4) [OF assms(1)])
  then obtain pu where pu: "pchain par (u # pu)"
    using assms(2,3) unfolding tree_ok_def by blast
  have v2: "v \<notin> set (u # pu)"
    using pchain_labels [OF pu t, of a v] assms(2,3) ng by auto
  have "v \<noteq> src" using wit_src_in [OF p(1)] v1 by blast
  then show ?thesis using that [OF p(1) _ p(3) _ p(5) pu v2] p(2,4) v1 by simp
qed

lemma relax_walks:
  assumes "walks_ok labs" and "wit labs (u # p) a" and "distinct (v # u # p)"
    and "set (u # p) \<subseteq> {..<n}" and "v \<in> set (nbrs u)" and "length labs = n"
    and "improves (labs ! v) (cand u v a)"
  shows "walks_ok (labs[v := Some (cand u v a)])" (is "walks_ok ?labs")
  unfolding walks_ok_def
proof (intro allI impI)
  fix x l assume x: "x < n" "?labs ! x = Some l"
  have v: "v < n" using nbrs_range assms(5) by blast
  have mono: "good ?labs y b" if "good labs y b" for y b
    using good_update [OF assms(7) _ that] v assms(6) by simp
  show "\<exists>p. wit ?labs (x # p) l \<and> distinct (x # p) \<and> set (x # p) \<subseteq> {..<n}"
  proof (cases "x = v")
    case True
    have "good ?labs v (cand u v a)" using v assms(6) by (simp add: good_def better_irrefl)
    then have "wit ?labs (v # u # p) (cand u v a)"
      using wit_mono [OF assms(2) mono] assms(5) by (intro wit_step)
    moreover have "l = cand u v a" using True x v assms(6) by simp
    moreover have "set (v # u # p) \<subseteq> {..<n}" using assms(4) v by simp
    ultimately show ?thesis using True assms(3) by blast
  next
    case False
    with x have "labs ! x = Some l" by simp
    then obtain r where "wit labs (x # r) l" "distinct (x # r)" "set (x # r) \<subseteq> {..<n}"
      using assms(1) x(1) unfolding walks_ok_def by blast
    then show ?thesis using wit_mono [OF _ mono] by blast
  qed
qed

lemma relax_tree:
  assumes "tree_ok labs par" and "u < n" and "labs ! u = Some a" and "v \<in> set (nbrs u)"
    and "k < n" and "val_ok k a" and "pchain par (u # pu)" and "v \<notin> set (u # pu)" and "v \<noteq> src"
    and "length labs = n" and "length par = n" and "improves (labs ! v) (cand u v a)"
  shows "tree_ok (labs[v := Some (cand u v a)]) (par[v := Some u])" (is "tree_ok ?labs ?par")
proof -
  have v: "v < n" "v \<noteq> u" using nbrs_range assms(4) by blast+
  have mono: "good ?labs y b" if "good labs y b" for y b
    using good_update [OF assms(12) _ that] v assms(10) by simp
  have e: "w < n \<and> x \<in> set (nbrs w)
      \<and> (\<exists>l0 k. k < n \<and> val_ok k l0 \<and> good ?labs w l0 \<and> ?labs ! x = Some (cand w x l0))"
    if x: "x < n" "?par ! x = Some w" for x w
  proof (cases "x = v")
    case True
    then have "w = u" using x assms(11) by simp
    moreover have "good ?labs u a" using assms(3) v(2) by (simp add: good_def better_irrefl)
    moreover have "?labs ! v = Some (cand u v a)" using v assms(10) by simp
    ultimately show ?thesis using True assms(2,4,5,6) by auto
  next
    case False
    then have "par ! x = Some w" using x by simp
    from tree_okD [OF assms(1) x(1) this] False mono show ?thesis by auto
  qed
  have c: "\<exists>p. pchain ?par (x # p)" if x: "x < n" "?labs ! x \<noteq> None" for x
  proof (cases "x = v")
    case True
    have "pchain ?par (u # pu)" using pchain_keep [OF assms(7,8)] .
    then have "pchain ?par (v # u # pu)" using v assms(11) by (intro pchain_step) auto
    with True show ?thesis by blast
  next
    case False
    then have "labs ! x \<noteq> None" using x by simp
    then obtain p where "pchain par (x # p)" using assms(1) x(1) unfolding tree_ok_def by blast
    from pchain_update [OF this assms(7,8)] v assms(9,11) show ?thesis by auto
  qed
  show ?thesis unfolding tree_ok_def using e c by blast
qed

lemma heap_push_set: "set (heap_push p q) = insert p (set q)"
  by (simp add: heap_push_def)

lemma relax_shape:
  assumes "shape_ok labs par q" and "v < n" and "improves (labs ! v) c"
  shows "shape_ok (labs[v := Some c]) (par[v := Some u]) (heap_push (Pair v c) q)"
proof -
  have "good (labs[v := Some c]) x l" if "Pair x l \<in> set q" for x l
    using good_update [OF assms(3)] shape_okD(1,4) [OF assms(1)] that assms(2) by simp
  moreover have "good (labs[v := Some c]) v c"
    using assms(2) shape_okD(1) [OF assms(1)] by (simp add: good_def better_irrefl)
  ultimately show ?thesis
    using assms(2) shape_okD(1-3) [OF assms(1)] unfolding shape_ok_def by (auto simp: heap_push_set)
qed

text \<open>What a relaxation of an edge from \<open>u\<close> keeps: the invariants, the label of \<open>u\<close>,
  every finished vertex apart from \<open>u\<close>, and every relaxed edge.\<close>

lemma relax_cases:
  obtains (same) "good labs v (cand u v (the (labs ! u)))" and "relax u v (labs, par, q) = (labs, par, q)"
  | (push) "improves (labs ! v) (cand u v (the (labs ! u)))"
      and "relax u v (labs, par, q)
        = (labs[v := Some (cand u v (the (labs ! u)))], par[v := Some u],
           heap_push (Pair v (cand u v (the (labs ! u)))) q)"
proof (cases "improves (labs ! v) (cand u v (the (labs ! u)))")
  case True
  moreover from this have "relax u v (labs, par, q)
      = (labs[v := Some (cand u v (the (labs ! u)))], par[v := Some u],
         heap_push (Pair v (cand u v (the (labs ! u)))) q)" by (simp add: relax_def Let_def)
  ultimately show ?thesis by (rule push)
next
  case False
  then have "good labs v (cand u v (the (labs ! u)))" using not_improves [of labs v] by blast
  moreover from False have "relax u v (labs, par, q) = (labs, par, q)"
    by (simp add: relax_def Let_def)
  ultimately show ?thesis by (rule same)
qed

lemma relax_keeps:
  assumes "inv0 (labs, par, q)" and "u < n" and "labs ! u = Some a" and "v \<in> set (nbrs u)"
    and "relax u v (labs, par, q) = (labs', par', q')"
  shows "inv0 (labs', par', q') \<and> labs' ! u = Some a \<and> good labs' v (cand u v a)
    \<and> (\<forall>x b. good labs x b \<longrightarrow> good labs' x b)
    \<and> (\<forall>x. x \<noteq> u \<longrightarrow> done_at labs q x \<longrightarrow> done_at labs' q' x)"
proof (rule relax_cases [of labs v u par q], goal_cases)
  case same: 1
  then show ?case
    using assms by simp
next
  case push: 2
  define c where "c = cand u v a"
  have imp: "improves (labs ! v) c" using push(1) assms(3) by (simp add: c_def)
  have new: "labs' = labs[v := Some c]" "par' = par[v := Some u]" "q' = heap_push (Pair v c) q"
    using push(2) assms(3,5) by (simp_all add: c_def)
  have v: "v < n" "v \<noteq> u" using nbrs_range assms(4) by blast+
  note i = inv0D [OF assms(1)] and len = shape_okD(1,2) [OF inv0D(1) [OF assms(1)]]
  obtain p pu where f: "wit labs (u # p) a" "distinct (v # u # p)" "set (u # p) \<subseteq> {..<n}"
    "length p < n" "val_ok (length p) a" "pchain par (u # pu)" "v \<notin> set (u # pu)" "v \<noteq> src"
    using improved_fresh [OF assms(1-4) imp [unfolded c_def]] by blast
  have mono: "good labs' x b" if "good labs x b" for x b
    using good_update [OF imp _ that] v len new by simp
  have "inv0 (labs', par', q')"
    using relax_shape [OF i(1) v(1) imp]
      relax_walks [OF i(3) f(1-3) assms(4) len(1) imp [unfolded c_def]]
      relax_tree [OF i(4) assms(2-4) f(4-8) len imp [unfolded c_def]] i(2) f(8)
    unfolding inv0_def new c_def by (simp add: source_ok_def)
  moreover have "labs' ! u = Some a" using assms(3) v new by simp
  moreover have "good labs' v (cand u v a)"
    using v len new by (simp add: good_def better_irrefl c_def)
  moreover have "done_at labs' q' x" if "done_at labs q x" for x
  proof (cases "x = v")
    case True
    then show ?thesis using v len new by (simp add: done_at_def heap_push_set)
  next
    case False
    then show ?thesis using that mono new by (auto simp: done_at_def heap_push_set)
  qed
  ultimately show ?case
    using mono by blast
qed

section \<open>Visiting a vertex\<close>

lemma fold_relax:
  assumes "inv0 (labs, par, q)" and "u < n" and "labs ! u = Some a" and "set ns \<subseteq> set (nbrs u)"
    and "fold (relax u) ns (labs, par, q) = (labs', par', q')"
  shows "inv0 (labs', par', q') \<and> labs' ! u = Some a \<and> (\<forall>v \<in> set ns. good labs' v (cand u v a))
    \<and> (\<forall>x b. good labs x b \<longrightarrow> good labs' x b)
    \<and> (\<forall>x. x \<noteq> u \<longrightarrow> done_at labs q x \<longrightarrow> done_at labs' q' x)"
  using assms
proof (induction ns arbitrary: labs par q)
  case (Cons v ns)
  obtain labs1 par1 q1 where st: "relax u v (labs, par, q) = (labs1, par1, q1)"
    by (cases "relax u v (labs, par, q)")
  have v: "v \<in> set (nbrs u)" using Cons.prems(4) by simp
  note k' = relax_keeps [OF Cons.prems(1-3) v st]
  then have k: "inv0 (labs1, par1, q1)" "labs1 ! u = Some a" "good labs1 v (cand u v a)"
    by blast+
  have "fold (relax u) ns (labs1, par1, q1) = (labs', par', q')"
    using Cons.prems(5) st by simp
  from Cons.IH [OF k(1) Cons.prems(2) k(2) _ this] Cons.prems(4)
  have ih: "inv0 (labs', par', q') \<and> labs' ! u = Some a \<and> (\<forall>v \<in> set ns. good labs' v (cand u v a))
    \<and> (\<forall>x b. good labs1 x b \<longrightarrow> good labs' x b)
    \<and> (\<forall>x. x \<noteq> u \<longrightarrow> done_at labs1 q1 x \<longrightarrow> done_at labs' q' x)" by simp
  then have "good labs' v (cand u v a)" using k(3) by blast
  with ih k' show ?case by auto
qed simp

lemma inv_initial:
  "inv ((replicate n None)[src := Some init], replicate n None, heap_push (Pair src init) [])"
proof -
  let ?labs = "(replicate n (None :: u32 option))[src := Some init]"
  have g: "good ?labs src init" using src_range by (simp add: good_def better_irrefl)
  have only: "x = src \<and> l = init" if "?labs ! x = Some l" "x < n" for x l
    using that src_range by (cases "x = src") auto
  have "shape_ok ?labs (replicate n None) (heap_push (Pair src init) [])"
    using src_range g by (auto simp: shape_ok_def heap_push_def)
  moreover have "source_ok ?labs (replicate n None)"
    using src_range by (simp add: source_ok_def)
  moreover have "walks_ok ?labs"
    unfolding walks_ok_def using only wit_src [OF g] src_range by fastforce
  moreover have "tree_ok ?labs (replicate n None)"
  proof -
    have "pchain (replicate n None) [src]" using src_range by (intro pchain_src) simp
    then show ?thesis unfolding tree_ok_def using only by fastforce
  qed
  moreover have "done_at ?labs (heap_push (Pair src init) []) x" if "x < n" for x
    using only [OF _ that] by (auto simp: done_at_def heap_push_def)
  ultimately show ?thesis by (simp add: inv_def inv0_def)
qed

lemma inv_popped:
  assumes "inv (labs, par, q)" and "Pair u l \<in> set q"
  obtains m where "u < n" and "labs ! u = Some m" and "\<not> better l m"
proof -
  have "shape_ok labs par q" using assms(1) inv0D(1) unfolding inv_def by blast
  from shape_okD(3,4) [OF this assms(2)] show ?thesis using that by (auto simp: good_def)
qed

lemma inv0_remove: "inv0 (labs, par, q) \<Longrightarrow> inv0 (labs, par, remove1 p q)"
  using set_remove1_subset [of p q] unfolding inv0_def shape_ok_def by auto

lemma done_at_remove:
  assumes "done_at labs q x" and "x \<noteq> u \<or> labs ! x \<noteq> Some l"
  shows "done_at labs (remove1 (Pair u l) q) x"
proof -
  have "Pair x m \<in> set (remove1 (Pair u l) q)" if "labs ! x = Some m" "Pair x m \<in> set q" for m
    using that assms(2) in_set_remove1 [of "Pair x m" "Pair u l" q] by auto
  with assms(1) show ?thesis unfolding done_at_def by blast
qed

lemma inv_skip:
  assumes "inv (labs, par, q)" and "labs ! u \<noteq> Some l"
  shows "inv (labs, par, remove1 (Pair u l) q)"
  using assms inv0_remove done_at_remove unfolding inv_def by fastforce

lemma inv_visit:
  assumes "inv (labs, par, q)" and "Pair u l \<in> set q" and "labs ! u = Some l"
  shows "inv (fold (relax u) (nbrs u) (labs, par, remove1 (Pair u l) q))"
proof -
  let ?q = "remove1 (Pair u l) q"
  have i: "inv0 (labs, par, ?q)" and d: "x < n \<Longrightarrow> x \<noteq> u \<Longrightarrow> done_at labs ?q x" for x
    using assms(1) inv0_remove done_at_remove unfolding inv_def by fastforce+
  have u: "u < n" using inv_popped [OF assms(1,2)] by blast
  obtain labs' par' q' where st: "fold (relax u) (nbrs u) (labs, par, ?q) = (labs', par', q')"
    by (cases "fold (relax u) (nbrs u) (labs, par, ?q)")
  note k = fold_relax [OF i u assms(3) subset_refl st]
  have "done_at labs' q' u" using k unfolding done_at_def by auto
  then have "\<forall>x < n. done_at labs' q' x" using k d by (metis (full_types))
  with k st show ?thesis by (simp add: inv_def)
qed

section \<open>What the empty queue means\<close>

text \<open>Walks from the source and their values.\<close>

inductive wlk :: "nat list \<Rightarrow> u32 \<Rightarrow> bool" where
  wlk_src: "wlk [src] init"
| wlk_step: "wlk (u # p) l \<Longrightarrow> v \<in> set (nbrs u) \<Longrightarrow> wlk (v # u # p) (cand u v l)"

inductive_simps wlk_Cons [simp]: "wlk (v # u # p) l"
inductive_simps wlk_single [simp]: "wlk [v] l"

lemma wit_wlk: "wit labs p l \<Longrightarrow> wlk p l"
  by (induction rule: wit.induct) (auto intro: wlk.intros)

lemma wlk_val_ok: "wlk p l \<Longrightarrow> length p \<le> n \<Longrightarrow> val_ok (length p - 1) l"
proof (induction rule: wlk.induct)
  case (wlk_step u p l v)
  then show ?case using ok_step [of "length p" l v u] by simp
qed (simp add: ok_init)

lemma wlk_range: "wlk p l \<Longrightarrow> hd p < n"
  by (cases rule: wlk.cases) (auto simp: src_range nbrs_range)

lemma finished_closed:
  assumes "inv (labs, par, [])" and "x < n" and "labs ! x = Some l" and "v \<in> set (nbrs x)"
  shows "good labs v (cand x v l)"
  using assms by (simp add: inv_def done_at_def)

lemma finished_label:
  assumes "inv (labs, par, [])" and "v < n" and "labs ! v = Some l"
  obtains p where "wlk (v # p) l" and "distinct (v # p)" and "length (v # p) \<le> n"
    and "val_ok (length p) l"
proof -
  have "walks_ok labs" using assms(1) inv0D(3) unfolding inv_def by blast
  then obtain p where "wit labs (v # p) l" "distinct (v # p)" "length (v # p) \<le> n"
    "val_ok (length p) l" by (rule walks_okE [OF _ assms(2,3)])
  then show ?thesis using wit_wlk by (intro that)
qed

theorem finished_optimal:
  assumes fin: "inv (labs, par, [])"
  shows "wlk p l \<Longrightarrow> length p \<le> n \<Longrightarrow> good labs (hd p) l"
proof (induction rule: wlk.induct)
  case wlk_src
  have "source_ok labs par" using fin inv0D(2) unfolding inv_def by blast
  then show ?case by (simp add: source_ok_def good_def better_irrefl)
next
  case (wlk_step u p l v)
  then obtain m where m: "labs ! u = Some m" "\<not> better l m" by (auto simp: good_def)
  have u: "u < n" using wlk_range [OF wlk_step.hyps(1)] by simp
  obtain r where "length (u # r) \<le> n" "val_ok (length r) m"
    using finished_label [OF fin u m(1)] by blast
  moreover have "val_ok (length p) l"
    using wlk_val_ok [OF wlk_step.hyps(1)] wlk_step.prems by simp
  ultimately have "\<not> better (cand u v l) (cand u v m)"
    using wlk_step.hyps(2) m(2) wlk_step.prems
    by (intro cand_mono [of "length p" "length r"]) auto
  then show ?case
    using good_weaken finished_closed [OF fin u m(1) wlk_step.hyps(2)] by simp
qed

theorem finished_reached:
  assumes fin: "inv (labs, par, [])"
  shows "wlk p l \<Longrightarrow> labs ! hd p \<noteq> None"
proof (induction rule: wlk.induct)
  case wlk_src
  have "source_ok labs par" using fin inv0D(2) unfolding inv_def by blast
  then show ?case by (simp add: source_ok_def)
next
  case (wlk_step u p l v)
  then obtain m where m: "labs ! u = Some m" by auto
  have "u < n" using wlk_range [OF wlk_step.hyps(1)] by simp
  from finished_closed [OF fin this m wlk_step.hyps(2)] show ?case by (auto simp: good_def)
qed

lemma finished_edge:
  assumes fin: "inv (labs, par, [])" and "v < n" and "par ! v = Some u"
  shows "\<exists>m. u < n \<and> v \<in> set (nbrs u) \<and> labs ! u = Some m \<and> labs ! v = Some (cand u v m)"
proof -
  have t: "tree_ok labs par" using fin inv0D(4) unfolding inv_def by blast
  note d = tree_okD [OF t assms(2,3)]
  obtain l0 k where k: "k < n" "val_ok k l0" "good labs u l0" "labs ! v = Some (cand u v l0)"
    using d(3) by blast
  then obtain m where m: "labs ! u = Some m" "\<not> better l0 m" by (auto simp: good_def)
  obtain r where r: "length (u # r) \<le> n" "val_ok (length r) m"
    using finished_label [OF fin d(1) m(1)] by blast
  have "\<not> better (cand u v m) (cand u v l0)"
    using finished_closed [OF fin d(1) m(1) d(2)] k(4) by (simp add: good_def)
  moreover have "\<not> better (cand u v l0) (cand u v m)"
    using k(1,2) r m(2) d(2) by (intro cand_mono [of k "length r"]) auto
  ultimately have "cand u v l0 = cand u v m" using better_total by blast
  with d m k show ?thesis by simp
qed

text \<open>The chain of parents of a vertex is a walk whose value is the vertex's label.\<close>

theorem finished_chain:
  assumes fin: "inv (labs, par, [])"
  shows "pchain par p \<Longrightarrow> hd p < n \<Longrightarrow> \<exists>l. wlk p l \<and> labs ! hd p = Some l"
proof (induction rule: pchain.induct)
  case pchain_src
  have "source_ok labs par" using fin inv0D(2) unfolding inv_def by blast
  then show ?case by (simp add: source_ok_def)
next
  case (pchain_step u p v)
  obtain m where "u < n" "v \<in> set (nbrs u)" "labs ! u = Some m" "labs ! v = Some (cand u v m)"
    using finished_edge [OF fin _ pchain_step.hyps(2)] pchain_step.prems by auto
  with pchain_step.IH show ?case by auto
qed

lemma finished_has_chain:
  assumes "inv (labs, par, [])" and "v < n" and "labs ! v \<noteq> None"
  obtains p where "pchain par (v # p)" and "distinct (v # p)"
proof -
  have "tree_ok labs par" using assms(1) inv0D(4) unfolding inv_def by blast
  then obtain p where "pchain par (v # p)" using assms(2,3) unfolding tree_ok_def by blast
  with that pchain_distinct show ?thesis by blast
qed

lemma finished_no_parent:
  assumes "inv (labs, par, [])" and "v < n" and "par ! v = None" and "labs ! v \<noteq> None"
  shows "v = src"
proof -
  obtain p where p: "pchain par (v # p)" using finished_has_chain [OF assms(1,2,4)] .
  then have "v # p = [v]" using pchain_None assms(3) by fastforce
  with p have "pchain par [v]" by simp
  then show ?thesis by (cases rule: pchain.cases) auto
qed

text \<open>The tree that the finished search returns.\<close>

theorem finished_tree:
  assumes fin: "inv (labs, par, [])" and v: "v < n"
  shows "labs ! v \<noteq> None \<longleftrightarrow> (\<exists>p l. wlk (v # p) l)"
    and "par ! v = None \<longleftrightarrow> labs ! v = None \<or> v = src"
    and "labs ! v \<noteq> None \<Longrightarrow> \<exists>p l. pchain par (v # p) \<and> distinct (v # p) \<and> wlk (v # p) l"
proof -
  show "labs ! v \<noteq> None \<longleftrightarrow> (\<exists>p l. wlk (v # p) l)"
    using finished_reached [OF fin] finished_label [OF fin v] by (metis list.sel(1) not_Some_eq)
  have "par ! src = None" using fin inv0D(2) unfolding inv_def source_ok_def by blast
  moreover have "labs ! v \<noteq> None" if "par ! v \<noteq> None"
    using finished_edge [OF fin v] that by fastforce
  moreover have "v = src" if "par ! v = None" "labs ! v \<noteq> None"
    by (rule finished_no_parent [OF fin v that])
  ultimately show "par ! v = None \<longleftrightarrow> labs ! v = None \<or> v = src" by blast
  assume "labs ! v \<noteq> None"
  then obtain p where p: "pchain par (v # p)" "distinct (v # p)"
    by (rule finished_has_chain [OF fin v])
  moreover obtain l where "wlk (v # p) l" using finished_chain [OF fin p(1)] v by auto
  ultimately show "\<exists>p l. pchain par (v # p) \<and> distinct (v # p) \<and> wlk (v # p) l" by blast
qed

end

end
