(* ===== verification/Netpaths.thy ===== *)
theory Netpaths
  imports Netsearch LabelSearch
begin

text \<open>
  Correctness of the path searches of \<^verbatim>\<open>netgraph/src/lib.rs\<close>: both are instances of the
  label-correcting search, so the labels are the best over all walks, the parents vector leads
  every reached vertex back to the source along a walk with that label, and the queries that
  walk along the parents neither panic nor loop.
\<close>

section \<open>Well-formed networks and walks\<close>

definition net_wf :: "'v network \<Rightarrow> bool" where
  "net_wf net \<longleftrightarrow> sm_wf (net_links net)"

definition adjacent :: "'v network \<Rightarrow> nat \<Rightarrow> nat \<Rightarrow> bool" where
  "adjacent net u v \<longleftrightarrow> v \<noteq> u \<and> net_link net v u \<noteq> None"

text \<open>A walk is the list of its vertices, its end first.\<close>

fun net_walk :: "'v network \<Rightarrow> nat list \<Rightarrow> bool" where
  "net_walk net [] = False"
| "net_walk net [u] = (u < net_size net)"
| "net_walk net (v # u # p) = (v < net_size net \<and> adjacent net u v \<and> net_walk net (u # p))"

definition walk_between :: "'v network \<Rightarrow> nat \<Rightarrow> nat \<Rightarrow> nat list \<Rightarrow> bool" where
  "walk_between net src v p \<longleftrightarrow> net_walk net p \<and> hd p = v \<and> last p = src"

definition edge_bandwidth :: "'v network \<Rightarrow> nat \<Rightarrow> nat \<Rightarrow> u32" where
  "edge_bandwidth net u v = (case net_link net u v of None \<Rightarrow> 0 | Some lk \<Rightarrow> link_bandwidth lk)"

fun walk_bandwidth :: "'v network \<Rightarrow> nat list \<Rightarrow> u32" where
  "walk_bandwidth net (v # u # p) = min (walk_bandwidth net (u # p)) (edge_bandwidth net u v)"
| "walk_bandwidth net p = - 1"

text \<open>The vertices met along the parents vector.\<close>

fun par_chain :: "parents \<Rightarrow> nat list \<Rightarrow> bool" where
  "par_chain par [] = False"
| "par_chain par [u] = (par ! u = None)"
| "par_chain par (v # u # p) = (par ! v = Some u \<and> par_chain par (u # p))"

lemma net_link_sym: "net_link net i j = net_link net j i"
  using sm.get_sym [of "net_links net" i j] by (simp add: net_link_def)

lemma adjacent_sym: "adjacent net u v = adjacent net v u"
  using net_link_sym [of net u v] by (auto simp: adjacent_def)

lemma edge_bandwidth_sym: "edge_bandwidth net u v = edge_bandwidth net v u"
  using net_link_sym [of net u v] by (simp add: edge_bandwidth_def)

lemma edge_bandwidth_link: "net_link net u v = Some lk \<Longrightarrow> edge_bandwidth net u v = link_bandwidth lk"
  by (simp add: edge_bandwidth_def)

lemma net_cell:
  assumes "net_wf net" and "i < net_size net" and "j < net_size net"
  shows "sm_get (net_links net) i j = Some (net_link net i j)"
  using sm.get_total [of "net_links net" i j] assms
  by (auto simp: net_wf_def net_size_def sm_size_def net_link_def split: option.splits)

lemma net_wf_size: "net_wf net \<Longrightarrow> net_size net < 2 ^ 26"
  by (simp add: net_wf_def sm_wf_def net_size_def)

definition nbrs :: "'v network \<Rightarrow> nat \<Rightarrow> nat list" where
  "nbrs net u = filter (adjacent net u) [0..<net_size net]"

lemma net_neighbours_total:
  assumes "net_wf net" and "u < net_size net"
  shows "net_neighbours net u = Some (nbrs net u)"
proof -
  have "fold_opt
       (\<lambda>i neighbours. case sm_get (net_links net) u i of
            None \<Rightarrow> None
          | Some lk \<Rightarrow> Some (if lk \<noteq> None \<and> i \<noteq> u then neighbours @ [i] else neighbours))
       xs acc = Some (acc @ filter (adjacent net u) xs)" if "set xs \<subseteq> {..<net_size net}" for xs acc
    using that
  proof (induction xs arbitrary: acc)
    case (Cons x xs)
    then show ?case
      using net_cell [OF assms, of x] net_link_sym [of net x u] by (auto simp: adjacent_def)
  qed simp
  from this [of "[0..<net_size net]" "[]"] show ?thesis
    by (simp add: net_neighbours_def nbrs_def atLeast0LessThan)
qed

section \<open>The searches as label-correcting searches\<close>

text \<open>The graph the search sees; a source outside the network has no edges.\<close>

definition search_nbrs :: "'v network \<Rightarrow> nat \<Rightarrow> nat \<Rightarrow> nat list" where
  "search_nbrs net src u = (if net_wf net \<and> src < net_size net then nbrs net u else [])"

definition search_dim :: "'v network \<Rightarrow> nat \<Rightarrow> nat" where
  "search_dim net src = (if net_wf net \<and> src < net_size net then net_size net else Suc src)"

lemma search_nbrs_range: "v \<in> set (search_nbrs net src u) \<Longrightarrow> v < search_dim net src \<and> v \<noteq> u"
  by (auto simp: search_nbrs_def search_dim_def nbrs_def adjacent_def split: if_splits)

lemma search_nbrs_small: "v \<in> set (search_nbrs net src u) \<Longrightarrow> search_dim net src < 2 ^ 26"
  using net_wf_size by (auto simp: search_nbrs_def search_dim_def split: if_splits)

lemma src_search_dim: "src < search_dim net src"
  by (simp add: search_dim_def)

lemma unat_Suc_small: "unat (l :: u32) < 2 ^ 26 \<Longrightarrow> unat (l + 1) = Suc (unat l)"
  using unat_add_no_wrap [of l 1] by simp

interpretation sp: label_search
  "(<)" "\<lambda>u v l. l + 1" "search_nbrs net src" "search_dim net src" src 0 "\<lambda>k l. unat l = k"
  for net :: "'v network" and src :: nat
proof unfold_locales
  fix u v k j :: nat and l m :: u32
  assume v: "v \<in> set (search_nbrs net src u)"
  note small = search_nbrs_small [OF v]
  show "Suc k < search_dim net src \<Longrightarrow> unat l = k \<Longrightarrow> unat (l + 1) = Suc k"
    using small unat_Suc_small [of l] by simp
  show "k < search_dim net src \<Longrightarrow> unat l = k \<Longrightarrow> \<not> l + 1 < l"
    using small unat_Suc_small [of l] by (simp add: word_less_nat_alt)
  show "j < search_dim net src \<Longrightarrow> k < search_dim net src \<Longrightarrow> unat l = j \<Longrightarrow> unat m = k
      \<Longrightarrow> \<not> l < m \<Longrightarrow> \<not> l + 1 < m + 1"
    using small unat_Suc_small [of l] unat_Suc_small [of m] by (simp add: word_less_nat_alt)
qed (auto dest: search_nbrs_range simp: src_search_dim)

interpretation wp: label_search
  "(>)" "\<lambda>u v l. min l (edge_bandwidth net u v)" "search_nbrs net src" "search_dim net src" src
  "- 1" "\<lambda>_ _. True"
  for net :: "'v network" and src :: nat
  by unfold_locales
    (auto dest: search_nbrs_range simp: src_search_dim not_less min.coboundedI1 min.coboundedI2)

section \<open>The concrete loops\<close>

abbreviation shortest_inv :: "'v network \<Rightarrow> nat \<Rightarrow> search_state \<Rightarrow> bool" where
  "shortest_inv net src st \<equiv> sp.inv TYPE('v) net src st"

abbreviation widest_inv :: "'v network \<Rightarrow> nat \<Rightarrow> search_state \<Rightarrow> bool" where
  "widest_inv net src st \<equiv> wp.inv TYPE('v) net src st"

abbreviation widest_step :: "'v network \<Rightarrow> nat \<Rightarrow> nat \<Rightarrow> search_state \<Rightarrow> search_state" where
  "widest_step net u v st \<equiv> wp.relax TYPE('v) net u v st"

definition search_shape :: "'v network \<Rightarrow> nat \<Rightarrow> search_state \<Rightarrow> bool" where
  "search_shape net u st \<longleftrightarrow> (let (labs, par, q) = st in
     length labs = net_size net \<and> length par = net_size net \<and> labs ! u \<noteq> None)"

lemma shortest_relax_eq:
  assumes "v \<in> set (nbrs net u)" and "u < net_size net" and "search_shape net u st"
  shows "shortest_relax u v st = Some (sp.relax u v st) \<and> search_shape net u (sp.relax u v st)"
  using assms
  by (auto simp: shortest_relax_def sp.relax_def sp.improves_def search_shape_def Let_def nbrs_def
      nth_list_update adjacent_def split: prod.splits option.splits)

lemma widest_relax_eq:
  assumes "v \<in> set (nbrs net u)" and "u < net_size net" and "search_shape net u st"
  shows "widest_relax net u v st = Some (widest_step net u v st)
    \<and> search_shape net u (widest_step net u v st)"
proof -
  obtain lk where "net_link net u v = Some lk"
    using assms(1) net_link_sym [of net u v] by (auto simp: nbrs_def adjacent_def)
  then show ?thesis
    using assms
    by (auto simp: widest_relax_def wp.relax_def wp.improves_def search_shape_def Let_def nbrs_def
        nth_list_update adjacent_def edge_bandwidth_link less_max_iff_disj max_absorb2
        split: prod.splits option.splits)
qed

lemma search_params:
  assumes "net_wf net" and "src < net_size net"
  shows "search_nbrs net src = nbrs net" and "search_dim net src = net_size net"
  using assms by (auto simp: search_nbrs_def search_dim_def)

theorem shortest_loop_inv:
  assumes "net_wf net" and "src < net_size net" and "shortest_inv net src (labs, par, q)"
  shows "\<exists>labs' par'. shortest_loop net (labs, par, q) = Some (labs', par')
    \<and> shortest_inv net src (labs', par', [])"
  using assms
proof (induction net "(labs, par, q)" arbitrary: labs par q rule: shortest_loop.induct)
  case (1 net labs par q)
  note params = search_params [OF "1.prems"(1,2)]
  show ?case
  proof (cases "heap_pop q")
    case None
    then have "q = []" by simp
    moreover have "shortest_loop net (labs, par, q) = Some (labs, par)"
      using None by (subst shortest_loop.simps) (simp del: heap_pop_None)
    ultimately show ?thesis using "1.prems"(3) by auto
  next
    case (Some vr)
    obtain u l rest where vr: "vr = (Pair u l, rest)" by (metis pair.exhaust surj_pair)
    have pop: "Pair u l \<in> set q" "rest = remove1 (Pair u l) q"
      using heap_pop_Some Some vr by blast+
    obtain m where m: "u < net_size net" "labs ! u = Some m" "\<not> l < m"
      using sp.inv_popped [OF "1.prems"(3) pop(1)] params by metis
    have len: "length labs = net_size net" "length par = net_size net"
      using sp.inv_lengths [OF "1.prems"(3)] params by simp_all
    show ?thesis
    proof (cases "m < l")
      case True
      then have "labs ! u \<noteq> Some l" using m(2) by auto
      then have "shortest_inv net src (labs, par, rest)"
        using sp.inv_skip [OF "1.prems"(3)] pop(2) by simp
      with 1(1) [OF Some vr [symmetric]] "1.prems" m len True Some vr show ?thesis
        by (subst shortest_loop.simps) simp
    next
      case False
      with m have l: "labs ! u = Some l" by simp
      have nb: "net_neighbours net u = Some (nbrs net u)"
        using net_neighbours_total "1.prems" m by blast
      let ?st = "fold (sp.relax u) (nbrs net u) (labs, par, rest)"
      have inv: "shortest_inv net src ?st"
        using sp.inv_visit [OF "1.prems"(3) pop(1) l] pop(2) params by simp
      have fo: "fold_opt (shortest_relax u) (nbrs net u) (labs, par, rest) = Some ?st"
        using shortest_relax_eq [OF _ m(1)] m len
        by (intro fold_opt_total [where I = "search_shape net u"]) (auto simp: search_shape_def)
      obtain labs1 par1 q1 where st: "?st = (labs1, par1, q1)" by (cases ?st)
      from 1(2) [OF Some vr [symmetric]] inv fo st l nb len m "1.prems" Some vr show ?thesis
        by (subst shortest_loop.simps) simp
    qed
  qed
qed

theorem widest_loop_inv:
  assumes "net_wf net" and "src < net_size net" and "widest_inv net src (labs, par, q)"
  shows "\<exists>labs' par'. widest_loop net (labs, par, q) = Some (labs', par')
    \<and> widest_inv net src (labs', par', [])"
  using assms
proof (induction net "(labs, par, q)" arbitrary: labs par q rule: widest_loop.induct)
  case (1 net labs par q)
  note params = search_params [OF "1.prems"(1,2)]
  show ?case
  proof (cases "heap_pop q")
    case None
    then have "q = []" by simp
    moreover have "widest_loop net (labs, par, q) = Some (labs, par)"
      using None by (subst widest_loop.simps) (simp del: heap_pop_None)
    ultimately show ?thesis using "1.prems"(3) by auto
  next
    case (Some vr)
    obtain u l rest where vr: "vr = (Pair u l, rest)" by (metis pair.exhaust surj_pair)
    have pop: "Pair u l \<in> set q" "rest = remove1 (Pair u l) q"
      using heap_pop_Some Some vr by blast+
    obtain m where m: "u < net_size net" "labs ! u = Some m" "\<not> l > m"
      using wp.inv_popped [OF "1.prems"(3) pop(1)] params by metis
    have len: "length labs = net_size net" "length par = net_size net"
      using wp.inv_lengths [OF "1.prems"(3)] params by simp_all
    show ?thesis
    proof (cases "m > l")
      case True
      then have "labs ! u \<noteq> Some l" using m(2) by auto
      then have "widest_inv net src (labs, par, rest)"
        using wp.inv_skip [OF "1.prems"(3)] pop(2) by simp
      with 1(1) [OF Some vr [symmetric]] "1.prems" m len True Some vr show ?thesis
        by (subst widest_loop.simps) simp
    next
      case False
      with m have l: "labs ! u = Some l" by simp
      have nb: "net_neighbours net u = Some (nbrs net u)"
        using net_neighbours_total "1.prems" m by blast
      let ?st = "fold (widest_step net u) (nbrs net u) (labs, par, rest)"
      have inv: "widest_inv net src ?st"
        using wp.inv_visit [OF "1.prems"(3) pop(1) l] pop(2) params by simp
      have fo: "fold_opt (widest_relax net u) (nbrs net u) (labs, par, rest) = Some ?st"
        using widest_relax_eq [OF _ m(1)] m len
        by (intro fold_opt_total [where I = "search_shape net u"]) (auto simp: search_shape_def)
      obtain labs1 par1 q1 where st: "?st = (labs1, par1, q1)" by (cases ?st)
      from 1(2) [OF Some vr [symmetric]] inv fo st l nb len m "1.prems" Some vr show ?thesis
        by (subst widest_loop.simps) simp
    qed
  qed
qed

section \<open>What a search returns\<close>

text \<open>What both searches establish about their parents vector: the labelled vertices are the
  reachable ones, each has a chain of parents that is a simple walk to the source, and a vertex
  without a parent is the source or unreachable.\<close>

definition path_tree :: "'v network \<Rightarrow> nat \<Rightarrow> labels \<Rightarrow> parents \<Rightarrow> bool" where
  "path_tree net src labs par \<longleftrightarrow>
     length labs = net_size net \<and> length par = net_size net
     \<and> (\<forall>v < net_size net.
          (labs ! v \<noteq> None \<longleftrightarrow> (\<exists>p. walk_between net src v p))
        \<and> (par ! v = None \<longleftrightarrow> labs ! v = None \<or> v = src)
        \<and> (labs ! v \<noteq> None \<longrightarrow>
             (\<exists>p. par_chain par (v # p) \<and> distinct (v # p) \<and> walk_between net src v (v # p))))"

lemma nbrs_set: "v \<in> set (nbrs net u) \<longleftrightarrow> v < net_size net \<and> adjacent net u v"
  by (auto simp: nbrs_def)

lemma net_walk_Cons [simp]:
  "net_walk net (v # p) \<longleftrightarrow> v < net_size net \<and> (p = [] \<or> adjacent net (hd p) v \<and> net_walk net p)"
  by (cases p) auto

lemma net_walk_range: "net_walk net p \<Longrightarrow> set p \<subseteq> {..<net_size net}"
  by (induction p) auto

lemma walk_between_not_Nil [simp]: "\<not> walk_between net src v []"
  by (simp add: walk_between_def)

text \<open>The walks of the two instances are the walks of the network.\<close>

lemma sp_wlk_iff:
  fixes net :: "'v network"
  assumes "net_wf net" and "src < net_size net"
  shows "sp.wlk TYPE('v) net src p l
    \<longleftrightarrow> net_walk net p \<and> last p = src \<and> l = of_nat (length p - 1)"
proof (induction p arbitrary: l rule: induct_list012)
  case 1
  show ?case by (auto elim: sp.wlk.cases)
next
  case (2 u)
  show ?case using assms by (auto simp: sp.wlk_single)
next
  case (3 v u p)
  show ?case
    unfolding sp.wlk_Cons 3(2) using search_params [OF assms] by (auto simp: nbrs_set)
qed

lemma wp_wlk_iff:
  fixes net :: "'v network"
  assumes "net_wf net" and "src < net_size net"
  shows "wp.wlk TYPE('v) net src p l
    \<longleftrightarrow> net_walk net p \<and> last p = src \<and> l = walk_bandwidth net p"
proof (induction p arbitrary: l rule: induct_list012)
  case 1
  show ?case by (auto elim: wp.wlk.cases)
next
  case (2 u)
  show ?case using assms by (auto simp: wp.wlk_single)
next
  case (3 v u p)
  show ?case
    unfolding wp.wlk_Cons 3(2) using search_params [OF assms] by (auto simp: nbrs_set)
qed

lemma sp_pchain: "sp.pchain src par p \<Longrightarrow> par_chain par p \<and> last p = src"
  by (induction rule: sp.pchain.induct) auto

lemma wp_pchain: "wp.pchain src par p \<Longrightarrow> par_chain par p \<and> last p = src"
  by (induction rule: wp.pchain.induct) auto

lemma walk_between_Cons: "walk_between net src v p \<Longrightarrow> \<exists>q. p = v # q"
  by (cases p) (auto simp: walk_between_def)

lemma sp_tree:
  assumes wf: "net_wf net" "src < net_size net" and inv: "shortest_inv net src (labs, par, [])"
  shows "path_tree net src labs par"
proof -
  note [simp] = search_params [OF wf]
  have wlk: "(\<exists>l. sp.wlk TYPE('a) net src (v # p) l) \<longleftrightarrow> walk_between net src v (v # p)" for v p
    unfolding sp_wlk_iff [OF wf] by (simp add: walk_between_def)
  have ex: "(\<exists>p. walk_between net src v p) \<longleftrightarrow> (\<exists>p l. sp.wlk TYPE('a) net src (v # p) l)" for v
    unfolding wlk using walk_between_Cons by blast
  show ?thesis
    unfolding path_tree_def ex wlk [symmetric]
    using sp.inv_lengths [OF inv] sp.finished_tree [OF inv] sp_pchain by fastforce
qed

lemma wp_tree:
  assumes wf: "net_wf net" "src < net_size net" and inv: "widest_inv net src (labs, par, [])"
  shows "path_tree net src labs par"
proof -
  note [simp] = search_params [OF wf]
  have wlk: "(\<exists>l. wp.wlk TYPE('a) net src (v # p) l) \<longleftrightarrow> walk_between net src v (v # p)" for v p
    unfolding wp_wlk_iff [OF wf] by (simp add: walk_between_def)
  have ex: "(\<exists>p. walk_between net src v p) \<longleftrightarrow> (\<exists>p l. wp.wlk TYPE('a) net src (v # p) l)" for v
    unfolding wlk using walk_between_Cons by blast
  show ?thesis
    unfolding path_tree_def ex wlk [symmetric]
    using wp.inv_lengths [OF inv] wp.finished_tree [OF inv] wp_pchain by fastforce
qed

lemma par_chain_unique: "par_chain par p \<Longrightarrow> par_chain par q \<Longrightarrow> hd p = hd q \<Longrightarrow> p = q"
proof (induction p arbitrary: q rule: induct_list012)
  case (2 u)
  then show ?case by (cases "(par, q)" rule: par_chain.cases) auto
next
  case (3 v u p)
  from "3.prems" obtain q' where q: "q = v # u # q'" "par_chain par (u # q')"
    by (cases "(par, q)" rule: par_chain.cases) auto
  then show ?case using "3.IH"(2) [OF _ q(2)] "3.prems"(1) by simp
qed simp

lemma widest_optimal:
  assumes wf: "net_wf net" "src < net_size net" and inv: "widest_inv net src (labs, par, [])"
  shows "net_walk net p \<Longrightarrow> last p = src \<Longrightarrow> \<exists>m. labs ! hd p = Some m \<and> walk_bandwidth net p \<le> m"
proof (induction p rule: induct_list012)
  case (2 u)
  have "labs ! src = Some (- 1)" using inv wp.inv0D(2) unfolding wp.inv_def wp.source_ok_def by blast
  with 2 show ?case by simp
next
  case (3 v u p)
  then obtain m where m: "labs ! u = Some m" "walk_bandwidth net (u # p) \<le> m" by auto
  have "v \<in> set (search_nbrs net src u)" "u < search_dim net src"
    using 3 search_params [OF wf] by (auto simp: nbrs_set)
  then have "wp.good labs v (min m (edge_bandwidth net u v))"
    using wp.finished_closed [OF inv _ m(1)] by blast
  then obtain k where k: "labs ! v = Some k" "min m (edge_bandwidth net u v) \<le> k"
    unfolding wp.good_def not_less by blast
  have "min (walk_bandwidth net (u # p)) (edge_bandwidth net u v) \<le> min m (edge_bandwidth net u v)"
    using m(2) by (rule min.mono) simp
  from order_trans [OF this k(2)] k(1) show ?case by simp
qed simp

lemma shortest_label_small:
  assumes wf: "net_wf net" "src < net_size net" and inv: "shortest_inv net src (labs, par, [])"
    and v: "v < net_size net" "labs ! v = Some d"
  shows "unat d < net_size net"
proof -
  have v': "v < search_dim net src" using v(1) search_params [OF wf] by simp
  obtain p where "length (v # p) \<le> search_dim net src" "unat d = length p"
    by (rule sp.finished_label [OF inv v' v(2)]) blast
  then show ?thesis using search_params [OF wf] by simp
qed

lemma shortest_optimal:
  assumes wf: "net_wf net" "src < net_size net" and inv: "shortest_inv net src (labs, par, [])"
    and p: "net_walk net (v # p)" "last (v # p) = src"
  shows "\<exists>d. labs ! v = Some d \<and> unat d \<le> length p"
proof -
  have v: "v < net_size net" using p(1) by simp
  have w: "sp.wlk TYPE('a) net src (v # p) (of_nat (length p))"
    using sp_wlk_iff [OF wf] p by simp
  obtain d where d: "labs ! v = Some d" using sp.finished_reached [OF inv w] by auto
  have "unat d \<le> length p"
  proof (cases "length (v # p) \<le> net_size net")
    case True
    then have "sp.good labs v (of_nat (length p))"
      using sp.finished_optimal [OF inv w] search_params [OF wf] by simp
    then have "d \<le> of_nat (length p)" using d by (auto simp: sp.good_def not_less)
    moreover have "unat (of_nat (length p) :: u32) = length p"
      using True net_wf_size [OF wf(1)] by (simp add: unat_of_nat_small)
    ultimately show ?thesis by (simp add: word_le_nat_alt)
  next
    case False
    then show ?thesis using shortest_label_small [OF wf inv v d] by simp
  qed
  with d show ?thesis by blast
qed

text \<open>The label of a vertex for each strategy: the fewest edges, or the largest bandwidth, of
  a walk from the source; reached by the chain of parents.\<close>

definition shortest_labels :: "'v network \<Rightarrow> nat \<Rightarrow> labels \<Rightarrow> parents \<Rightarrow> bool" where
  "shortest_labels net src labs par \<longleftrightarrow>
     (\<forall>v < net_size net. \<forall>d. labs ! v = Some d \<longrightarrow>
        (\<forall>p. walk_between net src v (v # p) \<longrightarrow> unat d \<le> length p)
      \<and> (\<forall>p. par_chain par (v # p) \<longrightarrow> unat d = length p))"

definition widest_labels :: "'v network \<Rightarrow> nat \<Rightarrow> labels \<Rightarrow> parents \<Rightarrow> bool" where
  "widest_labels net src labs par \<longleftrightarrow>
     (\<forall>v < net_size net. \<forall>b. labs ! v = Some b \<longrightarrow>
        (\<forall>p. walk_between net src v (v # p) \<longrightarrow> walk_bandwidth net (v # p) \<le> b)
      \<and> (\<forall>p. par_chain par (v # p) \<longrightarrow> walk_bandwidth net (v # p) = b))"

lemma initial_labels:
  assumes "net_wf net" and "src < net_size net"
  shows "shortest_inv net src ((replicate (net_size net) None)[src := Some 0],
      replicate (net_size net) None, heap_push (Pair src 0) [])"
    and "widest_inv net src ((replicate (net_size net) None)[src := Some (- 1)],
      replicate (net_size net) None, heap_push (Pair src (- 1)) [])"
  using sp.inv_initial [of net src] wp.inv_initial [of net src] search_params [OF assms] by simp_all

theorem shortest_path_result:
  assumes wf: "net_wf net" "src < net_size net"
  shows "\<exists>labs par. net_shortest_path net src = Some (labs, par) \<and> path_tree net src labs par
    \<and> shortest_labels net src labs par"
proof -
  obtain labs par where run: "net_shortest_path net src = Some (labs, par)"
    and inv: "shortest_inv net src (labs, par, [])"
    using shortest_loop_inv [OF wf initial_labels(1) [OF wf]] wf(2)
    by (auto simp: net_shortest_path_def)
  note tree = sp_tree [OF wf inv]
  have "unat d = length p"
    if v: "v < net_size net" "labs ! v = Some d" and p: "par_chain par (v # p)" for v d p
  proof -
    obtain q where q: "sp.pchain src par (v # q)" "distinct (v # q)"
      using sp.finished_has_chain [OF inv, of v] v search_params [OF wf] by auto
    then have [simp]: "q = p" using par_chain_unique [of par "v # q" "v # p"] sp_pchain p by auto
    have w: "sp.wlk TYPE('a) net src (v # p) d"
      using sp.finished_chain [OF inv q(1)] v search_params [OF wf] by auto
    then have nw: "net_walk net (v # p)" "d = of_nat (length p)"
      using sp_wlk_iff [OF wf] by simp_all
    have "set (v # p) \<subseteq> {..<net_size net}" using net_walk_range [OF nw(1)] .
    then have "length (v # p) \<le> net_size net"
      using q(2) card_mono [of "{..<net_size net}" "set (v # p)"] by (simp add: distinct_card)
    then show ?thesis using nw(2) net_wf_size [OF wf(1)] by (simp add: unat_of_nat_small)
  qed
  moreover have "unat d \<le> length p"
    if "labs ! v = Some d" "walk_between net src v (v # p)" for v d p
    using shortest_optimal [OF wf inv, of v p] that by (simp add: walk_between_def)
  ultimately have "shortest_labels net src labs par" unfolding shortest_labels_def by blast
  with run tree show ?thesis by blast
qed

theorem widest_path_result:
  assumes wf: "net_wf net" "src < net_size net"
  shows "\<exists>labs par. net_widest_path net src = Some (labs, par) \<and> path_tree net src labs par
    \<and> widest_labels net src labs par"
proof -
  obtain labs par where run: "net_widest_path net src = Some (labs, par)"
    and inv: "widest_inv net src (labs, par, [])"
    using widest_loop_inv [OF wf initial_labels(2) [OF wf]] wf(2)
    by (auto simp: net_widest_path_def)
  note tree = wp_tree [OF wf inv]
  have "walk_bandwidth net (v # p) = b"
    if v: "v < net_size net" "labs ! v = Some b" and p: "par_chain par (v # p)" for v b p
  proof -
    obtain q where q: "wp.pchain src par (v # q)"
      using wp.finished_has_chain [OF inv, of v] v search_params [OF wf] by auto
    then have [simp]: "q = p" using par_chain_unique [of par "v # q" "v # p"] wp_pchain p by auto
    have "wp.wlk TYPE('a) net src (v # p) b"
      using wp.finished_chain [OF inv q(1)] v search_params [OF wf] by auto
    then show ?thesis using wp_wlk_iff [OF wf] by simp
  qed
  moreover have "walk_bandwidth net (v # p) \<le> b"
    if "labs ! v = Some b" "walk_between net src v (v # p)" for v b p
    using widest_optimal [OF wf inv, of "v # p"] that by (simp add: walk_between_def)
  ultimately have "widest_labels net src labs par" unfolding widest_labels_def by blast
  with run tree show ?thesis by blast
qed

theorem path_between_result:
  assumes "net_wf net" and "src < net_size net"
  shows "\<exists>labs par. net_path_between net src = Some (labs, par) \<and> path_tree net src labs par
    \<and> (case net_strategy net of
         ShortestPath \<Rightarrow> shortest_labels net src labs par
       | WidestPath \<Rightarrow> widest_labels net src labs par)"
  using shortest_path_result [OF assms] widest_path_result [OF assms]
  by (cases "net_strategy net") (simp_all add: net_path_between_def)

end
