(* ===== verification/Netqueries.thy ===== *)
theory Netqueries
  imports Netpaths
begin

text \<open>
  The public interface of \<^verbatim>\<open>Network\<close>: the invariant between the vertex mapper and the
  link matrix and its preservation by every operation, and what each query returns, stated over
  the walks of the network.
\<close>

section \<open>The network invariant\<close>

definition link_at :: "('v \<Rightarrow> 'v \<Rightarrow> bool) \<Rightarrow> 'v network \<Rightarrow> nat \<Rightarrow> nat \<Rightarrow> 'v link \<Rightarrow> bool" where
  "link_at veq net i j lk \<longleftrightarrow>
     {lk_internal_source lk, lk_internal_destination lk} = {i, j}
     \<and> net_map veq net (lk_source lk) = Some (lk_internal_source lk)
     \<and> net_map veq net (lk_destination lk) = Some (lk_internal_destination lk)"

definition mapper_ok :: "('v \<Rightarrow> 'v \<Rightarrow> bool) \<Rightarrow> 'v network \<Rightarrow> bool" where
  "mapper_ok veq net \<longleftrightarrow> hm_distinct veq (net_mapper net) \<and> distinct (map snd (net_mapper net))
     \<and> (\<forall>i \<in> set (map snd (net_mapper net)). i < net_size net)"

definition net_inv :: "('v \<Rightarrow> 'v \<Rightarrow> bool) \<Rightarrow> 'v network \<Rightarrow> bool" where
  "net_inv veq net \<longleftrightarrow> net_wf net \<and> mapper_ok veq net
     \<and> (\<forall>i < net_size net. \<forall>j < net_size net. \<forall>lk. net_link net i j = Some lk \<longrightarrow> link_at veq net i j lk)"

lemma net_map_lt: "mapper_ok veq net \<Longrightarrow> net_map veq net v = Some i \<Longrightarrow> i < net_size net"
  using hm_get_in [of veq "net_mapper net" v i] unfolding mapper_ok_def net_map_def by force

lemma net_map_two_Some:
  "net_map_two veq net v w = Some (i, j) \<longleftrightarrow> net_map veq net v = Some i \<and> net_map veq net w = Some j"
  by (auto simp: net_map_two_def split: option.splits)

context rust_eq
begin

lemma hm_get_inj:
  assumes "distinct (map snd m)" and "hm_get eq m v = Some i" and "hm_get eq m w = Some i"
  shows "eq v w"
proof -
  obtain a where a: "(a, i) \<in> set m" "eq a v" using hm_get_in [OF assms(2)] by blast
  obtain b where b: "(b, i) \<in> set m" "eq b w" using hm_get_in [OF assms(3)] by blast
  have "a = b" using assms(1) a(1) b(1) by (metis eq_key_imp_eq_value inj_onD distinct_map
        prod.inject snd_conv)
  with a(2) b(2) show ?thesis using eq_left [of a v w] by simp
qed

lemma net_map_inj:
  "mapper_ok eq net \<Longrightarrow> net_map eq net v = Some i \<Longrightarrow> net_map eq net w = Some i \<Longrightarrow> eq v w"
  unfolding mapper_ok_def net_map_def using hm_get_inj [of "net_mapper net" v i w] by blast

lemma net_map_cong: "eq v w \<Longrightarrow> net_map eq net v = net_map eq net w"
  unfolding net_map_def by (rule hm_get_cong)

text \<open>Equal links lie in the same cell, and so have the same hash key.\<close>

lemma link_eq_cell:
  assumes "link_at eq net i j a" and "link_at eq net k l b" and "link_eq eq a b"
  shows "{i, j} = {k, l}" and "link_hash_key a = link_hash_key b"
proof -
  have "lk_internal_source a = lk_internal_source b
      \<and> lk_internal_destination a = lk_internal_destination b
    \<or> lk_internal_destination a = lk_internal_source b
      \<and> lk_internal_source a = lk_internal_destination b"
    using assms net_map_cong [of "lk_source a" "lk_source b" net]
      net_map_cong [of "lk_destination a" "lk_destination b" net]
      net_map_cong [of "lk_destination a" "lk_source b" net]
      net_map_cong [of "lk_source a" "lk_destination b" net]
    unfolding link_at_def link_eq_def by auto
  then show "{i, j} = {k, l}" "link_hash_key a = link_hash_key b"
    using assms(1,2) unfolding link_at_def
    by (auto simp: link_hash_key_def Let_def insert_commute)
qed

lemma link_eq_refl: "link_eq eq a a"
  by (simp add: link_eq_def refl)

end

subsection \<open>Writing a link\<close>

lemma net_put_link_total:
  assumes "net_wf net" and "i < net_size net" and "j < net_size net"
  shows "\<exists>net'. net_put_link net i j x = Some net' \<and> net_wf net' \<and> net_size net' = net_size net
    \<and> net_mapper net' = net_mapper net \<and> net_strategy net' = net_strategy net
    \<and> (\<forall>k < net_size net. \<forall>l < net_size net.
         net_link net' k l = (if i = k \<and> j = l \<or> i = l \<and> j = k then x else net_link net k l))"
proof -
  obtain links where l: "sm_set (net_links net) i j x = Some links" "sm_wf links"
    "sm_size links = sm_size (net_links net)"
    using sm.put_total [of "net_links net" i j x] assms
    by (auto simp: net_wf_def net_size_def sm_size_def)
  then show ?thesis
    using sm.get_put [of "net_links net" i j _ _ x links] assms
    by (auto simp: net_put_link_def net_wf_def net_size_def sm_size_def net_link_def)
qed

lemma link_at_mapper:
  "net_mapper net' = net_mapper net \<Longrightarrow> link_at veq net' i j lk = link_at veq net i j lk"
  by (simp add: link_at_def net_map_def)

lemma link_at_commute: "link_at veq net i j lk = link_at veq net j i lk"
  by (simp add: link_at_def insert_commute)

lemma net_put_link_inv:
  assumes inv: "net_inv veq net" and ij: "i < net_size net" "j < net_size net"
    and x: "\<And>lk. x = Some lk \<Longrightarrow> link_at veq net i j lk"
  shows "\<exists>net'. net_put_link net i j x = Some net' \<and> net_inv veq net' \<and> net_size net' = net_size net
    \<and> net_mapper net' = net_mapper net \<and> net_strategy net' = net_strategy net
    \<and> (\<forall>k < net_size net. \<forall>l < net_size net.
         net_link net' k l = (if i = k \<and> j = l \<or> i = l \<and> j = k then x else net_link net k l))"
proof -
  have wf: "net_wf net" using inv by (simp add: net_inv_def)
  obtain net' where n: "net_put_link net i j x = Some net'" "net_wf net'"
    "net_size net' = net_size net" "net_mapper net' = net_mapper net"
    "net_strategy net' = net_strategy net"
    and l: "\<forall>k < net_size net. \<forall>l < net_size net.
         net_link net' k l = (if i = k \<and> j = l \<or> i = l \<and> j = k then x else net_link net k l)"
    using net_put_link_total [OF wf ij] by blast
  have "link_at veq net' k m lk"
    if "k < net_size net" "m < net_size net" "net_link net' k m = Some lk" for k m lk
    using that l inv x link_at_commute [of veq net i j] link_at_mapper [OF n(4)]
    by (auto simp: net_inv_def split: if_splits)
  moreover have "mapper_ok veq net'"
    using inv n by (simp add: net_inv_def mapper_ok_def)
  ultimately have "net_inv veq net'" using n by (simp add: net_inv_def)
  with n l show ?thesis by blast
qed

subsection \<open>The operations keep the invariant\<close>

lemma link_at_built:
  assumes "net_map veq net from = Some i" and "net_map veq net to = Some j"
  shows "link_at veq net i j (link_build from to i j bw)"
    and "link_at veq net i j (link_build_all from to i j bw lj dr)"
  using assms by (simp_all add: link_at_def link_build_def link_build_all_def)

text \<open>What \<^verbatim>\<open>add_edge\<close> and \<^verbatim>\<open>update_bandwidth\<close> leave in each cell.\<close>

definition edge_added :: "('v \<Rightarrow> 'v \<Rightarrow> bool) \<Rightarrow> 'v network \<Rightarrow> 'v \<Rightarrow> 'v
    \<Rightarrow> (nat \<Rightarrow> nat \<Rightarrow> 'v link option \<Rightarrow> 'v link option) \<Rightarrow> 'v network \<Rightarrow> bool" where
  "edge_added veq net from to g net' \<longleftrightarrow> net_inv veq net' \<and> net_size net' = net_size net
     \<and> net_mapper net' = net_mapper net \<and> net_strategy net' = net_strategy net
     \<and> (\<forall>k < net_size net. \<forall>l < net_size net. net_link net' k l =
          (case net_map_two veq net from to of
             None \<Rightarrow> net_link net k l
           | Some (i, j) \<Rightarrow> if i = k \<and> j = l \<or> i = l \<and> j = k then g i j (net_link net k l)
                          else net_link net k l))"

lemma add_edge_result:
  assumes "net_inv veq net"
  shows "\<exists>net'. net_add_edge veq net from to bw = Some net'
    \<and> edge_added veq net from to (\<lambda>i j _. Some (link_build from to i j bw)) net'"
proof (cases "net_map_two veq net from to")
  case None
  with assms show ?thesis by (simp add: net_add_edge_def edge_added_def)
next
  case (Some ij)
  obtain i j where ij: "ij = (i, j)" by (cases ij)
  have m: "net_map veq net from = Some i" "net_map veq net to = Some j"
    using Some ij by (simp_all add: net_map_two_Some)
  have lt: "i < net_size net" "j < net_size net"
    using m assms net_map_lt by (auto simp: net_inv_def)
  from net_put_link_inv [OF assms lt, of "Some (link_build from to i j bw)"] link_at_built(1) [OF m]
  show ?thesis using Some ij by (auto simp: net_add_edge_def edge_added_def)
qed

lemma add_edge_with_props_result:
  assumes "net_inv veq net"
  shows "\<exists>net'. net_add_edge_with_props veq net from to bw lj dr = Some net'
    \<and> edge_added veq net from to (\<lambda>i j _. Some (link_build_all from to i j bw lj dr)) net'"
proof (cases "net_map_two veq net from to")
  case None
  with assms show ?thesis by (simp add: net_add_edge_with_props_def edge_added_def)
next
  case (Some ij)
  obtain i j where ij: "ij = (i, j)" by (cases ij)
  have m: "net_map veq net from = Some i" "net_map veq net to = Some j"
    using Some ij by (simp_all add: net_map_two_Some)
  have lt: "i < net_size net" "j < net_size net"
    using m assms net_map_lt by (auto simp: net_inv_def)
  from net_put_link_inv [OF assms lt, of "Some (link_build_all from to i j bw lj dr)"]
    link_at_built(2) [OF m]
  show ?thesis using Some ij by (auto simp: net_add_edge_with_props_def edge_added_def)
qed

definition set_bandwidth :: "u32 \<Rightarrow> 'v link \<Rightarrow> 'v link" where
  "set_bandwidth b lk = lk\<lparr>lk_bandwidth := b\<rparr>"

lemma link_at_set_bandwidth [simp]:
  "link_at veq net i j (set_bandwidth b lk) = link_at veq net i j lk"
  by (simp add: link_at_def set_bandwidth_def)

lemma update_bandwidth_inter_result:
  assumes inv: "net_inv veq net" and ij: "i < net_size net" "j < net_size net"
  shows "\<exists>net'. net_update_bandwidth_inter net i j b = Some net' \<and> net_inv veq net'
    \<and> net_size net' = net_size net
    \<and> net_mapper net' = net_mapper net \<and> net_strategy net' = net_strategy net
    \<and> (\<forall>k < net_size net. \<forall>l < net_size net. net_link net' k l =
         (if i = k \<and> j = l \<or> i = l \<and> j = k then map_option (set_bandwidth b) (net_link net k l)
          else net_link net k l))"
proof -
  have wf: "net_wf net" using inv by (simp add: net_inv_def)
  note cell = net_cell [OF wf ij]
  show ?thesis
  proof (cases "net_link net i j")
    case None
    then show ?thesis
      using inv cell net_link_sym [of net i j] by (auto simp: net_update_bandwidth_inter_def)
  next
    case (Some lk)
    then have "link_at veq net i j (set_bandwidth b lk)" using inv ij by (simp add: net_inv_def)
    with net_put_link_inv [OF inv ij, of "Some (set_bandwidth b lk)"]
    obtain net' where put: "net_put_link net i j (Some (set_bandwidth b lk)) = Some net'"
      and n: "net_inv veq net'" "net_size net' = net_size net" "net_mapper net' = net_mapper net"
      "net_strategy net' = net_strategy net"
      and l: "\<forall>k < net_size net. \<forall>l < net_size net. net_link net' k l =
         (if i = k \<and> j = l \<or> i = l \<and> j = k then Some (set_bandwidth b lk) else net_link net k l)"
      by auto
    have upd: "net_update_bandwidth_inter net i j b = Some net'"
      using Some cell put by (simp add: net_update_bandwidth_inter_def set_bandwidth_def)
    have sym: "net_link net j i = Some lk" using Some net_link_sym [of net i j] by simp
    have "net_link net' k m =
         (if i = k \<and> j = m \<or> i = m \<and> j = k then map_option (set_bandwidth b) (net_link net k m)
          else net_link net k m)" if km: "k < net_size net" "m < net_size net" for k m
    proof (cases "i = k \<and> j = m \<or> i = m \<and> j = k")
      case True
      then have "net_link net k m = Some lk" using Some sym by blast
      moreover have "net_link net' k m = Some (set_bandwidth b lk)" using l km True by presburger
      ultimately show ?thesis unfolding if_P [OF True] by (simp only: option.map)
    next
      case False
      show ?thesis using l km unfolding if_not_P [OF False] using False by presburger
    qed
    then show ?thesis
      by (intro exI [of _ net'] conjI allI impI) (rule upd n | assumption)+
  qed
qed

lemma update_bandwidth_result:
  assumes "net_inv veq net"
  shows "\<exists>net'. net_update_bandwidth veq net from to b = Some net'
    \<and> edge_added veq net from to (\<lambda>i j. map_option (set_bandwidth b)) net'"
proof (cases "net_map_two veq net from to")
  case None
  with assms show ?thesis by (simp add: net_update_bandwidth_def edge_added_def)
next
  case (Some ij)
  obtain i j where ij: "ij = (i, j)" by (cases ij)
  have m: "net_map veq net from = Some i" "net_map veq net to = Some j"
    using Some ij by (simp_all add: net_map_two_Some)
  have lt: "i < net_size net" "j < net_size net"
    using m assms net_map_lt by (auto simp: net_inv_def)
  from update_bandwidth_inter_result [OF assms lt, of b]
  show ?thesis using Some ij by (auto simp: net_update_bandwidth_def edge_added_def)
qed

subsection \<open>Creation and edition of vertices\<close>

lemma snd_insert: "set (map snd (hm_insert veq k i m)) \<subseteq> insert i (set (map snd m))"
proof (induction m)
  case (Cons p m)
  then show ?case by (cases p; cases "veq (fst p) k") auto
qed simp

lemma distinct_snd_insert:
  "distinct (map snd m) \<Longrightarrow> i \<notin> set (map snd m) \<Longrightarrow>
   distinct (map snd (hm_insert veq k i m)) \<and> set (map snd (hm_insert veq k i m)) \<subseteq> insert i (set (map snd m))"
proof (induction m)
  case (Cons p m)
  have "snd p \<notin> set (map snd (hm_insert veq k i m))"
    using snd_insert [of veq k i m] Cons.prems by auto
  with Cons snd_insert [of veq k i "p # m"] show ?case by (cases p) auto
qed simp

lemma hm_insert_fresh: "hm_get veq m k = None \<Longrightarrow> hm_insert veq k v m = m @ [(k, v)]"
  by (induction m) (auto split: if_splits)

lemma hm_remove_values:
  "hm_get veq m k = Some x \<Longrightarrow> add_mset x (mset (map snd (hm_remove veq k m))) = mset (map snd m)"
  by (induction m) (auto split: if_splits)

lemma net_size_edit [simp]: "net_size (net_edit_vertex veq net v) = net_size net"
  by (simp add: net_edit_vertex_def net_size_def split: option.splits)

lemma net_link_edit [simp]: "net_link (net_edit_vertex veq net v) i j = net_link net i j"
  by (simp add: net_edit_vertex_def net_link_def split: option.splits)

lemma net_wf_edit [simp]: "net_wf (net_edit_vertex veq net v) = net_wf net"
  by (simp add: net_edit_vertex_def net_wf_def split: option.splits)

context rust_eq
begin

lemma net_new_mapper:
  fixes vs :: "'k list"
  assumes "j \<le> length vs"
  defines "m \<equiv> fold (\<lambda>i acc. hm_insert eq (vs ! i) i acc) [0..<j] []"
  shows "hm_distinct eq m" and "distinct (map snd m)" and "set (map snd m) \<subseteq> {..<j}"
    and "hs_distinct eq vs \<Longrightarrow> i < j \<Longrightarrow> hm_get eq m (vs ! i) = Some i"
proof -
  have "hm_distinct eq m \<and> distinct (map snd m) \<and> set (map snd m) \<subseteq> {..<j}
    \<and> (hs_distinct eq vs \<longrightarrow> (\<forall>i < j. hm_get eq m (vs ! i) = Some i))"
    using assms(1) unfolding m_def
  proof (induction j)
    case (Suc j)
    let ?m = "fold (\<lambda>i acc. hm_insert eq (vs ! i) i acc) [0..<j] []"
    from Suc have ih: "hm_distinct eq ?m" "distinct (map snd ?m)" "set (map snd ?m) \<subseteq> {..<j}"
      "hs_distinct eq vs \<Longrightarrow> i < j \<Longrightarrow> hm_get eq ?m (vs ! i) = Some i" for i by auto
    have "j \<notin> set (map snd ?m)" using ih(3) by auto
    from distinct_snd_insert [OF ih(2) this, of eq "vs ! j"] ih(1,3) hm_distinct_insert
    have "hm_distinct eq (hm_insert eq (vs ! j) j ?m)
      \<and> distinct (map snd (hm_insert eq (vs ! j) j ?m))
      \<and> set (map snd (hm_insert eq (vs ! j) j ?m)) \<subseteq> {..<Suc j}" by fastforce
    moreover have "\<not> eq (vs ! j) (vs ! i)" if "hs_distinct eq vs" "i < j" for i
      using hs_distinct_nth [OF that(1), of j i] that(2) Suc.prems by simp
    ultimately show ?case using ih(4) refl by (auto simp: hm_get_insert less_Suc_eq)
  qed (simp add: hm_distinct_def hm_keys_def)
  then show "hm_distinct eq m" "distinct (map snd m)" "set (map snd m) \<subseteq> {..<j}"
    "hs_distinct eq vs \<Longrightarrow> i < j \<Longrightarrow> hm_get eq m (vs ! i) = Some i" by blast+
qed

lemma network_new_result:
  assumes "length vs < 2 ^ 26"
  shows "\<exists>net. network_new eq vs st = Some net \<and> net_inv eq net \<and> net_size net = length vs
    \<and> net_strategy net = st \<and> (\<forall>i < length vs. \<forall>j < length vs. net_link net i j = None)
    \<and> (hs_distinct eq vs \<longrightarrow> (\<forall>i < length vs. net_map eq net (vs ! i) = Some i))"
proof -
  obtain m :: "'k link option sym_matrix" where
    m: "sm_new_fn (length vs) (\<lambda>_ _. Some None) = Some m"
    using sm_new_fn_total [OF assms, of "\<lambda>_ _. Some None"] by blast
  note cells = sm_new_fn_Some [OF assms m]
  define net where "net = \<lparr>net_links = m,
    net_mapper = fold (\<lambda>i acc. hm_insert eq (vs ! i) i acc) [0..<length vs] [], net_strategy = st\<rparr>"
  have size: "net_size net = length vs" using cells(2) by (simp add: net_def net_size_def)
  have links: "\<forall>i < length vs. \<forall>j < length vs. net_link net i j = None"
    using cells(3) by (simp add: net_def net_link_def)
  have "mapper_ok eq net"
    using net_new_mapper(1-3) [of "length vs" vs] size
    by (auto simp: mapper_ok_def net_def)
  with size links cells(1) have "net_inv eq net"
    by (simp add: net_inv_def net_wf_def net_def)
  moreover have "network_new eq vs st = Some net" using m by (simp add: network_new_def net_def)
  moreover have "hs_distinct eq vs \<longrightarrow> (\<forall>i < length vs. net_map eq net (vs ! i) = Some i)"
    using net_new_mapper(4) [of "length vs" vs] by (simp add: net_def net_map_def)
  moreover have "net_strategy net = st" by (simp add: net_def)
  ultimately show ?thesis using size links by blast
qed

lemma hm_get_reinsert:
  "hm_distinct eq m \<Longrightarrow> hm_get eq m k = Some x \<Longrightarrow>
   hm_get eq (hm_insert eq k x (hm_remove eq k m)) w = hm_get eq m w"
  using hm_get_cong [of k w m] by (simp add: hm_get_insert hm_get_remove)

lemma edit_vertex_result:
  assumes inv: "net_inv eq net"
  shows "net_map eq (net_edit_vertex eq net v) w = net_map eq net w"
    and "net_inv eq (net_edit_vertex eq net v)"
    and "net_map eq net v \<noteq> None \<Longrightarrow> v \<in> set (net_vertices (net_edit_vertex eq net v))"
proof -
  have d: "hm_distinct eq (net_mapper net)" using inv by (simp add: net_inv_def mapper_ok_def)
  show same: "net_map eq (net_edit_vertex eq net v) w = net_map eq net w" for w
    using hm_get_reinsert [OF d]
    by (auto simp: net_edit_vertex_def net_map_def split: option.splits)
  have "mapper_ok eq (net_edit_vertex eq net v)"
  proof (cases "hm_get eq (net_mapper net) v")
    case None
    then show ?thesis using inv by (simp add: net_edit_vertex_def net_inv_def)
  next
    case (Some x)
    let ?m = "hm_insert eq v x (hm_remove eq v (net_mapper net))"
    have "hm_get eq (hm_remove eq v (net_mapper net)) v = None"
      using d by (simp add: hm_get_remove refl)
    then have "mset (map snd ?m) = mset (map snd (net_mapper net))"
      using hm_insert_fresh [of eq _ v x] hm_remove_values [OF Some] by simp
    then have "distinct (map snd ?m) = distinct (map snd (net_mapper net))"
      "set (map snd ?m) = set (map snd (net_mapper net))"
      by (metis mset_eq_imp_distinct_iff, metis set_mset_mset)
    moreover have "hm_distinct eq ?m" using d by (intro hm_distinct_insert hm_distinct_remove)
    ultimately show ?thesis
      using Some inv
      by (simp add: net_inv_def mapper_ok_def net_edit_vertex_def net_size_def)
  qed
  then show "net_inv eq (net_edit_vertex eq net v)"
    using inv same by (simp add: net_inv_def link_at_def)
  assume "net_map eq net v \<noteq> None"
  then obtain x where x: "hm_get eq (net_mapper net) v = Some x" by (auto simp: net_map_def)
  have "hm_get eq (hm_remove eq v (net_mapper net)) v = None"
    using d by (simp add: hm_get_remove refl)
  then show "v \<in> set (net_vertices (net_edit_vertex eq net v))"
    using x hm_insert_fresh [of eq _ v x]
    by (simp add: net_edit_vertex_def net_vertices_def hm_keys_def)
qed

end

end
