(* ===== verification/Netwalks.thy ===== *)
theory Netwalks
  imports Netqueries
begin

text \<open>
  What the queries that follow the parents vector return: \<^verbatim>\<open>bandwidth_between\<close>,
  \<^verbatim>\<open>properties_between\<close>, \<^verbatim>\<open>get_path_between\<close> and
  \<^verbatim>\<open>update_edges_along_path_by\<close>, for a network that satisfies its invariant.
\<close>

section \<open>The walk a query follows\<close>

text \<open>The best walk under the network's strategy, and simple.\<close>

definition best_walk :: "'v network \<Rightarrow> nat \<Rightarrow> nat \<Rightarrow> nat list \<Rightarrow> bool" where
  "best_walk net src v p \<longleftrightarrow> walk_between net src v p \<and> distinct p
     \<and> (\<forall>q. walk_between net src v q \<longrightarrow>
          (case net_strategy net of
             ShortestPath \<Rightarrow> length p \<le> length q
           | WidestPath \<Rightarrow> walk_bandwidth net q \<le> walk_bandwidth net p))"

definition reachable :: "'v network \<Rightarrow> nat \<Rightarrow> nat \<Rightarrow> bool" where
  "reachable net src v \<longleftrightarrow> (\<exists>p. walk_between net src v p)"

text \<open>What \<^verbatim>\<open>path_between\<close> tells a query about one destination.\<close>

definition chain_result :: "'v network \<Rightarrow> nat \<Rightarrow> nat \<Rightarrow> labels \<Rightarrow> parents \<Rightarrow> bool" where
  "chain_result net f t labs par \<longleftrightarrow>
     length labs = net_size net \<and> length par = net_size net
     \<and> (par ! t = None \<longleftrightarrow> t = f \<or> \<not> reachable net f t)
     \<and> (labs ! t = None \<longleftrightarrow> \<not> reachable net f t)
     \<and> (reachable net f t \<longrightarrow> (\<exists>p. par_chain par (t # p) \<and> best_walk net f t (t # p)
          \<and> (net_strategy net = WidestPath \<longrightarrow> labs ! t = Some (walk_bandwidth net (t # p)))))"

lemma chain_resultD:
  assumes "chain_result net f t labs par"
  shows "length labs = net_size net" and "length par = net_size net"
    and "par ! t = None \<longleftrightarrow> t = f \<or> \<not> reachable net f t"
    and "labs ! t = None \<longleftrightarrow> \<not> reachable net f t"
  using assms by (simp_all add: chain_result_def)

lemma chain_resultE:
  assumes "chain_result net f t labs par" and "reachable net f t"
  obtains p where "par_chain par (t # p)" and "best_walk net f t (t # p)"
    and "net_walk net (t # p)"
    and "net_strategy net = WidestPath \<longrightarrow> labs ! t = Some (walk_bandwidth net (t # p))"
  using assms unfolding chain_result_def best_walk_def walk_between_def by (elim conjE) auto

lemma shortest_labelsD:
  assumes "shortest_labels net f labs par" and "v < net_size net" and "labs ! v = Some d"
  shows "walk_between net f v (v # p) \<Longrightarrow> unat d \<le> length p"
    and "par_chain par (v # p) \<Longrightarrow> unat d = length p"
  using assms unfolding shortest_labels_def by blast+

lemma widest_labelsD:
  assumes "widest_labels net f labs par" and "v < net_size net" and "labs ! v = Some b"
  shows "walk_between net f v (v # p) \<Longrightarrow> walk_bandwidth net (v # p) \<le> b"
    and "par_chain par (v # p) \<Longrightarrow> walk_bandwidth net (v # p) = b"
  using assms unfolding widest_labels_def by blast+

lemma path_between_chain:
  assumes wf: "net_wf net" and f: "f < net_size net" and t: "t < net_size net"
  obtains labs par where "net_path_between net f = Some (labs, par)"
    and "chain_result net f t labs par"
proof -
  obtain labs par where run: "net_path_between net f = Some (labs, par)"
    and tree: "path_tree net f labs par"
    and best: "case net_strategy net of ShortestPath \<Rightarrow> shortest_labels net f labs par
       | WidestPath \<Rightarrow> widest_labels net f labs par"
    using path_between_result [OF wf f] by blast
  have labs: "labs ! t \<noteq> None \<longleftrightarrow> reachable net f t"
    using tree t by (simp add: path_tree_def reachable_def)
  have par: "par ! t = None \<longleftrightarrow> t = f \<or> \<not> reachable net f t"
    using tree t labs by (auto simp: path_tree_def)
  have chain: "\<exists>p. par_chain par (t # p) \<and> best_walk net f t (t # p)
      \<and> (net_strategy net = WidestPath \<longrightarrow> labs ! t = Some (walk_bandwidth net (t # p)))"
    if r: "reachable net f t"
  proof -
    obtain l where l: "labs ! t = Some l" using labs r by blast
    obtain p where p: "par_chain par (t # p)" "distinct (t # p)" "walk_between net f t (t # p)"
      using tree t l unfolding path_tree_def by blast
    have "case net_strategy net of ShortestPath \<Rightarrow> length (t # p) \<le> length q
      | WidestPath \<Rightarrow> walk_bandwidth net q \<le> walk_bandwidth net (t # p)"
      if q: "walk_between net f t q" for q
    proof -
      obtain r where r: "q = t # r" using walk_between_Cons [OF q] by blast
      show ?thesis
      proof (cases "net_strategy net")
        case ShortestPath
        then have "unat l = length p" "unat l \<le> length r"
          using best shortest_labelsD [OF _ t l] p(1) q r by simp_all
        then show ?thesis using ShortestPath r by simp
      next
        case WidestPath
        then have "walk_bandwidth net (t # p) = l" "walk_bandwidth net (t # r) \<le> l"
          using best widest_labelsD [OF _ t l] p(1) q r by simp_all
        then show ?thesis using WidestPath r by simp
      qed
    qed
    then have "best_walk net f t (t # p)" using p by (simp add: best_walk_def)
    moreover have "labs ! t = Some (walk_bandwidth net (t # p))" if "net_strategy net = WidestPath"
      using best that t l p(1) by (simp add: widest_labels_def)
    ultimately show ?thesis using p(1) by blast
  qed
  have "labs ! t = None \<longleftrightarrow> \<not> reachable net f t" using labs by blast
  then have "chain_result net f t labs par"
    unfolding chain_result_def using par chain tree by (simp add: path_tree_def)
  with run show ?thesis by (rule that)
qed

section \<open>Folding over the links of a walk\<close>

text \<open>The links of a walk, from its end to its source.\<close>

fun walk_links :: "'v network \<Rightarrow> nat list \<Rightarrow> 'v link list" where
  "walk_links net (v # u # p) = the (net_link net u v) # walk_links net (u # p)"
| "walk_links net p = []"

definition add_link_props :: "'v link \<Rightarrow> properties \<Rightarrow> properties" where
  "add_link_props lk acc = (let (bandwidth, drop_ratio, latency, jitter) = acc in
     (min bandwidth (link_bandwidth lk), fadd F32 drop_ratio (lk_drop lk),
      fadd F32 latency (fst (lk_latency_jitter lk)), fadd F32 jitter (snd (lk_latency_jitter lk))))"

lemma net_walk_link:
  assumes "net_walk net (v # u # p)"
  obtains lk where "net_link net u v = Some lk" and "net_link net v u = Some lk"
  using assms net_link_sym [of net u v] by (auto simp: adjacent_def)

lemma bandwidth_walk_chain:
  "par_chain par p \<Longrightarrow> net_walk net p \<Longrightarrow> length par = net_size net \<Longrightarrow>
   bandwidth_walk net par (hd p) s = Some (min s (walk_bandwidth net p))"
proof (induction p arbitrary: s rule: induct_list012)
  case (2 u)
  then show ?case by (subst bandwidth_walk.simps) (simp add: min_def)
next
  case (3 v u p)
  obtain lk where lk: "net_link net u v = Some lk" "net_link net v u = Some lk"
    using net_walk_link [OF "3.prems"(2)] .
  have "bandwidth_walk net par v s = bandwidth_walk net par u (min s (link_bandwidth lk))"
    using "3.prems" lk by (subst bandwidth_walk.simps) simp
  then show ?case
    using 3 lk by (simp add: edge_bandwidth_link min.assoc min.commute min.left_commute)
qed simp

lemma properties_walk_chain:
  "par_chain par p \<Longrightarrow> net_walk net p \<Longrightarrow> length par = net_size net \<Longrightarrow>
   properties_walk net par (hd p) acc = Some (fold add_link_props (walk_links net p) acc)"
proof (induction p arbitrary: acc rule: induct_list012)
  case (2 u)
  then show ?case by (subst properties_walk.simps) simp
next
  case (3 v u p)
  obtain lk where lk: "net_link net u v = Some lk" "net_link net v u = Some lk"
    using net_walk_link [OF "3.prems"(2)] .
  have "properties_walk net par v acc = properties_walk net par u (add_link_props lk acc)"
    using "3.prems" lk
    by (subst properties_walk.simps) (simp add: add_link_props_def split: prod.split)
  then show ?case using 3 lk by simp
qed simp

text \<open>The bandwidth component is the bandwidth of the walk.\<close>

lemma fold_props_bandwidth:
  "net_walk net p \<Longrightarrow> fst (fold add_link_props (walk_links net p) acc)
     = min (fst acc) (walk_bandwidth net p)"
proof (induction p arbitrary: acc rule: induct_list012)
  case (2 u)
  then show ?case by (simp add: min_def)
next
  case (3 v u p)
  obtain lk where lk: "net_link net u v = Some lk" using net_walk_link [OF "3.prems"(1)] .
  have "fst (add_link_props lk acc) = min (fst acc) (link_bandwidth lk)"
    by (cases acc) (simp add: add_link_props_def)
  then show ?case
    using 3 lk by (simp add: edge_bandwidth_link min.assoc min.commute min.left_commute)
qed simp

section \<open>bandwidth\_between and properties\_between\<close>

definition bandwidth_spec ::
  "('v \<Rightarrow> 'v \<Rightarrow> bool) \<Rightarrow> 'v network \<Rightarrow> 'v \<Rightarrow> 'v \<Rightarrow> u32 option \<Rightarrow> bool" where
  "bandwidth_spec veq net from to r \<longleftrightarrow>
     (case net_map_two veq net from to of
        None \<Rightarrow> r = None
      | Some (f, t) \<Rightarrow>
          if \<not> reachable net f t \<or> f = t \<and> net_strategy net = ShortestPath then r = None
          else \<exists>p. best_walk net f t p \<and> r = Some (walk_bandwidth net p))"

lemma bandwidth_between_spec:
  assumes inv: "net_inv veq net"
  shows "\<exists>r. net_bandwidth_between veq net from to = Some r \<and> bandwidth_spec veq net from to r"
proof (cases "net_map_two veq net from to")
  case None
  then show ?thesis by (simp add: net_bandwidth_between_def bandwidth_spec_def)
next
  case (Some ft)
  obtain f t where ft: "ft = (f, t)" by (cases ft)
  have wf: "net_wf net" and lt: "f < net_size net" "t < net_size net"
    using inv Some ft net_map_lt by (auto simp: net_inv_def net_map_two_Some)
  obtain labs par where run: "net_path_between net f = Some (labs, par)"
    and cr: "chain_result net f t labs par" by (rule path_between_chain [OF wf lt])
  note len = chain_resultD(1,2) [OF cr] and par = chain_resultD(3) [OF cr]
    and labs = chain_resultD(4) [OF cr]
  show ?thesis
  proof (cases "reachable net f t")
    case False
    then show ?thesis
      using Some ft run len par labs lt
      by (cases "net_strategy net") (simp_all add: net_bandwidth_between_def bandwidth_spec_def)
  next
    case True
    obtain p where p: "par_chain par (t # p)" "best_walk net f t (t # p)"
      and walk: "net_walk net (t # p)"
      and w: "net_strategy net = WidestPath \<longrightarrow> labs ! t = Some (walk_bandwidth net (t # p))"
      by (rule chain_resultE [OF cr True])
    have bw: "bandwidth_walk net par t (- 1) = Some (walk_bandwidth net (t # p))"
      using bandwidth_walk_chain [OF p(1) walk len(2)] by simp
    show ?thesis
    proof (cases "net_strategy net")
      case WidestPath
      then show ?thesis
        using Some ft run len lt True w p(2) by (auto simp: net_bandwidth_between_def bandwidth_spec_def)
    next
      case ShortestPath
      show ?thesis
      proof (cases "f = t")
        case True
        then show ?thesis using ShortestPath Some ft run len lt par
          by (simp add: net_bandwidth_between_def bandwidth_spec_def)
      next
        case False
        then obtain u where "par ! t = Some u" using par True by auto
        then have "net_bandwidth_between veq net from to = Some (Some (walk_bandwidth net (t # p)))"
          using ShortestPath Some ft run len lt bw by (simp add: net_bandwidth_between_def)
        then show ?thesis using Some ft True False p(2) by (auto simp: bandwidth_spec_def)
      qed
    qed
  qed
qed

definition properties_spec ::
  "('v \<Rightarrow> 'v \<Rightarrow> bool) \<Rightarrow> 'v network \<Rightarrow> 'v \<Rightarrow> 'v \<Rightarrow> properties option \<Rightarrow> bool" where
  "properties_spec veq net from to r \<longleftrightarrow>
     (case net_map_two veq net from to of
        None \<Rightarrow> r = None
      | Some (f, t) \<Rightarrow>
          if \<not> reachable net f t \<or> f = t then r = None
          else \<exists>p. best_walk net f t p
            \<and> r = Some (fold add_link_props (walk_links net p) (- 1, Fin 0, Fin 0, Fin 0)))"

lemma properties_between_spec:
  assumes inv: "net_inv veq net"
  shows "\<exists>r. net_properties_between veq net from to = Some r \<and> properties_spec veq net from to r"
proof (cases "net_map_two veq net from to")
  case None
  then show ?thesis by (simp add: net_properties_between_def properties_spec_def)
next
  case (Some ft)
  obtain f t where ft: "ft = (f, t)" by (cases ft)
  have wf: "net_wf net" and lt: "f < net_size net" "t < net_size net"
    using inv Some ft net_map_lt by (auto simp: net_inv_def net_map_two_Some)
  obtain labs par where run: "net_path_between net f = Some (labs, par)"
    and cr: "chain_result net f t labs par" by (rule path_between_chain [OF wf lt])
  note len = chain_resultD(2) [OF cr] and par = chain_resultD(3) [OF cr]
  show ?thesis
  proof (cases "par ! t")
    case None
    then show ?thesis using Some ft run len lt par
      by (auto simp: net_properties_between_def properties_spec_def)
  next
    case u: (Some u)
    then have r: "reachable net f t" "f \<noteq> t" using par by auto
    obtain p where p: "par_chain par (t # p)" "best_walk net f t (t # p)"
      and "net_walk net (t # p)" by (rule chain_resultE [OF cr r(1)])
    then have "net_properties_between veq net from to
        = Some (Some (fold add_link_props (walk_links net (t # p)) (- 1, Fin 0, Fin 0, Fin 0)))"
      using Some ft run len lt u properties_walk_chain [OF p(1) _ len]
      by (simp add: net_properties_between_def)
    moreover have "properties_spec veq net from to
        (Some (fold add_link_props (walk_links net (t # p)) (- 1, Fin 0, Fin 0, Fin 0)))"
      using Some ft r p(2) by (auto simp: properties_spec_def)
    ultimately show ?thesis by blast
  qed
qed

section \<open>get\_path\_between\<close>

definition walk_links_ok :: "('v \<Rightarrow> 'v \<Rightarrow> bool) \<Rightarrow> 'v network \<Rightarrow> nat list \<Rightarrow> 'v link list \<Rightarrow> bool" where
  "walk_links_ok veq net p seen \<longleftrightarrow>
     (\<forall>lk \<in> set seen. \<exists>i j. link_at veq net i j lk \<and> \<not> {i, j} \<subseteq> set p)"

context rust_eq
begin

lemma link_not_contained:
  assumes "walk_links_ok eq net p seen" and "link_at eq net i j lk" and "{i, j} \<subseteq> set p"
  shows "\<not> hs_contains (link_eq eq) seen lk"
proof
  assume "hs_contains (link_eq eq) seen lk"
  then obtain lk' where lk': "lk' \<in> set seen" "link_eq eq lk' lk" by (auto simp: hs_contains_iff)
  then obtain k l where kl: "link_at eq net k l lk'" "\<not> {k, l} \<subseteq> set p"
    using assms(1) unfolding walk_links_ok_def by blast
  from link_eq_cell(1) [OF kl(1) assms(2) lk'(2)] kl(2) assms(3) show False by simp
qed

text \<open>On a simple walk the assertion \<^verbatim>\<open>assert!(edges_set.insert(..))\<close> never fails.\<close>

lemma links_walk_chain:
  assumes "net_inv eq net" and "par_chain par p" and "net_walk net p" and "distinct p"
    and "length par = net_size net" and "walk_links_ok eq net p seen"
  shows "links_walk eq net par (hd p) links seen
    = Some (links @ walk_links net p, seen @ walk_links net p)"
  using assms
proof (induction p arbitrary: links seen rule: induct_list012)
  case (2 u)
  then show ?case by (subst links_walk.simps) simp
next
  case (3 v u p)
  obtain lk where lk: "net_link net u v = Some lk" "net_link net v u = Some lk"
    using net_walk_link [OF "3.prems"(3)] .
  have range: "u < net_size net" "v < net_size net"
    using net_walk_range [OF "3.prems"(3)] by auto
  then have at: "link_at eq net u v lk" using lk(1) "3.prems"(1) by (simp add: net_inv_def)
  have new: "\<not> hs_contains (link_eq eq) seen lk"
    using link_not_contained [OF "3.prems"(6) at] by simp
  have step: "links_walk eq net par v links seen
      = links_walk eq net par u (links @ [lk]) (seen @ [lk])"
    using "3.prems" lk new range by (subst links_walk.simps) (simp add: hs_insert_def)
  have "\<exists>i j. link_at eq net i j lk' \<and> \<not> {i, j} \<subseteq> set (u # p)"
    if mem: "lk' \<in> set (seen @ [lk])" for lk'
  proof (cases "lk' \<in> set seen")
    case True
    then obtain i j where "link_at eq net i j lk'" "\<not> {i, j} \<subseteq> set (v # u # p)"
      using "3.prems"(6) unfolding walk_links_ok_def by blast
    then have "link_at eq net i j lk' \<and> \<not> {i, j} \<subseteq> set (u # p)" by auto
    then show ?thesis by blast
  next
    case False
    then have "lk' = lk" using mem by simp
    moreover have "\<not> {u, v} \<subseteq> set (u # p)" using "3.prems"(4) by auto
    ultimately show ?thesis using at by blast
  qed
  then have ok: "walk_links_ok eq net (u # p) (seen @ [lk])"
    unfolding walk_links_ok_def by blast
  have "links_walk eq net par u (links @ [lk]) (seen @ [lk])
    = Some ((links @ [lk]) @ walk_links net (u # p), (seen @ [lk]) @ walk_links net (u # p))"
    using "3.IH"(2) [OF "3.prems"(1) _ _ _ "3.prems"(5) ok] "3.prems"(2-4) by simp
  with step lk show ?case by simp
qed simp

end

lemma link_eq_rust_eq: "rust_eq veq \<Longrightarrow> rust_eq (link_eq veq)"
  unfolding rust_eq_def link_eq_def by blast

lemma walk_links_at:
  "net_inv veq net \<Longrightarrow> net_walk net p \<Longrightarrow> lk \<in> set (walk_links net p) \<Longrightarrow>
   \<exists>i j. link_at veq net i j lk \<and> {i, j} \<subseteq> set p"
proof (induction p rule: induct_list012)
  case (3 v u p)
  obtain lk' where lk': "net_link net u v = Some lk'" using net_walk_link [OF "3.prems"(2)] .
  have at: "link_at veq net u v lk'"
    using lk' "3.prems"(1) net_walk_range [OF "3.prems"(2)] by (simp add: net_inv_def)
  show ?case
  proof (cases "lk = lk'")
    case True
    then show ?thesis using at by auto
  next
    case False
    then have "lk \<in> set (walk_links net (u # p))" using "3.prems"(3) lk' by simp
    then obtain i j where "link_at veq net i j lk" "{i, j} \<subseteq> set (u # p)"
      using "3.IH"(2) "3.prems"(1,2) by auto
    then show ?thesis by auto
  qed
qed simp_all

lemma walk_links_distinct:
  assumes veq: "rust_eq veq" and inv: "net_inv veq net"
  shows "net_walk net p \<Longrightarrow> distinct p \<Longrightarrow> hs_distinct (link_eq veq) (walk_links net p)"
proof (induction p rule: induct_list012)
  case (3 v u p)
  obtain lk where lk: "net_link net u v = Some lk" using net_walk_link [OF "3.prems"(1)] .
  have at: "link_at veq net u v lk"
    using lk inv net_walk_range [OF "3.prems"(1)] by (simp add: net_inv_def)
  have "\<not> link_eq veq lk' lk" if mem: "lk' \<in> set (walk_links net (u # p))" for lk'
  proof
    assume e: "link_eq veq lk' lk"
    obtain i j where ij: "link_at veq net i j lk'" "{i, j} \<subseteq> set (u # p)"
      using walk_links_at [OF inv, of "u # p" lk'] mem "3.prems"(1) by auto
    from rust_eq.link_eq_cell(1) [OF veq ij(1) at e] ij(2) "3.prems"(2) show False by auto
  qed
  then show ?case using 3 lk by (simp add: hs_contains_iff)
qed simp_all

definition path_spec ::
  "('v \<Rightarrow> 'v \<Rightarrow> bool) \<Rightarrow> 'v network \<Rightarrow> 'v \<Rightarrow> 'v \<Rightarrow> 'v path option \<Rightarrow> bool" where
  "path_spec veq net from to r \<longleftrightarrow>
     (case net_map_two veq net from to of
        None \<Rightarrow> r = None
      | Some (f, t) \<Rightarrow>
          if \<not> reachable net f t then r = Some path_new
          else \<exists>p. best_walk net f t p
            \<and> r = Some \<lparr>pth_links = rev (walk_links net p), pth_links_set = walk_links net p\<rparr>)"

lemma get_path_between_result:
  assumes veq: "rust_eq veq" and inv: "net_inv veq net"
  shows "\<exists>r. net_get_path_between veq net from to = Some r \<and> path_spec veq net from to r"
proof (cases "net_map_two veq net from to")
  case None
  then show ?thesis by (simp add: net_get_path_between_def path_spec_def)
next
  case (Some ft)
  obtain f t where ft: "ft = (f, t)" by (cases ft)
  have wf: "net_wf net" and lt: "f < net_size net" "t < net_size net"
    using inv Some ft net_map_lt by (auto simp: net_inv_def net_map_two_Some)
  obtain labs par where run: "net_path_between net f = Some (labs, par)"
    and cr: "chain_result net f t labs par" by (rule path_between_chain [OF wf lt])
  note len = chain_resultD(2) [OF cr] and par = chain_resultD(3) [OF cr]
  show ?thesis
  proof (cases "reachable net f t")
    case False
    then have "links_walk veq net par t [] [] = Some ([], [])"
      using par len lt by (subst links_walk.simps) simp
    then show ?thesis
      using Some ft run False by (simp add: net_get_path_between_def path_spec_def path_new_def)
  next
    case True
    obtain p where p: "par_chain par (t # p)" "best_walk net f t (t # p)"
      and walk: "net_walk net (t # p)" by (rule chain_resultE [OF cr True])
    have d: "distinct (t # p)" using p(2) by (simp add: best_walk_def)
    have "links_walk veq net par t [] []
      = Some (walk_links net (t # p), walk_links net (t # p))"
      using rust_eq.links_walk_chain [OF veq inv p(1) walk d len, of "[]" "[]"]
      by (simp add: walk_links_ok_def)
    then have "net_get_path_between veq net from to = Some (Some
        \<lparr>pth_links = rev (walk_links net (t # p)), pth_links_set = walk_links net (t # p)\<rparr>)"
      using Some ft run by (simp add: net_get_path_between_def)
    moreover have "path_spec veq net from to (Some
        \<lparr>pth_links = rev (walk_links net (t # p)), pth_links_set = walk_links net (t # p)\<rparr>)"
      using Some ft True p(2) unfolding path_spec_def by auto
    ultimately show ?thesis by blast
  qed
qed

section \<open>update\_edges\_along\_path\_by\<close>

fun on_walk :: "nat list \<Rightarrow> nat \<Rightarrow> nat \<Rightarrow> bool" where
  "on_walk (v # u # p) k l \<longleftrightarrow> k = v \<and> l = u \<or> k = u \<and> l = v \<or> on_walk (u # p) k l"
| "on_walk p k l \<longleftrightarrow> False"

lemma on_walk_vertices: "on_walk p k l \<Longrightarrow> k \<in> set p \<and> l \<in> set p"
  by (induction p k l rule: on_walk.induct) auto

lemma net_walk_links: "net_walk net p \<Longrightarrow> on_walk p k l \<Longrightarrow> net_link net k l \<noteq> None"
proof (induction p k l rule: on_walk.induct)
  case (1 v u p k l)
  obtain lk where "net_link net u v = Some lk" "net_link net v u = Some lk"
    using net_walk_link [OF "1.prems"(1)] .
  then show ?case using 1 by auto
qed simp_all

text \<open>Exactly the links of the best walk change, each to \<open>f\<close> of the bandwidth it offered.\<close>

definition edges_updated :: "('v \<Rightarrow> 'v \<Rightarrow> bool) \<Rightarrow> 'v network \<Rightarrow> (nat \<Rightarrow> nat \<Rightarrow> bool)
    \<Rightarrow> (u32 \<Rightarrow> u32) \<Rightarrow> 'v network \<Rightarrow> bool" where
  "edges_updated veq net on f net' \<longleftrightarrow>
     net_inv veq net' \<and> net_size net' = net_size net \<and> net_mapper net' = net_mapper net
     \<and> net_strategy net' = net_strategy net
     \<and> (\<forall>k < net_size net. \<forall>l < net_size net. net_link net' k l =
          (if on k l then map_option (\<lambda>lk. set_bandwidth (f (link_bandwidth lk)) lk) (net_link net k l)
           else net_link net k l))"

lemma update_edges_chain:
  assumes "net_inv veq net" and "par_chain par p" and "distinct p" and "set p \<subseteq> {..<net_size net}"
    and "\<And>k l. on_walk p k l \<Longrightarrow> net_link net k l \<noteq> None" and "length par = net_size net"
  shows "\<exists>net'. update_edges_walk par f (hd p) net = Some net'
    \<and> edges_updated veq net (on_walk p) f net'"
  using assms
proof (induction p arbitrary: net rule: induct_list012)
  case (2 u)
  then show ?case by (subst update_edges_walk.simps) (simp add: edges_updated_def)
next
  case (3 v u p)
  have range: "u < net_size net" "v < net_size net" "v \<noteq> u" "v \<notin> set (u # p)"
    using "3.prems"(3,4) by auto
  obtain lk where lk: "net_link net u v = Some lk" using "3.prems"(5) [of u v] by auto
  then have lk2: "net_link net v u = Some lk" using net_link_sym [of net u v] by simp
  obtain net1 where n1: "net_update_bandwidth_inter net u v (f (link_bandwidth lk)) = Some net1"
    "net_inv veq net1" "net_size net1 = net_size net" "net_mapper net1 = net_mapper net"
    "net_strategy net1 = net_strategy net"
    and l1: "\<forall>k < net_size net. \<forall>l < net_size net. net_link net1 k l =
         (if u = k \<and> v = l \<or> u = l \<and> v = k
          then map_option (set_bandwidth (f (link_bandwidth lk))) (net_link net k l)
          else net_link net k l)"
    using update_bandwidth_inter_result [OF "3.prems"(1) range(1,2)] by blast
  have step: "update_edges_walk par f v net = update_edges_walk par f u net1"
    using "3.prems" range lk n1(1) by (subst update_edges_walk.simps) simp
  have off: "\<not> (u = k \<and> v = l \<or> u = l \<and> v = k)" if "on_walk (u # p) k l" for k l
    using on_walk_vertices [OF that] range(4) by blast
  have some: "net_link net1 k l \<noteq> None" if w: "on_walk (u # p) k l" for k l
  proof -
    have "k < net_size net" "l < net_size net"
      using on_walk_vertices [OF w] "3.prems"(4) by auto
    then have "net_link net1 k l = net_link net k l"
      using l1 if_not_P [OF off [OF w]] by (metis (no_types))
    then show ?thesis using "3.prems"(5) w by simp
  qed
  obtain net2 where run: "update_edges_walk par f u net1 = Some net2"
    and e2: "edges_updated veq net1 (on_walk (u # p)) f net2"
    using "3.IH"(2) [OF n1(2) _ _ _ some] "3.prems"(2-4,6) n1(3-5) by auto
  then have n2: "net_inv veq net2" "net_size net2 = net_size net" "net_mapper net2 = net_mapper net"
    "net_strategy net2 = net_strategy net"
    and l2: "k < net_size net \<Longrightarrow> l < net_size net \<Longrightarrow> net_link net2 k l =
         (if on_walk (u # p) k l
          then map_option (\<lambda>lk. set_bandwidth (f (link_bandwidth lk)) lk) (net_link net1 k l)
          else net_link net1 k l)" for k l
    using n1 by (simp_all add: edges_updated_def)
  have "net_link net2 k l =
         (if on_walk (v # u # p) k l
          then map_option (\<lambda>lk. set_bandwidth (f (link_bandwidth lk)) lk) (net_link net k l)
          else net_link net k l)" if kl: "k < net_size net" "l < net_size net" for k l
  proof (cases "on_walk (u # p) k l")
    case True
    have "net_link net1 k l = net_link net k l"
      using l1 kl if_not_P [OF off [OF True]] by (metis (no_types))
    with True l2 [OF kl] show ?thesis by simp
  next
    case False
    then have e: "net_link net2 k l = net_link net1 k l" using l2 [OF kl] by simp
    show ?thesis
    proof (cases "u = k \<and> v = l \<or> u = l \<and> v = k")
      case True
      then have "net_link net k l = Some lk" using lk lk2 by blast
      moreover have "net_link net1 k l
        = map_option (set_bandwidth (f (link_bandwidth lk))) (net_link net k l)"
        using l1 kl True by presburger
      ultimately show ?thesis using True e by auto
    next
      case neither: False
      then have "net_link net1 k l = net_link net k l" using l1 kl by presburger
      with e False neither show ?thesis by auto
    qed
  qed
  then have "edges_updated veq net (on_walk (v # u # p)) f net2"
    unfolding edges_updated_def using n2 by blast
  moreover have "update_edges_walk par f (hd (v # u # p)) net = Some net2" using run step by simp
  ultimately show ?case by blast
qed simp

definition update_spec :: "('v \<Rightarrow> 'v \<Rightarrow> bool) \<Rightarrow> 'v network \<Rightarrow> 'v \<Rightarrow> 'v \<Rightarrow> (u32 \<Rightarrow> u32)
    \<Rightarrow> 'v network \<Rightarrow> bool" where
  "update_spec veq net from to f net' \<longleftrightarrow>
     (case net_map_two veq net from to of
        None \<Rightarrow> net' = net
      | Some (i, j) \<Rightarrow>
          if \<not> reachable net i j then net' = net
          else \<exists>p. best_walk net i j p \<and> edges_updated veq net (on_walk p) f net')"

lemma update_edges_result:
  assumes inv: "net_inv veq net"
  shows "\<exists>net'. net_update_edges_along_path_by veq net from to f = Some net'
    \<and> update_spec veq net from to f net'"
proof (cases "net_map_two veq net from to")
  case None
  then show ?thesis by (simp add: net_update_edges_along_path_by_def update_spec_def)
next
  case (Some ft)
  obtain i j where ft: "ft = (i, j)" by (cases ft)
  have wf: "net_wf net" and lt: "i < net_size net" "j < net_size net"
    using inv Some ft net_map_lt by (auto simp: net_inv_def net_map_two_Some)
  obtain labs par where run: "net_path_between net i = Some (labs, par)"
    and cr: "chain_result net i j labs par" by (rule path_between_chain [OF wf lt])
  note len = chain_resultD(2) [OF cr] and par = chain_resultD(3) [OF cr]
  have call: "net_update_edges_along_path_by veq net from to f = update_edges_walk par f j net"
    using Some ft run by (simp add: net_update_edges_along_path_by_def)
  show ?thesis
  proof (cases "reachable net i j")
    case False
    then have "update_edges_walk par f j net = Some net"
      using par len lt by (subst update_edges_walk.simps) simp
    with call False Some ft show ?thesis by (simp add: update_spec_def)
  next
    case True
    obtain p where p: "par_chain par (j # p)" "best_walk net i j (j # p)"
      and walk: "net_walk net (j # p)" by (rule chain_resultE [OF cr True])
    have d: "distinct (j # p)" using p(2) by (simp add: best_walk_def)
    obtain net' where run': "update_edges_walk par f j net = Some net'"
      and e: "edges_updated veq net (on_walk (j # p)) f net'"
      using update_edges_chain [OF inv p(1) d net_walk_range [OF walk] net_walk_links [OF walk] len]
      by auto
    have "update_spec veq net from to f net'"
      using Some ft True p(2) e unfolding update_spec_def by auto
    with call run' show ?thesis by simp
  qed
qed

end
