(* ===== verification/Randnet.thy ===== *)
theory Randnet
  imports Netqueries
begin

text \<open>
  The generator of random networks of \<^verbatim>\<open>netgraph/src/lib.rs\<close>: a random tree of bridges
  (the backbone), and terminals hung on it in groups of at most three. The random generator is a
  parameter: \<open>draw n g\<close> is what \<^verbatim>\<open>gen_range(0..n)\<close> gives in the state \<open>g\<close>, below \<open>n\<close>
  by its contract \<open>draws_in_range\<close>, and the next state; an empty range panics
  (\<^verbatim>\<open>None\<close>).
\<close>

section \<open>Random choices\<close>

definition draws_in_range :: "(nat \<Rightarrow> 'g \<Rightarrow> nat \<times> 'g) \<Rightarrow> bool" where
  "draws_in_range draw \<longleftrightarrow> (\<forall>n g. 0 < n \<longrightarrow> fst (draw n g) < n)"

definition gen_range :: "(nat \<Rightarrow> 'g \<Rightarrow> nat \<times> 'g) \<Rightarrow> nat \<Rightarrow> 'g \<Rightarrow> (nat \<times> 'g) option" where
  "gen_range draw n g = (if n = 0 then None else Some (draw n g))"

definition insert_set :: "'a \<Rightarrow> 'a list \<Rightarrow> bool \<times> 'a list" where
  "insert_set item xs = (if item \<in> set xs then (False, xs) else (True, xs @ [item]))"

definition get_random :: "(nat \<Rightarrow> 'g \<Rightarrow> nat \<times> 'g) \<Rightarrow> 'a list \<Rightarrow> 'g \<Rightarrow> 'a option \<times> 'g" where
  "get_random draw xs g =
     (case gen_range draw (length xs) g of None \<Rightarrow> (None, g) | Some (index, g') \<Rightarrow> (Some (xs ! index), g'))"

text \<open>\<^verbatim>\<open>swap_remove\<close>: the last element takes the place of the one removed.\<close>

definition swap_remove :: "nat \<Rightarrow> 'a list \<Rightarrow> 'a \<times> 'a list" where
  "swap_remove index xs = (xs ! index, butlast (xs[index := last xs]))"

definition remove_random ::
  "(nat \<Rightarrow> 'g \<Rightarrow> nat \<times> 'g) \<Rightarrow> 'a list \<Rightarrow> 'g \<Rightarrow> ('a \<times> 'a list) option \<times> 'g" where
  "remove_random draw xs g =
     (case gen_range draw (length xs) g of None \<Rightarrow> (None, g) | Some (index, g') \<Rightarrow> (Some (swap_remove index xs), g'))"

lemma gen_range_result: "draws_in_range draw \<Longrightarrow> 0 < n \<Longrightarrow> \<exists>i g'. gen_range draw n g = Some (i, g') \<and> i < n"
  by (metis draws_in_range_def gen_range_def neq0_conv prod.collapse)

lemma get_random_result: "draws_in_range draw \<Longrightarrow> xs \<noteq> [] \<Longrightarrow> \<exists>x g'. get_random draw xs g = (Some x, g') \<and> x \<in> set xs"
  using gen_range_result[of draw "length xs" g] by (auto simp: get_random_def)

lemma swap_remove_mset: "i < length xs \<Longrightarrow> mset xs = add_mset (fst (swap_remove i xs)) (mset (snd (swap_remove i xs)))"
proof -
  assume i: "i < length xs"
  then have ne: "xs \<noteq> []" by auto
  have "mset (butlast (xs[i := last xs])) = mset xs - {#xs ! i#}"
  proof (cases "i = length xs - 1")
    case True
    then have "xs[i := last xs] = xs" using ne by (simp add: last_conv_nth)
    then show ?thesis
      using True ne by (metis add_mset_remove_trivial append_butlast_last_id last_conv_nth mset.simps(2) mset_append
          union_mset_add_mset_right add.right_neutral mset.simps(1))
  next
    case False
    then have l: "i < length (butlast xs)" using i by simp
    have "xs = butlast xs @ [last xs]" using ne by simp
    then have "butlast (xs[i := last xs]) = (butlast xs)[i := last xs]"
      using l by (metis butlast_list_update list_update_append1 butlast_snoc)
    moreover have "mset ((butlast xs)[i := last xs]) = add_mset (last xs) (mset (butlast xs)) - {#butlast xs ! i#}"
      using l by (simp add: mset_update add_mset_remove_trivial_If)
    moreover have "add_mset (last xs) (mset (butlast xs)) = mset xs"
      using ne by (metis append_butlast_last_id mset.simps union_mset_add_mset_right mset_append add.right_neutral)
    moreover have "butlast xs ! i = xs ! i" using l by (simp add: nth_butlast)
    ultimately show ?thesis by simp
  qed
  then show ?thesis using i by (simp add: swap_remove_def)
qed

lemma remove_random_shorter: "remove_random draw xs g = (Some (a, ys), g') \<Longrightarrow> length ys < length xs"
proof -
  assume "remove_random draw xs g = (Some (a, ys), g')"
  then obtain i where "xs \<noteq> []" "ys = butlast (xs[i := last xs])"
    by (auto simp: remove_random_def gen_range_def swap_remove_def split: if_splits prod.splits)
  then show ?thesis by simp
qed

lemma remove_random_result:
  assumes range: "draws_in_range draw" and run: "remove_random draw xs g = (Some (a, ys), g')"
  shows "mset xs = add_mset a (mset ys)" "set xs = insert a (set ys)" "distinct xs \<Longrightarrow> a \<notin> set ys \<and> distinct ys"
proof -
  have ne: "xs \<noteq> []" using run by (auto simp: remove_random_def gen_range_def)
  define i where "i = fst (draw (length xs) g)"
  have i: "i < length xs" "swap_remove i xs = (a, ys)"
    using ne run range by (auto simp: i_def remove_random_def gen_range_def draws_in_range_def split: prod.splits)
  show m: "mset xs = add_mset a (mset ys)" using swap_remove_mset[OF i(1)] i(2) by simp
  show "set xs = insert a (set ys)" using arg_cong[OF m, of set_mset] by simp
  show "a \<notin> set ys \<and> distinct ys" if "distinct xs"
  proof -
    have "mset xs = mset (a # ys)" using m by simp
    then have "distinct (a # ys)" using that by (metis mset_eq_imp_distinct_iff)
    then show ?thesis by simp
  qed
qed

lemma remove_random_None: "fst (remove_random draw xs g) = None \<longleftrightarrow> xs = []"
  by (simp add: remove_random_def gen_range_def split: prod.split)

section \<open>The generator\<close>

text \<open>The loop over the bridges that are not visited yet.\<close>

function backbone_loop ::
  "(nat \<Rightarrow> 'g \<Rightarrow> nat \<times> 'g) \<Rightarrow> nat \<Rightarrow> 'g \<Rightarrow> nat list \<Rightarrow> nat list \<Rightarrow> nat network \<Rightarrow> ('g \<times> nat list \<times> nat network) option" where
  "backbone_loop draw diff_speeds g visited available net =
     (case remove_random draw available g of
        (None, g1) \<Rightarrow> Some (g1, visited, net)
      | (Some (a, available'), g1) \<Rightarrow>
          (case get_random draw visited g1 of
             (None, _) \<Rightarrow> None
           | (Some v, g2) \<Rightarrow>
               (case insert_set a visited of
                  (False, _) \<Rightarrow> None
                | (True, visited') \<Rightarrow>
                    (case gen_range draw diff_speeds g2 of
                       None \<Rightarrow> None
                     | Some (edge_speed, g3) \<Rightarrow>
                         (case net_add_edge (=) net v a (of_nat edge_speed) of
                            None \<Rightarrow> None
                          | Some net' \<Rightarrow> backbone_loop draw diff_speeds g3 visited' available' net')))))"
  by pat_completeness auto

termination
  by (relation "measure (\<lambda>(_, _, _, _, available, _). length available)") (auto dest: remove_random_shorter[OF sym])

declare backbone_loop.simps [simp del]

text \<open>One terminal of a group, hung on \<^verbatim>\<open>v\<close>.\<close>

definition place_terminal ::
  "(nat \<Rightarrow> 'g \<Rightarrow> nat \<times> 'g) \<Rightarrow> nat \<Rightarrow> nat \<Rightarrow> nat \<Rightarrow> nat \<Rightarrow> nat \<Rightarrow> 'g \<times> nat list \<times> nat network \<Rightarrow> ('g \<times> nat list \<times> nat network) option" where
  "place_terminal draw diff_speeds nb_term remaining v i st =
     (let (g, speeds, net) = st; current_node = nb_term - remaining + i
      in case gen_range draw diff_speeds g of
           None \<Rightarrow> None
         | Some (edge_speed, g') \<Rightarrow>
             (case set_at speeds current_node edge_speed of
                None \<Rightarrow> None
              | Some speeds' \<Rightarrow>
                  map_option (\<lambda>net'. (g', speeds', net')) (net_add_edge (=) net v current_node (of_nat edge_speed))))"

function terminal_loop ::
  "(nat \<Rightarrow> 'g \<Rightarrow> nat \<times> 'g) \<Rightarrow> nat \<Rightarrow> nat \<Rightarrow> nat list \<Rightarrow> nat \<Rightarrow> 'g \<times> nat list \<times> nat network \<Rightarrow> ('g \<times> nat list \<times> nat network) option" where
  "terminal_loop draw diff_speeds nb_term visited remaining st =
     (if remaining = 0 then Some st
      else (let (g, speeds, net) = st in
            case get_random draw visited g of
              (None, _) \<Rightarrow> None
            | (Some v, g1) \<Rightarrow>
                (case gen_range draw 3 g1 of
                   None \<Rightarrow> None
                 | Some (r, g2) \<Rightarrow>
                     let to_place = min (r + 1) remaining in
                     (case fold_opt (place_terminal draw diff_speeds nb_term remaining v) [0..<to_place] (g2, speeds, net) of
                        None \<Rightarrow> None
                      | Some st' \<Rightarrow> terminal_loop draw diff_speeds nb_term visited (remaining - to_place) st'))))"
  by pat_completeness auto

termination
  by (relation "measure (\<lambda>(_, _, _, _, remaining, _). remaining)") auto

declare terminal_loop.simps [simp del]

definition generate_random_network ::
  "(nat \<Rightarrow> 'g \<Rightarrow> nat \<times> 'g) \<Rightarrow> nat \<Rightarrow> nat \<Rightarrow> nat \<Rightarrow> path_strategy \<Rightarrow> 'g \<Rightarrow> (nat network \<times> nat list) option" where
  "generate_random_network draw nb_inter nb_term diff_speeds st g =
     (case network_new (=) [0..<nb_term + nb_inter] st of
        None \<Rightarrow> None
      | Some net \<Rightarrow>
          (case remove_random draw (map (\<lambda>i. i + nb_term) [0..<nb_inter]) g of
             (None, _) \<Rightarrow> None
           | (Some (first_node, available), g1) \<Rightarrow>
               (case backbone_loop draw diff_speeds g1 (snd (insert_set first_node [])) available net of
                  None \<Rightarrow> None
                | Some (g2, visited, net') \<Rightarrow>
                    map_option (\<lambda>(_, speeds, net''). (net'', speeds))
                      (terminal_loop draw diff_speeds nb_term visited nb_term (g2, replicate nb_term 0, net')))))"

section \<open>The network is connected\<close>

definition joined :: "nat network \<Rightarrow> nat \<Rightarrow> nat \<Rightarrow> bool" where
  "joined net a b \<longleftrightarrow> a < net_size net \<and> b < net_size net \<and> adjacent net a b"

definition connected_on :: "nat network \<Rightarrow> nat set \<Rightarrow> bool" where
  "connected_on net S \<longleftrightarrow> (\<forall>u \<in> S. \<forall>v \<in> S. (joined net)\<^sup>*\<^sup>* u v)"

text \<open>A network on the numbers below its size, where each is its own index.\<close>

definition numbered_net :: "nat \<Rightarrow> nat network \<Rightarrow> bool" where
  "numbered_net n net \<longleftrightarrow> net_inv (=) net \<and> net_size net = n \<and> (\<forall>v < n. net_map (=) net v = Some v)"

definition linked :: "nat \<Rightarrow> nat network \<Rightarrow> nat \<Rightarrow> nat \<Rightarrow> u32 \<Rightarrow> nat network \<Rightarrow> bool" where
  "linked n net u v bw net' \<longleftrightarrow> numbered_net n net' \<and> (\<forall>k < n. \<forall>l < n. net_link net' k l
      = (if u = k \<and> v = l \<or> u = l \<and> v = k then Some (link_build u v u v bw) else net_link net k l))"

lemma linked_link:
  "linked n net u v bw net' \<Longrightarrow> k < n \<Longrightarrow> l < n \<Longrightarrow> net_link net' k l
      = (if u = k \<and> v = l \<or> u = l \<and> v = k then Some (link_build u v u v bw) else net_link net k l)"
  by (simp add: linked_def)

lemma add_edge_numbered:
  assumes net: "numbered_net n net" and uv: "u < n" "v < n"
  shows "\<exists>net'. net_add_edge (=) net u v bw = Some net' \<and> linked n net u v bw net'"
proof -
  have two: "net_map_two (=) net u v = Some (u, v)" using assms by (simp add: net_map_two_Some numbered_net_def)
  have inv: "net_inv (=) net" and size: "net_size net = n" using net by (simp_all add: numbered_net_def)
  obtain net' where net': "net_add_edge (=) net u v bw = Some net'"
    "edge_added (=) net u v (\<lambda>i j _. Some (link_build u v i j bw)) net'"
    using add_edge_result[OF inv, of u v bw] by blast
  have "net_map (=) net' w = net_map (=) net w" for w
    using net'(2) by (simp add: edge_added_def net_map_def)
  then have "numbered_net n net'"
    using net'(2) net by (simp add: edge_added_def numbered_net_def)
  then have "linked n net u v bw net'"
    using net'(2) unfolding edge_added_def two size linked_def by simp
  then show ?thesis using net'(1) by blast
qed

text \<open>A vertex without a link of its own, hung on a connected set, extends it.\<close>

lemma connected_extend:
  assumes net: "numbered_net n net" and linked: "linked n net u v bw net'" and uv: "u < n" "v < n" "u \<noteq> v" "u \<in> S"
    and conn: "connected_on net S"
  shows "connected_on net' (insert v S)"
proof -
  have size: "net_size net = n" "net_size net' = n" using net linked by (simp_all add: numbered_net_def linked_def)
  note link = linked_link[OF linked]
  have "joined net' a b" if "joined net a b" for a b
  proof -
    from that have "a < n" "b < n" "b \<noteq> a" "net_link net b a \<noteq> None" by (simp_all add: joined_def adjacent_def size)
    then show ?thesis by (simp add: joined_def adjacent_def size link)
  qed
  then have mono: "(joined net')\<^sup>*\<^sup>* a b" if "(joined net)\<^sup>*\<^sup>* a b" for a b
    using that by (rule_tac mono_rtranclp[rule_format, of "joined net" "joined net'"])
  have "joined net' u v" "joined net' v u"
    using uv by (simp_all add: joined_def adjacent_def size link)
  then have uv: "(joined net')\<^sup>*\<^sup>* u v" "(joined net')\<^sup>*\<^sup>* v u" by (simp_all add: r_into_rtranclp)
  have S: "(joined net')\<^sup>*\<^sup>* a b" if "a \<in> S" "b \<in> S" for a b
    using conn that by (intro mono) (simp add: connected_on_def)
  show ?thesis
    unfolding connected_on_def
  proof (intro ballI)
    fix a b
    assume "a \<in> insert v S" "b \<in> insert v S"
    then have "(joined net')\<^sup>*\<^sup>* a u" "(joined net')\<^sup>*\<^sup>* u b" using S uv \<open>u \<in> S\<close> by auto
    then show "(joined net')\<^sup>*\<^sup>* a b" by (rule rtranclp_trans)
  qed
qed

lemma connected_reachable:
  assumes "(joined net)\<^sup>*\<^sup>* f t" "f < net_size net"
  shows "\<exists>p. walk_between net f t p"
  using assms
proof (induction rule: rtranclp_induct)
  case base
  then show ?case by (intro exI[of _ "[f]"]) (simp add: walk_between_def)
next
  case (step u v)
  then obtain p where p: "walk_between net f u p" by blast
  then obtain ps where ps: "p = u # ps" by (cases p) (auto simp: walk_between_def)
  then have "walk_between net f v (v # p)"
    using p step(2) by (auto simp: walk_between_def joined_def)
  then show ?case ..
qed

section \<open>The backbone\<close>

definition bare :: "nat \<Rightarrow> nat \<Rightarrow> nat network \<Rightarrow> nat \<Rightarrow> bool" where
  "bare n nb_term net k \<longleftrightarrow> (\<forall>t. k \<le> t \<and> t < nb_term \<longrightarrow> (\<forall>j < n. net_link net t j = None))"

definition backbone :: "nat \<Rightarrow> nat \<Rightarrow> nat list \<Rightarrow> nat list \<Rightarrow> nat network \<Rightarrow> bool" where
  "backbone n nb_term visited available net \<longleftrightarrow>
     numbered_net n net \<and> visited \<noteq> [] \<and> distinct (visited @ available)
     \<and> set (visited @ available) = {nb_term..<n} \<and> connected_on net (set visited) \<and> bare n nb_term net 0"

lemma backbone_grows:
  assumes range: "draws_in_range draw" and inv: "backbone n nb_term visited available net" and diff: "0 < diff"
  shows "\<exists>g' visited' net'. backbone_loop draw diff g visited available net = Some (g', visited', net')
    \<and> backbone n nb_term visited' [] net'"
  using inv
proof (induction "length available" arbitrary: g visited available net rule: less_induct)
  case less
  show ?case
  proof (cases "fst (remove_random draw available g)")
    case None
    then have "available = []" by (simp add: remove_random_None)
    then show ?thesis using less.prems by (subst backbone_loop.simps) (simp add: remove_random_def gen_range_def)
  next
    case (Some r)
    then obtain a available' g1 where r: "remove_random draw available g = (Some (a, available'), g1)"
      by (cases r; cases "remove_random draw available g") auto
    note R = remove_random_result[OF range r]
    obtain v g2 where v: "get_random draw visited g1 = (Some v, g2)" "v \<in> set visited"
      using get_random_result[OF range, of visited g1] less.prems by (auto simp: backbone_def)
    have fresh: "a \<notin> set visited" "distinct (visited @ a # available')"
      using less.prems R(2,3) by (auto simp: backbone_def)
    obtain speed g3 where speed: "gen_range draw diff g2 = Some (speed, g3)" using gen_range_result[OF range diff, of g2] by blast
    have lt: "v < n" "a < n" "nb_term \<le> v" "nb_term \<le> a" "v \<noteq> a"
      using less.prems v(2) R(2) fresh by (auto simp: backbone_def)
    have net: "numbered_net n net" using less.prems by (simp add: backbone_def)
    obtain net' where net': "net_add_edge (=) net v a (of_nat speed) = Some net'" "linked n net v a (of_nat speed) net'"
      using add_edge_numbered[OF net lt(1,2), of "of_nat speed"] by blast
    note link = linked_link[OF net'(2)]
    have num: "numbered_net n net'" using net'(2) by (simp add: linked_def)
    have "connected_on net (set visited)" using less.prems by (simp add: backbone_def)
    from connected_extend[OF net net'(2) lt(1,2,5) v(2) this]
    have "connected_on net' (insert a (set visited))" .
    moreover have "bare n nb_term net' 0" using less.prems lt by (auto simp: backbone_def bare_def link)
    ultimately have "backbone n nb_term (visited @ [a]) available' net'"
      using less.prems num fresh(2) R(2) by (auto simp: backbone_def)
    from less.hyps[OF remove_random_shorter[OF r] this, of g3] show ?thesis
      using r v(1) fresh(1) speed net'(1) by (subst backbone_loop.simps) (simp add: insert_set_def)
  qed
qed

section \<open>The terminals\<close>

text \<open>The terminal \<^verbatim>\<open>t\<close> has one link, to a bridge, of the speed that is recorded for it.\<close>

definition hung :: "nat \<Rightarrow> nat \<Rightarrow> nat network \<Rightarrow> nat list \<Rightarrow> nat \<Rightarrow> bool" where
  "hung n nb_term net speeds t \<longleftrightarrow> (\<exists>v l. nb_term \<le> v \<and> v < n \<and> net_link net t v = Some l
     \<and> link_bandwidth l = of_nat (speeds ! t) \<and> (\<forall>j < n. j \<noteq> v \<longrightarrow> net_link net t j = None))"

definition terminals :: "nat \<Rightarrow> nat \<Rightarrow> nat \<Rightarrow> nat list \<Rightarrow> nat network \<Rightarrow> bool" where
  "terminals n nb_term k speeds net \<longleftrightarrow>
     numbered_net n net \<and> length speeds = nb_term \<and> connected_on net ({..<k} \<union> {nb_term..<n})
     \<and> bare n nb_term net k \<and> (\<forall>t < k. hung n nb_term net speeds t)"

lemma place_terminal_result:
  assumes range: "draws_in_range draw" and inv: "terminals n nb_term k speeds net" and k: "k < nb_term" "k = nb_term - remaining + i"
    and v: "nb_term \<le> v" "v < n" and diff: "0 < diff"
  shows "\<exists>g' speeds' net'. place_terminal draw diff nb_term remaining v i (g, speeds, net) = Some (g', speeds', net')
    \<and> terminals n nb_term (Suc k) speeds' net'"
proof -
  obtain speed g' where speed: "gen_range draw diff g = Some (speed, g')" using gen_range_result[OF range diff, of g] by blast
  have len: "length speeds = nb_term" and net: "numbered_net n net" using inv by (simp_all add: terminals_def)
  let ?speeds = "speeds[k := speed]"
  have kn: "k < n" "v \<noteq> k" using k v by simp_all
  obtain net' where net': "net_add_edge (=) net v k (of_nat speed) = Some net'" "linked n net v k (of_nat speed) net'"
    using add_edge_numbered[OF net v(2) kn(1), of "of_nat speed"] by blast
  note link = linked_link[OF net'(2)]
  have num: "numbered_net n net'" using net'(2) by (simp add: linked_def)
  have "connected_on net ({..<k} \<union> {nb_term..<n})" using inv by (simp add: terminals_def)
  from connected_extend[OF net net'(2) v(2) kn _ this] v
  have "connected_on net' (insert k ({..<k} \<union> {nb_term..<n}))" by simp
  moreover have "insert k ({..<k} \<union> {nb_term..<n}) = {..<Suc k} \<union> {nb_term..<n}" by auto
  ultimately have conn: "connected_on net' ({..<Suc k} \<union> {nb_term..<n})" by simp
  have bare: "bare n nb_term net' (Suc k)" using inv v by (auto simp: terminals_def bare_def link)
  have old: "hung n nb_term net' ?speeds t" if t: "t < k" for t
  proof -
    obtain w l where w: "nb_term \<le> w" "w < n" "net_link net t w = Some l" "link_bandwidth l = of_nat (speeds ! t)"
      "\<forall>j < n. j \<noteq> w \<longrightarrow> net_link net t j = None"
      using inv t by (auto simp: terminals_def hung_def)
    have "net_link net' t j = net_link net t j" if "j < n" for j
      using link[of t j] that t k(1) v kn(1) by auto
    then show ?thesis using w t unfolding hung_def by (intro exI[of _ w] exI[of _ l]) simp
  qed
  have new: "hung n nb_term net' ?speeds k"
  proof -
    have "net_link net' k v = Some (link_build v k v k (of_nat speed))" using link[of k v] v kn by simp
    moreover have "net_link net' k j = None" if "j < n" "j \<noteq> v" for j
      using link[of k j] that kn inv k(1) by (auto simp: terminals_def bare_def)
    ultimately show ?thesis
      using v len k(1) unfolding hung_def
      by (intro exI[of _ v] exI[of _ "link_build v k v k (of_nat speed)"]) (simp add: link_build_def link_build_all_def link_bandwidth_def)
  qed
  have "terminals n nb_term (Suc k) ?speeds net'"
    using num len conn bare old new by (auto simp: terminals_def less_Suc_eq)
  then show ?thesis
    using speed net'(1) len k by (simp add: place_terminal_def set_at_def Let_def)
qed


lemma place_group_result:
  assumes range: "draws_in_range draw" and v: "nb_term \<le> v" "v < n" and diff: "0 < diff" and rem: "remaining \<le> nb_term" and m: "m \<le> remaining"
    and start: "terminals n nb_term (nb_term - remaining) speeds net"
  shows "\<exists>g' speeds' net'. fold_opt (place_terminal draw diff nb_term remaining v) [0..<m] (g, speeds, net)
      = Some (g', speeds', net') \<and> terminals n nb_term (nb_term - remaining + m) speeds' net'"
  using m
proof (induction m)
  case 0
  then show ?case using start by simp
next
  case (Suc m)
  have "m \<le> remaining" using Suc.prems by simp
  from Suc.IH[OF this] obtain g1 speeds1 net1 where
    run: "fold_opt (place_terminal draw diff nb_term remaining v) [0..<m] (g, speeds, net) = Some (g1, speeds1, net1)"
    and inv: "terminals n nb_term (nb_term - remaining + m) speeds1 net1" by blast
  have k: "nb_term - remaining + m < nb_term" using Suc.prems rem by simp
  obtain g2 speeds2 net2 where
    "place_terminal draw diff nb_term remaining v m (g1, speeds1, net1) = Some (g2, speeds2, net2)"
    "terminals n nb_term (Suc (nb_term - remaining + m)) speeds2 net2"
    using place_terminal_result[OF range inv k refl v diff, of g1] by blast
  then show ?case using run by (simp add: fold_opt_append)
qed

lemma terminals_hung:
  assumes range: "draws_in_range draw" and diff: "0 < diff" and visited: "visited \<noteq> []" "set visited \<subseteq> {nb_term..<n}"
    and "remaining \<le> nb_term" "terminals n nb_term (nb_term - remaining) speeds net"
  shows "\<exists>g' speeds' net'. terminal_loop draw diff nb_term visited remaining (g, speeds, net) = Some (g', speeds', net')
    \<and> terminals n nb_term nb_term speeds' net'"
  using assms(5,6)
proof (induction remaining arbitrary: g speeds net rule: less_induct)
  case (less remaining)
  show ?case
  proof (cases "remaining = 0")
    case True
    then show ?thesis using less.prems by (subst terminal_loop.simps) simp
  next
    case False
    obtain v g1 where v: "get_random draw visited g = (Some v, g1)" "v \<in> set visited"
      using get_random_result[OF range visited(1)] by blast
    obtain r g2 where r: "gen_range draw 3 g1 = Some (r, g2)" using gen_range_result[OF range, of 3 g1] by auto
    define m where "m = min (Suc r) remaining"
    have m: "m \<le> remaining" "0 < m" using False by (simp_all add: m_def)
    have vn: "nb_term \<le> v" "v < n" using v(2) visited(2) by auto
    obtain g3 speeds3 net3 where
      run: "fold_opt (place_terminal draw diff nb_term remaining v) [0..<m] (g2, speeds, net) = Some (g3, speeds3, net3)"
      and inv: "terminals n nb_term (nb_term - remaining + m) speeds3 net3"
      using place_group_result[OF range vn diff less.prems(1) m(1) less.prems(2), of g2] by blast
    have "nb_term - remaining + m = nb_term - (remaining - m)" using m less.prems(1) by simp
    with inv have inv': "terminals n nb_term (nb_term - (remaining - m)) speeds3 net3" by metis
    have "remaining - m < remaining" "remaining - m \<le> nb_term" using m less.prems(1) by simp_all
    from less.IH[OF this inv', of g3] obtain g4 speeds4 net4 where
      "terminal_loop draw diff nb_term visited (remaining - m) (g3, speeds3, net3) = Some (g4, speeds4, net4)"
      "terminals n nb_term nb_term speeds4 net4" by blast
    then show ?thesis
      using False v(1) r run by (subst terminal_loop.simps) (simp add: m_def[symmetric] Let_def)
  qed
qed

section \<open>The whole generator\<close>

lemma numbered_net_new:
  assumes "n < 2 ^ 26"
  obtains net where "network_new (=) [0..<n] st = Some net" "numbered_net n net" "net_strategy net = st"
    "\<And>i j. i < n \<Longrightarrow> j < n \<Longrightarrow> net_link net i j = None"
proof -
  have "hs_distinct (=) [0..<n]" by (simp add: hs_distinct_HOL)
  then show ?thesis
    using hol_eq.network_new_result[of "[0..<n]" st] assms that by (auto simp: numbered_net_def)
qed

text \<open>No backbone, no network: the draw of the first bridge is unwrapped.\<close>

lemma generate_without_bridges: "generate_random_network draw 0 nb_term diff st g = None"
  by (auto simp: generate_random_network_def remove_random_def gen_range_def split: option.split)

lemma generate_connected:
  assumes range: "draws_in_range draw" and bridges: "0 < nb_inter" and diff: "0 < diff" and size: "nb_term + nb_inter < 2 ^ 26"
  shows "\<exists>net speeds. generate_random_network draw nb_inter nb_term diff st g = Some (net, speeds)
    \<and> terminals (nb_term + nb_inter) nb_term nb_term speeds net"
proof -
  let ?n = "nb_term + nb_inter"
  let ?bridges = "map (\<lambda>i. i + nb_term) [0..<nb_inter]"
  obtain net where net: "network_new (=) [0..<?n] st = Some net" "numbered_net ?n net"
    "\<And>i j. i < ?n \<Longrightarrow> j < ?n \<Longrightarrow> net_link net i j = None"
    using numbered_net_new[OF size] by metis
  have "?bridges \<noteq> []" using bridges by simp
  then obtain a available g1 where a: "remove_random draw ?bridges g = (Some (a, available), g1)"
    using remove_random_None[of draw ?bridges g] by (metis option.exhaust prod.exhaust prod.sel(1))
  note R = remove_random_result[OF range a]
  have set: "set ?bridges = {nb_term..<?n}" by (auto simp: image_iff intro!: bexI[of _ "x - nb_term" for x])
  have "distinct ?bridges" by (simp add: distinct_map inj_on_def)
  then have "backbone ?n nb_term [a] available net"
    using net(2,3) R(2,3) set by (auto simp: backbone_def connected_on_def bare_def)
  from backbone_grows[OF range this diff] obtain g2 visited net1 where
    loop: "backbone_loop draw diff g1 [a] available net = Some (g2, visited, net1)" and B: "backbone ?n nb_term visited [] net1"
    by blast
  have "terminals ?n nb_term (nb_term - nb_term) (replicate nb_term 0) net1"
    using B by (auto simp: terminals_def backbone_def)
  then obtain g3 speeds net2 where
    "terminal_loop draw diff nb_term visited nb_term (g2, replicate nb_term 0, net1) = Some (g3, speeds, net2)"
    "terminals ?n nb_term nb_term speeds net2"
    using terminals_hung[OF range diff, of visited nb_term ?n nb_term "replicate nb_term 0" net1 g2] B
    by (auto simp: backbone_def)
  then show ?thesis using net(1) a loop by (simp add: generate_random_network_def insert_set_def)
qed

lemma generated_walks:
  assumes "terminals (nb_term + nb_inter) nb_term nb_term speeds net"
    and "f < nb_term + nb_inter" "t < nb_term + nb_inter"
  shows "\<exists>p. walk_between net f t p"
proof (rule connected_reachable)
  have "{..<nb_term} \<union> {nb_term..<nb_term + nb_inter} = {..<nb_term + nb_inter}" by auto
  then show "(joined net)\<^sup>*\<^sup>* f t" using assms by (simp add: terminals_def connected_on_def)
  show "f < net_size net" using assms by (simp add: terminals_def numbered_net_def)
qed

end
