(* ===== verification/Network_Properties.thy ===== *)
theory Network_Properties
  imports Netwalks Randnet
begin

text \<open>
  What the topology library guarantees: the properties of \<^verbatim>\<open>matrix\<close> and
  \<^verbatim>\<open>netgraph\<close>, each with a witness on the network of three vertices in a line.
\<close>

section \<open>A concrete network\<close>

definition line_net :: "path_strategy \<Rightarrow> nat network option" where
  "line_net strategy =
     (case network_new (=) [10, 11, 12] strategy of
        None \<Rightarrow> None
      | Some n0 \<Rightarrow>
          (case net_add_edge (=) n0 10 11 100 of
             None \<Rightarrow> None
           | Some n1 \<Rightarrow> net_add_edge (=) n1 11 12 50))"

lemma line_net_ok:
  "\<exists>net. line_net st = Some net \<and> net_inv (=) net \<and> net_size net = 3 \<and> net_strategy net = st
    \<and> net_map (=) net 10 = Some 0 \<and> net_map (=) net 11 = Some 1 \<and> net_map (=) net 12 = Some 2
    \<and> net_link net 0 1 = Some (link_build 10 11 0 1 100)
    \<and> net_link net 1 2 = Some (link_build 11 12 1 2 50) \<and> net_link net 0 2 = None"
proof -
  obtain n0 :: "nat network" where n0: "network_new (=) [10, 11, 12] st = Some n0" "net_inv (=) n0"
    "net_size n0 = 3" "net_strategy n0 = st" "\<forall>i < 3. \<forall>j < 3. net_link n0 i j = None"
    "\<forall>i < 3. net_map (=) n0 ([10, 11, 12] ! i) = Some i"
    using hol_eq.network_new_result [of "[10, 11, 12 :: nat]" st] by (auto simp: hs_contains_simps)
  have m: "net_map (=) n0 10 = Some 0" "net_map (=) n0 11 = Some 1" "net_map (=) n0 12 = Some 2"
    using n0(6)[rule_format, of 0] n0(6)[rule_format, of 1] n0(6)[rule_format, of 2] by simp_all
  obtain n1 where n1: "net_add_edge (=) n0 10 11 100 = Some n1"
    and e1: "edge_added (=) n0 10 11 (\<lambda>i j _. Some (link_build 10 11 i j 100)) n1"
    using add_edge_result [OF n0(2)] by blast
  obtain n2 where n2: "net_add_edge (=) n1 11 12 50 = Some n2"
    and e2: "edge_added (=) n1 11 12 (\<lambda>i j _. Some (link_build 11 12 i j 50)) n2"
    using add_edge_result [of "(=)" n1 11 12 50] e1 unfolding edge_added_def by blast
  have mapper: "net_mapper n2 = net_mapper n0" "net_mapper n1 = net_mapper n0"
    using e1 e2 by (simp_all add: edge_added_def)
  then have m2: "net_map (=) n2 v = net_map (=) n0 v" "net_map (=) n1 v = net_map (=) n0 v" for v
    by (simp_all add: net_map_def)
  have two: "net_map_two (=) n0 10 11 = Some (0, 1)" "net_map_two (=) n1 11 12 = Some (1, 2)"
    using m m2 by (simp_all add: net_map_two_Some)
  have l1: "net_link n1 k l = (if 0 = k \<and> 1 = l \<or> 0 = l \<and> 1 = k then Some (link_build 10 11 0 1 100) else None)"
    if "k < 3" "l < 3" for k l
    using e1 n0(3,5) two(1) that by (simp add: edge_added_def)
  have l2: "net_link n2 k l = (if 1 = k \<and> 2 = l \<or> 1 = l \<and> 2 = k then Some (link_build 11 12 1 2 50)
      else net_link n1 k l)" if "k < 3" "l < 3" for k l
    using e2 e1 n0(3) two(2) that by (simp add: edge_added_def)
  have "line_net st = Some n2" using n0(1) n1 n2 by (simp add: line_net_def)
  moreover have "net_inv (=) n2" "net_size n2 = 3" "net_strategy n2 = st"
    using e1 e2 n0(3,4) by (simp_all add: edge_added_def)
  ultimately show ?thesis using m m2 l1 l2 by simp
qed

text \<open>A property of every network that keeps its invariant holds of the line.\<close>

lemma line_netE:
  assumes "\<And>net :: nat network. net_inv (=) net \<Longrightarrow> net_size net = 3 \<Longrightarrow> P net"
  shows "\<exists>net. line_net st = Some net \<and> P net"
  using line_net_ok [of st] assms by blast

section \<open>The triangular storage of the symmetric matrix\<close>

text \<open>The two index conversions of \<^verbatim>\<open>SymMatrix\<close> are inverse on the cells of the
  matrix: the conversion to a position of the vector and back gives the cell, smaller index first,
  although the code goes through \<^verbatim>\<open>f64\<close> arithmetic.\<close>

theorem index_round_trip:
  assumes "i < n" and "j < n" and "n < 2 ^ 26"
  shows "in_to_out_index (out_to_in_index i j n) n = Some (min i j, max i j)
    \<and> out_to_in_index i j n < sm_size_vec n"
  using in_out_index [OF assms] out_to_in_index_lt [OF assms] sm_size_vec_eq [OF assms(3)] by simp

theorem index_round_trip_witness:
  "in_to_out_index (out_to_in_index 2 1 4) 4 = Some (1, 2) \<and> out_to_in_index 2 1 4 < sm_size_vec 4"
  using index_round_trip [of 2 4 1] by simp

text \<open>A matrix that grows keeps its cells, and the new cells have the values that the
  closure gives for the smaller and the greater index.\<close>

theorem grow_keeps_cells:
  assumes "sm_wf m" and "sm_n m + added < 2 ^ 26"
    and "\<And>row col. row \<le> col \<Longrightarrow> col < sm_n m + added \<Longrightarrow> sm_n m \<le> col \<Longrightarrow> \<exists>x. f row col = Some x"
  shows "\<exists>m'. sm_grow_fn m added f = Some m' \<and> sm_wf m' \<and> sm_n m' = sm_n m + added
    \<and> (\<forall>i < sm_n m + added. \<forall>j < sm_n m + added.
        sm_get m' i j = (if i < sm_n m \<and> j < sm_n m then sm_get m i j else f (min i j) (max i j)))"
proof -
  obtain m' where m': "sm_grow_fn m added f = Some m'"
    using sm_grow_fn_total [of m added f, OF assms] by blast
  with sm_grow_fn_Some [OF assms(2) m'] show ?thesis by blast
qed

theorem grow_keeps_cells_witness:
  "\<exists>m m' :: nat sym_matrix. sm_new_fn 2 (\<lambda>i j. Some (i + j)) = Some m
    \<and> sm_grow_fn m 1 (\<lambda>_ _. Some 7) = Some m' \<and> sm_get m' 0 1 = Some 1 \<and> sm_get m' 2 1 = Some 7"
proof -
  obtain m :: "nat sym_matrix" where m: "sm_new_fn 2 (\<lambda>i j. Some (i + j)) = Some m"
    using sm_new_fn_total [of 2 "\<lambda>i j. Some (i + j)"] by auto
  note M = sm_new_fn_Some [OF _ m, simplified]
  obtain m' where "sm_grow_fn m 1 (\<lambda>_ _. Some 7) = Some m'"
    "\<forall>i < 3. \<forall>j < 3. sm_get m' i j = (if i < 2 \<and> j < 2 then sm_get m i j else Some 7)"
    using grow_keeps_cells [OF M(1), of 1 "\<lambda>_ _. Some 7"] M(2) by auto
  then show ?thesis using m M(3) [of 0 1] by fastforce
qed

section \<open>Building and editing a network\<close>

text \<open>\<^verbatim>\<open>add_edge_with_props\<close> puts the link in the cell of the two vertices and
  in no other, ignores unknown vertices, and keeps the invariant between the vertex map and the
  link matrix.\<close>

theorem add_edge_keeps_network:
  assumes "net_inv veq net"
  shows "\<exists>net'. net_add_edge_with_props veq net from to bw lj dr = Some net'
    \<and> edge_added veq net from to (\<lambda>i j _. Some (link_build_all from to i j bw lj dr)) net'"
  using assms by (rule add_edge_with_props_result)

theorem add_edge_keeps_network_witness:
  "\<exists>net. line_net ShortestPath = Some net
    \<and> (\<exists>net'. net_add_edge_with_props (=) net 10 12 7 (Fin 0, Fin 0) (Fin 0) = Some net'
         \<and> edge_added (=) net 10 12 (\<lambda>i j _. Some (link_build_all 10 12 i j 7 (Fin 0, Fin 0) (Fin 0))) net')"
  by (rule line_netE) (rule add_edge_keeps_network)

text \<open>Two links of one network that compare equal lie in the same cell, and the hash of
  a link only depends on the cell: \<^verbatim>\<open>Eq\<close> and \<^verbatim>\<open>Hash\<close> agree.\<close>

theorem link_eq_hash:
  assumes "rust_eq veq" and "link_at veq net i j a" and "link_at veq net k l b" and "link_eq veq a b"
  shows "{i, j} = {k, l} \<and> link_hash_key a = link_hash_key b"
  using rust_eq.link_eq_cell [OF assms] by blast

theorem link_eq_hash_witness:
  "\<exists>net. line_net WidestPath = Some net
    \<and> {0, 1 :: nat} = {1, 0} \<and> link_hash_key (link_build (10 :: nat) 11 0 1 100) = link_hash_key (link_build (11 :: nat) 10 1 0 5)"
proof -
  obtain net where n: "line_net WidestPath = Some net" "net_map (=) net 10 = Some 0"
    "net_map (=) net 11 = Some 1" using line_net_ok [of WidestPath] by blast
  have "link_at (=) net 0 1 (link_build 10 11 0 1 100)" "link_at (=) net 1 0 (link_build 11 10 1 0 5)"
    using n by (simp_all add: link_at_def link_build_def)
  then show ?thesis
    using link_eq_hash [OF hol_eq.rust_eq_axioms, of net 0 1 "link_build 10 11 0 1 100" 1 0] n(1)
    by (simp add: link_eq_def link_build_def)
qed

text \<open>The vertex map read back from what \<^verbatim>\<open>Serialize for Mapper\<close> writes is the
  map, when no two vertices are equal.\<close>

theorem mapper_round_trip:
  assumes "rust_eq veq" and "hm_distinct veq m"
  shows "mapper_visit_map veq (mapper_serialize m) = m"
proof -
  have "fold (\<lambda>(key, value) m. hm_insert veq value key m) (map (\<lambda>(k, v). (v, k)) xs) acc = acc @ xs"
    if "hm_distinct veq (acc @ xs)" for acc xs
    using that
  proof (induction xs arbitrary: acc)
    case (Cons p xs)
    obtain k v where p: "p = (k, v)" by (cases p)
    have "\<not> hs_contains veq (hm_keys acc) k"
      using Cons.prems p rust_eq.sym [OF assms(1)]
      by (auto simp: hm_distinct_def hm_keys_def hs_distinct_append2 hs_contains_iff)
    then have "hm_insert veq k v acc = acc @ [(k, v)]"
      by (induction acc) (auto simp: hm_keys_def hs_contains_simps)
    then show ?case using Cons p by simp
  qed simp
  from this [of "[]" m] assms(2) show ?thesis by (simp add: mapper_visit_map_def mapper_serialize_def)
qed

theorem mapper_round_trip_witness:
  "mapper_visit_map (=) (mapper_serialize [(10, 0), (11, 1)]) = [(10 :: nat, 0), (11, 1)]"
  by (rule mapper_round_trip [OF hol_eq.rust_eq_axioms])
    (simp add: hm_distinct_def hm_keys_def hs_contains_simps)

section \<open>Path search\<close>

text \<open>C17: \<^verbatim>\<open>shortest_path\<close> terminates without a panic; a vertex has a label exactly
  when it is reachable, the label is the least number of hops of all walks, and the chain of
  parents is a simple walk of that length.\<close>

theorem shortest_path_correct:
  assumes "net_wf net" and "src < net_size net"
  shows "\<exists>labs par. net_shortest_path net src = Some (labs, par) \<and> path_tree net src labs par
    \<and> shortest_labels net src labs par"
  using assms by (rule shortest_path_result)

theorem shortest_path_correct_witness:
  "\<exists>net. line_net ShortestPath = Some net
    \<and> (\<exists>labs par. net_shortest_path net 0 = Some (labs, par) \<and> path_tree net 0 labs par
         \<and> shortest_labels net 0 labs par)"
  by (rule line_netE) (rule shortest_path_correct, simp_all add: net_inv_def)

text \<open>C3: \<^verbatim>\<open>widest_path\<close> terminates without a panic; the label of a reachable vertex
  is the greatest bottleneck bandwidth of all walks from the source, and the chain of parents is
  a simple walk with that bandwidth.\<close>

theorem widest_path_correct:
  assumes "net_wf net" and "src < net_size net"
  shows "\<exists>labs par. net_widest_path net src = Some (labs, par) \<and> path_tree net src labs par
    \<and> widest_labels net src labs par"
  using assms by (rule widest_path_result)

theorem widest_path_correct_witness:
  "\<exists>net. line_net WidestPath = Some net
    \<and> (\<exists>labs par. net_widest_path net 0 = Some (labs, par) \<and> path_tree net 0 labs par
         \<and> widest_labels net 0 labs par)"
  by (rule line_netE) (rule widest_path_correct, simp_all add: net_inv_def)

text \<open>C29: \<^verbatim>\<open>bandwidth_between\<close> answers with the bandwidth of a best walk under the
  network's strategy, and with nothing for unknown or unreachable vertices; and, under the strategy
  of the shortest path, also with nothing from a vertex to itself.\<close>

theorem bandwidth_between_correct:
  assumes "net_inv veq net"
  shows "\<exists>r. net_bandwidth_between veq net from to = Some r \<and> bandwidth_spec veq net from to r"
  using assms by (rule bandwidth_between_spec)

theorem bandwidth_between_correct_witness:
  "\<exists>net. line_net ShortestPath = Some net
    \<and> (\<exists>r. net_bandwidth_between (=) net 10 12 = Some r \<and> bandwidth_spec (=) net 10 12 r)"
  by (rule line_netE) (rule bandwidth_between_correct)

text \<open>\<^verbatim>\<open>properties_between\<close> folds bandwidth, loss, latency and jitter over the
  links of a best walk.\<close>

theorem properties_between_correct:
  assumes "net_inv veq net"
  shows "\<exists>r. net_properties_between veq net from to = Some r \<and> properties_spec veq net from to r"
  using assms by (rule properties_between_spec)

theorem properties_between_correct_witness:
  "\<exists>net. line_net WidestPath = Some net
    \<and> (\<exists>r. net_properties_between (=) net 10 12 = Some r \<and> properties_spec (=) net 10 12 r)"
  by (rule line_netE) (rule properties_between_correct)

text \<open>\<^verbatim>\<open>get_path_between\<close> returns the links of a best walk in order from the
  source, the same links as a set, and the empty path when the destination is unreachable.\<close>

theorem path_between_links:
  assumes "rust_eq veq" and "net_inv veq net"
  shows "\<exists>r. net_get_path_between veq net from to = Some r \<and> path_spec veq net from to r"
  using assms by (rule get_path_between_result)

theorem path_between_links_witness:
  "\<exists>net. line_net ShortestPath = Some net
    \<and> (\<exists>r. net_get_path_between (=) net 10 12 = Some r \<and> path_spec (=) net 10 12 r)"
  by (rule line_netE) (rule path_between_links [OF hol_eq.rust_eq_axioms])

text \<open>C30: \<^verbatim>\<open>update_edges_along_path_by\<close> applies the function to the bandwidth of
  every link of a best walk once, changes no other link, and keeps the invariant.\<close>

theorem update_edges_correct:
  assumes "net_inv veq net"
  shows "\<exists>net'. net_update_edges_along_path_by veq net from to f = Some net'
    \<and> update_spec veq net from to f net'"
  using assms by (rule update_edges_result)

theorem update_edges_correct_witness:
  "\<exists>net. line_net ShortestPath = Some net
    \<and> (\<exists>net'. net_update_edges_along_path_by (=) net 10 12 (\<lambda>b. b - 20) = Some net'
         \<and> update_spec (=) net 10 12 (\<lambda>b. b - 20) net')"
  by (rule line_netE) (rule update_edges_correct)

section \<open>Random networks\<close>

text \<open>C40: \<^verbatim>\<open>generate_random_network\<close> gives, whatever numbers in range are drawn, at least one
  bridge and a positive number of speeds, a network in which every two vertices are connected by a
  walk, and in which every terminal has exactly one link, to a bridge, of the speed that is returned
  for it; without a bridge it panics.\<close>

theorem random_network_connected:
  assumes "draws_in_range draw" and "0 < diff_speeds" and "nb_term + nb_inter < 2 ^ 26"
  shows "if nb_inter = 0 then generate_random_network draw nb_inter nb_term diff_speeds st g = None
    else \<exists>net speeds. generate_random_network draw nb_inter nb_term diff_speeds st g = Some (net, speeds)
      \<and> net_size net = nb_term + nb_inter \<and> length speeds = nb_term
      \<and> (\<forall>f < nb_term + nb_inter. \<forall>t < nb_term + nb_inter. \<exists>p. walk_between net f t p)
      \<and> (\<forall>t < nb_term. hung (nb_term + nb_inter) nb_term net speeds t)"
proof (cases "nb_inter = 0")
  case True
  then show ?thesis by (simp add: generate_without_bridges)
next
  case False
  then obtain net speeds where net: "generate_random_network draw nb_inter nb_term diff_speeds st g = Some (net, speeds)"
    "terminals (nb_term + nb_inter) nb_term nb_term speeds net"
    using generate_connected[OF assms(1) _ assms(2,3), of st g] by blast
  then have "net_size net = nb_term + nb_inter" "length speeds = nb_term"
    "\<forall>t < nb_term. hung (nb_term + nb_inter) nb_term net speeds t"
    by (simp_all add: terminals_def numbered_net_def)
  moreover have "\<exists>p. walk_between net f t p" if "f < nb_term + nb_inter" "t < nb_term + nb_inter" for f t
    using generated_walks[OF net(2) that] .
  ultimately show ?thesis using False net(1) by auto
qed

theorem random_network_connected_witness:
  "\<exists>net speeds. generate_random_network (\<lambda>n g. (g mod n, 7 * g + 3)) 2 3 10 ShortestPath 1 = Some (net, speeds)
    \<and> net_size net = 5 \<and> length speeds = 3 \<and> (\<forall>f < 5. \<forall>t < 5. \<exists>p. walk_between net f t p)
    \<and> (\<forall>t < 3. hung 5 3 net speeds t)"
  using random_network_connected[of "\<lambda>n g. (g mod n, 7 * g + 3)" 10 3 2 ShortestPath 1]
  by (simp add: draws_in_range_def)

end
