(* ===== verification/Bwsync.thy ===== *)
theory Bwsync
  imports Netwalks
begin

text \<open>
  Bandwidth sharing between flows: \<^verbatim>\<open>Flow\<close> of \<^verbatim>\<open>emulation/src/data.rs\<close> and the
  functions of \<^verbatim>\<open>emulation/src/bwsync.rs\<close>. A set of flows is a list in iteration order,
  with the equality of \<^verbatim>\<open>Flow\<close> (same source and destination).
\<close>

section \<open>Flows\<close>

record 'v flow =
  fl_source :: 'v
  fl_destination :: 'v
  fl_authorized :: u32
  fl_used :: u32
  fl_max_allowed :: u32
  fl_hungry :: bool

definition flow_build :: "'v \<Rightarrow> 'v \<Rightarrow> u32 \<Rightarrow> u32 \<Rightarrow> 'v flow" where
  "flow_build source destination max_allowed_bandwidth used_bandwidth =
     \<lparr>fl_source = source, fl_destination = destination, fl_authorized = 0, fl_used = used_bandwidth,
      fl_max_allowed = max_allowed_bandwidth, fl_hungry = False\<rparr>"

definition flow_eq :: "('v \<Rightarrow> 'v \<Rightarrow> bool) \<Rightarrow> 'v flow \<Rightarrow> 'v flow \<Rightarrow> bool" where
  "flow_eq veq a b \<longleftrightarrow>
     veq (fl_source a) (fl_source b) \<and> veq (fl_destination a) (fl_destination b)"

definition f64_of_u32 :: "u32 \<Rightarrow> fval" where
  "f64_of_u32 w = f_of_int F64 (uint w)"

section \<open>distribute\_bandwidth\_across\_flow\<close>

text \<open>The flows that need no more than the partition.\<close>

definition maxed_out :: "('v \<Rightarrow> 'v \<Rightarrow> bool) \<Rightarrow> fval \<Rightarrow> 'v flow list \<Rightarrow> 'v flow list" where
  "maxed_out veq actual_partition flows =
     hs_collect (flow_eq veq)
       (filter (\<lambda>f. fle (f64_of_u32 (fl_used f)) actual_partition \<and> \<not> fl_hungry f) flows)"

definition give_partition :: "fval \<Rightarrow> 'v flow \<Rightarrow> 'v flow" where
  "give_partition actual_partition f =
     (let a = min (f_to_u32 actual_partition) (fl_max_allowed f)
      in f\<lparr>fl_authorized := a, fl_used := a, fl_hungry := True\<rparr>)"

definition give_max :: "'v flow \<Rightarrow> 'v flow" where
  "give_max f = f\<lparr>fl_authorized := fl_max_allowed f, fl_hungry := False\<rparr>"

partial_function (option) distribute_loop ::
  "('v \<Rightarrow> 'v \<Rightarrow> bool) \<Rightarrow> fval \<Rightarrow> 'v flow list \<Rightarrow> 'v flow list \<Rightarrow> 'v flow list option" where
  "distribute_loop veq actual_partition flows new_flows =
     (let maxed_out_flows = maxed_out veq actual_partition flows in
      if maxed_out_flows = [] then
        Some (fold (\<lambda>f acc. hs_insert (flow_eq veq) (give_partition actual_partition f) acc)
                flows new_flows)
      else
        let new_flows' = fold (\<lambda>f acc. hs_insert (flow_eq veq) (give_max f) acc)
                           maxed_out_flows new_flows;
            flows' = hs_collect (flow_eq veq)
                       (hs_difference (flow_eq veq) flows maxed_out_flows);
            spare_bandwidth =
              fold (\<lambda>f acc. fadd F64 acc (fsub F64 actual_partition (f64_of_u32 (fl_used f))))
                maxed_out_flows (Fin 0)
        in distribute_loop veq
             (fadd F64 actual_partition (fdiv F64 spare_bandwidth (f64_of_usize (length flows'))))
             flows' new_flows')"

definition distribute_bandwidth_across_flow ::
  "('v \<Rightarrow> 'v \<Rightarrow> bool) \<Rightarrow> 'v link \<Rightarrow> 'v flow list \<Rightarrow> 'v flow list option" where
  "distribute_bandwidth_across_flow veq lk flows =
     distribute_loop veq
       (fdiv F64 (f64_of_u32 (link_bandwidth lk)) (f64_of_usize (length flows))) flows []"

section \<open>MergeStricter\<close>

definition merge_stricter ::
  "('v \<Rightarrow> 'v \<Rightarrow> bool) \<Rightarrow> 'v flow list \<Rightarrow> 'v flow list \<Rightarrow> 'v flow list option" where
  "merge_stricter veq self other =
     (let eq = flow_eq veq;
          result = hs_collect eq (hs_difference eq self other @ hs_difference eq other self) in
      case fold_opt
             (\<lambda>flow acc.
                (case (hs_get eq self flow, hs_get eq other flow) of
                   (Some a, Some b) \<Rightarrow>
                     Some (hs_insert eq (if fl_authorized a < fl_authorized b then a else b) acc)
                 | _ \<Rightarrow> None))
             (hs_intersection eq self other) [] of
        None \<Rightarrow> None
      | Some selected \<Rightarrow> Some (hs_collect eq (result @ hs_difference eq selected result)))"

section \<open>The flows of a path\<close>

definition flow_path ::
  "('v \<Rightarrow> 'v \<Rightarrow> bool) \<Rightarrow> 'v network \<Rightarrow> 'v flow \<Rightarrow> 'v path option" where
  "flow_path veq graph f =
     (case net_get_path_between veq graph (fl_source f) (fl_destination f) of
        None \<Rightarrow> None
      | Some p \<Rightarrow> p)"

text \<open>The flows among \<open>all_flows\<close> whose path uses one link, with the updated flow taken out or
  put in.\<close>

definition flows_on_link ::
  "('v \<Rightarrow> 'v \<Rightarrow> bool) \<Rightarrow> 'v network \<Rightarrow> 'v flow \<Rightarrow> 'v flow list \<Rightarrow> 'v link \<Rightarrow> 'v flow list option" where
  "flows_on_link veq graph flow_updated all_flows lk =
     (case fold_opt
             (\<lambda>f set.
                (case flow_path veq graph f of
                   None \<Rightarrow> None
                 | Some p \<Rightarrow>
                     Some (if hs_intersection (link_eq veq) (pth_links_set p) [lk] \<noteq> []
                           then hs_insert (flow_eq veq) f set else set)))
             all_flows [] of
        None \<Rightarrow> None
      | Some set_of_flows \<Rightarrow>
          Some (if fl_used flow_updated = 0 then hs_remove (flow_eq veq) flow_updated set_of_flows
                else hs_replace (flow_eq veq) flow_updated set_of_flows))"

definition get_flows_by_shared_links ::
  "('v \<Rightarrow> 'v \<Rightarrow> bool) \<Rightarrow> 'v flow \<Rightarrow> 'v flow list \<Rightarrow> 'v network
   \<Rightarrow> ('v link, 'v flow list) hmap option" where
  "get_flows_by_shared_links veq flow_updated all_flows graph =
     (case flow_path veq graph flow_updated of
        None \<Rightarrow> None
      | Some p \<Rightarrow>
          fold_opt
            (\<lambda>lk acc.
               (case flows_on_link veq graph flow_updated all_flows lk of
                  None \<Rightarrow> None
                | Some fs \<Rightarrow> Some (hm_insert (link_eq veq) lk fs acc)))
            (pth_links_set p) [])"

section \<open>Updating the active flows\<close>

definition copy_hungryness ::
  "('v \<Rightarrow> 'v \<Rightarrow> bool) \<Rightarrow> 'v flow \<Rightarrow> 'v flow list \<Rightarrow> 'v flow" where
  "copy_hungryness veq flow_updated active_flows =
     (case hs_get (flow_eq veq) active_flows flow_updated of
        None \<Rightarrow> flow_updated
      | Some f \<Rightarrow> flow_updated\<lparr>fl_hungry := fl_hungry f\<rparr>)"

definition update_active_flows ::
  "('v \<Rightarrow> 'v \<Rightarrow> bool) \<Rightarrow> 'v flow \<Rightarrow> 'v flow list \<Rightarrow> 'v network \<Rightarrow> ('v flow \<times> 'v flow list) option" where
  "update_active_flows veq flow_updated0 active_flows original_graph =
     (let flow_updated = copy_hungryness veq flow_updated0 active_flows in
      case get_flows_by_shared_links veq flow_updated active_flows original_graph of
        None \<Rightarrow> None
      | Some links_to_check \<Rightarrow>
          map_option (\<lambda>updated. (flow_updated, updated))
            (fold_opt
               (\<lambda>(lk, flows) updated.
                  (case distribute_bandwidth_across_flow veq lk flows of
                     None \<Rightarrow> None
                   | Some new_flows \<Rightarrow> merge_stricter veq updated new_flows))
               links_to_check []))"

definition calculate_bandwidth_graph ::
  "('v \<Rightarrow> 'v \<Rightarrow> bool) \<Rightarrow> 'v network \<Rightarrow> 'v flow list \<Rightarrow> 'v network option" where
  "calculate_bandwidth_graph veq graph active_flows =
     fold_opt
       (\<lambda>flow bw_graph.
          net_update_edges_along_path_by veq bw_graph (fl_source flow) (fl_destination flow)
            (\<lambda>old_speed. old_speed - fl_used flow))
       active_flows graph"

text \<open>The results carry the flow the caller passed by mutable reference.\<close>

definition update_flows ::
  "('v \<Rightarrow> 'v \<Rightarrow> bool) \<Rightarrow> 'v flow list \<Rightarrow> 'v flow \<Rightarrow> 'v network \<Rightarrow> 'v network
   \<Rightarrow> ('v flow \<times> 'v flow list \<times> 'v network) option" where
  "update_flows veq active_flows flow graph bw_graph =
     (case net_bandwidth_between veq bw_graph (fl_source flow) (fl_destination flow) of
        None \<Rightarrow> None
      | Some None \<Rightarrow> Some (flow, active_flows, bw_graph)
      | Some (Some _) \<Rightarrow>
          (case update_active_flows veq flow active_flows graph of
             None \<Rightarrow> None
           | Some (flow', new_flows) \<Rightarrow>
               let active_flows' = fold (hs_replace (flow_eq veq)) new_flows active_flows in
               (case calculate_bandwidth_graph veq graph active_flows' of
                  None \<Rightarrow> None
                | Some bw_graph' \<Rightarrow> Some (flow', active_flows', bw_graph'))))"

definition remove_flow ::
  "('v \<Rightarrow> 'v \<Rightarrow> bool) \<Rightarrow> 'v flow list \<Rightarrow> 'v flow \<Rightarrow> 'v network
   \<Rightarrow> ('v flow \<times> 'v flow list \<times> 'v network) option" where
  "remove_flow veq active_flows flow graph =
     (let active_flows1 = hs_remove (flow_eq veq) flow active_flows in
      case update_active_flows veq flow active_flows1 graph of
        None \<Rightarrow> None
      | Some (flow', new_flows) \<Rightarrow>
          let active_flows' = fold (hs_replace (flow_eq veq)) new_flows active_flows1 in
          (case calculate_bandwidth_graph veq graph active_flows' of
             None \<Rightarrow> None
           | Some bw_graph' \<Rightarrow> Some (flow', active_flows', bw_graph')))"

section \<open>The equality of flows\<close>

lemma flow_eq_rust_eq: "rust_eq veq \<Longrightarrow> rust_eq (flow_eq veq)"
  unfolding rust_eq_def flow_eq_def by blast

text \<open>The equalities of the flows and links of a network whose vertices compare structurally.\<close>

interpretation struct_flow: rust_eq "flow_eq (=)"
  by (rule flow_eq_rust_eq) (rule hol_eq.rust_eq_axioms)

lemma flow_eq_give [simp]:
  "flow_eq veq (give_max f) g = flow_eq veq f g" "flow_eq veq g (give_max f) = flow_eq veq g f"
  "flow_eq veq (give_partition p f) g = flow_eq veq f g"
  "flow_eq veq g (give_partition p f) = flow_eq veq g f"
  by (simp_all add: flow_eq_def give_max_def give_partition_def Let_def)

section \<open>Distribution\<close>

lemma map_keeps_keys:
  assumes "\<And>f g. flow_eq veq (h f) g = flow_eq veq f g" and "\<And>f g. flow_eq veq g (h f) = flow_eq veq g f"
  shows "hs_contains (flow_eq veq) (map h fs) g = hs_contains (flow_eq veq) fs g"
    and "hs_distinct (flow_eq veq) (map h fs) = hs_distinct (flow_eq veq) fs"
proof -
  show c: "hs_contains (flow_eq veq) (map h fs) g = hs_contains (flow_eq veq) fs g" for g fs
    by (induction fs) (simp_all add: hs_contains_simps assms(1))
  have c': "hs_contains (flow_eq veq) fs (h g) = hs_contains (flow_eq veq) fs g" for g fs
    by (induction fs) (simp_all add: hs_contains_simps assms(2))
  show "hs_distinct (flow_eq veq) (map h fs) = hs_distinct (flow_eq veq) fs"
    by (induction fs) (simp_all add: c c')
qed

lemmas give_keys =
  map_keeps_keys [where h = give_max, OF flow_eq_give(1,2)]
  map_keeps_keys [where h = "give_partition p" for p, OF flow_eq_give(3,4)]

abbreviation needs_less :: "fval \<Rightarrow> 'v flow \<Rightarrow> bool" where
  "needs_less part f \<equiv> fle (f64_of_u32 (fl_used f)) part \<and> \<not> fl_hungry f"

lemma maxed_out_filter:
  assumes "rust_eq veq" and "hs_distinct (flow_eq veq) flows"
  shows "maxed_out veq part flows = filter (needs_less part) flows"
  unfolding maxed_out_def
  by (rule rust_eq.hs_collect_distinct [OF flow_eq_rust_eq [OF assms(1)]])
    (rule rust_eq.hs_distinct_filter [OF flow_eq_rust_eq [OF assms(1)] assms(2)])

lemma fold_give:
  assumes veq: "rust_eq veq" and d: "hs_distinct (flow_eq veq) (new_flows @ map h fs)"
  shows "fold (\<lambda>f acc. hs_insert (flow_eq veq) (h f) acc) fs new_flows = new_flows @ map h fs"
  using rust_eq.fold_insert_new [OF flow_eq_rust_eq [OF veq] d] by (simp add: fold_map comp_def)

text \<open>The equal share, round by round: the flows that need no more than the share leave, and what
  they leave of it is divided between the others, until all that are left want more. The flows left
  and their share.\<close>

definition left_over :: "fval \<Rightarrow> 'v flow list \<Rightarrow> fval" where
  "left_over share flows =
     fold (\<lambda>f acc. fadd F64 acc (fsub F64 share (f64_of_u32 (fl_used f)))) flows (Fin 0)"

function equal_share :: "fval \<Rightarrow> 'v flow list \<Rightarrow> 'v flow list \<times> fval" where
  "equal_share share flows =
     (if \<exists>f \<in> set flows. needs_less share f
      then (let others = filter (\<lambda>f. \<not> needs_less share f) flows
            in equal_share
                 (fadd F64 share (fdiv F64 (left_over share (filter (needs_less share) flows))
                    (f64_of_usize (length others)))) others)
      else (flows, share))"
  by pat_completeness auto
termination
  by (relation "measure (\<lambda>(share, flows). length flows)") (auto intro: length_filter_less)

declare equal_share.simps [simp del]

text \<open>How a distribution ends: some flows keep what they use, the others all get the same
  partition; together they are the flows it started with.\<close>

definition shared_out :: "'v flow list \<Rightarrow> 'v flow list \<Rightarrow> 'v flow list \<Rightarrow> fval \<Rightarrow> bool" where
  "shared_out flows maxed rest part \<longleftrightarrow>
     mset maxed + mset rest = mset flows
     \<and> (\<forall>f \<in> set maxed. \<not> fl_hungry f)
     \<and> (\<forall>f \<in> set rest. \<not> needs_less part f)"

lemma append_distinct_map:
  assumes "rust_eq veq" and "hs_distinct (flow_eq veq) (s @ filter P xs @ t)"
  shows "hs_distinct (flow_eq veq) ((s @ map give_max (filter P xs)) @ t)"
  using assms(2) give_keys(1,2) [where ?'a = 'a and veq = veq]
  by (auto simp: hs_distinct_append2 hs_contains_iff)

lemma distribute_loop_result:
  assumes veq: "rust_eq veq" and "hs_distinct (flow_eq veq) (new_flows @ flows)"
  shows "\<exists>maxed rest p. distribute_loop veq part flows new_flows
      = Some (new_flows @ map give_max maxed @ map (give_partition p) rest)
    \<and> shared_out flows maxed rest p \<and> equal_share part flows = (rest, p)"
  using assms(2)
proof (induction "length flows" arbitrary: flows new_flows part rule: less_induct)
  case less
  note fe = flow_eq_rust_eq [OF veq]
  have d: "hs_distinct (flow_eq veq) flows" using less.prems by (simp add: hs_distinct_append2)
  let ?P = "needs_less part"
  note mo = maxed_out_filter [OF veq d, of part]
  show ?case
  proof (cases "filter ?P flows = []")
    case True
    have "hs_distinct (flow_eq veq) (new_flows @ map (give_partition part) flows)"
      using less.prems by (simp add: hs_distinct_append2 give_keys)
    then have "distribute_loop veq part flows new_flows
      = Some (new_flows @ map give_max [] @ map (give_partition part) flows)"
      using True mo fold_give [OF veq] by (subst distribute_loop.simps) simp
    moreover have "shared_out flows [] flows part"
      using True by (auto simp: shared_out_def filter_empty_conv)
    moreover have "equal_share part flows = (flows, part)"
      using True by (subst equal_share.simps) (auto simp: filter_empty_conv)
    ultimately show ?thesis by blast
  next
    case False
    let ?m = "filter ?P flows" and ?r = "filter (\<lambda>f. \<not> ?P f) flows"
    have part: "hs_distinct (flow_eq veq) ((new_flows @ map give_max ?m) @ ?r)"
      by (rule append_distinct_map [OF veq rust_eq.hs_distinct_partition [OF fe less.prems]])
    then have "hs_distinct (flow_eq veq) (new_flows @ map give_max ?m)"
      unfolding hs_distinct_append2 [of _ "new_flows @ _"] by blast
    note new = fold_give [OF veq this]
    have rest: "hs_collect (flow_eq veq) (hs_difference (flow_eq veq) flows ?m) = ?r"
      using rust_eq.hs_difference_filter [OF fe d]
        rust_eq.hs_collect_distinct [OF fe rust_eq.hs_distinct_filter [OF fe d]] by simp
    have len: "length ?r < length flows"
      using False length_filter_less [of _ flows "\<lambda>f. \<not> ?P f"] by (auto simp: filter_empty_conv)
    define part' where "part' = fadd F64 part (fdiv F64
        (fold (\<lambda>f acc. fadd F64 acc (fsub F64 part (f64_of_u32 (fl_used f)))) ?m (Fin 0))
        (f64_of_usize (length ?r)))"
    have step: "distribute_loop veq part flows new_flows
        = distribute_loop veq part' ?r (new_flows @ map give_max ?m)"
      unfolding distribute_loop.simps [of veq part flows new_flows] Let_def mo new rest part'_def
      using False by (simp only: if_False)
    obtain maxed rest' p where
      ih: "distribute_loop veq part' ?r (new_flows @ map give_max ?m)
        = Some ((new_flows @ map give_max ?m) @ map give_max maxed @ map (give_partition p) rest')"
      and sh: "shared_out ?r maxed rest' p" and final: "equal_share part' ?r = (rest', p)"
      using less.hyps [OF len part, of part'] by blast
    have "distribute_loop veq part flows new_flows = Some (new_flows
        @ map give_max (?m @ maxed) @ map (give_partition p) rest')"
      using step ih by simp
    moreover have "mset (?m @ maxed) + mset rest' = mset ?m + mset ?r"
      using sh by (simp add: shared_out_def add.assoc)
    then have "mset (?m @ maxed) + mset rest' = mset flows"
      using multiset_partition [of "mset flows" ?P] by (simp only: mset_filter)
    then have "shared_out flows (?m @ maxed) rest' p"
      using sh by (auto simp: shared_out_def)
    moreover have "equal_share part flows = (rest', p)"
      unfolding equal_share.simps [of part flows] Let_def left_over_def part'_def [symmetric] final
      using False by (simp add: filter_empty_conv)
    ultimately show ?thesis by blast
  qed
qed

lemma distribute_result:
  assumes "rust_eq veq" and "hs_distinct (flow_eq veq) flows"
  shows "\<exists>maxed rest p. distribute_bandwidth_across_flow veq lk flows
      = Some (map give_max maxed @ map (give_partition p) rest) \<and> shared_out flows maxed rest p
    \<and> equal_share (fdiv F64 (f64_of_u32 (link_bandwidth lk)) (f64_of_usize (length flows))) flows = (rest, p)"
  using distribute_loop_result [OF assms(1), of "[]" flows] assms(2)
  by (simp add: distribute_bandwidth_across_flow_def)

text \<open>The set a distribution gives back: the same flows, none allowed more than its maximum.\<close>

lemma shared_out_keys:
  assumes veq: "rust_eq veq" and d: "hs_distinct (flow_eq veq) flows"
    and sh: "shared_out flows maxed rest p"
  shows "hs_distinct (flow_eq veq) (map give_max maxed @ map (give_partition p) rest)"
    and "hs_contains (flow_eq veq) (map give_max maxed @ map (give_partition p) rest) g
      = hs_contains (flow_eq veq) flows g"
proof -
  have m: "mset (maxed @ rest) = mset flows" using sh by (simp add: shared_out_def)
  then have "set (maxed @ rest) = set flows" by (metis set_mset_mset)
  then show "hs_contains (flow_eq veq) (map give_max maxed @ map (give_partition p) rest) g
      = hs_contains (flow_eq veq) flows g"
    unfolding hs_contains_simps(3) give_keys by (auto simp: hs_contains_iff)
  have "hs_distinct (flow_eq veq) (maxed @ rest)"
    using rust_eq.hs_distinct_mset [OF flow_eq_rust_eq [OF veq] m] d by simp
  then have "hs_distinct (flow_eq veq) (map give_max maxed @ rest)"
    using append_distinct_map [OF veq, of "[]" "\<lambda>_. True" maxed rest] by simp
  then show "hs_distinct (flow_eq veq) (map give_max maxed @ map (give_partition p) rest)"
    by (simp add: hs_distinct_append2 give_keys)
qed

lemma shared_out_bound:
  assumes "shared_out flows maxed rest p" and "f \<in> set (map give_max maxed @ map (give_partition p) rest)"
  shows "fl_authorized f \<le> fl_max_allowed f"
    and "\<exists>g \<in> set flows. fl_source f = fl_source g \<and> fl_destination f = fl_destination g
      \<and> fl_max_allowed f = fl_max_allowed g"
proof -
  have s: "set flows = set maxed \<union> set rest"
    using assms(1) unfolding shared_out_def by (metis set_mset_mset set_mset_union)
  show "fl_authorized f \<le> fl_max_allowed f"
    using assms(2) by (auto simp: give_max_def give_partition_def Let_def)
  show "\<exists>g \<in> set flows. fl_source f = fl_source g \<and> fl_destination f = fl_destination g
      \<and> fl_max_allowed f = fl_max_allowed g"
    using assms(2) s by (auto simp: give_max_def give_partition_def Let_def)
qed

section \<open>Merging\<close>

text \<open>The stricter of two optional flows.\<close>

fun stricter :: "'v flow option \<Rightarrow> 'v flow option \<Rightarrow> 'v flow option" where
  "stricter None b = b"
| "stricter a None = a"
| "stricter (Some a) (Some b) = Some (if fl_authorized a < fl_authorized b then a else b)"

lemma merge_result:
  assumes veq: "rust_eq veq" and ds: "hs_distinct (flow_eq veq) self"
    and dt: "hs_distinct (flow_eq veq) other"
  shows "\<exists>r. merge_stricter veq self other = Some r \<and> hs_distinct (flow_eq veq) r
    \<and> (\<forall>g. hs_get (flow_eq veq) r g
         = stricter (hs_get (flow_eq veq) self g) (hs_get (flow_eq veq) other g))"
proof -
  let ?eq = "flow_eq veq"
  note fe = flow_eq_rust_eq [OF veq]
  note get_cong = rust_eq.hs_get_cong [OF fe] and con_cong = rust_eq.hs_contains_cong [OF fe]
  define pick where "pick k = the (stricter (hs_get ?eq self k) (hs_get ?eq other k))" for k
  let ?ks = "filter (hs_contains ?eq other) self"
  let ?a = "filter (\<lambda>x. \<not> hs_contains ?eq other x) self"
  let ?b = "filter (\<lambda>x. \<not> hs_contains ?eq self x) other"
  have both: "\<exists>x y. hs_get ?eq self k = Some x \<and> hs_get ?eq other k = Some y \<and> ?eq x k \<and> ?eq y k"
    if "k \<in> set ?ks" for k
    using that rust_eq.hs_get_self [OF fe ds, of k] hs_get_Some [of ?eq other k]
      rust_eq.refl [OF fe, of k]
    by (auto simp: rust_eq.hs_contains_get [OF fe])
  have pick: "?eq (pick k) k" if "k \<in> set ?ks" for k using both [OF that] by (auto simp: pick_def)
  have sel: "fold_opt
      (\<lambda>flow acc.
         (case (hs_get ?eq self flow, hs_get ?eq other flow) of
            (Some a, Some b) \<Rightarrow>
              Some (hs_insert ?eq (if fl_authorized a < fl_authorized b then a else b) acc)
          | _ \<Rightarrow> None))
      ?ks [] = Some (fold (\<lambda>k acc. hs_insert ?eq (pick k) acc) ?ks [])"
    by (rule fold_opt_total [where I = "\<lambda>_. True"]) (use both in \<open>fastforce simp: pick_def\<close>)+
  have dk: "hs_distinct ?eq (map pick ?ks)"
    by (rule rust_eq.hs_distinct_map [OF fe rust_eq.hs_distinct_filter [OF fe ds] pick])
  have sel2: "fold (\<lambda>k acc. hs_insert ?eq (pick k) acc) ?ks [] = map pick ?ks"
    using rust_eq.fold_insert_new [OF fe, of "[]" "map pick ?ks"] dk by (simp add: fold_map comp_def)
  have "\<not> hs_contains ?eq ?b x" if "x \<in> set ?a" for x
    using that con_cong by (auto simp: hs_contains_iff)
  then have dab: "hs_distinct ?eq (?a @ ?b)"
    using rust_eq.hs_distinct_filter [OF fe] ds dt by (simp add: hs_distinct_append2)
  have out: "\<not> hs_contains ?eq (map pick ?ks) x" if "x \<in> set (?a @ ?b)" for x
  proof -
    have "hs_contains ?eq (map pick ?ks) x = hs_contains ?eq ?ks x"
      by (rule rust_eq.hs_contains_map [OF fe pick])
    then show ?thesis using that con_cong [of _ x] by (auto simp: hs_contains_iff)
  qed
  have diff: "hs_difference ?eq (map pick ?ks) (?a @ ?b) = map pick ?ks"
    unfolding hs_difference_def filter_id_conv
    using out rust_eq.sym [OF fe] unfolding hs_contains_iff by blast
  have dall: "hs_distinct ?eq ((?a @ ?b) @ map pick ?ks)"
    unfolding hs_distinct_append2 [of _ "?a @ ?b"] using dab dk out by blast
  have run: "merge_stricter veq self other = Some ((?a @ ?b) @ map pick ?ks)"
    using sel sel2 rust_eq.hs_collect_distinct [OF fe dab] diff rust_eq.hs_collect_distinct [OF fe dall]
    by (simp add: merge_stricter_def Let_def hs_difference_def hs_intersection_def)
  have "hs_get ?eq ((?a @ ?b) @ map pick ?ks) g = stricter (hs_get ?eq self g) (hs_get ?eq other g)" for g
  proof -
    have a: "hs_get ?eq ?a g = (if hs_contains ?eq other g then None else hs_get ?eq self g)"
      using rust_eq.hs_get_filter [OF fe, of "\<lambda>x. \<not> hs_contains ?eq other x" self g] con_cong by auto
    have b: "hs_get ?eq ?b g = (if hs_contains ?eq self g then None else hs_get ?eq other g)"
      using rust_eq.hs_get_filter [OF fe, of "\<lambda>x. \<not> hs_contains ?eq self x" other g] con_cong by auto
    have k: "hs_get ?eq ?ks g = (if hs_contains ?eq other g then hs_get ?eq self g else None)"
      using rust_eq.hs_get_filter [OF fe, of "hs_contains ?eq other" self g] con_cong by auto
    have m: "hs_get ?eq (map pick ?ks) g = map_option pick (hs_get ?eq ?ks g)"
      by (rule rust_eq.hs_get_map [OF fe pick])
    have p: "pick x = the (stricter (hs_get ?eq self g) (hs_get ?eq other g))"
      if "hs_get ?eq self g = Some x" for x
      using get_cong [of x g] hs_get_Some [OF that] by (simp add: pick_def)
    show ?thesis
      using a b k m p
      by (cases "hs_get ?eq self g"; cases "hs_get ?eq other g")
        (simp_all add: rust_eq.hs_get_append [OF fe] rust_eq.hs_contains_get [OF fe])
  qed
  with run dall show ?thesis by auto
qed

end
