(* ===== verification/Bwflows.thy ===== *)
theory Bwflows
  imports Bwsync
begin

text \<open>
  What \<^verbatim>\<open>update_active_flows\<close>, \<^verbatim>\<open>update_flows\<close> and \<^verbatim>\<open>remove_flow\<close>
  compute: for each flow the strictest of the shares the links of the updated flow's path give
  it; and a bandwidth graph with the topology of the original one.
\<close>

section \<open>The path of a flow\<close>

definition flow_mapped :: "('v \<Rightarrow> 'v \<Rightarrow> bool) \<Rightarrow> 'v network \<Rightarrow> 'v flow \<Rightarrow> bool" where
  "flow_mapped veq net f \<longleftrightarrow> net_map_two veq net (fl_source f) (fl_destination f) \<noteq> None"

definition flow_links :: "('v \<Rightarrow> 'v \<Rightarrow> bool) \<Rightarrow> 'v network \<Rightarrow> 'v flow \<Rightarrow> 'v link list" where
  "flow_links veq net f = (case flow_path veq net f of None \<Rightarrow> [] | Some p \<Rightarrow> pth_links_set p)"

definition uses_link :: "('v \<Rightarrow> 'v \<Rightarrow> bool) \<Rightarrow> 'v network \<Rightarrow> 'v link \<Rightarrow> 'v flow \<Rightarrow> bool" where
  "uses_link veq net lk f \<longleftrightarrow> hs_contains (link_eq veq) (flow_links veq net f) lk"

lemma flow_path_total:
  assumes veq: "rust_eq veq" and inv: "net_inv veq net" and m: "flow_mapped veq net f"
  shows "\<exists>p. flow_path veq net f = Some p \<and> pth_links_set p = flow_links veq net f
    \<and> pth_links p = rev (flow_links veq net f) \<and> hs_distinct (link_eq veq) (flow_links veq net f)"
proof -
  obtain r where r: "net_get_path_between veq net (fl_source f) (fl_destination f) = Some r"
    and spec: "path_spec veq net (fl_source f) (fl_destination f) r"
    using get_path_between_result [OF veq inv] by blast
  obtain i j where ij: "net_map_two veq net (fl_source f) (fl_destination f) = Some (i, j)"
    using m by (auto simp: flow_mapped_def)
  show ?thesis
  proof (cases "reachable net i j")
    case False
    then show ?thesis
      using r spec ij by (simp add: path_spec_def flow_path_def flow_links_def path_new_def)
  next
    case True
    then obtain p where p: "best_walk net i j p"
      "r = Some \<lparr>pth_links = rev (walk_links net p), pth_links_set = walk_links net p\<rparr>"
      using spec ij by (auto simp: path_spec_def)
    then have "hs_distinct (link_eq veq) (walk_links net p)"
      using walk_links_distinct [OF veq inv] by (simp add: best_walk_def walk_between_def)
    then show ?thesis using r p by (simp add: flow_path_def flow_links_def)
  qed
qed

section \<open>Flows by shared links\<close>

text \<open>The flows on one link, the updated flow taken out or put in.\<close>

definition link_flows ::
  "('v \<Rightarrow> 'v \<Rightarrow> bool) \<Rightarrow> 'v network \<Rightarrow> 'v flow \<Rightarrow> 'v flow list \<Rightarrow> 'v link \<Rightarrow> 'v flow list" where
  "link_flows veq net u all lk =
     (let fs = filter (uses_link veq net lk) all
      in if fl_used u = 0 then hs_remove (flow_eq veq) u fs else hs_replace (flow_eq veq) u fs)"

lemma flows_on_link_result:
  assumes veq: "rust_eq veq" and inv: "net_inv veq net"
    and m: "\<forall>f \<in> set all. flow_mapped veq net f" and d: "hs_distinct (flow_eq veq) all"
  shows "flows_on_link veq net u all lk = Some (link_flows veq net u all lk)"
    and "hs_distinct (flow_eq veq) (link_flows veq net u all lk)"
proof -
  note fe = flow_eq_rust_eq [OF veq]
  let ?g = "\<lambda>f acc. if uses_link veq net lk f then hs_insert (flow_eq veq) f acc else acc"
  have body: "(case flow_path veq net f of None \<Rightarrow> None | Some p \<Rightarrow>
        Some (if hs_intersection (link_eq veq) (pth_links_set p) [lk] \<noteq> []
              then hs_insert (flow_eq veq) f acc else acc)) = Some (?g f acc)"
    if f: "f \<in> set all" for f acc
  proof -
    obtain p where p: "flow_path veq net f = Some p" "pth_links_set p = flow_links veq net f"
      using flow_path_total [OF veq inv] m f by blast
    have "hs_intersection (link_eq veq) (flow_links veq net f) [lk] \<noteq> [] \<longleftrightarrow> uses_link veq net lk f"
      using rust_eq.sym [OF link_eq_rust_eq [OF veq]]
      by (auto simp: hs_intersection_def uses_link_def hs_contains_iff filter_empty_conv)
    with p show ?thesis by simp
  qed
  have fold: "fold ?g xs s = fold (hs_insert (flow_eq veq)) (filter (uses_link veq net lk) xs) s" for xs s
    by (induction xs arbitrary: s) auto
  have df: "hs_distinct (flow_eq veq) (filter (uses_link veq net lk) all)"
    using d by (rule rust_eq.hs_distinct_filter [OF fe])
  have "fold_opt (\<lambda>f acc. case flow_path veq net f of None \<Rightarrow> None | Some p \<Rightarrow>
        Some (if hs_intersection (link_eq veq) (pth_links_set p) [lk] \<noteq> []
              then hs_insert (flow_eq veq) f acc else acc)) all []
      = Some (filter (uses_link veq net lk) all)"
    using fold_opt_total [where I = "\<lambda>_. True" and g = ?g] body fold
      rust_eq.fold_insert_new [OF fe, of "[]"] df by simp
  then show "flows_on_link veq net u all lk = Some (link_flows veq net u all lk)"
    by (simp add: flows_on_link_def link_flows_def Let_def)
  show "hs_distinct (flow_eq veq) (link_flows veq net u all lk)"
    using rust_eq.hs_distinct_remove [OF fe df] rust_eq.hs_distinct_replace [OF fe df]
    by (simp add: link_flows_def Let_def)
qed

lemma get_flows_by_shared_links_result:
  assumes veq: "rust_eq veq" and inv: "net_inv veq net" and mu: "flow_mapped veq net u"
    and m: "\<forall>f \<in> set all. flow_mapped veq net f" and d: "hs_distinct (flow_eq veq) all"
  shows "get_flows_by_shared_links veq u all net
    = Some (map (\<lambda>lk. (lk, link_flows veq net u all lk)) (flow_links veq net u))"
proof -
  let ?F = "link_flows veq net u all"
  obtain p where p: "flow_path veq net u = Some p" "pth_links_set p = flow_links veq net u"
    and dl: "hs_distinct (link_eq veq) (flow_links veq net u)"
    using flow_path_total [OF veq inv mu] by blast
  have step: "fold_opt (\<lambda>lk acc. case flows_on_link veq net u all lk of None \<Rightarrow> None
       | Some fs \<Rightarrow> Some (hm_insert (link_eq veq) lk fs acc)) ls acc
     = Some (fold (\<lambda>lk. hm_insert (link_eq veq) lk (?F lk)) ls acc)" for ls acc
    by (rule fold_opt_total [where I = "\<lambda>_. True"]) (simp_all add: flows_on_link_result [OF veq inv m d])
  have "fold (\<lambda>lk. hm_insert (link_eq veq) lk (?F lk)) ls (map (\<lambda>lk. (lk, ?F lk)) s)
      = map (\<lambda>lk. (lk, ?F lk)) (s @ ls)" if "hs_distinct (link_eq veq) (s @ ls)" for ls s
    using that
  proof (induction ls arbitrary: s)
    case (Cons l ls)
    have d2: "hs_distinct (link_eq veq) ((s @ [l]) @ ls)" using Cons.prems by simp
    then have "hs_distinct (link_eq veq) (s @ [l])" unfolding hs_distinct_append2 by blast
    then have "\<not> hs_contains (link_eq veq) s l"
      by (simp add: rust_eq.hs_distinct_append [OF link_eq_rust_eq [OF veq]])
    then have "hm_get (link_eq veq) (map (\<lambda>lk. (lk, ?F lk)) s) l = None"
      by (intro rust_eq.hm_get_none [OF link_eq_rust_eq [OF veq]]) (simp add: hm_keys_def comp_def)
    then show ?case using Cons.IH [OF d2] by (simp add: hm_insert_fresh)
  qed simp
  from this [of "[]"] show ?thesis
    using p dl step by (simp add: get_flows_by_shared_links_def)
qed

section \<open>The new shares\<close>

text \<open>What the distribution of one link gives a flow, and the strictest over several links.\<close>

definition link_share :: "('v \<Rightarrow> 'v \<Rightarrow> bool) \<Rightarrow> 'v network \<Rightarrow> 'v flow \<Rightarrow> 'v flow list
    \<Rightarrow> 'v flow \<Rightarrow> 'v link \<Rightarrow> 'v flow option" where
  "link_share veq net u all g lk =
     hs_get (flow_eq veq) (the (distribute_bandwidth_across_flow veq lk (link_flows veq net u all lk))) g"

definition strictest :: "('v \<Rightarrow> 'v \<Rightarrow> bool) \<Rightarrow> 'v network \<Rightarrow> 'v flow \<Rightarrow> 'v flow list
    \<Rightarrow> 'v flow \<Rightarrow> 'v flow option" where
  "strictest veq net u all g =
     fold (\<lambda>lk acc. stricter acc (link_share veq net u all g lk)) (flow_links veq net u) None"

lemma flow_mapped_hungry [simp]: "flow_mapped veq net (f\<lparr>fl_hungry := h\<rparr>) = flow_mapped veq net f"
  by (simp add: flow_mapped_def)

lemma copy_hungryness_fields [simp]:
  "fl_source (copy_hungryness veq u fs) = fl_source u"
  "fl_destination (copy_hungryness veq u fs) = fl_destination u"
  "fl_used (copy_hungryness veq u fs) = fl_used u"
  "fl_max_allowed (copy_hungryness veq u fs) = fl_max_allowed u"
  by (simp_all add: copy_hungryness_def split: option.splits)

lemma flow_mapped_copy [simp]:
  "flow_mapped veq net (copy_hungryness veq u fs) = flow_mapped veq net u"
  by (simp add: flow_mapped_def)

lemma update_active_flows_result:
  assumes veq: "rust_eq veq" and inv: "net_inv veq net" and mu: "flow_mapped veq net u0"
    and m: "\<forall>f \<in> set all. flow_mapped veq net f" and d: "hs_distinct (flow_eq veq) all"
  defines "u \<equiv> copy_hungryness veq u0 all"
  shows "\<exists>new. update_active_flows veq u0 all net = Some (u, new) \<and> hs_distinct (flow_eq veq) new
    \<and> (\<forall>g. hs_get (flow_eq veq) new g = strictest veq net u all g)"
proof -
  note fe = flow_eq_rust_eq [OF veq]
  define D where "D lk = the (distribute_bandwidth_across_flow veq lk (link_flows veq net u all lk))"
    for lk
  have share: "link_share veq net u all g lk = hs_get (flow_eq veq) (D lk) g" for g lk
    by (simp add: link_share_def D_def)
  have dist: "distribute_bandwidth_across_flow veq lk (link_flows veq net u all lk) = Some (D lk)
    \<and> hs_distinct (flow_eq veq) (D lk)" for lk
  proof -
    have df: "hs_distinct (flow_eq veq) (link_flows veq net u all lk)"
      by (rule flows_on_link_result(2) [OF veq inv m d])
    obtain mx rs q where "distribute_bandwidth_across_flow veq lk (link_flows veq net u all lk)
      = Some (map give_max mx @ map (give_partition q) rs)"
      and "shared_out (link_flows veq net u all lk) mx rs q"
      using distribute_result [OF veq df] by blast
    then show ?thesis using shared_out_keys(1) [OF veq df] by (simp add: D_def)
  qed
  let ?step = "\<lambda>(lk, flows) updated. case distribute_bandwidth_across_flow veq lk flows of
      None \<Rightarrow> None | Some new_flows \<Rightarrow> merge_stricter veq updated new_flows"
  have fold: "\<exists>new. fold_opt ?step (map (\<lambda>lk. (lk, link_flows veq net u all lk)) ls) acc = Some new
    \<and> hs_distinct (flow_eq veq) new
    \<and> (\<forall>g. hs_get (flow_eq veq) new g
          = fold (\<lambda>lk acc. stricter acc (link_share veq net u all g lk)) ls (hs_get (flow_eq veq) acc g))"
    if "hs_distinct (flow_eq veq) acc" for ls acc
    using that
  proof (induction ls arbitrary: acc)
    case (Cons l ls)
    obtain acc' where a: "merge_stricter veq acc (D l) = Some acc'" "hs_distinct (flow_eq veq) acc'"
      "\<forall>g. hs_get (flow_eq veq) acc' g
         = stricter (hs_get (flow_eq veq) acc g) (hs_get (flow_eq veq) (D l) g)"
      using merge_result [OF veq Cons.prems] dist by blast
    from Cons.IH [OF a(2)] a dist [of l] show ?case by (simp add: share)
  qed simp
  have "get_flows_by_shared_links veq u all net
    = Some (map (\<lambda>lk. (lk, link_flows veq net u all lk)) (flow_links veq net u))"
    using mu by (intro get_flows_by_shared_links_result [OF veq inv _ m d]) (simp add: u_def)
  with fold [of "[]" "flow_links veq net u"] show ?thesis
    by (auto simp: update_active_flows_def Let_def strictest_def hs_get_def u_def [symmetric])
qed

lemma stricter_le:
  "stricter a b = Some f \<Longrightarrow> (a = Some x \<longrightarrow> fl_authorized f \<le> fl_authorized x)
    \<and> (b = Some y \<longrightarrow> fl_authorized f \<le> fl_authorized y)"
  by (induction a b rule: stricter.induct) (auto split: if_splits)

lemma stricter_from: "stricter a b = Some f \<Longrightarrow> a = Some f \<or> b = Some f"
  by (induction a b rule: stricter.induct) (auto split: if_splits)

lemma fold_stricter_le:
  "fold (\<lambda>x acc. stricter acc (h x)) xs a = Some f \<Longrightarrow>
   (\<forall>y. a = Some y \<longrightarrow> fl_authorized f \<le> fl_authorized y)
   \<and> (\<forall>x \<in> set xs. \<forall>y. h x = Some y \<longrightarrow> fl_authorized f \<le> fl_authorized y)
   \<and> (a = Some f \<or> (\<exists>x \<in> set xs. h x = Some f))"
proof (induction xs arbitrary: a)
  case (Cons x xs)
  from Cons.IH [of "stricter a (h x)"] Cons.prems
  have ih: "\<forall>y. stricter a (h x) = Some y \<longrightarrow> fl_authorized f \<le> fl_authorized y"
    "\<forall>z \<in> set xs. \<forall>y. h z = Some y \<longrightarrow> fl_authorized f \<le> fl_authorized y"
    "stricter a (h x) = Some f \<or> (\<exists>z \<in> set xs. h z = Some f)" by simp_all
  have "fl_authorized f \<le> fl_authorized y" if y: "a = Some y \<or> h x = Some y" for y
  proof -
    obtain w where w: "stricter a (h x) = Some w" using y by (cases a; cases "h x") auto
    then have "fl_authorized w \<le> fl_authorized y" using stricter_le [OF w] y by blast
    with ih(1) w show ?thesis by (blast intro: order_trans)
  qed
  with ih stricter_from [of a "h x" f] show ?case by auto
qed simp

section \<open>The bandwidth graph\<close>

text \<open>Two networks with the same vertices and the same links up to their bandwidth.\<close>

definition same_topology :: "'v network \<Rightarrow> 'v network \<Rightarrow> bool" where
  "same_topology net net' \<longleftrightarrow> net_size net' = net_size net \<and> net_mapper net' = net_mapper net
     \<and> net_strategy net' = net_strategy net
     \<and> (\<forall>k < net_size net. \<forall>l < net_size net.
          map_option (set_bandwidth 0) (net_link net' k l) = map_option (set_bandwidth 0) (net_link net k l))"

lemma set_bandwidth_twice [simp]: "set_bandwidth a (set_bandwidth b lk) = set_bandwidth a lk"
  by (simp add: set_bandwidth_def)

lemma update_spec_topology:
  assumes "net_inv veq net" and "update_spec veq net from to f net'"
  shows "net_inv veq net' \<and> same_topology net net'"
proof -
  have "net' = net \<or> (\<exists>p. edges_updated veq net (on_walk p) f net')"
    using assms(2) unfolding update_spec_def by (auto split: option.splits if_splits)
  then show ?thesis
    using assms(1) by (auto simp: edges_updated_def same_topology_def option.map_comp comp_def)
qed

lemma same_topology_trans:
  "same_topology a b \<Longrightarrow> same_topology b c \<Longrightarrow> same_topology a c"
  by (simp add: same_topology_def)

text \<open>The used bandwidth of each flow in turn is taken off every link of a best walk between its ends,
  in the network as the flows before it left it; a flow without a walk takes nothing.\<close>

fun bandwidth_taken :: "('v \<Rightarrow> 'v \<Rightarrow> bool) \<Rightarrow> 'v network \<Rightarrow> 'v flow list \<Rightarrow> 'v network \<Rightarrow> bool" where
  "bandwidth_taken veq net [] net' \<longleftrightarrow> net' = net"
| "bandwidth_taken veq net (f # fs) net' \<longleftrightarrow>
     (\<exists>net1. update_spec veq net (fl_source f) (fl_destination f) (\<lambda>b. b - fl_used f) net1
       \<and> bandwidth_taken veq net1 fs net')"

lemma calculate_bandwidth_graph_result:
  assumes "net_inv veq graph"
  shows "\<exists>bw. calculate_bandwidth_graph veq graph flows = Some bw \<and> net_inv veq bw
    \<and> same_topology graph bw \<and> bandwidth_taken veq graph flows bw"
proof -
  have "\<exists>bw. fold_opt (\<lambda>flow bw_graph.
          net_update_edges_along_path_by veq bw_graph (fl_source flow) (fl_destination flow)
            (\<lambda>old_speed. old_speed - fl_used flow)) fs g = Some bw \<and> net_inv veq bw
    \<and> same_topology graph bw \<and> bandwidth_taken veq g fs bw" if "net_inv veq g" "same_topology graph g" for fs g
    using that
  proof (induction fs arbitrary: g)
    case (Cons f fs)
    obtain g' where g': "net_update_edges_along_path_by veq g (fl_source f) (fl_destination f)
          (\<lambda>old_speed. old_speed - fl_used f) = Some g'"
      and taken: "update_spec veq g (fl_source f) (fl_destination f) (\<lambda>b. b - fl_used f) g'"
      using update_edges_result [OF Cons.prems(1)] by blast
    then have "net_inv veq g'" "same_topology graph g'"
      using update_spec_topology [OF Cons.prems(1)] same_topology_trans [OF Cons.prems(2)] by blast+
    from Cons.IH [OF this] g' taken show ?case by auto
  qed simp
  from this [OF assms] show ?thesis by (simp add: calculate_bandwidth_graph_def same_topology_def)
qed

section \<open>update\_flows and remove\_flow\<close>

text \<open>A flow after the update: its new share where it has one.\<close>

definition updated_flow :: "('v \<Rightarrow> 'v \<Rightarrow> bool) \<Rightarrow> 'v network \<Rightarrow> 'v flow \<Rightarrow> 'v flow list
    \<Rightarrow> 'v flow \<Rightarrow> 'v flow option" where
  "updated_flow veq net u all g =
     (case strictest veq net u all g of None \<Rightarrow> hs_get (flow_eq veq) all g | Some f \<Rightarrow> Some f)"

definition flows_updated :: "('v \<Rightarrow> 'v \<Rightarrow> bool) \<Rightarrow> 'v network \<Rightarrow> 'v flow \<Rightarrow> 'v flow list
    \<Rightarrow> 'v flow \<times> 'v flow list \<times> 'v network \<Rightarrow> bool" where
  "flows_updated veq graph u0 all r \<longleftrightarrow> (let (u, active', bw') = r in
     u = copy_hungryness veq u0 all \<and> hs_distinct (flow_eq veq) active'
     \<and> (\<forall>g. hs_get (flow_eq veq) active' g = updated_flow veq graph u all g)
     \<and> bandwidth_taken veq graph active' bw'
     \<and> net_inv veq bw' \<and> same_topology graph bw')"

lemma update_then_graph:
  assumes veq: "rust_eq veq" and inv: "net_inv veq graph" and mu: "flow_mapped veq graph u0"
    and m: "\<forall>f \<in> set all. flow_mapped veq graph f" and d: "hs_distinct (flow_eq veq) all"
  shows "\<exists>u new bw'. update_active_flows veq u0 all graph = Some (u, new)
    \<and> calculate_bandwidth_graph veq graph (fold (hs_replace (flow_eq veq)) new all) = Some bw'
    \<and> flows_updated veq graph u0 all (u, fold (hs_replace (flow_eq veq)) new all, bw')"
proof -
  note fe = flow_eq_rust_eq [OF veq]
  let ?u = "copy_hungryness veq u0 all"
  obtain new where new: "update_active_flows veq u0 all graph = Some (?u, new)"
    "hs_distinct (flow_eq veq) new" "\<forall>g. hs_get (flow_eq veq) new g = strictest veq graph ?u all g"
    using update_active_flows_result [OF veq inv mu m d] by blast
  obtain bw' where bw: "calculate_bandwidth_graph veq graph (fold (hs_replace (flow_eq veq)) new all) = Some bw'"
    "net_inv veq bw'" "same_topology graph bw'"
    "bandwidth_taken veq graph (fold (hs_replace (flow_eq veq)) new all) bw'"
    using calculate_bandwidth_graph_result [OF inv] by blast
  have "flows_updated veq graph u0 all (?u, fold (hs_replace (flow_eq veq)) new all, bw')"
    using new bw rust_eq.hs_get_fold_replace [OF fe new(2)] rust_eq.hs_distinct_fold_replace [OF fe d]
    by (simp add: flows_updated_def updated_flow_def)
  with new(1) bw(1) show ?thesis by blast
qed

lemma update_flows_result:
  assumes veq: "rust_eq veq" and inv: "net_inv veq graph" and ib: "net_inv veq bw_graph"
    and mu: "flow_mapped veq graph u0"
    and m: "\<forall>f \<in> set all. flow_mapped veq graph f" and d: "hs_distinct (flow_eq veq) all"
  shows "\<exists>b r. net_bandwidth_between veq bw_graph (fl_source u0) (fl_destination u0) = Some b
    \<and> update_flows veq all u0 graph bw_graph = Some r
    \<and> (if b = None then r = (u0, all, bw_graph) else flows_updated veq graph u0 all r)"
proof -
  obtain b where b: "net_bandwidth_between veq bw_graph (fl_source u0) (fl_destination u0) = Some b"
    using bandwidth_between_spec [OF ib] by blast
  obtain u new bw' where u: "update_active_flows veq u0 all graph = Some (u, new)"
    "calculate_bandwidth_graph veq graph (fold (hs_replace (flow_eq veq)) new all) = Some bw'"
    "flows_updated veq graph u0 all (u, fold (hs_replace (flow_eq veq)) new all, bw')"
    using update_then_graph [OF veq inv mu m d] by blast
  show ?thesis
  proof (cases b)
    case None
    then show ?thesis using b by (simp add: update_flows_def)
  next
    case (Some x)
    then have "update_flows veq all u0 graph bw_graph
        = Some (u, fold (hs_replace (flow_eq veq)) new all, bw')"
      using b u by (simp add: update_flows_def Let_def)
    with b Some u(3) show ?thesis by auto
  qed
qed

lemma remove_flow_result:
  assumes veq: "rust_eq veq" and inv: "net_inv veq graph" and mu: "flow_mapped veq graph u0"
    and m: "\<forall>f \<in> set all. flow_mapped veq graph f" and d: "hs_distinct (flow_eq veq) all"
  shows "\<exists>r. remove_flow veq all u0 graph = Some r
    \<and> flows_updated veq graph u0 (hs_remove (flow_eq veq) u0 all) r"
proof -
  note fe = flow_eq_rust_eq [OF veq]
  have "\<forall>f \<in> set (hs_remove (flow_eq veq) u0 all). flow_mapped veq graph f"
    using m set_hs_remove by fastforce
  from update_then_graph [OF veq inv mu this rust_eq.hs_distinct_remove [OF fe d]]
  show ?thesis by (auto simp: remove_flow_def Let_def)
qed

end
