(* ===== verification/Flow_Properties.thy ===== *)
theory Flow_Properties
  imports Network_Properties Bwflows
begin

text \<open>
  What the bandwidth synchronisation of \<^verbatim>\<open>emulation/src/bwsync.rs\<close> guarantees, with
  witnesses on flows over the network of three vertices in a line.
\<close>

section \<open>Sharing one link\<close>

text \<open>C18: \<^verbatim>\<open>distribute_bandwidth_across_flow\<close> terminates and gives back the same
  flows. The first share is the bandwidth of the link divided by the number of flows; in each round
  the flows that need no more than the share leave, with their maximum, and what they leave of their
  shares is divided between the others and added to the share (\<^verbatim>\<open>equal_share\<close>, in the arithmetic of
  \<^verbatim>\<open>f64\<close>). The flows left in the end get the final share capped by their maximum, and no flow is
  authorized more than its maximum.\<close>

theorem distribute_shares:
  assumes "rust_eq veq" and "hs_distinct (flow_eq veq) flows"
  shows "\<exists>maxed rest p. distribute_bandwidth_across_flow veq lk flows
      = Some (map give_max maxed @ map (give_partition p) rest) \<and> shared_out flows maxed rest p
    \<and> equal_share (fdiv F64 (f64_of_u32 (link_bandwidth lk)) (f64_of_usize (length flows))) flows = (rest, p)
    \<and> (\<forall>f \<in> set (map give_max maxed @ map (give_partition p) rest).
         fl_authorized f \<le> fl_max_allowed f)"
  using distribute_result [OF assms, of lk] shared_out_bound(1) by blast

text \<open>Two flows on a link of bandwidth 100: one that uses 30 gets its maximum, and the other the 70
  that are left.\<close>

lemma share_of_two:
  "equal_share (fdiv F64 (f64_of_u32 100) (f64_of_usize 2))
     [flow_build (10 :: nat) 11 30 30, flow_build 10 12 80 80] = ([flow_build 10 12 80 80], Fin 70)"
proof -
  have n: "fround F64 100 = Fin 100" "fround F64 50 = Fin 50" "fround F64 30 = Fin 30" "fround F64 80 = Fin 80"
      "fround F64 20 = Fin 20" "fround F64 70 = Fin 70" "fround F64 2 = Fin 2" "fround F64 1 = Fin 1"
    using f64_int_exact [of 100] f64_int_exact [of 50] f64_int_exact [of 30] f64_int_exact [of 80]
      f64_int_exact [of 20] f64_int_exact [of 70] f64_int_exact [of 2] f64_int_exact [of 1] by simp_all
  have u: "f64_of_u32 100 = Fin 100" "f64_of_u32 30 = Fin 30" "f64_of_u32 80 = Fin 80"
      "f64_of_usize 2 = Fin 2" "f64_of_usize 1 = Fin 1"
    by (simp_all add: f64_of_u32_def f64_of_usize_def f_of_int_def n)
  have start: "fdiv F64 (f64_of_u32 100) (f64_of_usize 2) = Fin 50" by (simp add: u n)
  have left: "left_over (Fin 50) [flow_build (10 :: nat) 11 30 30] = Fin 20"
    by (simp add: left_over_def flow_build_def u n fsub_def)
  have "equal_share (Fin 70) [flow_build (10 :: nat) 12 80 80] = ([flow_build 10 12 80 80], Fin 70)"
    by (subst equal_share.simps) (simp add: flow_build_def u)
  moreover have "equal_share (Fin 50) [flow_build (10 :: nat) 11 30 30, flow_build 10 12 80 80]
      = equal_share (Fin 70) [flow_build 10 12 80 80]"
    by (subst equal_share.simps) (use left in \<open>simp add: flow_build_def u(1-4) u(5) [simplified] n\<close>)
  ultimately show ?thesis by (simp only: start)
qed

theorem distribute_shares_witness:
  "\<exists>maxed. distribute_bandwidth_across_flow (=) (link_build (10 :: nat) 11 0 1 100)
      [flow_build 10 11 30 30, flow_build 10 12 80 80]
      = Some (map give_max maxed @ [give_partition (Fin 70) (flow_build 10 12 80 80)])
    \<and> shared_out [flow_build 10 11 30 30, flow_build 10 12 80 80] maxed [flow_build 10 12 80 80] (Fin 70)"
proof -
  let ?flows = "[flow_build (10 :: nat) 11 30 30, flow_build 10 12 80 80]"
  have "hs_distinct (flow_eq (=)) ?flows"
    by (simp add: flow_eq_def flow_build_def hs_contains_simps)
  from distribute_shares [OF hol_eq.rust_eq_axioms this, of "link_build 10 11 0 1 100"] obtain maxed rest p where
    r: "distribute_bandwidth_across_flow (=) (link_build 10 11 0 1 100) ?flows
        = Some (map give_max maxed @ map (give_partition p) rest)" "shared_out ?flows maxed rest p"
      "equal_share (fdiv F64 (f64_of_u32 (link_bandwidth (link_build (10 :: nat) 11 0 1 100)))
        (f64_of_usize (length ?flows))) ?flows = (rest, p)" by blast
  have "(rest, p) = ([flow_build 10 12 80 80], Fin 70)"
    using r(3) share_of_two by (simp add: link_build_def link_bandwidth_def numeral_2_eq_2)
  with r(1,2) show ?thesis by auto
qed

text \<open>Merging two sets of flows keeps, for each flow, the stricter of the two
  authorized bandwidths, and a flow of only one set as it is.\<close>

theorem merge_keeps_stricter:
  assumes "rust_eq veq" and "hs_distinct (flow_eq veq) self" and "hs_distinct (flow_eq veq) other"
  shows "\<exists>r. merge_stricter veq self other = Some r \<and> hs_distinct (flow_eq veq) r
    \<and> (\<forall>g. hs_get (flow_eq veq) r g
         = stricter (hs_get (flow_eq veq) self g) (hs_get (flow_eq veq) other g))"
  using assms by (rule merge_result)

theorem merge_keeps_stricter_witness:
  "\<exists>r. merge_stricter (=) [flow_build (10 :: nat) 11 30 30] [flow_build 10 11 30 20] = Some r
    \<and> hs_distinct (flow_eq (=)) r
    \<and> (\<forall>g. hs_get (flow_eq (=)) r g
         = stricter (hs_get (flow_eq (=)) [flow_build 10 11 30 30] g)
             (hs_get (flow_eq (=)) [flow_build 10 11 30 20] g))"
  by (rule merge_keeps_stricter [OF hol_eq.rust_eq_axioms]) (simp_all add: hs_contains_simps)

section \<open>Flows and links\<close>

text \<open>\<^verbatim>\<open>get_flows_by_shared_links\<close> gives, for every link of the path of the
  updated flow, the active flows whose paths use that link, with the updated flow replaced, or
  taken out when it uses no bandwidth.\<close>

theorem flows_by_link:
  assumes "rust_eq veq" and "net_inv veq net" and "flow_mapped veq net u"
    and "\<forall>f \<in> set all. flow_mapped veq net f" and "hs_distinct (flow_eq veq) all"
  shows "get_flows_by_shared_links veq u all net
    = Some (map (\<lambda>lk. (lk, link_flows veq net u all lk)) (flow_links veq net u))"
  using assms by (rule get_flows_by_shared_links_result)

theorem flows_by_link_witness:
  "\<exists>net. line_net ShortestPath = Some net
    \<and> get_flows_by_shared_links (=) (flow_build 10 12 50 40) [flow_build 10 11 30 30] net
      = Some (map (\<lambda>lk. (lk, link_flows (=) net (flow_build 10 12 50 40) [flow_build 10 11 30 30] lk))
          (flow_links (=) net (flow_build 10 12 50 40)))"
proof -
  obtain net where n: "line_net ShortestPath = Some net" "net_inv (=) net" "net_map (=) net 10 = Some 0"
    "net_map (=) net 11 = Some 1" "net_map (=) net 12 = Some 2" using line_net_ok [of ShortestPath] by blast
  then show ?thesis
    using flows_by_link [OF hol_eq.rust_eq_axioms n(2), of "flow_build 10 12 50 40" "[flow_build 10 11 30 30]"]
    by (simp add: flow_mapped_def flow_build_def net_map_two_def hs_contains_simps)
qed

text \<open>C6: \<^verbatim>\<open>update_active_flows\<close> authorizes every flow that shares a link with the
  updated flow the strictest of its shares over the links of the updated flow's path.\<close>

theorem active_flows_strictest:
  assumes "rust_eq veq" and "net_inv veq net" and "flow_mapped veq net u0"
    and "\<forall>f \<in> set all. flow_mapped veq net f" and "hs_distinct (flow_eq veq) all"
  shows "\<exists>new. update_active_flows veq u0 all net = Some (copy_hungryness veq u0 all, new)
    \<and> hs_distinct (flow_eq veq) new
    \<and> (\<forall>g. hs_get (flow_eq veq) new g = strictest veq net (copy_hungryness veq u0 all) all g)"
  using assms by (rule update_active_flows_result)

theorem active_flows_strictest_witness:
  "\<exists>net. line_net ShortestPath = Some net
    \<and> (\<exists>new. update_active_flows (=) (flow_build 10 12 50 40) [] net
        = Some (copy_hungryness (=) (flow_build 10 12 50 40) [], new)
      \<and> hs_distinct (flow_eq (=)) new
      \<and> (\<forall>g. hs_get (flow_eq (=)) new g
           = strictest (=) net (copy_hungryness (=) (flow_build 10 12 50 40) []) [] g))"
proof -
  obtain net where n: "line_net ShortestPath = Some net" "net_inv (=) net" "net_map (=) net 10 = Some 0"
    "net_map (=) net 12 = Some 2" using line_net_ok [of ShortestPath] by blast
  then show ?thesis
    using active_flows_strictest [OF hol_eq.rust_eq_axioms n(2), of "flow_build 10 12 50 40" "[]"]
    by (simp add: flow_mapped_def flow_build_def net_map_two_def)
qed

section \<open>Updating and removing a flow\<close>

text \<open>C27: \<^verbatim>\<open>update_flows\<close> changes nothing when the remaining graph has no path for
  the flow; otherwise the active flows get their strictest shares, the other flows stay, and the
  remaining graph is the topology from which each flow in turn, in the order in which the set is
  iterated, has its used bandwidth taken off every link of a best walk between its ends (the
  subtraction wraps around).\<close>

theorem update_flows_correct:
  assumes "rust_eq veq" and "net_inv veq graph" and "net_inv veq bw_graph"
    and "flow_mapped veq graph u0"
    and "\<forall>f \<in> set all. flow_mapped veq graph f" and "hs_distinct (flow_eq veq) all"
  shows "\<exists>b r. net_bandwidth_between veq bw_graph (fl_source u0) (fl_destination u0) = Some b
    \<and> update_flows veq all u0 graph bw_graph = Some r
    \<and> (if b = None then r = (u0, all, bw_graph) else flows_updated veq graph u0 all r)"
  using assms by (rule update_flows_result)

theorem update_flows_correct_witness:
  "\<exists>net. line_net ShortestPath = Some net
    \<and> (\<exists>b r. net_bandwidth_between (=) net 10 12 = Some b
      \<and> update_flows (=) [] (flow_build 10 12 50 40) net net = Some r
      \<and> (if b = None then r = (flow_build 10 12 50 40, [], net)
         else flows_updated (=) net (flow_build 10 12 50 40) [] r))"
proof -
  obtain net where n: "line_net ShortestPath = Some net" "net_inv (=) net" "net_map (=) net 10 = Some 0"
    "net_map (=) net 12 = Some 2" using line_net_ok [of ShortestPath] by blast
  then show ?thesis
    using update_flows_correct [OF hol_eq.rust_eq_axioms n(2,2), of "flow_build 10 12 50 40" "[]"]
    by (simp add: flow_mapped_def flow_build_def net_map_two_def)
qed

lemma stricter_None: "stricter a b = None \<longleftrightarrow> a = None \<and> b = None"
  by (cases a; cases b) simp_all

lemma strictest_some:
  assumes "lk \<in> set (flow_links veq net u)" and "link_share veq net u all g lk \<noteq> None"
  shows "strictest veq net u all g \<noteq> None"
proof -
  have keep: "fold (\<lambda>lk acc. stricter acc (link_share veq net u all g lk)) ls acc \<noteq> None"
    if "acc \<noteq> None \<or> (\<exists>lk \<in> set ls. link_share veq net u all g lk \<noteq> None)" for ls acc
    using that
  proof (induction ls arbitrary: acc)
    case (Cons l ls)
    have "stricter acc (link_share veq net u all g l) \<noteq> None
      \<or> (\<exists>lk \<in> set ls. link_share veq net u all g lk \<noteq> None)"
      using Cons.prems unfolding stricter_None by auto
    from Cons.IH [OF this] show ?case by simp
  qed simp
  show ?thesis unfolding strictest_def using keep assms by blast
qed

lemma strictest_none:
  assumes "\<forall>lk \<in> set (flow_links veq net u). link_share veq net u all g lk = None"
  shows "strictest veq net u all g = None"
proof -
  have "fold (\<lambda>lk acc. stricter acc (link_share veq net u all g lk)) ls None = None"
    if "\<forall>lk \<in> set ls. link_share veq net u all g lk = None" for ls
    using that by (induction ls) simp_all
  then show ?thesis using assms by (simp add: strictest_def)
qed

lemma link_share_own:
  assumes veq: "rust_eq veq" and inv: "net_inv veq net"
    and m: "\<forall>f \<in> set all. flow_mapped veq net f" and d: "hs_distinct (flow_eq veq) all"
    and new: "\<not> hs_contains (flow_eq veq) all u"
  shows "link_share veq net u all u lk \<noteq> None \<longleftrightarrow> fl_used u \<noteq> 0"
proof -
  note fe = flow_eq_rust_eq [OF veq]
  let ?fs = "link_flows veq net u all lk"
  have dd: "hs_distinct (flow_eq veq) ?fs" using flows_on_link_result(2) [OF veq inv m d] .
  obtain maxed rest p where r: "distribute_bandwidth_across_flow veq lk ?fs
      = Some (map give_max maxed @ map (give_partition p) rest)" "shared_out ?fs maxed rest p"
    using distribute_result [OF veq dd] by blast
  have "link_share veq net u all u lk \<noteq> None \<longleftrightarrow> hs_contains (flow_eq veq) ?fs u"
    using shared_out_keys(2) [OF veq dd r(2)] r(1) by (simp add: link_share_def hs_get_None)
  also have "\<dots> \<longleftrightarrow> fl_used u \<noteq> 0"
  proof -
    have "\<not> hs_contains (flow_eq veq) (filter (uses_link veq net lk) all) u"
      using new by (auto simp: hs_contains_iff)
    then show ?thesis
      using set_hs_remove [of "flow_eq veq" u "filter (uses_link veq net lk) all"]
        rust_eq.hs_contains_replace [OF fe] rust_eq.refl [OF fe]
      by (auto simp: link_flows_def Let_def hs_contains_iff)
  qed
  finally show ?thesis .
qed

text \<open>C28: \<^verbatim>\<open>remove_flow\<close> takes the flow out of the active flows when the flow it is
  given uses no bandwidth. Given a flow that still uses bandwidth and has a path, it puts the flow
  back, because the recomputation of the shares inserts it again.\<close>

theorem remove_flow_removes:
  assumes veq: "rust_eq veq" and inv: "net_inv veq graph" and mu: "flow_mapped veq graph u0"
    and m: "\<forall>f \<in> set all. flow_mapped veq graph f" and d: "hs_distinct (flow_eq veq) all"
  shows "\<exists>u active bw. remove_flow veq all u0 graph = Some (u, active, bw)
    \<and> (hs_contains (flow_eq veq) active u0
        \<longleftrightarrow> fl_used u0 \<noteq> 0 \<and> flow_links veq graph u0 \<noteq> [])"
proof -
  note fe = flow_eq_rust_eq [OF veq]
  let ?rest = "hs_remove (flow_eq veq) u0 all" and ?u = "copy_hungryness veq u0 (hs_remove (flow_eq veq) u0 all)"
  obtain active bw where r: "remove_flow veq all u0 graph = Some (?u, active, bw)"
    and get: "\<forall>g. hs_get (flow_eq veq) active g = updated_flow veq graph ?u ?rest g"
    using remove_flow_result [OF veq inv mu m d] unfolding flows_updated_def Let_def by auto
  have gone: "\<not> hs_contains (flow_eq veq) ?rest u0"
    using rust_eq.hs_contains_remove [OF fe d] rust_eq.refl [OF fe] by simp
  have same: "flow_eq veq ?u u0" using rust_eq.refl [OF veq] by (simp add: flow_eq_def)
  have links: "flow_links veq graph ?u = flow_links veq graph u0" "fl_used ?u = fl_used u0"
    by (simp_all add: flow_links_def flow_path_def)
  have m': "\<forall>f \<in> set ?rest. flow_mapped veq graph f" using m set_hs_remove by fastforce
  have gone': "\<not> hs_contains (flow_eq veq) ?rest ?u"
    using gone rust_eq.hs_contains_cong [OF fe same] by simp
  have share: "link_share veq graph ?u ?rest ?u lk \<noteq> None \<longleftrightarrow> fl_used u0 \<noteq> 0" for lk
    using link_share_own [OF veq inv m' rust_eq.hs_distinct_remove [OF fe d] gone'] links(2) by simp
  have "updated_flow veq graph ?u ?rest ?u \<noteq> None \<longleftrightarrow> fl_used u0 \<noteq> 0 \<and> flow_links veq graph u0 \<noteq> []"
  proof (cases "fl_used u0 \<noteq> 0 \<and> flow_links veq graph u0 \<noteq> []")
    case True
    then obtain lk where "lk \<in> set (flow_links veq graph ?u)" using links(1) by (cases "flow_links veq graph u0") auto
    then have "strictest veq graph ?u ?rest ?u \<noteq> None" using share True strictest_some by blast
    then show ?thesis using True by (auto simp: updated_flow_def)
  next
    case False
    then have "strictest veq graph ?u ?rest ?u = None"
      using share links(1) by (intro strictest_none) auto
    then show ?thesis using False gone' by (simp add: updated_flow_def hs_get_None)
  qed
  moreover have "hs_get (flow_eq veq) active u0 = updated_flow veq graph ?u ?rest ?u"
    using get rust_eq.hs_get_cong [OF fe same] by metis
  ultimately have "hs_get (flow_eq veq) active u0 \<noteq> None
    \<longleftrightarrow> fl_used u0 \<noteq> 0 \<and> flow_links veq graph u0 \<noteq> []" by simp
  then show ?thesis using r unfolding hs_get_None by blast
qed

theorem remove_flow_removes_witness:
  "\<exists>net. line_net ShortestPath = Some net
    \<and> (\<exists>u active bw. remove_flow (=) [flow_build 10 12 50 40] (flow_build 10 12 50 0) net = Some (u, active, bw)
      \<and> \<not> hs_contains (flow_eq (=)) active (flow_build 10 12 50 0))"
proof -
  obtain net where n: "line_net ShortestPath = Some net" "net_inv (=) net" "net_map (=) net 10 = Some 0"
    "net_map (=) net 12 = Some 2" using line_net_ok [of ShortestPath] by blast
  then show ?thesis
    using remove_flow_removes [OF hol_eq.rust_eq_axioms n(2), of "flow_build 10 12 50 0" "[flow_build 10 12 50 40]"]
    by (simp add: flow_mapped_def flow_build_def net_map_two_def hs_contains_simps)
qed

end
