(* ===== verification/Common.thy ===== *)
theory Common
  imports Floats
begin

text \<open>
  The types of the crate \<^verbatim>\<open>common\<close> that the other components share: the error type of
  \<^verbatim>\<open>common/src/error.rs\<close>, addresses and \<^verbatim>\<open>ClusterNodeInfo\<close>. A
  \<^verbatim>\<open>Result\<close> is a sum with the error on the left.
\<close>

section \<open>Errors\<close>

datatype error_kind =
    NotFound | AlreadyStarted | NoResource | PerfTestFailed | CommandFailed | OpcodeNotRecognized
  | NotASocketAddr | BadWrite | ConnectionInterrupted | BadMode | NoStream | UnexpectedEof
  | EmptyGraph | AlreadyExists | InconsistentState | InvalidData | DockerInit | Unsupported
  | Parse | Wrapped

fun error_kind_display :: "error_kind \<Rightarrow> string" where
  "error_kind_display NotFound = ''Not Found''"
| "error_kind_display AlreadyStarted = ''Already Started''"
| "error_kind_display NoResource = ''No Resource''"
| "error_kind_display PerfTestFailed = ''Performance Test Failed''"
| "error_kind_display CommandFailed = ''Command Failed''"
| "error_kind_display OpcodeNotRecognized = ''Opcode Not Recognized''"
| "error_kind_display Wrapped = ''Wrapped error''"
| "error_kind_display NotASocketAddr = ''Not A Socket Address''"
| "error_kind_display BadWrite = ''Bad Write''"
| "error_kind_display ConnectionInterrupted = ''Connection Interrupted''"
| "error_kind_display BadMode = ''Bad Mode''"
| "error_kind_display NoStream = ''No Stream''"
| "error_kind_display UnexpectedEof = ''Unexpected EOF''"
| "error_kind_display EmptyGraph = ''Empty Graph''"
| "error_kind_display AlreadyExists = ''Already Exists''"
| "error_kind_display InconsistentState = ''Inconsistent State''"
| "error_kind_display InvalidData = ''Invalid Data''"
| "error_kind_display DockerInit = ''Docker Initialization''"
| "error_kind_display Unsupported = ''Operation not supported''"
| "error_kind_display Parse = ''Parse Error''"

text \<open>The wrapped error is kept as the text it displays.\<close>

record error =
  err_location :: string
  err_kind :: error_kind
  err_message :: string
  err_sub :: "string option"

type_synonym 'a result = "error + 'a"

definition ascii_upper :: "char \<Rightarrow> char" where
  "ascii_upper c = (let k = (of_char c :: nat) in if 97 \<le> k \<and> k \<le> 122 then char_of (k - 32) else c)"

definition error_new :: "string \<Rightarrow> error_kind \<Rightarrow> string \<Rightarrow> error" where
  "error_new location kind message =
     \<lparr>err_location = map ascii_upper location, err_kind = kind, err_message = message, err_sub = None\<rparr>"

definition error_wrap :: "string \<Rightarrow> error_kind \<Rightarrow> string \<Rightarrow> string \<Rightarrow> error" where
  "error_wrap location kind message err = (error_new location kind message)\<lparr>err_sub := Some err\<rparr>"

text \<open>The two \<^verbatim>\<open>From\<close> conversions behind the question mark operator.\<close>

definition error_from :: "string \<Rightarrow> error" where
  "error_from value = \<lparr>err_location = [], err_kind = Wrapped, err_message = [], err_sub = Some value\<rparr>"

definition error_display :: "error \<Rightarrow> string" where
  "error_display e =
     (case err_sub e of
        Some sub \<Rightarrow> ''['' @ err_location e @ '']: Error type: '' @ error_kind_display (err_kind e)
          @ '' '' @ [CHR 0x09] @ '' Error message: '' @ err_message e @ ''. '' @ [CHR 0x0A] @ sub
      | None \<Rightarrow> ''['' @ err_location e @ '']: Error type: '' @ error_kind_display (err_kind e)
          @ '' '' @ [CHR 0x09] @ '' Error message: '' @ err_message e @ ''.'')"

section \<open>Addresses\<close>

type_synonym ipv4 = "u8 list"

datatype ip_addr = V4 ipv4 | V6 "u16 list"

fun as_v4 :: "ip_addr \<Rightarrow> ipv4 result" where
  "as_v4 (V4 a) = Inr a"
| "as_v4 (V6 _) = Inl (error_new ''AsV4 Ipaddr'' InvalidData ''You cannot convert an IpV6 in IpV4'')"

text \<open>\<^verbatim>\<open>u32::from_be_bytes(octets)\<close>\<close>

definition ipv4_to_u32 :: "ipv4 \<Rightarrow> u32" where
  "ipv4_to_u32 octets = foldl (\<lambda>acc b. acc * 256 + ucast b) 0 octets"

definition ipv4_of_u32 :: "u32 \<Rightarrow> ipv4" where
  "ipv4_of_u32 w = [ucast (drop_bit 24 w), ucast (drop_bit 16 w), ucast (drop_bit 8 w), ucast w]"

text \<open>An identifier of the crate \<^verbatim>\<open>uuid\<close>.\<close>

type_synonym uuid = "128 word"

record cluster_node_info =
  cni_ip_addr :: ip_addr
  cni_port :: u16

definition cni_new :: "ip_addr \<Rightarrow> u16 \<Rightarrow> cluster_node_info" where
  "cni_new addr port = \<lparr>cni_ip_addr = addr, cni_port = port\<rparr>"

definition cni_eq :: "cluster_node_info \<Rightarrow> cluster_node_info \<Rightarrow> bool" where
  "cni_eq a b \<longleftrightarrow> cni_ip_addr a = cni_ip_addr b \<and> cni_port a = cni_port b"

lemma cni_eq_iff [simp]: "cni_eq a b \<longleftrightarrow> a = b"
  by (cases a; cases b) (auto simp: cni_eq_def)

lemma cni_eq_HOL: "cni_eq = (=)"
  by (intro ext) simp

lemma error_new_kind [simp]: "err_kind (error_new l k m) = k"
  by (simp add: error_new_def)

end
