(* ===== verification/CGraph.thy ===== *)
theory CGraph
  imports Common SymMatrix Hash_Collections
begin

text \<open>
  The cluster graph (\<^verbatim>\<open>cgraph/src/lib.rs\<close>): the measured speeds between the nodes of
  the cluster in a symmetric matrix, and the nodes with their index in it. A speed is a
  \<^verbatim>\<open>usize\<close>. An operation returns the state it leaves and its \<^verbatim>\<open>Result\<close>;
  \<^verbatim>\<open>None\<close> is a panic.
\<close>

section \<open>Data\<close>

record test_data =
  td_limited :: bool
  td_direct_tested :: bool
  td_speed :: u64

definition test_data_default :: "nat \<Rightarrow> nat \<Rightarrow> test_data" where
  "test_data_default row col = \<lparr>td_limited = True, td_direct_tested = False, td_speed = 0\<rparr>"

record 'i cnode =
  cn_index :: nat
  cn_speed :: u64
  cn_info :: 'i

text \<open>Nodes are equal, and hash equal, when their indices are.\<close>

definition cnode_eq :: "'i cnode \<Rightarrow> 'i cnode \<Rightarrow> bool" where
  "cnode_eq a b \<longleftrightarrow> cn_index a = cn_index b"

definition cnode_build :: "nat \<Rightarrow> u64 \<Rightarrow> 'i \<Rightarrow> 'i cnode" where
  "cnode_build index speed info = \<lparr>cn_index = index, cn_speed = speed, cn_info = info\<rparr>"

record 'i cgraph =
  cg_graph :: "test_data sym_matrix"
  cg_nodes :: "'i cnode list"

definition cg_err :: "error_kind \<Rightarrow> string \<Rightarrow> error" where
  "cg_err kind message = error_new ''cgraph'' kind message"

definition cg_new :: "'i cgraph option" where
  "cg_new = (case sm_new_fn 0 (\<lambda>row col. Some (test_data_default row col)) of
     None \<Rightarrow> None | Some g \<Rightarrow> Some \<lparr>cg_graph = g, cg_nodes = []\<rparr>)"

definition cg_map_nodes :: "('i \<Rightarrow> 'i) \<Rightarrow> 'i cgraph \<Rightarrow> 'i cgraph" where
  "cg_map_nodes f g = g\<lparr>cg_nodes :=
     fold (\<lambda>node new_node_set. hs_insert cnode_eq (node\<lparr>cn_info := f (cn_info node)\<rparr>) new_node_set)
       (cg_nodes g) []\<rparr>"

definition cg_size :: "'i cgraph \<Rightarrow> nat" where
  "cg_size g = length (cg_nodes g)"

definition cg_is_empty :: "'i cgraph \<Rightarrow> bool" where
  "cg_is_empty g \<longleftrightarrow> length (cg_nodes g) = 0"

text \<open>\<^verbatim>\<open>filter(..).take(1).last().unwrap()\<close>\<close>

definition cg_node_by_index :: "'i cgraph \<Rightarrow> nat \<Rightarrow> 'i cnode option" where
  "cg_node_by_index g index = find (\<lambda>n. cn_index n = index) (cg_nodes g)"

definition cg_speed :: "'i cgraph \<Rightarrow> nat \<Rightarrow> nat \<Rightarrow> u64 option" where
  "cg_speed g i j = map_option td_speed (sm_get (cg_graph g) i j)"

text \<open>\<^verbatim>\<open>self.c_graph[(i, j)].set_..(..)\<close>\<close>

definition cg_modify :: "nat \<Rightarrow> nat \<Rightarrow> (test_data \<Rightarrow> test_data) \<Rightarrow> 'i cgraph \<Rightarrow> 'i cgraph option" where
  "cg_modify i j f g =
     (case store_modify sm_get sm_set i j f (cg_graph g) of
        None \<Rightarrow> None | Some m \<Rightarrow> Some (g\<lparr>cg_graph := m\<rparr>))"

abbreviation set_speed :: "u64 \<Rightarrow> test_data \<Rightarrow> test_data" where
  "set_speed s d \<equiv> d\<lparr>td_speed := s\<rparr>"

abbreviation set_limited :: "bool \<Rightarrow> test_data \<Rightarrow> test_data" where
  "set_limited b d \<equiv> d\<lparr>td_limited := b\<rparr>"

abbreviation set_direct_tested :: "bool \<Rightarrow> test_data \<Rightarrow> test_data" where
  "set_direct_tested b d \<equiv> d\<lparr>td_direct_tested := b\<rparr>"

section \<open>find\_leader\<close>

definition f64_of_u64 :: "u64 \<Rightarrow> fval" where
  "f64_of_u64 w = f_of_int F64 (uint w)"

definition cg_average :: "'i cgraph \<Rightarrow> nat \<Rightarrow> fval option" where
  "cg_average g i =
     map_option (\<lambda>total. fdiv F64 total (f64_of_usize (usize_sub (sm_size (cg_graph g)) 1)))
       (fold_opt
          (\<lambda>j current_average.
             if i = j then Some current_average
             else map_option (\<lambda>s. fadd F64 current_average (f64_of_u64 s)) (cg_speed g i j))
          [0..<sm_size (cg_graph g)] (Fin 0))"

definition cg_find_leader :: "'i cgraph \<Rightarrow> 'i cnode result option" where
  "cg_find_leader g =
     (if length (cg_nodes g) = 0
      then Some (Inl (cg_err EmptyGraph ''No element in the graph, no leader''))
      else
        (case fold_opt
                (\<lambda>i (best_index, best_average).
                   map_option
                     (\<lambda>current_average.
                        if flt best_average current_average then (i, current_average)
                        else (best_index, best_average))
                     (cg_average g i))
                [0..<sm_size (cg_graph g)] (0, Fin 0) of
           None \<Rightarrow> None
         | Some (best_index, _) \<Rightarrow> map_option Inr (cg_node_by_index g best_index)))"

section \<open>Adding and removing nodes\<close>

definition cg_add_node :: "u64 \<Rightarrow> 'i \<Rightarrow> 'i cgraph \<Rightarrow> ('i cgraph \<times> 'i cnode result) option" where
  "cg_add_node speed info g =
     (case find (\<lambda>n. cn_info n = info) (cg_nodes g) of
        Some node \<Rightarrow> Some (g, Inr node)
      | None \<Rightarrow>
          (case sm_grow_fn (cg_graph g) 1 (\<lambda>row col. Some (test_data_default row col)) of
             None \<Rightarrow> None
           | Some m \<Rightarrow>
               let g1 = g\<lparr>cg_graph := m\<rparr>;
                   index = usize_sub (sm_size m) 1
               in
               (case cg_modify index index (set_speed (- 1)) g1 of
                  None \<Rightarrow> None
                | Some g2 \<Rightarrow>
                    let node = cnode_build index speed info in
                    if hs_contains cnode_eq (cg_nodes g2) node
                    then Some (g2, Inl (cg_err AlreadyExists ''node already exists, big problem...''))
                    else Some (g2\<lparr>cg_nodes := hs_insert cnode_eq node (cg_nodes g2)\<rparr>, Inr node))))"

definition cg_shift :: "'i cnode \<Rightarrow> 'i cnode \<Rightarrow> 'i cnode" where
  "cg_shift node n =
     (if cn_index node < cn_index n then cnode_build (cn_index n - 1) (cn_speed n) (cn_info n) else n)"

definition cg_remove_one_by ::
  "('i cnode \<Rightarrow> bool) \<Rightarrow> 'i cgraph \<Rightarrow> ('i cgraph \<times> unit result) option" where
  "cg_remove_one_by predicate g =
     (case find predicate (cg_nodes g) of
        None \<Rightarrow> Some (g, Inl (cg_err NoResource
          ''[CGraph] Cannot remove the node you are searching for, predicates didn't give anything.''))
      | Some node \<Rightarrow>
          if \<not> hs_contains cnode_eq (cg_nodes g) node
          then Some (g, Inl (cg_err NotFound ''cannot find the node you want to remove''))
          else
            let g1 = g\<lparr>cg_nodes := hs_remove cnode_eq node (cg_nodes g)\<rparr> in
            (case sm_remove_id (cg_graph g1) (cn_index node) of
               None \<Rightarrow> None
             | Some cgraph \<Rightarrow>
                 let new_nodes = hs_collect cnode_eq (map (cg_shift node) (cg_nodes g1)) in
                 if sm_size cgraph \<noteq> length new_nodes
                 then Some (g1, Inl (cg_err InconsistentState
                        ''Inconsistency after removing node from CGraph''))
                 else Some (\<lparr>cg_graph = cgraph, cg_nodes = new_nodes\<rparr>, Inr ())))"

section \<open>Speeds by transition\<close>

definition cg_min_speed :: "'i cgraph \<Rightarrow> nat \<Rightarrow> nat \<Rightarrow> u64 option" where
  "cg_min_speed g i j =
     (case map cn_speed (filter (\<lambda>a. cn_index a = i \<or> cn_index a = j) (cg_nodes g)) of
        [] \<Rightarrow> None
      | s # ss \<Rightarrow> Some (fold min ss s))"

text \<open>One innermost step; the outer option is a panic, the sum the early return.\<close>

definition update_speed_step ::
  "nat \<times> nat \<times> nat \<Rightarrow> 'i cgraph \<times> unit result \<Rightarrow> ('i cgraph \<times> unit result) option" where
  "update_speed_step ijk st =
     (case ijk of (i, j, k) \<Rightarrow> (case st of
        (g, Inl e) \<Rightarrow> Some (g, Inl e)
      | (g, Inr _) \<Rightarrow>
          (case (cg_speed g i k, cg_speed g k j, cg_speed g i j) of
             (Some ik, Some kj, Some ij) \<Rightarrow>
               let speed_by_transition = min ik kj in
               if ij < speed_by_transition then
                 (case cg_modify i j (set_speed speed_by_transition) g of
                    None \<Rightarrow> None
                  | Some g1 \<Rightarrow>
                      (case cg_min_speed g1 i j of
                         None \<Rightarrow> Some (g1, Inl (cg_err NoResource
                           ''Cannot the two nodes while updating speeds''))
                       | Some min_speed \<Rightarrow>
                           if min_speed = speed_by_transition then
                             (case cg_modify i j (set_limited False) g1 of
                                None \<Rightarrow> None
                              | Some g2 \<Rightarrow> Some (g2, Inr ()))
                           else Some (g1, Inr ())))
               else Some (g, Inr ())
           | _ \<Rightarrow> None)))"

text \<open>The order of the three loops: \<open>i\<close>, then \<open>j\<close>, then \<open>k\<close> innermost.\<close>

definition triples :: "nat \<Rightarrow> (nat \<times> nat \<times> nat) list" where
  "triples n = concat (map (\<lambda>i. concat (map (\<lambda>j. map (\<lambda>k. (i, j, k)) [0..<n]) [0..<n])) [0..<n])"

definition cg_update_speeds :: "'i cgraph \<Rightarrow> ('i cgraph \<times> unit result) option" where
  "cg_update_speeds g = fold_opt update_speed_step (triples (sm_size (cg_graph g))) (g, Inr ())"

definition cg_add_link_direct_test ::
  "'i cnode \<Rightarrow> 'i cnode \<Rightarrow> u64 \<Rightarrow> 'i cgraph \<Rightarrow> ('i cgraph \<times> bool result) option" where
  "cg_add_link_direct_test from to speed g =
     (if \<not> hs_contains cnode_eq (cg_nodes g) from \<or> \<not> hs_contains cnode_eq (cg_nodes g) to
      then Some (g, Inl (cg_err NotFound ''your node is not in the system, add it first''))
      else
        let min_speed = min (cn_speed from) (cn_speed to) in
        if min_speed < speed
        then Some (g, Inl (cg_err InvalidData ''cannot have better performance than nodes speeds''))
        else
          (case cg_modify (cn_index from) (cn_index to) (set_limited False) g of
             None \<Rightarrow> None
           | Some g1 \<Rightarrow>
               (case cg_speed g1 (cn_index from) (cn_index to) of
                  None \<Rightarrow> None
                | Some s \<Rightarrow>
                    let useful = s < speed in
                    (case cg_modify (cn_index from) (cn_index to) (set_direct_tested True) g1 of
                       None \<Rightarrow> None
                     | Some g2 \<Rightarrow>
                         (case cg_modify (cn_index from) (cn_index to) (set_speed speed) g2 of
                            None \<Rightarrow> None
                          | Some g3 \<Rightarrow>
                              (case cg_update_speeds g3 of
                                 None \<Rightarrow> None
                               | Some (g4, Inl e) \<Rightarrow> Some (g4, Inl e)
                               | Some (g4, Inr _) \<Rightarrow> Some (g4, Inr useful)))))))"

section \<open>speeds\<close>

definition cg_speeds :: "'i cgraph \<Rightarrow> (u32 sym_matrix \<times> 'i list) option" where
  "cg_speeds g =
     (case sm_new_fn (length (cg_nodes g)) (\<lambda>row col. map_option ucast (cg_speed g row col)) of
        None \<Rightarrow> None
      | Some matrix \<Rightarrow>
          (case map_opt (\<lambda>index. map_option cn_info (cg_node_by_index g index)) [0..<sm_size matrix] of
             None \<Rightarrow> None
           | Some infos \<Rightarrow> Some (matrix, infos)))"

section \<open>find\_missing\_from\_me\<close>

text \<open>The search of the first usable intermediate node \<open>k\<close>; \<open>True\<close> when the test is
  ignored.\<close>

fun find_shortcut ::
  "'i cnode \<Rightarrow> 'i cnode \<Rightarrow> 'i cnode list \<Rightarrow> 'i cgraph \<Rightarrow> ('i cgraph \<times> bool) option" where
  "find_shortcut from to [] g = Some (g, False)"
| "find_shortcut from to (k # ks) g =
     (if cnode_eq k from \<or> cnode_eq k to then find_shortcut from to ks g
      else
        (case (sm_get (cg_graph g) (cn_index from) (cn_index k),
               sm_get (cg_graph g) (cn_index k) (cn_index to)) of
           (Some fk, Some kt) \<Rightarrow>
             if (\<not> td_limited fk \<or> td_direct_tested fk) \<and> (\<not> td_limited kt \<or> td_direct_tested kt) then
               (if td_speed fk = td_speed kt then find_shortcut from to ks g
                else
                  (case cg_modify (cn_index from) (cn_index to)
                          (set_speed (if td_speed kt < td_speed fk then td_speed kt else td_speed fk)) g of
                     None \<Rightarrow> None
                   | Some g1 \<Rightarrow>
                       map_option (\<lambda>g2. (g2, True))
                         (cg_modify (cn_index from) (cn_index to) (set_direct_tested True) g1)))
             else find_shortcut from to ks g
         | _ \<Rightarrow> None))"

definition missing_step ::
  "'i cnode \<Rightarrow> u64 \<Rightarrow> 'i cnode \<Rightarrow> 'i cgraph \<times> 'i cnode list \<Rightarrow> ('i cgraph \<times> 'i cnode list) option" where
  "missing_step from sufficient_speed to st =
     (case st of (g, missing_links) \<Rightarrow>
      if cnode_eq from to then Some (g, missing_links)
      else
        (case sm_get (cg_graph g) (cn_index from) (cn_index to) of
           None \<Rightarrow> None
         | Some d \<Rightarrow>
             if \<not> td_direct_tested d \<and> td_speed d < sufficient_speed
                \<and> td_speed d < min (cn_speed from) (cn_speed to) then
               (case find_shortcut from to (cg_nodes g) g of
                  None \<Rightarrow> None
                | Some (g', ignore_test) \<Rightarrow>
                    Some (g', if ignore_test then missing_links else missing_links @ [to]))
             else Some (g, missing_links)))"

text \<open>\<^verbatim>\<open>max_by\<close> returns the last of several greatest elements.\<close>

fun max_by_speed :: "'i cnode list \<Rightarrow> 'i cnode option" where
  "max_by_speed [] = None"
| "max_by_speed (n # ns) = Some (fold (\<lambda>b a. if cn_speed a \<le> cn_speed b then b else a) ns n)"

definition cg_find_missing_from_me ::
  "'i cnode \<Rightarrow> u64 \<Rightarrow> 'i cgraph \<Rightarrow> ('i cgraph \<times> 'i cnode option result) option" where
  "cg_find_missing_from_me me sufficient_speed g =
     (case fold_opt (missing_step me sufficient_speed) (cg_nodes g) (g, []) of
        None \<Rightarrow> None
      | Some (g', missing_links) \<Rightarrow>
          Some (g', if missing_links = [] then Inr None
                    else (case max_by_speed missing_links of
                            None \<Rightarrow> Inl (cg_err NoResource ''[CGraph] Cannot find the fastest node'')
                          | Some node \<Rightarrow> Inr (Some node))))"

end
