(* ===== verification/CGraph_Props.thy ===== *)
theory CGraph_Props
  imports CGraph
begin

text \<open>
  The invariant of the cluster graph (the node indices are exactly the rows of the matrix), its
  preservation by every operation, and what each operation does: none of them panics or reports
  an inconsistent state on a graph that satisfies it.
\<close>

section \<open>The invariant\<close>

definition cg_inv :: "'i cgraph \<Rightarrow> bool" where
  "cg_inv g \<longleftrightarrow> sm_wf (cg_graph g) \<and> distinct (map cn_index (cg_nodes g))
     \<and> set (map cn_index (cg_nodes g)) = {..<sm_n (cg_graph g)}"

definition cg_cell :: "'i cgraph \<Rightarrow> nat \<Rightarrow> nat \<Rightarrow> test_data" where
  "cg_cell g i j = the (sm_get (cg_graph g) i j)"

abbreviation cg_n :: "'i cgraph \<Rightarrow> nat" where
  "cg_n g \<equiv> sm_n (cg_graph g)"

lemma cnode_eq_rust: "rust_eq cnode_eq"
  by unfold_locales (auto simp: cnode_eq_def)

interpretation cn: rust_eq cnode_eq
  by (rule cnode_eq_rust)

lemma hs_contains_cnode: "hs_contains cnode_eq ns x \<longleftrightarrow> cn_index x \<in> set (map cn_index ns)"
  by (induction ns) (auto simp: hs_contains_simps cnode_eq_def)

lemma hs_distinct_cnode: "hs_distinct cnode_eq ns \<longleftrightarrow> distinct (map cn_index ns)"
  by (induction ns) (simp_all add: hs_contains_cnode)

lemma cg_inv_length: "cg_inv g \<Longrightarrow> length (cg_nodes g) = cg_n g"
  using distinct_card [of "map cn_index (cg_nodes g)"] by (simp add: cg_inv_def)

lemma cg_cell_get:
  "cg_inv g \<Longrightarrow> i < cg_n g \<Longrightarrow> j < cg_n g \<Longrightarrow> sm_get (cg_graph g) i j = Some (cg_cell g i j)"
  using sm.get_total [of "cg_graph g" i j] by (auto simp: cg_inv_def sm_size_def cg_cell_def)

lemma cg_cell_sym: "cg_cell g i j = cg_cell g j i"
  using sm.get_sym [of "cg_graph g" i j] by (simp add: cg_cell_def)

lemma cg_speed_cell:
  "cg_inv g \<Longrightarrow> i < cg_n g \<Longrightarrow> j < cg_n g \<Longrightarrow> cg_speed g i j = Some (td_speed (cg_cell g i j))"
  by (simp add: cg_speed_def cg_cell_get)

lemma cg_node_by_index_total:
  assumes "cg_inv g" and "i < cg_n g"
  shows "\<exists>node \<in> set (cg_nodes g). cg_node_by_index g i = Some node \<and> cn_index node = i"
proof -
  have "i \<in> set (map cn_index (cg_nodes g))" using assms by (simp add: cg_inv_def)
  then have "find (\<lambda>n. cn_index n = i) (cg_nodes g) \<noteq> None" by (auto simp: find_None_iff)
  then obtain node where "find (\<lambda>n. cn_index n = i) (cg_nodes g) = Some node" by blast
  then show ?thesis by (auto simp: cg_node_by_index_def find_Some_iff)
qed

text \<open>The two names \<open>(i, j)\<close> and \<open>(j, i)\<close> of one cell.\<close>

definition same_pair :: "nat \<Rightarrow> nat \<Rightarrow> nat \<Rightarrow> nat \<Rightarrow> bool" where
  "same_pair i j k l \<longleftrightarrow> i = k \<and> j = l \<or> i = l \<and> j = k"

lemma same_pair_simps [simp]: "same_pair i j i j" "same_pair i j j i"
  by (simp_all add: same_pair_def)

lemma cg_modify_result:
  assumes inv: "cg_inv g" and ij: "i < cg_n g" "j < cg_n g"
  shows "\<exists>g'. cg_modify i j f g = Some g' \<and> cg_inv g' \<and> cg_n g' = cg_n g \<and> cg_nodes g' = cg_nodes g
    \<and> (\<forall>k < cg_n g. \<forall>l < cg_n g. cg_cell g' k l
         = (if same_pair i j k l then f (cg_cell g k l) else cg_cell g k l))"
proof -
  obtain m where m: "store_modify sm_get sm_set i j f (cg_graph g) = Some m" "sm_wf m"
    "sm_size m = sm_size (cg_graph g)"
    and c: "\<forall>k < sm_size (cg_graph g). \<forall>l < sm_size (cg_graph g).
      sm_get m k l = map_option (on_pair k l (i, j, f)) (sm_get (cg_graph g) k l)"
    using sm.modify_total [of "cg_graph g" i j f] inv ij by (auto simp: cg_inv_def sm_size_def)
  have "cg_cell (g\<lparr>cg_graph := m\<rparr>) k l
      = (if same_pair i j k l then f (cg_cell g k l) else cg_cell g k l)"
    if kl: "k < cg_n g" "l < cg_n g" for k l
  proof -
    obtain y where "sm_get (cg_graph g) k l = Some y" using cg_cell_get [OF inv kl] by blast
    then show ?thesis using c kl by (simp add: cg_cell_def sm_size_def same_pair_def)
  qed
  moreover have "cg_inv (g\<lparr>cg_graph := m\<rparr>)" using inv m by (simp add: cg_inv_def sm_size_def)
  ultimately show ?thesis using m by (simp add: cg_modify_def sm_size_def)
qed

section \<open>Creation and nodes\<close>

lemma cg_new_result: "\<exists>g. cg_new = Some g \<and> cg_inv g \<and> cg_nodes g = [] \<and> cg_n g = 0"
proof -
  obtain m where m: "sm_new_fn 0 (\<lambda>row col. Some (test_data_default row col)) = Some m"
    using sm_new_fn_total [of 0 "\<lambda>row col. Some (test_data_default row col)"] by auto
  have "sm_wf m" "sm_n m = 0" using sm_new_fn_Some(1,2) [OF _ m] by simp_all
  with m show ?thesis by (simp add: cg_new_def cg_inv_def)
qed

text \<open>What \<^verbatim>\<open>add_node\<close> does: nothing for an information already there; otherwise a new last
  row of untested, limited links of speed zero, with the unlimited speed to itself.\<close>

definition node_added :: "u64 \<Rightarrow> 'i \<Rightarrow> 'i cgraph \<Rightarrow> 'i cgraph \<Rightarrow> 'i cnode \<Rightarrow> bool" where
  "node_added speed info g g' node \<longleftrightarrow>
     (if \<exists>n \<in> set (cg_nodes g). cn_info n = info
      then g' = g \<and> node \<in> set (cg_nodes g) \<and> cn_info node = info
      else node = \<lparr>cn_index = cg_n g, cn_speed = speed, cn_info = info\<rparr>
        \<and> cg_n g' = Suc (cg_n g) \<and> cg_nodes g' = cg_nodes g @ [node]
        \<and> (\<forall>i < cg_n g'. \<forall>j < cg_n g'. cg_cell g' i j =
             (if i < cg_n g \<and> j < cg_n g then cg_cell g i j
              else \<lparr>td_limited = True, td_direct_tested = False,
                    td_speed = (if i = j then - 1 else 0)\<rparr>)))"

lemma cg_add_node_result:
  assumes inv: "cg_inv g" and small: "Suc (cg_n g) < 2 ^ 26"
  shows "\<exists>g' node. cg_add_node speed info g = Some (g', Inr node) \<and> cg_inv g'
    \<and> node_added speed info g g' node"
proof (cases "find (\<lambda>n. cn_info n = info) (cg_nodes g)")
  case (Some node)
  then have "node \<in> set (cg_nodes g)" "cn_info node = info" by (auto simp: find_Some_iff)
  then have "node_added speed info g g node" by (auto simp: node_added_def)
  with Some inv show ?thesis by (simp add: cg_add_node_def)
next
  case None
  then have fresh: "\<not> (\<exists>n \<in> set (cg_nodes g). cn_info n = info)" by (auto simp: find_None_iff)
  let ?d = "\<lambda>row col. Some (test_data_default row col)"
  have wf: "sm_wf (cg_graph g)" using inv by (simp add: cg_inv_def)
  obtain m where m: "sm_grow_fn (cg_graph g) 1 ?d = Some m"
    using sm_grow_fn_total [OF wf, of 1 ?d] small by auto
  have small': "cg_n g + 1 < 2 ^ 26" using small by simp
  note grow = sm_grow_fn_Some [OF small' m]
  define g1 where "g1 = g\<lparr>cg_graph := m\<rparr>"
  have n1: "cg_n g1 = Suc (cg_n g)" using grow(2) by (simp add: g1_def)
  define I where "I = cg_n g"
  have cell1: "cg_cell g1 i j = (if i < I \<and> j < I then cg_cell g i j else test_data_default i j)"
    if "i < Suc I" "j < Suc I" for i j
    using grow(3) [of i j] that cg_cell_get [OF inv, of i j]
    by (auto simp: cg_cell_def g1_def I_def test_data_default_def)
  text \<open>The node set still lacks the last row, so the write is done on the matrix alone.\<close>
  have sz: "sm_size m = Suc I" using grow(2) by (simp add: sm_size_def I_def)
  obtain m2 where m2: "store_modify sm_get sm_set I I (set_speed (- 1)) m = Some m2" "sm_wf m2"
    "sm_size m2 = sm_size m"
    and c2: "\<forall>k < sm_size m. \<forall>l < sm_size m.
      sm_get m2 k l = map_option (on_pair k l (I, I, set_speed (- 1))) (sm_get m k l)"
    using sm.modify_total [of m I I "set_speed (- 1)"] grow(1) sz by auto
  let ?node = "cnode_build I speed info"
  let ?g2 = "g\<lparr>cg_graph := m2\<rparr>"
  have mod: "cg_modify I I (set_speed (- 1)) g1 = Some ?g2"
    using m2(1) by (simp add: cg_modify_def g1_def)
  have new: "\<not> hs_contains cnode_eq (cg_nodes g) ?node"
    using inv by (simp add: hs_contains_cnode cnode_build_def cg_inv_def I_def del: set_map)
  have run: "cg_add_node speed info g
      = Some (?g2\<lparr>cg_nodes := cg_nodes g @ [?node]\<rparr>, Inr ?node)"
    using None m mod new sz by (simp add: cg_add_node_def g1_def Let_def hs_insert_new)
  let ?g' = "?g2\<lparr>cg_nodes := cg_nodes g @ [?node]\<rparr>"
  have n': "cg_n ?g' = Suc I" using m2(3) sz by (simp add: sm_size_def)
  have "cg_cell ?g' i j = (if i < I \<and> j < I then cg_cell g i j
      else \<lparr>td_limited = True, td_direct_tested = False, td_speed = (if i = j then - 1 else 0)\<rparr>)"
    if ij: "i < Suc I" "j < Suc I" for i j
  proof -
    have "sm_get m i j = Some (cg_cell g1 i j)"
      using sm.get_total [OF grow(1), of i j] ij sz by (auto simp: cg_cell_def g1_def)
    then have "cg_cell ?g' i j = on_pair i j (I, I, set_speed (- 1)) (cg_cell g1 i j)"
      using c2 ij sz by (simp add: cg_cell_def)
    then show ?thesis using cell1 [OF ij] ij by (auto simp: test_data_default_def)
  qed
  then have "node_added speed info g ?g' ?node"
    unfolding node_added_def using fresh n' by (simp add: cnode_build_def I_def)
  moreover have "cg_inv ?g'"
    using inv m2(2) n' by (auto simp: cg_inv_def cnode_build_def I_def)
  ultimately show ?thesis using run by blast
qed

text \<open>Removal: the node goes, the rows and columns above its index move down by one.\<close>

definition node_removed :: "'i cnode \<Rightarrow> 'i cgraph \<Rightarrow> 'i cgraph \<Rightarrow> bool" where
  "node_removed node g g' \<longleftrightarrow> Suc (cg_n g') = cg_n g
     \<and> cg_nodes g' = map (cg_shift node) (filter (\<lambda>n. cn_index n \<noteq> cn_index node) (cg_nodes g))
     \<and> (\<forall>i < cg_n g'. \<forall>j < cg_n g'.
          cg_cell g' i j = cg_cell g (skip_id (cn_index node) i) (skip_id (cn_index node) j))"

lemma hs_remove_filter:
  "distinct (map cn_index ns) \<Longrightarrow>
   hs_remove cnode_eq node ns = filter (\<lambda>n. cn_index n \<noteq> cn_index node) ns"
proof (induction ns)
  case (Cons n ns)
  have "filter (\<lambda>m. cn_index m \<noteq> cn_index node) ns = ns" if "cn_index n = cn_index node"
    unfolding filter_id_conv
  proof
    fix m assume "m \<in> set ns"
    then have "cn_index m \<in> set (map cn_index ns)" by simp
    then show "cn_index m \<noteq> cn_index node" using Cons.prems that by auto
  qed
  with Cons show ?case by (auto simp: cnode_eq_def)
qed simp

lemma shifted_indices:
  assumes "distinct (map cn_index ns)" and "set (map cn_index ns) = {..<n}" and "cn_index node < n"
  defines "ns' \<equiv> map (cg_shift node) (filter (\<lambda>n. cn_index n \<noteq> cn_index node) ns)"
  shows "distinct (map cn_index ns')" and "set (map cn_index ns') = {..<n - 1}"
proof -
  let ?k = "cn_index node"
  let ?s = "\<lambda>i. if ?k < i then i - 1 else i"
  have idx: "map cn_index ns' = map ?s (filter (\<lambda>i. i \<noteq> ?k) (map cn_index ns))"
    by (simp add: ns'_def filter_map comp_def cg_shift_def cnode_build_def)
  have "inj_on ?s {i. i \<noteq> ?k}" by (auto simp: inj_on_def split: if_splits)
  then show "distinct (map cn_index ns')"
    unfolding idx distinct_map using assms(1) by (auto elim: inj_on_subset)
  have "?s ` ({..<n} - {?k}) = {..<n - 1}"
  proof (rule set_eqI, rule iffI)
    fix x assume "x \<in> {..<n - 1}"
    then show "x \<in> ?s ` ({..<n} - {?k})"
      by (cases "x < ?k") (auto intro!: image_eqI [of _ _ x] image_eqI [of _ _ "Suc x"])
  qed (use assms(3) in \<open>auto split: if_splits\<close>)
  moreover have "set (filter (\<lambda>i. i \<noteq> ?k) (map cn_index ns)) = {..<n} - {?k}"
    using assms(2) by auto
  ultimately show "set (map cn_index ns') = {..<n - 1}" unfolding idx set_map by simp
qed

lemma cg_remove_one_by_result:
  assumes inv: "cg_inv g"
  shows "(\<not> (\<exists>n \<in> set (cg_nodes g). predicate n)
      \<and> (\<exists>e. cg_remove_one_by predicate g = Some (g, Inl e) \<and> err_kind e = NoResource))
    \<or> (\<exists>node g'. node \<in> set (cg_nodes g) \<and> predicate node
      \<and> cg_remove_one_by predicate g = Some (g', Inr ()) \<and> cg_inv g' \<and> node_removed node g g')"
proof (cases "find predicate (cg_nodes g)")
  case None
  then have "\<not> (\<exists>n \<in> set (cg_nodes g). predicate n)" by (auto simp: find_None_iff)
  moreover have "\<exists>e. cg_remove_one_by predicate g = Some (g, Inl e) \<and> err_kind e = NoResource"
    using None by (simp add: cg_remove_one_by_def cg_err_def)
  ultimately show ?thesis by blast
next
  case (Some node)
  then have node: "node \<in> set (cg_nodes g)" "predicate node" by (auto simp: find_Some_iff)
  have wf: "sm_wf (cg_graph g)" and d: "distinct (map cn_index (cg_nodes g))"
    and s: "set (map cn_index (cg_nodes g)) = {..<cg_n g}" using inv by (simp_all add: cg_inv_def)
  have lt: "cn_index node < cg_n g" using node(1) s by auto
  then have pos: "0 < cg_n g" by simp
  obtain m where m: "sm_remove_id (cg_graph g) (cn_index node) = Some m"
    using sm_remove_id_total [OF wf pos] by blast
  note rem = sm_remove_id_Some [OF wf pos m]
  let ?ns = "map (cg_shift node) (filter (\<lambda>n. cn_index n \<noteq> cn_index node) (cg_nodes g))"
  note sh = shifted_indices [OF d s lt]
  have coll: "hs_collect cnode_eq ?ns = ?ns"
    using sh(1) by (intro cn.hs_collect_distinct) (simp only: hs_distinct_cnode)
  have len: "length ?ns = cg_n g - 1"
    using distinct_card [OF sh(1)] sh(2) by simp
  have mem: "hs_contains cnode_eq (cg_nodes g) node"
    using node(1) by (simp add: hs_contains_cnode)
  let ?g' = "\<lparr>cg_graph = m, cg_nodes = ?ns\<rparr>"
  have run: "cg_remove_one_by predicate g = Some (?g', Inr ())"
    using Some mem m coll len rem(2) hs_remove_filter [OF d, of node]
    by (simp add: cg_remove_one_by_def Let_def sm_size_def)
  have "cg_cell ?g' i j = cg_cell g (skip_id (cn_index node) i) (skip_id (cn_index node) j)"
    if "i < cg_n g - 1" "j < cg_n g - 1" for i j
    using rem(3) [OF that] by (simp add: cg_cell_def)
  then have "node_removed node g ?g'" using rem(2) pos by (simp add: node_removed_def)
  moreover have "cg_inv ?g'" using rem(1,2) sh by (simp add: cg_inv_def)
  ultimately show ?thesis using run node by blast
qed

end
