(* ===== verification/CGraph_Speeds.thy ===== *)
theory CGraph_Speeds
  imports CGraph_Props
begin

text \<open>
  The operations of the cluster graph on its speeds: the extrapolation by transition, the
  registration of a direct test, the speed table handed to the orchestrator, the choice of the
  leader and of the next link to test.
\<close>

section \<open>Extrapolation by transition\<close>

definition spd :: "'i cgraph \<Rightarrow> nat \<Rightarrow> nat \<Rightarrow> u64" where
  "spd g i j = td_speed (cg_cell g i j)"

lemma spd_sym: "spd g i j = spd g j i"
  by (simp add: spd_def cg_cell_sym [of g i j])

lemma cg_speed_spd:
  "cg_inv g \<Longrightarrow> i < cg_n g \<Longrightarrow> j < cg_n g \<Longrightarrow> cg_speed g i j = Some (spd g i j)"
  by (simp add: cg_speed_cell spd_def)

text \<open>An upper bound that is closed under transition.\<close>

definition closed_bound :: "nat \<Rightarrow> (nat \<Rightarrow> nat \<Rightarrow> u64) \<Rightarrow> bool" where
  "closed_bound n W \<longleftrightarrow> (\<forall>i < n. \<forall>j < n. \<forall>k < n. min (W i k) (W k j) \<le> W i j \<and> W i j = W j i)"

text \<open>What the extrapolation may do to a graph.\<close>

definition extrapolated :: "'i cgraph \<Rightarrow> 'i cgraph \<Rightarrow> bool" where
  "extrapolated g g' \<longleftrightarrow> cg_inv g' \<and> cg_n g' = cg_n g \<and> cg_nodes g' = cg_nodes g
     \<and> (\<forall>i < cg_n g. \<forall>j < cg_n g. spd g i j \<le> spd g' i j
          \<and> td_direct_tested (cg_cell g' i j) = td_direct_tested (cg_cell g i j)
          \<and> (td_limited (cg_cell g' i j) \<longrightarrow> td_limited (cg_cell g i j)))
     \<and> (\<forall>W. closed_bound (cg_n g) W \<longrightarrow> (\<forall>i < cg_n g. \<forall>j < cg_n g. spd g i j \<le> W i j)
          \<longrightarrow> (\<forall>i < cg_n g. \<forall>j < cg_n g. spd g' i j \<le> W i j))"

lemma extrapolated_refl: "cg_inv g \<Longrightarrow> extrapolated g g"
  by (simp add: extrapolated_def)

lemma extrapolatedD:
  assumes "extrapolated g g'"
  shows "cg_inv g'" and "cg_n g' = cg_n g" and "cg_nodes g' = cg_nodes g"
    and "i < cg_n g \<Longrightarrow> j < cg_n g \<Longrightarrow> spd g i j \<le> spd g' i j"
    and "i < cg_n g \<Longrightarrow> j < cg_n g \<Longrightarrow>
      td_direct_tested (cg_cell g' i j) = td_direct_tested (cg_cell g i j)"
    and "i < cg_n g \<Longrightarrow> j < cg_n g \<Longrightarrow> td_limited (cg_cell g' i j) \<Longrightarrow> td_limited (cg_cell g i j)"
  using assms unfolding extrapolated_def by blast+

lemma extrapolated_trans:
  assumes "extrapolated a b" and "extrapolated b c"
  shows "extrapolated a c"
proof -
  have n: "cg_n b = cg_n a" "cg_n c = cg_n a" "cg_nodes c = cg_nodes a" "cg_inv c"
    using assms by (simp_all add: extrapolated_def)
  have "spd a i j \<le> spd c i j
          \<and> td_direct_tested (cg_cell c i j) = td_direct_tested (cg_cell a i j)
          \<and> (td_limited (cg_cell c i j) \<longrightarrow> td_limited (cg_cell a i j))"
    if ij: "i < cg_n a" "j < cg_n a" for i j
  proof -
    have ij': "i < cg_n b" "j < cg_n b" using ij n(1) by simp_all
    show ?thesis
      using extrapolatedD(4-6) [OF assms(1) ij] extrapolatedD(4-6) [OF assms(2) ij']
      by (auto intro: order_trans)
  qed
  moreover have "\<forall>i < cg_n a. \<forall>j < cg_n a. spd c i j \<le> W i j"
    if "closed_bound (cg_n a) W" "\<forall>i < cg_n a. \<forall>j < cg_n a. spd a i j \<le> W i j" for W
  proof -
    have "\<forall>i < cg_n a. \<forall>j < cg_n a. spd b i j \<le> W i j"
      using assms(1) that unfolding extrapolated_def by blast
    then show ?thesis using assms(2) that(1) unfolding extrapolated_def n(1) by blast
  qed
  ultimately show ?thesis using n unfolding extrapolated_def by blast
qed

lemma cg_min_speed_total:
  assumes "cg_inv g" and "i < cg_n g"
  shows "\<exists>s. cg_min_speed g i j = Some s"
proof -
  obtain node where "node \<in> set (cg_nodes g)" "cn_index node = i"
    using cg_node_by_index_total [OF assms] by blast
  then have "filter (\<lambda>a. cn_index a = i \<or> cn_index a = j) (cg_nodes g) \<noteq> []"
    by (auto simp: filter_empty_conv)
  then show ?thesis by (auto simp: cg_min_speed_def split: list.split)
qed

text \<open>Raising one cell to the value of a transition, and dropping its limited flag or not.\<close>

lemma raise_cell:
  assumes inv: "cg_inv g" and ijk: "i < cg_n g" "j < cg_n g" "k < cg_n g"
    and lt: "spd g i j < min (spd g i k) (spd g k j)"
    and g': "cg_inv g'" "cg_n g' = cg_n g" "cg_nodes g' = cg_nodes g"
    and c: "\<forall>a < cg_n g. \<forall>b < cg_n g. cg_cell g' a b
      = (if same_pair i j a b
         then (cg_cell g a b)\<lparr>td_speed := min (spd g i k) (spd g k j),
                td_limited := (td_limited (cg_cell g a b) \<and> keep)\<rparr>
         else cg_cell g a b)"
  shows "extrapolated g g'" and "spd g' i j = min (spd g i k) (spd g k j)"
proof -
  have sp: "spd g' a b = (if same_pair i j a b then min (spd g i k) (spd g k j) else spd g a b)"
    if "a < cg_n g" "b < cg_n g" for a b
    using c that by (simp add: spd_def)
  show "spd g' i j = min (spd g i k) (spd g k j)" using sp [OF ijk(1,2)] by simp
  have "spd g a b \<le> spd g' a b
      \<and> td_direct_tested (cg_cell g' a b) = td_direct_tested (cg_cell g a b)
      \<and> (td_limited (cg_cell g' a b) \<longrightarrow> td_limited (cg_cell g a b))"
    if ab: "a < cg_n g" "b < cg_n g" for a b
  proof (cases "same_pair i j a b")
    case True
    then have "spd g a b = spd g i j" using spd_sym [of g i j] by (auto simp: same_pair_def)
    moreover have "cg_cell g' a b = (cg_cell g a b)\<lparr>td_speed := min (spd g i k) (spd g k j),
        td_limited := (td_limited (cg_cell g a b) \<and> keep)\<rparr>"
      using c ab True by (simp only: if_True)
    moreover have "spd g' a b = min (spd g i k) (spd g k j)" using sp [OF ab] True by (simp only: if_True)
    ultimately show ?thesis using less_imp_le [OF lt] by (simp del: min.bounded_iff)
  next
    case False
    then have "cg_cell g' a b = cg_cell g a b" using c ab by (simp only: if_False)
    then show ?thesis by (simp add: spd_def)
  qed
  moreover have "spd g' a b \<le> W a b"
    if W: "closed_bound (cg_n g) W" "\<forall>i < cg_n g. \<forall>j < cg_n g. spd g i j \<le> W i j"
      and ab: "a < cg_n g" "b < cg_n g" for W a b
  proof -
    have "min (spd g i k) (spd g k j) \<le> min (W i k) (W k j)"
      using W(2) ijk by (intro min.mono) auto
    also have "\<dots> \<le> W i j" using W(1) ijk unfolding closed_bound_def by blast
    finally have m: "min (spd g i k) (spd g k j) \<le> W i j" .
    have "W j i = W i j" using W(1) ijk unfolding closed_bound_def by metis
    with m W(2) ab sp [OF ab] show ?thesis by (auto simp: same_pair_def)
  qed
  ultimately show "extrapolated g g'" using g' unfolding extrapolated_def by blast
qed

lemma update_speed_step_result:
  assumes inv: "cg_inv g" and ijk: "i < cg_n g" "j < cg_n g" "k < cg_n g"
  shows "\<exists>g'. update_speed_step (i, j, k) (g, Inr ()) = Some (g', Inr ()) \<and> extrapolated g g'
    \<and> min (spd g i k) (spd g k j) \<le> spd g' i j"
proof (cases "spd g i j < min (spd g i k) (spd g k j)")
  case False
  then show ?thesis
    using inv ijk cg_speed_spd [OF inv] extrapolated_refl [OF inv]
    by (intro exI [of _ g]) (simp add: update_speed_step_def Let_def del: min_less_iff_conj)
next
  case True
  let ?t = "min (spd g i k) (spd g k j)"
  obtain g1 where g1: "cg_modify i j (set_speed ?t) g = Some g1" "cg_inv g1" "cg_n g1 = cg_n g"
    "cg_nodes g1 = cg_nodes g"
    and c1: "\<forall>a < cg_n g. \<forall>b < cg_n g. cg_cell g1 a b
         = (if same_pair i j a b then set_speed ?t (cg_cell g a b) else cg_cell g a b)"
    using cg_modify_result [OF inv ijk(1,2), of "set_speed ?t"] by blast
  have n1: "i < cg_n g1" "j < cg_n g1" using ijk g1(3) by simp_all
  obtain ms where ms: "cg_min_speed g1 i j = Some ms" using cg_min_speed_total [OF g1(2) n1(1)] by blast
  obtain g2 where g2: "cg_modify i j (set_limited False) g1 = Some g2" "cg_inv g2" "cg_n g2 = cg_n g1"
    "cg_nodes g2 = cg_nodes g1"
    and c2: "\<forall>a < cg_n g1. \<forall>b < cg_n g1. cg_cell g2 a b
         = (if same_pair i j a b then set_limited False (cg_cell g1 a b) else cg_cell g1 a b)"
    using cg_modify_result [OF g1(2) n1, of "set_limited False"] by blast
  show ?thesis
  proof (cases "ms = ?t")
    case False
    have "extrapolated g g1" "spd g1 i j = ?t"
      using c1 by (intro raise_cell [OF inv ijk True g1(2-4), where keep = True]; simp)+
    moreover have "update_speed_step (i, j, k) (g, Inr ()) = Some (g1, Inr ())"
      using True False g1(1) ms cg_speed_spd [OF inv] ijk
      by (simp add: update_speed_step_def Let_def del: min_less_iff_conj)
    ultimately show ?thesis by auto
  next
    case eq: True
    have n2: "cg_inv g2" "cg_n g2 = cg_n g" "cg_nodes g2 = cg_nodes g" using g1 g2 by simp_all
    have "extrapolated g g2" "spd g2 i j = ?t"
      using c1 c2 g1(3) by (intro raise_cell [OF inv ijk True n2, where keep = False]; simp)+
    moreover have "update_speed_step (i, j, k) (g, Inr ()) = Some (g2, Inr ())"
      using True eq g1(1) g2(1) ms cg_speed_spd [OF inv] ijk
      by (simp add: update_speed_step_def Let_def del: min_less_iff_conj)
    ultimately show ?thesis by auto
  qed
qed

lemma in_triples: "(i, j, k) \<in> set (triples n) \<longleftrightarrow> i < n \<and> j < n \<and> k < n"
  by (force simp: triples_def)

text \<open>The extrapolation never fails, never exceeds what any chain of links allows, and reaches
  at least what any single transition allows.\<close>

lemma cg_update_speeds_result:
  assumes inv: "cg_inv g"
  shows "\<exists>g'. cg_update_speeds g = Some (g', Inr ()) \<and> extrapolated g g'
    \<and> (\<forall>i < cg_n g. \<forall>j < cg_n g. \<forall>k < cg_n g. min (spd g i k) (spd g k j) \<le> spd g' i j)"
proof -
  let ?I = "\<lambda>st. \<exists>h. st = (h, Inr ()) \<and> extrapolated g h"
  let ?D = "\<lambda>(i, j, k) st. min (spd g i k) (spd g k j) \<le> spd (fst st) i j"
  have "\<exists>st. fold_opt update_speed_step (triples (cg_n g)) (g, Inr ()) = Some st \<and> ?I st
      \<and> (\<forall>t \<in> set (triples (cg_n g)). ?D t st)"
  proof (rule fold_opt_done)
    fix t and st :: "'a cgraph \<times> unit result"
    assume t: "t \<in> set (triples (cg_n g))" and I: "?I st"
    obtain i j k where tt: "t = (i, j, k)" by (cases t)
    have ijk: "i < cg_n g" "j < cg_n g" "k < cg_n g" using t tt in_triples by auto
    obtain h where h: "st = (h, Inr ())" "extrapolated g h" using I by blast
    note e = extrapolatedD [OF h(2)]
    obtain h' where h': "update_speed_step (i, j, k) (h, Inr ()) = Some (h', Inr ())"
      "extrapolated h h'" "min (spd h i k) (spd h k j) \<le> spd h' i j"
      using update_speed_step_result [OF e(1), of i j k] ijk e(2) by auto
    have "min (spd g i k) (spd g k j) \<le> min (spd h i k) (spd h k j)"
      using e(4) ijk by (intro min.mono) auto
    with h'(3) have "min (spd g i k) (spd g k j) \<le> spd h' i j" by (rule order_trans [rotated])
    then show "\<exists>st'. update_speed_step t st = Some st' \<and> ?I st' \<and> ?D t st'"
      using h' h tt extrapolated_trans [OF h(2) h'(2)] by auto
  next
    fix t u and st st' :: "'a cgraph \<times> unit result"
    assume t: "t \<in> set (triples (cg_n g))" and u: "u \<in> set (triples (cg_n g))" and I: "?I st"
      and D: "?D t st" and step: "update_speed_step u st = Some st'"
    obtain i j k where tt: "t = (i, j, k)" by (cases t)
    obtain a b c where uu: "u = (a, b, c)" by (cases u)
    have ijk: "i < cg_n g" "j < cg_n g" using t tt in_triples by auto
    have abc: "a < cg_n g" "b < cg_n g" "c < cg_n g" using u uu in_triples by auto
    obtain h where h: "st = (h, Inr ())" "extrapolated g h" using I by blast
    note e = extrapolatedD [OF h(2)]
    obtain h' where "update_speed_step (a, b, c) (h, Inr ()) = Some (h', Inr ())"
      and x: "extrapolated h h'"
      using update_speed_step_result [OF e(1), of a b c] abc e(2) by auto
    then have st': "st' = (h', Inr ())" using step uu h(1) by simp
    have le: "spd h i j \<le> spd h' i j" using extrapolatedD(4) [OF x] ijk e(2) by simp
    have "min (spd g i k) (spd g k j) \<le> spd h i j" using D unfolding tt h(1) by (simp only: prod.case fst_conv)
    from order_trans [OF this le] show "?D t st'" unfolding tt st' by (simp only: prod.case fst_conv)
  next
    show "?I (g, Inr ())" using extrapolated_refl [OF inv] by blast
  qed
  then obtain st h where run: "fold_opt update_speed_step (triples (cg_n g)) (g, Inr ()) = Some st"
    and h: "st = (h, Inr ())" "extrapolated g h"
    and D: "\<forall>t \<in> set (triples (cg_n g)). ?D t st" by (elim exE conjE)
  have "min (spd g i k) (spd g k j) \<le> spd h i j"
    if "i < cg_n g" "j < cg_n g" "k < cg_n g" for i j k
    using bspec [OF D, of "(i, j, k)"] that in_triples [of i j k] h(1)
    by (simp only: prod.case fst_conv)
  with run h show ?thesis unfolding cg_update_speeds_def sm_size_def by blast
qed

section \<open>add\_link\_direct\_test\<close>

text \<open>The graph with the measured speed entered, before the extrapolation.\<close>

definition link_tested :: "'i cgraph \<Rightarrow> nat \<Rightarrow> nat \<Rightarrow> u64 \<Rightarrow> 'i cgraph \<Rightarrow> bool" where
  "link_tested g i j s g' \<longleftrightarrow> cg_inv g' \<and> cg_n g' = cg_n g \<and> cg_nodes g' = cg_nodes g
     \<and> (\<forall>a < cg_n g. \<forall>b < cg_n g. cg_cell g' a b =
          (if same_pair i j a b
           then \<lparr>td_limited = False, td_direct_tested = True, td_speed = s\<rparr> else cg_cell g a b))"

definition link_test_spec :: "'i cnode \<Rightarrow> 'i cnode \<Rightarrow> u64 \<Rightarrow> 'i cgraph \<Rightarrow> 'i cgraph \<times> bool result \<Rightarrow> bool" where
  "link_test_spec from to s g r \<longleftrightarrow>
     (if \<not> {cn_index from, cn_index to} \<subseteq> {..<cg_n g}
      then r = (g, Inl (cg_err NotFound ''your node is not in the system, add it first''))
      else if min (cn_speed from) (cn_speed to) < s
      then r = (g, Inl (cg_err InvalidData ''cannot have better performance than nodes speeds''))
      else \<exists>g1 g2. r = (g2, Inr (spd g (cn_index from) (cn_index to) < s))
        \<and> link_tested g (cn_index from) (cn_index to) s g1 \<and> extrapolated g1 g2)"

lemma cg_contains: "cg_inv g \<Longrightarrow> hs_contains cnode_eq (cg_nodes g) x \<longleftrightarrow> cn_index x < cg_n g"
  by (simp add: hs_contains_cnode cg_inv_def del: set_map)

lemma cg_add_link_direct_test_result:
  assumes inv: "cg_inv g"
  shows "\<exists>r. cg_add_link_direct_test from to s g = Some r \<and> link_test_spec from to s g r
    \<and> cg_inv (fst r)"
proof (cases "cn_index from < cg_n g \<and> cn_index to < cg_n g \<and> \<not> min (cn_speed from) (cn_speed to) < s")
  case False
  then show ?thesis
    using inv by (auto simp: cg_add_link_direct_test_def link_test_spec_def cg_contains Let_def)
next
  case True
  let ?i = "cn_index from" and ?j = "cn_index to"
  have ij: "?i < cg_n g" "?j < cg_n g" using True by simp_all
  obtain g1 where g1: "cg_modify ?i ?j (set_limited False) g = Some g1" "cg_inv g1" "cg_n g1 = cg_n g"
    "cg_nodes g1 = cg_nodes g"
    and c1: "\<forall>a < cg_n g. \<forall>b < cg_n g. cg_cell g1 a b
         = (if same_pair ?i ?j a b then set_limited False (cg_cell g a b) else cg_cell g a b)"
    using cg_modify_result [OF inv ij, of "set_limited False"] by blast
  have ij1: "?i < cg_n g1" "?j < cg_n g1" using ij g1(3) by simp_all
  obtain g2 where g2: "cg_modify ?i ?j (set_direct_tested True) g1 = Some g2" "cg_inv g2"
    "cg_n g2 = cg_n g1" "cg_nodes g2 = cg_nodes g1"
    and c2: "\<forall>a < cg_n g1. \<forall>b < cg_n g1. cg_cell g2 a b
         = (if same_pair ?i ?j a b then set_direct_tested True (cg_cell g1 a b) else cg_cell g1 a b)"
    using cg_modify_result [OF g1(2) ij1, of "set_direct_tested True"] by blast
  have ij2: "?i < cg_n g2" "?j < cg_n g2" using ij1 g2(3) by simp_all
  obtain g3 where g3: "cg_modify ?i ?j (set_speed s) g2 = Some g3" "cg_inv g3"
    "cg_n g3 = cg_n g2" "cg_nodes g3 = cg_nodes g2"
    and c3: "\<forall>a < cg_n g2. \<forall>b < cg_n g2. cg_cell g3 a b
         = (if same_pair ?i ?j a b then set_speed s (cg_cell g2 a b) else cg_cell g2 a b)"
    using cg_modify_result [OF g2(2) ij2, of "set_speed s"] by blast
  obtain g4 where g4: "cg_update_speeds g3 = Some (g4, Inr ())" "extrapolated g3 g4"
    using cg_update_speeds_result [OF g3(2)] by blast
  have "link_tested g ?i ?j s g3"
    unfolding link_tested_def using g1 g2 g3 c1 c2 c3 by simp
  moreover have "cg_speed g1 ?i ?j = Some (spd g ?i ?j)"
    using cg_speed_spd [OF g1(2) ij1] c1 ij by (simp add: spd_def)
  then have "cg_add_link_direct_test from to s g = Some (g4, Inr (spd g ?i ?j < s))"
    using True inv g1(1) g2(1) g3(1) g4(1)
    by (simp add: cg_add_link_direct_test_def cg_contains Let_def del: min_less_iff_disj)
  moreover have "cg_inv g4" using extrapolatedD(1) [OF g4(2)] .
  ultimately show ?thesis
    using True g4(2) by (auto simp: link_test_spec_def simp del: min_less_iff_disj)
qed

section \<open>speeds\<close>

lemma cg_speeds_result:
  assumes inv: "cg_inv g"
  shows "\<exists>m infos. cg_speeds g = Some (m, infos) \<and> sm_wf m \<and> sm_n m = cg_n g
    \<and> (\<forall>i < cg_n g. \<forall>j < cg_n g. sm_get m i j = Some (ucast (spd g i j)))
    \<and> length infos = cg_n g
    \<and> (\<forall>node \<in> set (cg_nodes g). infos ! cn_index node = cn_info node)"
proof -
  have small: "cg_n g < 2 ^ 26" using inv by (simp add: cg_inv_def sm_wf_def)
  let ?f = "\<lambda>row col. map_option ucast (cg_speed g row col) :: u32 option"
  have "\<exists>x. ?f row col = Some x" if "row \<le> col" "col < cg_n g" for row col
    using cg_speed_spd [OF inv, of row col] that by simp
  then obtain m where m: "sm_new_fn (cg_n g) ?f = Some m"
    using sm_new_fn_total [OF small, of ?f] by blast
  note cells = sm_new_fn_Some [OF small m]
  have get: "sm_get m i j = Some (ucast (spd g i j))" if "i < cg_n g" "j < cg_n g" for i j
    using cells(3) [OF that] cg_speed_spd [OF inv] that spd_sym [of g i j]
    by (auto simp: min_def max_def)
  let ?node = "\<lambda>i. the (cg_node_by_index g i)"
  have nd: "cg_node_by_index g i = Some (?node i) \<and> ?node i \<in> set (cg_nodes g) \<and> cn_index (?node i) = i"
    if "i < cg_n g" for i using cg_node_by_index_total [OF inv that] by auto
  have infos: "map_opt (\<lambda>index. map_option cn_info (cg_node_by_index g index)) [0..<cg_n g]
      = Some (map (\<lambda>i. cn_info (?node i)) [0..<cg_n g])"
  proof (rule map_opt_total)
    fix i assume "i \<in> set [0..<cg_n g]"
    then show "map_option cn_info (cg_node_by_index g i) = Some (cn_info (?node i))"
      using nd [of i] by (metis atLeastLessThan_iff option.simps(9) set_upt)
  qed
  have "map (\<lambda>i. cn_info (?node i)) [0..<cg_n g] ! cn_index node = cn_info node"
    if node: "node \<in> set (cg_nodes g)" for node
  proof -
    have lt: "cn_index node < cg_n g" using inv node by (auto simp: cg_inv_def)
    have "?node (cn_index node) = node"
      using nd [OF lt] node inv by (auto simp: cg_inv_def distinct_map dest: inj_onD)
    then show ?thesis using lt by simp
  qed
  then show ?thesis
    using m cells(1,2) get infos cg_inv_length [OF inv]
    by (simp add: cg_speeds_def sm_size_def)
qed

section \<open>map\_nodes\<close>

lemma cg_map_nodes_result:
  assumes inv: "cg_inv g"
  shows "cg_inv (cg_map_nodes f g)" and "cg_graph (cg_map_nodes f g) = cg_graph g"
    and "cg_nodes (cg_map_nodes f g) = map (\<lambda>n. n\<lparr>cn_info := f (cn_info n)\<rparr>) (cg_nodes g)"
proof -
  let ?h = "\<lambda>n. n\<lparr>cn_info := f (cn_info n)\<rparr>"
  have idx: "map cn_index (map ?h (cg_nodes g)) = map cn_index (cg_nodes g)" by (simp add: comp_def)
  then have "hs_distinct cnode_eq (map ?h (cg_nodes g))"
    unfolding hs_distinct_cnode idx using inv by (simp add: cg_inv_def)
  then show nodes: "cg_nodes (cg_map_nodes f g) = map ?h (cg_nodes g)"
    using cn.fold_insert_new [of "[]" "map ?h (cg_nodes g)"]
    by (simp add: cg_map_nodes_def fold_map comp_def)
  show "cg_graph (cg_map_nodes f g) = cg_graph g" by (simp add: cg_map_nodes_def)
  then show "cg_inv (cg_map_nodes f g)" using inv unfolding cg_inv_def nodes idx by simp
qed

section \<open>find\_leader\<close>

lemma flt_trans: "flt a b \<Longrightarrow> flt b c \<Longrightarrow> flt a c"
  by (cases a; cases b; cases c) auto

lemma cg_average_total:
  assumes inv: "cg_inv g" and i: "i < cg_n g"
  shows "\<exists>a. cg_average g i = Some a"
proof -
  let ?f = "\<lambda>j acc. if i = j then Some acc
    else map_option (\<lambda>s. fadd F64 acc (f64_of_u64 s)) (cg_speed g i j)"
  have "\<exists>a. fold_opt ?f [0..<cg_n g] (Fin 0) = Some a \<and> True"
    by (rule fold_opt_inv) (use cg_speed_spd [OF inv i] in auto)
  then show ?thesis by (auto simp: cg_average_def sm_size_def)
qed

text \<open>The leader's average is not exceeded; without a positive average, node zero leads.\<close>

lemma cg_find_leader_result:
  assumes inv: "cg_inv g"
  defines "avg \<equiv> \<lambda>i. the (cg_average g i)"
  shows "if cg_n g = 0 then \<exists>e. cg_find_leader g = Some (Inl e) \<and> err_kind e = EmptyGraph
    else \<exists>node \<in> set (cg_nodes g). cg_find_leader g = Some (Inr node)
      \<and> ((\<forall>i < cg_n g. \<not> flt (avg (cn_index node)) (avg i))
         \<or> cn_index node = 0 \<and> (\<forall>i < cg_n g. \<not> flt (Fin 0) (avg i)))"
proof (cases "cg_n g = 0")
  case True
  then show ?thesis using cg_inv_length [OF inv] by (simp add: cg_find_leader_def cg_err_def)
next
  case False
  let ?f = "\<lambda>i (bi, ba). map_option (\<lambda>a. if flt ba a then (i, a) else (bi, ba)) (cg_average g i)"
  let ?I = "\<lambda>(bi, ba). bi < cg_n g \<and> (ba = avg bi \<or> bi = 0 \<and> ba = Fin 0)"
  have av: "cg_average g i = Some (avg i)" if "i < cg_n g" for i
    using cg_average_total [OF inv that] by (auto simp: avg_def)
  have "\<exists>st. fold_opt ?f [0..<cg_n g] (0, Fin 0) = Some st \<and> ?I st
      \<and> (\<forall>i \<in> set [0..<cg_n g]. \<not> flt (snd st) (avg i))"
  proof (rule fold_opt_done)
    fix i and st :: "nat \<times> fval"
    assume "i \<in> set [0..<cg_n g]" "?I st"
    moreover have "\<not> flt a a" for a by (cases a) auto
    ultimately show "\<exists>st'. ?f i st = Some st' \<and> ?I st' \<and> \<not> flt (snd st') (avg i)"
      using av [of i] by (cases st) auto
  next
    fix i j and st st' :: "nat \<times> fval"
    assume "j \<in> set [0..<cg_n g]" "\<not> flt (snd st) (avg i)" "?f j st = Some st'"
    then show "\<not> flt (snd st') (avg i)"
      using av [of j] by (cases st) (auto split: if_splits dest: flt_trans)
  qed (use False in simp)
  then obtain bi ba where run: "fold_opt ?f [0..<cg_n g] (0, Fin 0) = Some (bi, ba)"
    and I: "bi < cg_n g" "ba = avg bi \<or> bi = 0 \<and> ba = Fin 0"
    and best: "\<forall>i < cg_n g. \<not> flt ba (avg i)" by auto
  obtain node where node: "node \<in> set (cg_nodes g)" "cg_node_by_index g bi = Some node" "cn_index node = bi"
    using cg_node_by_index_total [OF inv I(1)] by blast
  have "cg_find_leader g = Some (Inr node)"
    using run node(2) False cg_inv_length [OF inv] by (simp add: cg_find_leader_def sm_size_def)
  with node I best False show ?thesis by auto
qed

section \<open>find\_missing\_from\_me\<close>

text \<open>A link that still needs a direct test.\<close>

definition unsettled :: "'i cgraph \<Rightarrow> 'i cnode \<Rightarrow> u64 \<Rightarrow> 'i cnode \<Rightarrow> bool" where
  "unsettled g from suff to \<longleftrightarrow> (let d = cg_cell g (cn_index from) (cn_index to) in
     cn_index from \<noteq> cn_index to \<and> \<not> td_direct_tested d \<and> td_speed d < suff
     \<and> td_speed d < min (cn_speed from) (cn_speed to))"

text \<open>Only the cell between two nodes may differ.\<close>

definition only_cell :: "nat \<Rightarrow> nat \<Rightarrow> 'i cgraph \<Rightarrow> 'i cgraph \<Rightarrow> bool" where
  "only_cell i j g g' \<longleftrightarrow> cg_inv g' \<and> cg_n g' = cg_n g \<and> cg_nodes g' = cg_nodes g
     \<and> (\<forall>a < cg_n g. \<forall>b < cg_n g. \<not> same_pair i j a b \<longrightarrow> cg_cell g' a b = cg_cell g a b)"

lemma find_shortcut_result:
  assumes inv: "cg_inv g" and ij: "cn_index from < cg_n g" "cn_index to < cg_n g"
    and ks: "\<forall>k \<in> set ks. cn_index k < cg_n g"
  shows "\<exists>g' b. find_shortcut from to ks g = Some (g', b)
    \<and> only_cell (cn_index from) (cn_index to) g g' \<and> (\<not> b \<longrightarrow> g' = g)
    \<and> (b \<longrightarrow> td_direct_tested (cg_cell g' (cn_index from) (cn_index to)))"
  using ks
proof (induction ks)
  case Nil
  show ?case using inv by (intro exI [of _ g] exI [of _ False]) (simp add: only_cell_def)
next
  case (Cons k ks)
  let ?i = "cn_index from" and ?j = "cn_index to"
  have k: "cn_index k < cg_n g" using Cons.prems by simp
  note get = cg_cell_get [OF inv ij(1) k] cg_cell_get [OF inv k ij(2)]
  have rest: "\<exists>g' b. find_shortcut from to ks g = Some (g', b) \<and> only_cell ?i ?j g g'
    \<and> (\<not> b \<longrightarrow> g' = g) \<and> (b \<longrightarrow> td_direct_tested (cg_cell g' ?i ?j))"
    using Cons by simp
  let ?s = "if td_speed (cg_cell g (cn_index k) ?j) < td_speed (cg_cell g ?i (cn_index k))
    then td_speed (cg_cell g (cn_index k) ?j) else td_speed (cg_cell g ?i (cn_index k))"
  obtain g1 where g1: "cg_modify ?i ?j (set_speed ?s) g = Some g1" "cg_inv g1" "cg_n g1 = cg_n g"
    "cg_nodes g1 = cg_nodes g"
    and c1: "\<forall>a < cg_n g. \<forall>b < cg_n g. cg_cell g1 a b
         = (if same_pair ?i ?j a b then set_speed ?s (cg_cell g a b) else cg_cell g a b)"
    using cg_modify_result [OF inv ij, of "set_speed ?s"] by blast
  have ij1: "?i < cg_n g1" "?j < cg_n g1" using ij g1(3) by simp_all
  obtain g2 where g2: "cg_modify ?i ?j (set_direct_tested True) g1 = Some g2" "cg_inv g2"
    "cg_n g2 = cg_n g1" "cg_nodes g2 = cg_nodes g1"
    and c2: "\<forall>a < cg_n g1. \<forall>b < cg_n g1. cg_cell g2 a b
         = (if same_pair ?i ?j a b then set_direct_tested True (cg_cell g1 a b) else cg_cell g1 a b)"
    using cg_modify_result [OF g1(2) ij1, of "set_direct_tested True"] by blast
  have o2: "only_cell ?i ?j g g2" "td_direct_tested (cg_cell g2 ?i ?j)"
    using g1(3,4) g2 c1 c2 ij by (simp_all add: only_cell_def)
  have "find_shortcut from to (k # ks) g = find_shortcut from to ks g
    \<or> find_shortcut from to (k # ks) g = Some (g2, True)"
    using get g1(1) g2(1) by simp
  then show ?case
  proof
    assume "find_shortcut from to (k # ks) g = find_shortcut from to ks g"
    with rest show ?thesis by simp
  next
    assume "find_shortcut from to (k # ks) g = Some (g2, True)"
    with o2 show ?thesis by (intro exI [of _ g2] exI [of _ True]) simp
  qed
qed

lemma missing_step_result:
  assumes inv: "cg_inv g" and ij: "cn_index from < cg_n g" "cn_index to < cg_n g"
  shows "\<exists>g'. missing_step from suff to (g, ml)
      = Some (g', ml @ (if unsettled g' from suff to then [to] else []))
    \<and> only_cell (cn_index from) (cn_index to) g g'"
proof -
  have refl: "only_cell (cn_index from) (cn_index to) g g" using inv by (simp add: only_cell_def)
  have ks: "\<forall>k \<in> set (cg_nodes g). cn_index k < cg_n g" using inv by (auto simp: cg_inv_def)
  obtain g' b where g': "find_shortcut from to (cg_nodes g) g = Some (g', b)"
    "only_cell (cn_index from) (cn_index to) g g'" "\<not> b \<longrightarrow> g' = g"
    "b \<longrightarrow> td_direct_tested (cg_cell g' (cn_index from) (cn_index to))"
    using find_shortcut_result [OF inv ij ks] by blast
  show ?thesis
  proof (cases "unsettled g from suff to")
    case False
    then have "missing_step from suff to (g, ml) = Some (g, ml)"
      using cg_cell_get [OF inv ij]
      by (auto simp: missing_step_def unsettled_def Let_def cnode_eq_def)
    with False refl show ?thesis by auto
  next
    case True
    then have "missing_step from suff to (g, ml) = Some (g', if b then ml else ml @ [to])"
      using cg_cell_get [OF inv ij] g'(1)
      by (simp add: missing_step_def unsettled_def Let_def cnode_eq_def)
    moreover have "unsettled g' from suff to \<longleftrightarrow> \<not> b"
      using True g'(3,4) by (cases b) (auto simp: unsettled_def Let_def)
    ultimately show ?thesis using g'(2) by auto
  qed
qed

lemma missing_loop_result:
  assumes "cg_inv g" and "cn_index from < cg_n g" and "\<forall>t \<in> set ns. cn_index t < cg_n g"
    and "distinct (map cn_index ns)"
  shows "\<exists>g'. fold_opt (missing_step from suff) ns (g, ml)
      = Some (g', ml @ filter (unsettled g' from suff) ns)
    \<and> cg_inv g' \<and> cg_n g' = cg_n g \<and> cg_nodes g' = cg_nodes g
    \<and> (\<forall>a < cg_n g. \<forall>b < cg_n g. (\<forall>t \<in> set ns. \<not> same_pair (cn_index from) (cn_index t) a b)
         \<longrightarrow> cg_cell g' a b = cg_cell g a b)"
  using assms
proof (induction ns arbitrary: g ml)
  case (Cons t ns)
  have t: "cn_index t < cg_n g" using Cons.prems by simp
  obtain g1 where g1: "missing_step from suff t (g, ml)
      = Some (g1, ml @ (if unsettled g1 from suff t then [t] else []))"
    and o: "only_cell (cn_index from) (cn_index t) g g1"
    using missing_step_result [OF Cons.prems(1,2) t] by blast
  have o': "cg_inv g1" "cg_n g1 = cg_n g" "cg_nodes g1 = cg_nodes g"
    and oc: "a < cg_n g \<Longrightarrow> b < cg_n g \<Longrightarrow> \<not> same_pair (cn_index from) (cn_index t) a b
      \<Longrightarrow> cg_cell g1 a b = cg_cell g a b" for a b
    using o by (simp_all add: only_cell_def)
  let ?ml = "ml @ (if unsettled g1 from suff t then [t] else [])"
  obtain g' where g': "fold_opt (missing_step from suff) ns (g1, ?ml)
      = Some (g', ?ml @ filter (unsettled g' from suff) ns)"
    "cg_inv g'" "cg_n g' = cg_n g1" "cg_nodes g' = cg_nodes g1"
    and c: "\<forall>a < cg_n g1. \<forall>b < cg_n g1. (\<forall>t \<in> set ns. \<not> same_pair (cn_index from) (cn_index t) a b)
         \<longrightarrow> cg_cell g' a b = cg_cell g1 a b"
    using Cons.IH [OF o'(1), of ?ml] Cons.prems o'(2) by auto
  have "\<not> same_pair (cn_index from) (cn_index x) (cn_index from) (cn_index t)" if "x \<in> set ns" for x
    using Cons.prems(4) imageI [OF that, of cn_index] by (auto simp: same_pair_def)
  then have "cg_cell g' (cn_index from) (cn_index t) = cg_cell g1 (cn_index from) (cn_index t)"
    using c o'(2) t Cons.prems(2) by simp
  then have "unsettled g' from suff t = unsettled g1 from suff t" by (simp add: unsettled_def)
  moreover have "cg_cell g' a b = cg_cell g a b" if "a < cg_n g" "b < cg_n g"
    "\<forall>x \<in> set (t # ns). \<not> same_pair (cn_index from) (cn_index x) a b" for a b
    using c oc [of a b] that o'(2) by simp
  ultimately show ?case using g1 g' o' by simp
qed simp

lemma max_by_speed_max:
  "ns \<noteq> [] \<Longrightarrow> \<exists>m \<in> set ns. max_by_speed ns = Some m \<and> (\<forall>n \<in> set ns. cn_speed n \<le> cn_speed m)"
proof -
  have "(let m = fold (\<lambda>b a. if cn_speed a \<le> cn_speed b then b else a) ns n in
      m \<in> insert n (set ns) \<and> (\<forall>x \<in> insert n (set ns). cn_speed x \<le> cn_speed m))"
    for n :: "'a cnode" and ns
  proof (induction ns arbitrary: n)
    case (Cons b ns)
    from Cons.IH [of "if cn_speed n \<le> cn_speed b then b else n"] show ?case
      by (auto simp: Let_def not_le split: if_splits)
  qed simp
  then show "ns \<noteq> [] \<Longrightarrow> \<exists>m \<in> set ns. max_by_speed ns = Some m \<and> (\<forall>n \<in> set ns. cn_speed n \<le> cn_speed m)"
    by (cases ns) (auto simp: Let_def)
qed

text \<open>Nothing is left to test exactly when the answer is None; otherwise the answer is the
  fastest node whose link still needs a test.\<close>

lemma cg_find_missing_result:
  assumes inv: "cg_inv g" and me: "cn_index me < cg_n g"
  shows "\<exists>g' r. cg_find_missing_from_me me suff g = Some (g', Inr r) \<and> cg_inv g'
    \<and> cg_n g' = cg_n g \<and> cg_nodes g' = cg_nodes g
    \<and> (case r of
         None \<Rightarrow> \<forall>t \<in> set (cg_nodes g). \<not> unsettled g' me suff t
       | Some node \<Rightarrow> node \<in> set (cg_nodes g) \<and> unsettled g' me suff node
           \<and> (\<forall>t \<in> set (cg_nodes g). unsettled g' me suff t \<longrightarrow> cn_speed t \<le> cn_speed node))"
proof -
  have ns: "\<forall>t \<in> set (cg_nodes g). cn_index t < cg_n g" "distinct (map cn_index (cg_nodes g))"
    using inv by (auto simp: cg_inv_def)
  obtain g' where g': "fold_opt (missing_step me suff) (cg_nodes g) (g, [])
      = Some (g', filter (unsettled g' me suff) (cg_nodes g))"
    "cg_inv g'" "cg_n g' = cg_n g" "cg_nodes g' = cg_nodes g"
    using missing_loop_result [OF inv me ns, of suff "[]"] by auto
  let ?ml = "filter (unsettled g' me suff) (cg_nodes g)"
  show ?thesis
  proof (cases "?ml = []")
    case True
    then show ?thesis using g' by (auto simp: cg_find_missing_from_me_def filter_empty_conv)
  next
    case False
    then obtain m where "m \<in> set ?ml" "max_by_speed ?ml = Some m" "\<forall>n \<in> set ?ml. cn_speed n \<le> cn_speed m"
      using max_by_speed_max by blast
    then show ?thesis using g' False by (auto simp: cg_find_missing_from_me_def)
  qed
qed

end
