(* ===== verification/Cluster_Properties.thy ===== *)
theory Cluster_Properties
  imports CGraph_Speeds
begin

text \<open>
  What the cluster graph of \<^verbatim>\<open>cgraph/src/lib.rs\<close> guarantees, with witnesses on a
  graph of two nodes.
\<close>

section \<open>A concrete graph\<close>

definition two_nodes :: "string cgraph option" where
  "two_nodes =
     (case cg_new of
        None \<Rightarrow> None
      | Some g0 \<Rightarrow>
          (case cg_add_node 1000 ''a'' g0 of
             Some (g, Inr _) \<Rightarrow>
               (case cg_add_node 500 ''b'' g of Some (g', Inr _) \<Rightarrow> Some g' | _ \<Rightarrow> None)
           | _ \<Rightarrow> None))"

lemma two_nodes_ok:
  "\<exists>g. two_nodes = Some g \<and> cg_inv g \<and> cg_n g = 2
    \<and> cg_nodes g = [cnode_build 0 1000 ''a'', cnode_build 1 500 ''b'']"
proof -
  obtain g0 :: "string cgraph" where new: "cg_new = Some g0" "cg_inv g0" "cg_n g0 = 0" "cg_nodes g0 = []"
    using cg_new_result by blast
  obtain g a where g: "cg_add_node 1000 ''a'' g0 = Some (g, Inr a)" "cg_inv g"
    "node_added 1000 ''a'' g0 g a"
    using cg_add_node_result [OF new(2), of 1000 "''a''"] new(3) by auto
  then have g1: "cg_n g = 1" "cg_nodes g = [cnode_build 0 1000 ''a'']"
    using new by (simp_all add: node_added_def cnode_build_def)
  obtain h b where h: "cg_add_node 500 ''b'' g = Some (h, Inr b)" "cg_inv h" "node_added 500 ''b'' g h b"
    using cg_add_node_result [OF g(2), of 500 "''b''"] g1 by auto
  then have "cg_n h = 2" "cg_nodes h = [cnode_build 0 1000 ''a'', cnode_build 1 500 ''b'']"
    using g1 by (simp_all add: node_added_def cnode_build_def)
  moreover have "two_nodes = Some h"
    unfolding two_nodes_def new(1) option.case g(1) prod.case sum.case h(1) ..
  ultimately show ?thesis using h(2) by blast
qed

lemma two_nodesE:
  assumes "\<And>g. cg_inv g \<Longrightarrow> cg_n g = 2 \<Longrightarrow> P g"
  shows "\<exists>g. two_nodes = Some g \<and> P g"
  using two_nodes_ok assms by blast

section \<open>Nodes\<close>

text \<open>\<^verbatim>\<open>add_node\<close> gives back the node with the same information if there is one,
  else a new node at the next index whose untested links have the default test data; no other
  link changes and the invariant holds.\<close>

theorem add_node_correct:
  assumes "cg_inv g" and "Suc (cg_n g) < 2 ^ 26"
  shows "\<exists>g' node. cg_add_node speed info g = Some (g', Inr node) \<and> cg_inv g'
    \<and> node_added speed info g g' node"
  using assms by (rule cg_add_node_result)

theorem add_node_correct_witness:
  "\<exists>g. two_nodes = Some g \<and> (\<exists>g' node. cg_add_node 9 ''c'' g = Some (g', Inr node) \<and> cg_inv g'
    \<and> node_added 9 ''c'' g g' node)"
  by (rule two_nodesE) (rule add_node_correct, simp_all)

text \<open>\<^verbatim>\<open>remove_one_by\<close> removes one node that satisfies the predicate and
  renumbers the others so that every pair of remaining nodes keeps its test data; it reports
  \<^verbatim>\<open>NoResource\<close> and changes nothing when there is none.\<close>

theorem remove_node_correct:
  assumes "cg_inv g"
  shows "(\<not> (\<exists>n \<in> set (cg_nodes g). predicate n)
      \<and> (\<exists>e. cg_remove_one_by predicate g = Some (g, Inl e) \<and> err_kind e = NoResource))
    \<or> (\<exists>node g'. node \<in> set (cg_nodes g) \<and> predicate node
      \<and> cg_remove_one_by predicate g = Some (g', Inr ()) \<and> cg_inv g' \<and> node_removed node g g')"
  using assms by (rule cg_remove_one_by_result)

theorem remove_node_correct_witness:
  "\<exists>g. two_nodes = Some g \<and> ((\<not> (\<exists>n \<in> set (cg_nodes g). cn_index n = 0)
      \<and> (\<exists>e. cg_remove_one_by (\<lambda>n. cn_index n = 0) g = Some (g, Inl e) \<and> err_kind e = NoResource))
    \<or> (\<exists>node g'. node \<in> set (cg_nodes g) \<and> cn_index node = 0
      \<and> cg_remove_one_by (\<lambda>n. cn_index n = 0) g = Some (g', Inr ()) \<and> cg_inv g'
      \<and> node_removed node g g'))"
  by (rule two_nodesE) (rule remove_node_correct)

section \<open>Speeds\<close>

text \<open>C33: \<^verbatim>\<open>add_link_direct_test\<close> rejects unknown nodes and speeds above those of
  the nodes without a change; otherwise it records the test in exactly the link of the two nodes
  and then extrapolates, and reports whether the speed went up.\<close>

theorem link_test_correct:
  assumes "cg_inv g"
  shows "\<exists>r. cg_add_link_direct_test from to s g = Some r \<and> link_test_spec from to s g r
    \<and> cg_inv (fst r)"
  using assms by (rule cg_add_link_direct_test_result)

theorem link_test_correct_witness:
  "\<exists>g. two_nodes = Some g
    \<and> (\<exists>r. cg_add_link_direct_test (cnode_build 0 1000 ''a'') (cnode_build 1 500 ''b'') 400 g = Some r
       \<and> link_test_spec (cnode_build 0 1000 ''a'') (cnode_build 1 500 ''b'') 400 g r \<and> cg_inv (fst r))"
  by (rule two_nodesE) (rule link_test_correct)

text \<open>C32: \<^verbatim>\<open>update_speeds\<close> never lowers a speed, never invents one above a bound
  that is already closed under the bottleneck rule, keeps the record of the direct tests, and
  raises every speed at least to the bottleneck over one intermediate node.\<close>

theorem update_speeds_correct:
  assumes "cg_inv g"
  shows "\<exists>g'. cg_update_speeds g = Some (g', Inr ()) \<and> extrapolated g g'
    \<and> (\<forall>i < cg_n g. \<forall>j < cg_n g. \<forall>k < cg_n g. min (spd g i k) (spd g k j) \<le> spd g' i j)"
  using assms by (rule cg_update_speeds_result)

theorem update_speeds_correct_witness:
  "\<exists>g. two_nodes = Some g \<and> (\<exists>g'. cg_update_speeds g = Some (g', Inr ()) \<and> extrapolated g g'
    \<and> (\<forall>i < cg_n g. \<forall>j < cg_n g. \<forall>k < cg_n g. min (spd g i k) (spd g k j) \<le> spd g' i j))"
  by (rule two_nodesE) (rule update_speeds_correct)

text \<open>\<^verbatim>\<open>find_missing_from_me\<close> ends without an error; it answers that nothing is
  missing only if every other node is settled, and otherwise with an unsettled node of greatest
  speed.\<close>

theorem find_missing_correct:
  assumes "cg_inv g" and "cn_index me < cg_n g"
  shows "\<exists>g' r. cg_find_missing_from_me me suff g = Some (g', Inr r) \<and> cg_inv g'
    \<and> cg_n g' = cg_n g \<and> cg_nodes g' = cg_nodes g
    \<and> (case r of
         None \<Rightarrow> \<forall>t \<in> set (cg_nodes g). \<not> unsettled g' me suff t
       | Some node \<Rightarrow> node \<in> set (cg_nodes g) \<and> unsettled g' me suff node
           \<and> (\<forall>t \<in> set (cg_nodes g). unsettled g' me suff t \<longrightarrow> cn_speed t \<le> cn_speed node))"
  using assms by (rule cg_find_missing_result)

theorem find_missing_correct_witness:
  "\<exists>g. two_nodes = Some g
    \<and> (\<exists>g' r. cg_find_missing_from_me (cnode_build 1 500 ''b'') 800 g = Some (g', Inr r) \<and> cg_inv g'
      \<and> cg_n g' = cg_n g \<and> cg_nodes g' = cg_nodes g
      \<and> (case r of
           None \<Rightarrow> \<forall>t \<in> set (cg_nodes g). \<not> unsettled g' (cnode_build 1 500 ''b'') 800 t
         | Some node \<Rightarrow> node \<in> set (cg_nodes g) \<and> unsettled g' (cnode_build 1 500 ''b'') 800 node
             \<and> (\<forall>t \<in> set (cg_nodes g). unsettled g' (cnode_build 1 500 ''b'') 800 t
                  \<longrightarrow> cn_speed t \<le> cn_speed node)))"
  by (rule two_nodesE) (rule find_missing_correct, simp_all add: cnode_build_def)

text \<open>\<^verbatim>\<open>find_leader\<close> reports \<^verbatim>\<open>EmptyGraph\<close> on the empty graph and
  otherwise gives a node whose average speed no other node exceeds, or the node of index 0 when
  no average is positive.\<close>

theorem find_leader_correct:
  assumes "cg_inv g"
  shows "if cg_n g = 0 then \<exists>e. cg_find_leader g = Some (Inl e) \<and> err_kind e = EmptyGraph
    else \<exists>node \<in> set (cg_nodes g). cg_find_leader g = Some (Inr node)
      \<and> ((\<forall>i < cg_n g. \<not> flt (the (cg_average g (cn_index node))) (the (cg_average g i)))
         \<or> cn_index node = 0 \<and> (\<forall>i < cg_n g. \<not> flt (Fin 0) (the (cg_average g i))))"
  using assms by (rule cg_find_leader_result)

theorem find_leader_correct_witness:
  "\<exists>g. two_nodes = Some g \<and> (\<exists>node \<in> set (cg_nodes g). cg_find_leader g = Some (Inr node))"
  using two_nodes_ok find_leader_correct by fastforce

end
