(* ===== verification/Messages.thy ===== *)
theory Messages
  imports Common Text
begin

text \<open>
  The messages of the program and their wire format: \<^verbatim>\<open>common/src/lib.rs\<close>
  (\<^verbatim>\<open>serialize\<close>, \<^verbatim>\<open>deserialize\<close>, \<^verbatim>\<open>ToBytesSerialize\<close>),
  \<^verbatim>\<open>common/src/tc_message.rs\<close> and \<^verbatim>\<open>common/src/topology_message.rs\<close>.
  The JSON text of a payload is written by \<^verbatim>\<open>serde_json\<close>, which is not part of the
  repository: a \<^verbatim>\<open>serde\<close> is the pair of its two functions at one type, a parameter of
  the model. What the code relies on is \<^verbatim>\<open>serde_ok\<close>: reading back the text of a value
  gives the value, and the text is UTF-8 and not empty.

  The locale \<^verbatim>\<open>codec\<close> is the contract of a message type towards the transports of the
  theory \<^verbatim>\<open>Framing\<close>.
\<close>

section \<open>Serialisation\<close>

record 'a serde =
  to_json :: "'a \<Rightarrow> string"
  from_json :: "string \<Rightarrow> string + 'a"

definition serialize :: "'a serde \<Rightarrow> 'a \<Rightarrow> u8 list" where
  "serialize sd data = as_bytes (to_json sd data)"

definition deserialize :: "'a serde \<Rightarrow> string \<Rightarrow> 'a result" where
  "deserialize sd data =
     (case from_json sd data of Inl e \<Rightarrow> Inl (error_from e) | Inr x \<Rightarrow> Inr x)"

text \<open>The default methods of \<^verbatim>\<open>ToBytesSerialize\<close>; \<^verbatim>\<open>from_utf8(..).unwrap()\<close>
  panics on bytes that are no text.\<close>

definition default_to_bytes :: "'a serde \<Rightarrow> 'a \<Rightarrow> u8 list" where
  "default_to_bytes sd x = serialize sd x"

definition default_from_bytes :: "'a serde \<Rightarrow> u8 list \<Rightarrow> 'a result option" where
  "default_from_bytes sd buf =
     (case from_utf8 buf of None \<Rightarrow> None | Some in_string \<Rightarrow> Some (deserialize sd in_string))"

definition serde_ok :: "'a serde \<Rightarrow> 'a \<Rightarrow> bool" where
  "serde_ok sd x \<longleftrightarrow>
     from_json sd (to_json sd x) = Inr x \<and> valid_str (to_json sd x) \<and> to_json sd x \<noteq> []"

lemma deserialize_to_json [simp]: "serde_ok sd x \<Longrightarrow> deserialize sd (to_json sd x) = Inr x"
  by (simp add: deserialize_def serde_ok_def)

lemma serialize_not_Nil [simp]: "serde_ok sd x \<Longrightarrow> serialize sd x \<noteq> []"
  by (simp add: serialize_def serde_ok_def)

lemma from_utf8_serialize [simp]: "serde_ok sd x \<Longrightarrow> from_utf8 (serialize sd x) = Some (to_json sd x)"
  by (simp add: serialize_def serde_ok_def)

text \<open>\<^verbatim>\<open>?\<close> on a parsed payload, followed by the constructor of the message.\<close>

fun map_result :: "('a \<Rightarrow> 'b) \<Rightarrow> 'a result \<Rightarrow> 'b result" where
  "map_result f (Inl e) = Inl e"
| "map_result f (Inr x) = Inr (f x)"

section \<open>The contract of a message type\<close>

text \<open>\<^verbatim>\<open>BytesMut::put_u16\<close> and \<^verbatim>\<open>get_u16\<close>: big-endian, the read panics
  when fewer than two bytes remain.\<close>

definition put_u16 :: "u16 \<Rightarrow> u8 list" where
  "put_u16 w = [ucast (drop_bit 8 w), ucast w]"

fun get_u16 :: "u8 list \<Rightarrow> (u16 \<times> u8 list) option" where
  "get_u16 (a # b # rest) = Some (ucast a * 256 + ucast b, rest)"
| "get_u16 _ = None"

lemma u16_bytes:
  fixes w :: u16
  shows "ucast (ucast (drop_bit 8 w) :: u8) * 256 + ucast (ucast w :: u8) = w"
proof -
  have "unat w < 65536" using unsigned_less [of w, where ?'a = nat] by simp
  then have "unat (ucast (ucast (drop_bit 8 w) :: u8) * 256 + ucast (ucast w :: u8) :: u16) = unat w"
    by (simp add: unat_word_ariths unsigned_ucast_eq unsigned_drop_bit_eq take_bit_eq_mod drop_bit_eq_div)
  then show ?thesis by (simp only: word_unat_eq_iff)
qed

lemma get_put_u16 [simp]: "get_u16 (put_u16 w @ rest) = Some (w, rest)"
  by (simp add: put_u16_def u16_bytes)

lemma length_put_u16 [simp]: "length (put_u16 w) = 2"
  by (simp add: put_u16_def)

text \<open>\<^verbatim>\<open>faithful m\<close> says which messages the encoding keeps.\<close>

locale codec =
  fixes encode :: "'m \<Rightarrow> u8 list"
    and decode :: "u8 list \<Rightarrow> 'm result option"
    and faithful :: "'m \<Rightarrow> bool"
  assumes decode_encode: "faithful m \<Longrightarrow> decode (encode m) = Some (Inr m)"
begin

lemma encode_inj: "faithful m \<Longrightarrow> faithful m' \<Longrightarrow> encode m = encode m' \<Longrightarrow> m = m'"
  by (metis decode_encode option.inject sum.inject(2))

lemma decode_all: "\<forall>m \<in> set ms. faithful m \<Longrightarrow> map decode (map encode ms) = map (\<lambda>m. Some (Inr m)) ms"
  by (induction ms) (simp_all add: decode_encode)

end

interpretation plain: codec "default_to_bytes sd" "default_from_bytes sd" "serde_ok sd" for sd
  by unfold_locales (simp add: default_to_bytes_def default_from_bytes_def)

section \<open>Messages between the emulation core and the reporter\<close>

text \<open>\<^verbatim>\<open>f32\<close> values are \<^verbatim>\<open>fval\<close>; the names of the two optional pairs are
  those of the code.\<close>

record tc_conf =
  tc_dest :: ip_addr
  tc_bandwidth_kbitps :: "u32 option"
  tc_latency_and_jitter :: "(fval \<times> fval) option"
  tc_drop :: "fval option"

definition tc_default :: "ip_addr \<Rightarrow> tc_conf" where
  "tc_default dest =
     \<lparr>tc_dest = dest, tc_bandwidth_kbitps = None, tc_latency_and_jitter = None, tc_drop = None\<rparr>"

definition bandwidth_kbs :: "u32 \<Rightarrow> tc_conf \<Rightarrow> tc_conf" where
  "bandwidth_kbs bw c = c\<lparr>tc_bandwidth_kbitps := Some bw\<rparr>"

definition latency_jitter :: "fval \<Rightarrow> fval \<Rightarrow> tc_conf \<Rightarrow> tc_conf" where
  "latency_jitter lat jitter c = c\<lparr>tc_latency_and_jitter := Some (lat, jitter)\<rparr>"

definition set_drop :: "fval \<Rightarrow> tc_conf \<Rightarrow> tc_conf" where
  "set_drop d c = c\<lparr>tc_drop := Some d\<rparr>"

record flow_conf =
  fc_src :: ip_addr
  fc_dest :: ip_addr
  fc_throughput :: "u32 option"

definition flow_conf_build :: "ip_addr \<Rightarrow> ip_addr \<Rightarrow> u32 option \<Rightarrow> flow_conf" where
  "flow_conf_build src dest throughput = \<lparr>fc_src = src, fc_dest = dest, fc_throughput = throughput\<rparr>"

datatype event_action = Join | Quit | Crash

text \<open>A \<^verbatim>\<open>Duration\<close> is its number of nanoseconds.\<close>

record emulation_event =
  ev_app_id :: u32
  ev_time_ns :: nat
  ev_action :: event_action

text \<open>\<^verbatim>\<open>PartialOrd\<close>: events are compared by their time only.\<close>

definition event_before :: "emulation_event \<Rightarrow> emulation_event \<Rightarrow> bool" where
  "event_before a b \<longleftrightarrow> ev_time_ns a < ev_time_ns b"

datatype emul_message =
    FlowUpdate flow_conf
  | TCInit tc_conf
  | TCUpdate tc_conf
  | TCDisconnect
  | TCReconnect
  | TCTeardown
  | SocketReady
  | EmulEvent emulation_event

record emul_serde =
  es_flow :: "flow_conf serde"
  es_tc :: "tc_conf serde"
  es_event :: "emulation_event serde"

definition unrecognized :: "string \<Rightarrow> u16 \<Rightarrow> error" where
  "unrecognized location opcode =
     error_new location OpcodeNotRecognized (''cannot decrypt '' @ show_nat (unat opcode) @ ''.'')"

definition opcode_2_event :: "emul_serde \<Rightarrow> u16 \<Rightarrow> string option \<Rightarrow> emul_message result" where
  "opcode_2_event sd opcode data =
     (let text = (case data of None \<Rightarrow> [] | Some d \<Rightarrow> d)
      in if opcode = 1 \<and> data \<noteq> None then map_result FlowUpdate (deserialize (es_flow sd) text)
         else if opcode = 3 \<and> data \<noteq> None then map_result TCInit (deserialize (es_tc sd) text)
         else if opcode = 4 \<and> data \<noteq> None then map_result TCUpdate (deserialize (es_tc sd) text)
         else if opcode = 5 then Inr TCDisconnect
         else if opcode = 6 then Inr TCReconnect
         else if opcode = 7 then Inr TCTeardown
         else if opcode = 8 then Inr SocketReady
         else if opcode = 9 \<and> data \<noteq> None then map_result EmulEvent (deserialize (es_event sd) text)
         else Inl (unrecognized ''opcode to tc_message'' opcode))"

fun event_2_opcode :: "emul_message \<Rightarrow> u16" where
  "event_2_opcode (FlowUpdate _) = 1"
| "event_2_opcode (TCInit _) = 3"
| "event_2_opcode (TCUpdate _) = 4"
| "event_2_opcode TCDisconnect = 5"
| "event_2_opcode TCReconnect = 6"
| "event_2_opcode TCTeardown = 7"
| "event_2_opcode SocketReady = 8"
| "event_2_opcode (EmulEvent _) = 9"

definition emul_to_bytes :: "emul_serde \<Rightarrow> emul_message \<Rightarrow> u8 list" where
  "emul_to_bytes sd m =
     put_u16 (event_2_opcode m) @
     (case m of
        FlowUpdate a \<Rightarrow> serialize (es_flow sd) a
      | TCInit a \<Rightarrow> serialize (es_tc sd) a
      | TCUpdate a \<Rightarrow> serialize (es_tc sd) a
      | _ \<Rightarrow> [])"

text \<open>The opcode and the optional text after it; \<^verbatim>\<open>None\<close> is the panic on a short buffer
  or on bytes that are no UTF-8.\<close>

definition split_opcode :: "u8 list \<Rightarrow> (u16 \<times> string option) option" where
  "split_opcode buf =
     (case get_u16 buf of
        None \<Rightarrow> None
      | Some (opcode, rest) \<Rightarrow>
          if rest \<noteq> [] then (case from_utf8 rest of None \<Rightarrow> None | Some s \<Rightarrow> Some (opcode, Some s))
          else Some (opcode, None))"

definition emul_from_bytes :: "emul_serde \<Rightarrow> u8 list \<Rightarrow> emul_message result option" where
  "emul_from_bytes sd buf =
     (case split_opcode buf of
        None \<Rightarrow> None
      | Some (opcode, payload) \<Rightarrow> Some (opcode_2_event sd opcode payload))"

fun emul_display :: "emul_message \<Rightarrow> string" where
  "emul_display (FlowUpdate _) = ''FlowUpdate''"
| "emul_display (TCInit _) = ''TCInit''"
| "emul_display (TCUpdate _) = ''TCUpdate''"
| "emul_display TCDisconnect = ''TCDisconnect''"
| "emul_display TCReconnect = ''TCReconnect''"
| "emul_display TCTeardown = ''TCTeardown''"
| "emul_display SocketReady = ''SocketReady''"
| "emul_display (EmulEvent _) = ''EmulationEvent''"

text \<open>The messages the encoding keeps: every one but the event, whose payload is not written.\<close>

fun emul_faithful :: "emul_serde \<Rightarrow> emul_message \<Rightarrow> bool" where
  "emul_faithful sd (FlowUpdate a) \<longleftrightarrow> serde_ok (es_flow sd) a"
| "emul_faithful sd (TCInit a) \<longleftrightarrow> serde_ok (es_tc sd) a"
| "emul_faithful sd (TCUpdate a) \<longleftrightarrow> serde_ok (es_tc sd) a"
| "emul_faithful sd (EmulEvent _) \<longleftrightarrow> False"
| "emul_faithful sd _ \<longleftrightarrow> True"

lemma split_opcode_plain: "split_opcode (put_u16 w) = Some (w, None)"
  using get_put_u16 [of w "[]"] by (simp add: split_opcode_def)

lemma split_opcode_payload:
  "serde_ok sd x \<Longrightarrow> split_opcode (put_u16 w @ serialize sd x) = Some (w, Some (to_json sd x))"
  by (simp add: split_opcode_def)

lemmas split_opcode_simps = split_opcode_plain split_opcode_payload

interpretation emul: codec "emul_to_bytes sd" "emul_from_bytes sd" "emul_faithful sd" for sd
proof unfold_locales
  fix m
  assume "emul_faithful sd m"
  then show "emul_from_bytes sd (emul_to_bytes sd m) = Some (Inr m)"
    by (cases m) (simp_all add: emul_to_bytes_def emul_from_bytes_def opcode_2_event_def split_opcode_simps)
qed

lemma emul_event_lost:
  "emul_from_bytes sd (emul_to_bytes sd (EmulEvent e)) = Some (Inl (unrecognized ''opcode to tc_message'' 9))"
  by (simp add: emul_to_bytes_def emul_from_bytes_def opcode_2_event_def split_opcode_simps)

section \<open>Messages of the topology interface\<close>

datatype reject_reason = TooMuch | NoDeploymentFound | BadFile string

fun reject_display :: "reject_reason \<Rightarrow> string" where
  "reject_display TooMuch = ''Already too much topology is running, please try later''"
| "reject_display NoDeploymentFound =
     ''No deployment suitable for with the actual cluster for your topology''"
| "reject_display (BadFile e) = ''Bad file: '' @ e"

datatype omanager_message =
    NewTopology string
  | Accepted
  | Rejected reject_reason
  | Abort string
  | CleanStop string cluster_node_info nat
  | EmulationReady string cluster_node_info

text \<open>The text of a node is an argument: the addresses are printed by the standard library.\<close>

fun omanager_display :: "(cluster_node_info \<Rightarrow> string) \<Rightarrow> omanager_message \<Rightarrow> string" where
  "omanager_display show_node (NewTopology _) = ''New topology request''"
| "omanager_display show_node Accepted = ''Topology Accepted''"
| "omanager_display show_node (Rejected reason) =
     ''Your topology submission has been rejected. Reason: '' @ reject_display reason"
| "omanager_display show_node (Abort i) = ''Emulation '' @ i @ '' aborted''"
| "omanager_display show_node (CleanStop i node app) =
     ''App '' @ show_nat app @ '' on node '' @ show_node node @ '' of experiment '' @ i @ '' finished''"
| "omanager_display show_node (EmulationReady i node) =
     ''Emulation '' @ i @ '' ready on node '' @ show_node node"

end
