(* ===== verification/Data.thy ===== *)
theory Data
  imports Messages Netwalks
begin

text \<open>
  The data of an emulation (\<^verbatim>\<open>emulation/src/data.rs\<close>): container configurations,
  applications, and the nodes of the topology, whose equality is by variant and identifier
  only. A getter that unwraps an \<^verbatim>\<open>Option\<close> returns \<^verbatim>\<open>None\<close> for the
  panic. The flows of the same file are in the theory \<^verbatim>\<open>Bwsync\<close>.
\<close>

section \<open>Container configurations\<close>

record container_config =
  cc_name :: string
  cc_id :: "string option"
  cc_image_command :: "(string \<times> string option) option"

definition container_config_new ::
  "string \<Rightarrow> string option \<Rightarrow> (string \<times> string option) option \<Rightarrow> container_config option" where
  "container_config_new name ident image_command =
     (if (case image_command of
            None \<Rightarrow> False
          | Some (img, comm) \<Rightarrow>
              img = [] \<or> (case comm of None \<Rightarrow> False | Some com \<Rightarrow> com = []))
      then None
      else if name = [] then None
      else Some \<lparr>cc_name = name, cc_id = ident, cc_image_command = image_command\<rparr>)"

definition cc_image :: "container_config \<Rightarrow> string option" where
  "cc_image c = (case cc_image_command c of None \<Rightarrow> None | Some (im, _) \<Rightarrow> Some im)"

definition cc_command :: "container_config \<Rightarrow> string option" where
  "cc_command c = (case cc_image_command c of None \<Rightarrow> None | Some (_, com) \<Rightarrow> com)"

datatype application_kind = BareMetal | Container container_config

datatype app_status = NotInit | Running | Stopped | Crashed

section \<open>Applications\<close>

record application =
  app_ip :: "ip_addr option"
  app_host :: "cluster_node_info option"
  app_name :: string
  app_kind :: application_kind
  app_index :: "nat option"

definition app_build ::
  "ip_addr option \<Rightarrow> cluster_node_info option \<Rightarrow> string \<Rightarrow> application_kind \<Rightarrow> application" where
  "app_build ip_app host name kind =
     \<lparr>app_ip = ip_app, app_host = host, app_name = name, app_kind = kind, app_index = None\<rparr>"

definition app_runs_on :: "application \<Rightarrow> cluster_node_info \<Rightarrow> bool option" where
  "app_runs_on a node = map_option (\<lambda>h. cni_eq h node) (app_host a)"

definition app_set_host :: "cluster_node_info \<Rightarrow> application \<Rightarrow> application" where
  "app_set_host host a = a\<lparr>app_host := Some host\<rparr>"

definition app_set_index :: "nat \<Rightarrow> application \<Rightarrow> application" where
  "app_set_index index a = a\<lparr>app_index := Some index\<rparr>"

section \<open>Nodes\<close>

datatype node = App u32 application | Bridge u32

fun node_is_app :: "node \<Rightarrow> bool" where
  "node_is_app (App _ _) = True"
| "node_is_app (Bridge _) = False"

fun node_as_app :: "node \<Rightarrow> application option" where
  "node_as_app (App _ app) = Some app"
| "node_as_app (Bridge _) = None"

text \<open>\<^verbatim>\<open>as_app_mut\<close> followed by an update in place.\<close>

fun node_update_app :: "(application \<Rightarrow> application) \<Rightarrow> node \<Rightarrow> node option" where
  "node_update_app f (App i app) = Some (App i (f app))"
| "node_update_app f (Bridge _) = None"

fun node_id :: "node \<Rightarrow> u32" where
  "node_id (App i _) = i"
| "node_id (Bridge i) = i"

definition node_is_same_by_id :: "node \<Rightarrow> u32 \<Rightarrow> bool" where
  "node_is_same_by_id n i \<longleftrightarrow> i = node_id n"

fun node_eq :: "node \<Rightarrow> node \<Rightarrow> bool" where
  "node_eq (App id_1 _) (App id_2 _) \<longleftrightarrow> id_1 = id_2"
| "node_eq (Bridge id_1) (Bridge id_2) \<longleftrightarrow> id_1 = id_2"
| "node_eq _ _ \<longleftrightarrow> False"

text \<open>What \<^verbatim>\<open>Hash\<close> feeds to the hasher.\<close>

definition node_hash_key :: "node \<Rightarrow> u32" where
  "node_hash_key n = node_id n"

lemma node_eq_iff: "node_eq a b \<longleftrightarrow> node_is_app a = node_is_app b \<and> node_id a = node_id b"
  by (cases a; cases b) auto

interpretation nd: rust_eq node_eq
  by unfold_locales (auto simp: node_eq_iff)

lemma node_update_app_eq: "node_update_app f n = Some m \<Longrightarrow> node_eq n m \<and> node_eq m n"
  by (cases n) auto

lemma node_hash_consistent: "node_eq a b \<Longrightarrow> node_hash_key a = node_hash_key b"
  by (simp add: node_eq_iff node_hash_key_def)

section \<open>Printing\<close>

text \<open>The printer of addresses is the standard library's; an application without an address or a
  host cannot be printed.\<close>

definition cni_display :: "(ip_addr \<Rightarrow> string) \<Rightarrow> cluster_node_info \<Rightarrow> string" where
  "cni_display show_ip c = ''['' @ show_ip (cni_ip_addr c) @ '':'' @ show_nat (unat (cni_port c)) @ '']''"

definition app_display :: "(ip_addr \<Rightarrow> string) \<Rightarrow> application \<Rightarrow> string option" where
  "app_display show_ip a =
     (case (app_ip a, app_host a) of
        (Some ip, Some host) \<Rightarrow>
          Some (''[APP '' @ app_name a @ ''] IP '' @ show_ip ip @ '' '' @ [CHR 0x09] @ '' Host ''
            @ cni_display show_ip host @ '' '' @ [CHR 0x09])
      | _ \<Rightarrow> None)"

fun node_display :: "(ip_addr \<Rightarrow> string) \<Rightarrow> node \<Rightarrow> string option" where
  "node_display show_ip (App _ app) = app_display show_ip app"
| "node_display show_ip (Bridge ident) = Some (''[BRIDGE '' @ show_nat (unat ident) @ '']'')"

section \<open>Emulations\<close>

record emulation =
  em_uuid :: uuid
  em_graph :: "node network"
  em_events :: "emulation_event list"

definition emulation_build :: "uuid \<Rightarrow> node network \<Rightarrow> emulation_event list \<Rightarrow> emulation" where
  "emulation_build u graph events = \<lparr>em_uuid = u, em_graph = graph, em_events = events\<rparr>"

section \<open>Messages between the managers\<close>

datatype emanager_message =
    EmulCoreInterchange string emul_message
  | ExperimentNew cluster_node_info emulation
  | ExperimentStop string
  | ExperimentReady string

fun emanager_display ::
  "(uuid \<Rightarrow> string) \<Rightarrow> (cluster_node_info \<Rightarrow> string) \<Rightarrow> emanager_message \<Rightarrow> string" where
  "emanager_display show_uuid show_node (EmulCoreInterchange i mess) =
     ''EmulInterchange for '' @ i @ '': '' @ emul_display mess"
| "emanager_display show_uuid show_node (ExperimentNew cn emul) =
     ''ExperimentNew of '' @ show_uuid (em_uuid emul) @ '' from '' @ show_node cn"
| "emanager_display show_uuid show_node (ExperimentStop u) = ''ExperimentStop of '' @ u"
| "emanager_display show_uuid show_node (ExperimentReady u) = ''Experiment '' @ u @ '' is ready to launch''"

text \<open>The messages of the synchronisation. A begin time is an instant of the clock of the host that
  holds it, in nanoseconds. The \<^verbatim>\<open>serde_millis\<close> crate, which is not part of the repository,
  writes it as milliseconds and reads it back by the clocks of the host where that happens: both
  conversions are parameters, functions of the instant at which they run.\<close>

datatype synchro_message = EmulStart int | EmulStartOk

datatype synchro_wire = WireStart int | WireOk

record millis =
  ml_out :: "int \<Rightarrow> int \<Rightarrow> int"
  ml_in :: "int \<Rightarrow> int \<Rightarrow> int"

fun synchro_to_wire :: "millis \<Rightarrow> int \<Rightarrow> synchro_message \<Rightarrow> synchro_wire" where
  "synchro_to_wire ml now (EmulStart time) = WireStart (ml_out ml now time)"
| "synchro_to_wire ml now EmulStartOk = WireOk"

fun synchro_from_wire :: "millis \<Rightarrow> int \<Rightarrow> synchro_wire \<Rightarrow> synchro_message" where
  "synchro_from_wire ml now (WireStart time) = EmulStart (ml_in ml now time)"
| "synchro_from_wire ml now WireOk = EmulStartOk"

end
