(* ===== verification/Orchestrator.thy ===== *)
theory Orchestrator
  imports Data CGraph_Speeds
begin

text \<open>
  The orchestrator (\<^verbatim>\<open>emulation/src/orchestrator.rs\<close>): the residual bandwidth between the
  hosts of the cluster, the load of each host, the running emulations, and the search of a
  placement for a new topology. Hosts and emulation identifiers compare structurally.
\<close>

section \<open>State\<close>

record orchestrator =
  or_residual :: "u32 sym_matrix"
  or_hosts :: "cluster_node_info list"
  or_attributed :: "(cluster_node_info, uuid list) hmap"
  or_emulations :: "(uuid, u32 sym_matrix \<times> nat list) hmap"
  or_load :: "(cluster_node_info, (uuid, nat) hmap) hmap"
  or_max_load :: nat
  or_port :: u16

definition or_err :: "error_kind \<Rightarrow> string \<Rightarrow> error" where
  "or_err kind message = error_new ''orchestrator'' kind message"

definition convert_cgraph_nodeinfo ::
  "u16 \<Rightarrow> cluster_node_info cgraph \<Rightarrow> cluster_node_info cgraph" where
  "convert_cgraph_nodeinfo port graph = cg_map_nodes (\<lambda>cni. cni\<lparr>cni_port := port\<rparr>) graph"

definition or_new :: "cluster_node_info cgraph \<Rightarrow> u16 \<Rightarrow> nat \<Rightarrow> orchestrator option" where
  "or_new cgraph emanagers_port max_load =
     (case cg_speeds (convert_cgraph_nodeinfo emanagers_port cgraph) of
        None \<Rightarrow> None
      | Some (residual_graph, host_mapping) \<Rightarrow> Some
          \<lparr>or_residual = residual_graph, or_hosts = host_mapping, or_attributed = [],
           or_emulations = [], or_load = [], or_max_load = max_load, or_port = emanagers_port\<rparr>)"

definition or_size :: "orchestrator \<Rightarrow> nat" where
  "or_size s = sm_size (or_residual s)"

definition get_actual_load :: "orchestrator \<Rightarrow> nat \<Rightarrow> nat option" where
  "get_actual_load s host =
     (case get_at (or_hosts s) host of
        None \<Rightarrow> None
      | Some node \<Rightarrow> Some
          (case hm_get (=) (or_load s) node of
             None \<Rightarrow> 0
           | Some m \<Rightarrow> fold (\<lambda>(_, load) acc. acc + load) m 0))"

section \<open>Combinations\<close>

text \<open>The carry loop of \<^verbatim>\<open>next_comb\<close>; indices are \<^verbatim>\<open>usize\<close>, so a carry past the
  first position is an access out of range.\<close>

partial_function (option) next_comb_carry :: "nat list \<Rightarrow> nat \<Rightarrow> nat \<Rightarrow> nat \<Rightarrow> (nat list \<times> nat) option" where
  "next_comb_carry previous i k n =
     (case get_at previous i of
        None \<Rightarrow> None
      | Some v \<Rightarrow>
          if usize_add (usize_add (usize_sub n k) 1) i < v then
            let i' = usize_sub i 1 in
            (case get_at previous i' of
               None \<Rightarrow> None
             | Some v' \<Rightarrow> next_comb_carry (previous[i' := v' + 1]) i' k n)
          else Some (previous, i))"

definition next_comb :: "nat list \<Rightarrow> nat \<Rightarrow> nat \<Rightarrow> nat list option option" where
  "next_comb previous k n =
     (let i = usize_sub k 1 in
      case get_at previous i of
        None \<Rightarrow> None
      | Some v \<Rightarrow>
          (case next_comb_carry (previous[i := v + 1]) i k n of
             None \<Rightarrow> None
           | Some (comb, i) \<Rightarrow>
               (case get_at comb 0 of
                  None \<Rightarrow> None
                | Some v0 \<Rightarrow>
                    if usize_sub n k < v0 then Some None
                    else Some (Some
                      (fold (\<lambda>v comb. comb[v := comb ! (v - 1) + 1]) [i + 1..<k] comb)))))"

text \<open>The combination as a set, each element moved to the smallest free number of its class
  modulo the number of hosts.\<close>

partial_function (option) insert_class :: "nat \<Rightarrow> nat list \<Rightarrow> nat \<Rightarrow> nat list option" where
  "insert_class n acc val =
     (if val \<in> set acc then insert_class n acc (val + n) else Some (acc @ [val]))"

definition combination_set :: "nat \<Rightarrow> nat list \<Rightarrow> nat list option" where
  "combination_set n combination =
     fold_opt (\<lambda>val acc. if n = 0 then None else insert_class n acc (val mod n))
       combination []"

section \<open>verify\_permutation\<close>

definition real_host :: "orchestrator \<Rightarrow> nat list \<Rightarrow> nat \<Rightarrow> nat option" where
  "real_host s mapper i =
     (case get_at mapper i of
        None \<Rightarrow> None
      | Some m \<Rightarrow> if or_size s = 0 then None else Some (m mod or_size s))"

definition app_host_of :: "orchestrator \<Rightarrow> nat list \<Rightarrow> nat list \<Rightarrow> nat \<Rightarrow> nat option" where
  "app_host_of s equivalence mapper app =
     (case get_at equivalence app of None \<Rightarrow> None | Some e \<Rightarrow> real_host s mapper e)"

text \<open>The check of one host: free load, then free bandwidth to every other host used.\<close>

definition verify_host ::
  "orchestrator \<Rightarrow> u32 sym_matrix \<Rightarrow> nat list \<Rightarrow> nat list \<Rightarrow> nat \<Rightarrow> bool option" where
  "verify_host s g1 equivalence mapper host =
     (case map_opt (app_host_of s equivalence mapper) [0..<sm_size g1] of
        None \<Rightarrow> None
      | Some hosts_of \<Rightarrow>
          let apps_on_same_host = filter (\<lambda>app. hosts_of ! app = host) [0..<sm_size g1] in
          (case get_actual_load s host of
             None \<Rightarrow> None
           | Some load \<Rightarrow>
               if usize_sub (or_max_load s) load < length apps_on_same_host then Some False
               else
                 let apps_not_same_host = filter (\<lambda>app. hosts_of ! app \<noteq> host) [0..<sm_size g1] in
                 (case fold_opt
                         (\<lambda>(a, b) total. map_option (\<lambda>x. total + x) (sm_get g1 a b))
                         (concat (map (\<lambda>a. map (\<lambda>b. (a, b)) apps_not_same_host) apps_on_same_host)) 0 of
                    None \<Rightarrow> None
                  | Some total_required_bandwidth \<Rightarrow>
                      (case map_opt (real_host s mapper) equivalence of
                         None \<Rightarrow> None
                       | Some others \<Rightarrow>
                           fold_opt
                             (\<lambda>other ok. if \<not> ok then Some False
                                else map_option (\<lambda>r. \<not> r < total_required_bandwidth)
                                       (sm_get (or_residual s) host other))
                             (filter (\<lambda>h. h \<noteq> host) others) True))))"

fun verify_loop ::
  "orchestrator \<Rightarrow> u32 sym_matrix \<Rightarrow> nat list \<Rightarrow> nat list \<Rightarrow> nat list \<Rightarrow> nat list \<Rightarrow> bool option" where
  "verify_loop s g1 equivalence mapper checked_hosts [] = Some True"
| "verify_loop s g1 equivalence mapper checked_hosts (i # rest) =
     (case real_host s mapper i of
        None \<Rightarrow> None
      | Some host \<Rightarrow>
          if host \<in> set checked_hosts then verify_loop s g1 equivalence mapper checked_hosts rest
          else
            (case verify_host s g1 equivalence mapper host of
               None \<Rightarrow> None
             | Some False \<Rightarrow> Some False
             | Some True \<Rightarrow> verify_loop s g1 equivalence mapper (host # checked_hosts) rest))"

definition verify_permutation ::
  "orchestrator \<Rightarrow> u32 sym_matrix \<Rightarrow> u32 sym_matrix \<Rightarrow> nat list \<Rightarrow> nat list \<Rightarrow> bool option" where
  "verify_permutation s g1 residual equivalence mapper =
     verify_loop s g1 equivalence mapper [] [0..<sm_size residual]"

section \<open>graph\_isomorphism: Heap's algorithm\<close>

definition swap_at :: "nat list \<Rightarrow> nat \<Rightarrow> nat \<Rightarrow> nat list option" where
  "swap_at xs a b =
     (if a < length xs \<and> b < length xs then Some (xs[a := xs ! b, b := xs ! a]) else None)"

text \<open>An upper bound of the steps to run through the positions below \<open>k\<close>, and of the steps
  left in a state of the loop.\<close>

fun heap_steps :: "nat \<Rightarrow> nat" where
  "heap_steps 0 = 0"
| "heap_steps (Suc k) = heap_steps k + k * (1 + heap_steps k) + 1"

definition heap_measure :: "nat list \<Rightarrow> nat \<Rightarrow> nat" where
  "heap_measure c i = (\<Sum>j = i..<length c. (j - c ! j) * (1 + heap_steps j) + 1)"

lemma heap_digits_bound: "(\<Sum>j = 0..<i. (j - c ! j) * (1 + heap_steps j) + 1) \<le> heap_steps i"
proof (induction i)
  case (Suc i)
  have "(i - c ! i) * (1 + heap_steps i) \<le> i * (1 + heap_steps i)" by (rule mult_le_mono1) simp
  with Suc show ?case by simp
qed simp

lemma heap_measure_advance:
  "i < length c \<Longrightarrow> heap_measure (c[i := x]) (Suc i) < heap_measure c i"
  by (simp add: heap_measure_def sum.atLeast_Suc_lessThan)

lemma heap_measure_count:
  assumes "i < length c" and "c ! i < i"
  shows "heap_measure (c[i := Suc (c ! i)]) (Suc 0) < heap_measure c i"
proof -
  let ?f = "\<lambda>c j. (j - c ! j) * (1 + heap_steps j) + 1 :: nat"
  let ?c = "c[i := Suc (c ! i)]"
  have "heap_measure ?c (Suc 0) \<le> (\<Sum>j = 0..<length c. ?f ?c j)"
    unfolding heap_measure_def by (rule sum_mono2) auto
  also have "\<dots> = (\<Sum>j = 0..<i. ?f ?c j) + (\<Sum>j = i..<length c. ?f ?c j)"
    using assms(1) by (simp only: sum.atLeastLessThan_concat)
  also have "(\<Sum>j = 0..<i. ?f ?c j) \<le> heap_steps i" by (rule heap_digits_bound)
  also have "(\<Sum>j = i..<length c. ?f ?c j) = ?f ?c i + (\<Sum>j = Suc i..<length c. ?f c j)"
    using assms(1) by (simp add: sum.atLeast_Suc_lessThan)
  also have "heap_steps i + (?f ?c i + (\<Sum>j = Suc i..<length c. ?f c j)) < heap_measure c i"
  proof -
    have "i - c ! i = Suc (i - Suc (c ! i))" using assms(2) by simp
    then have "?f c i = ?f ?c i + (1 + heap_steps i)" using assms(1) by simp
    then show ?thesis using assms(1) by (simp add: heap_measure_def sum.atLeast_Suc_lessThan)
  qed
  finally show ?thesis by simp
qed

function heap_loop ::
  "(nat list \<Rightarrow> bool option) \<Rightarrow> nat \<Rightarrow> nat list \<Rightarrow> nat list \<Rightarrow> nat \<Rightarrow> nat list option option" where
  "heap_loop verify n equivalence exchange_counter exchange_index =
     (if exchange_index < n then
        (case get_at exchange_counter exchange_index of
           None \<Rightarrow> None
         | Some c \<Rightarrow>
             if c < exchange_index then
               (case swap_at equivalence (if exchange_index mod 2 = 0 then 0 else c) exchange_index of
                  None \<Rightarrow> None
                | Some equivalence' \<Rightarrow>
                    (case verify equivalence' of
                       None \<Rightarrow> None
                     | Some True \<Rightarrow> Some (Some equivalence')
                     | Some False \<Rightarrow>
                         heap_loop verify n equivalence'
                           (exchange_counter[exchange_index := c + 1]) 1))
             else
               heap_loop verify n equivalence
                 (exchange_counter[exchange_index := 0]) (exchange_index + 1))
      else Some None)"
  by pat_completeness auto
termination
  by (relation "measure (\<lambda>(verify, n, e, c, i). heap_measure c i)")
    (auto simp: get_at_eq_Some heap_measure_count heap_measure_advance)

declare heap_loop.simps [simp del]

definition graph_isomorphism ::
  "orchestrator \<Rightarrow> u32 sym_matrix \<Rightarrow> u32 sym_matrix \<Rightarrow> nat list \<Rightarrow> nat list option result option" where
  "graph_isomorphism s g1 residual mapper =
     (if sm_size g1 \<noteq> sm_size residual
      then Some (Inl (or_err InvalidData ''the graph must have the same size''))
      else
        let equivalence = [0..<sm_size g1];
            verify = (\<lambda>e. verify_permutation s g1 residual e mapper) in
        (case verify equivalence of
           None \<Rightarrow> None
         | Some True \<Rightarrow> Some (Inr (Some equivalence))
         | Some False \<Rightarrow>
             map_option Inr
               (heap_loop verify (sm_size g1) equivalence (replicate (sm_size g1) 0) 1)))"

section \<open>find\_isomorphism\<close>

text \<open>Whether every host of a combination can take one more application.\<close>

fun all_remaining :: "orchestrator \<Rightarrow> nat list \<Rightarrow> bool option" where
  "all_remaining s [] = Some True"
| "all_remaining s (i # is) =
     (if or_size s = 0 then None
      else
        (case get_actual_load s (i mod or_size s) of
           None \<Rightarrow> None
         | Some load \<Rightarrow> if load < or_max_load s then all_remaining s is else Some False))"

definition same_set :: "nat list \<Rightarrow> nat list \<Rightarrow> bool" where
  "same_set a b \<longleftrightarrow> list_all (\<lambda>x. x \<in> set b) a \<and> list_all (\<lambda>x. x \<in> set a) b"

definition sub_graph :: "orchestrator \<Rightarrow> nat list \<Rightarrow> u32 sym_matrix option" where
  "sub_graph s combination =
     sm_new_fn (length combination)
       (\<lambda>row col.
          (case (real_host s combination row, real_host s combination col) of
             (Some i1, Some i2) \<Rightarrow> sm_get (or_residual s) i1 i2
           | _ \<Rightarrow> None))"

text \<open>One turn of the search for a fixed number of clones: \<^verbatim>\<open>Inl\<close> is the value the
  function returns, \<^verbatim>\<open>Inr\<close> the combinations tested so far.\<close>

definition test_combination ::
  "orchestrator \<Rightarrow> u32 sym_matrix \<Rightarrow> nat list \<Rightarrow> nat list list
   \<Rightarrow> (nat list option result + nat list list) option" where
  "test_combination s g1 combination tested_comb =
     (case combination_set (or_size s) combination of
        None \<Rightarrow> None
      | Some comb_set \<Rightarrow>
          (case all_remaining s comb_set of
             None \<Rightarrow> None
           | Some remaining \<Rightarrow>
               if \<not> list_ex (same_set comb_set) tested_comb \<and> remaining then
                 (case sub_graph s combination of
                    None \<Rightarrow> None
                  | Some sub \<Rightarrow>
                      (case graph_isomorphism s g1 sub combination of
                         None \<Rightarrow> None
                       | Some (Inl e) \<Rightarrow> Some (Inl (Inl e))
                       | Some (Inr None) \<Rightarrow> Some (Inr (tested_comb @ [comb_set]))
                       | Some (Inr (Some equivalence)) \<Rightarrow>
                           map_option (\<lambda>eqv. Inl (Inr (Some eqv)))
                             (map_opt (real_host s combination) equivalence)))
               else Some (Inr tested_comb)))"

partial_function (option) combination_loop ::
  "orchestrator \<Rightarrow> u32 sym_matrix \<Rightarrow> nat \<Rightarrow> nat list \<Rightarrow> nat list list
   \<Rightarrow> (nat list option result + nat list list) option" where
  "combination_loop s g1 searching_set_size combination tested_comb =
     (case test_combination s g1 combination tested_comb of
        None \<Rightarrow> None
      | Some (Inl r) \<Rightarrow> Some (Inl r)
      | Some (Inr tested) \<Rightarrow>
          (case next_comb combination (sm_size g1) searching_set_size of
             None \<Rightarrow> None
           | Some None \<Rightarrow> Some (Inr tested)
           | Some (Some comb) \<Rightarrow> combination_loop s g1 searching_set_size comb tested))"

fun find_iso_internal ::
  "orchestrator \<Rightarrow> u32 sym_matrix \<Rightarrow> nat \<Rightarrow> nat list list \<Rightarrow> nat \<Rightarrow> nat list option result option" where
  "find_iso_internal s g1 clones tested_comb 0 = Some (Inr None)"
| "find_iso_internal s g1 clones tested_comb (Suc depth) =
     (let base = usize_sub (or_size s) 1;
          searching_set_size = (if 0 < clones then base + or_size s * clones else base) in
      case combination_loop s g1 searching_set_size [0..<sm_size g1] tested_comb of
        None \<Rightarrow> None
      | Some (Inl r) \<Rightarrow> Some r
      | Some (Inr tested) \<Rightarrow> find_iso_internal s g1 (clones + 1) tested depth)"

text \<open>\<^verbatim>\<open>max(0, a as i32 - b as i32) as usize\<close>\<close>

definition clones_needed :: "nat \<Rightarrow> nat \<Rightarrow> nat" where
  "clones_needed a b = nat (max 0 (sint ((of_nat a :: i32) - of_nat b)))"

definition find_isomorphism :: "orchestrator \<Rightarrow> u32 sym_matrix \<Rightarrow> nat list option result option" where
  "find_isomorphism s graph =
     find_iso_internal s graph (clones_needed (sm_size graph) (or_size s)) [] 5"

section \<open>new\_emulation\<close>

definition increase_load :: "cluster_node_info \<Rightarrow> uuid \<Rightarrow> orchestrator \<Rightarrow> orchestrator" where
  "increase_load host emul_id s = s\<lparr>or_load :=
     (case hm_get (=) (or_load s) host of
        Some m \<Rightarrow>
          (case hm_get (=) m emul_id of
             Some _ \<Rightarrow> hm_update (=) host (hm_update (=) emul_id (\<lambda>load. load + 1)) (or_load s)
           | None \<Rightarrow> hm_update (=) host (hm_insert (=) emul_id 1) (or_load s))
      | None \<Rightarrow> hm_insert (=) host (hm_insert (=) emul_id 1 []) (or_load s))\<rparr>"

definition attribute_emul :: "cluster_node_info \<Rightarrow> uuid \<Rightarrow> orchestrator \<Rightarrow> orchestrator" where
  "attribute_emul host emul_id s = s\<lparr>or_attributed :=
     (case hm_get (=) (or_attributed s) host of
        Some _ \<Rightarrow> hm_update (=) host (hs_insert (=) emul_id) (or_attributed s)
      | None \<Rightarrow> hm_insert (=) host (hs_insert (=) emul_id []) (or_attributed s))\<rparr>"

type_synonym placement = "orchestrator \<times> node network \<times> node list \<times> cluster_node_info list"

definition place_app :: "nat list \<Rightarrow> uuid \<Rightarrow> nat \<Rightarrow> placement \<Rightarrow> placement option" where
  "place_app equivalence emul_id i st =
     (let (s, network, nodes, affected) = st in
      case get_at equivalence i of
        None \<Rightarrow> None
      | Some e \<Rightarrow>
          (case (get_at (or_hosts s) e, get_at nodes i) of
             (Some host, Some node) \<Rightarrow>
               (case node_update_app (app_set_index i \<circ> app_set_host host) node of
                  None \<Rightarrow> None
                | Some node' \<Rightarrow> Some
                    (attribute_emul host emul_id (increase_load host emul_id s),
                     net_edit_vertex node_eq network node', nodes[i := node'],
                     hs_insert (=) host affected))
           | _ \<Rightarrow> None))"

text \<open>\<^verbatim>\<open>residual[(e[i], e[j])] op= matrix[(i, j)]\<close>\<close>

definition residual_op ::
  "(u32 \<Rightarrow> u32 \<Rightarrow> u32) \<Rightarrow> u32 sym_matrix \<Rightarrow> nat list \<Rightarrow> nat \<times> nat \<Rightarrow> u32 sym_matrix \<Rightarrow> u32 sym_matrix option" where
  "residual_op f matrix equivalence ij residual =
     (case (get_at equivalence (fst ij), get_at equivalence (snd ij), sm_get matrix (fst ij) (snd ij)) of
        (Some a, Some b, Some x) \<Rightarrow> store_modify sm_get sm_set a b (\<lambda>r. f r x) residual
      | _ \<Rightarrow> None)"

definition lower_pairs :: "nat \<Rightarrow> (nat \<times> nat) list" where
  "lower_pairs n = concat (map (\<lambda>i. map (\<lambda>j. (i, j)) [0..<i]) [0..<n])"

definition reserve_bandwidth ::
  "u32 sym_matrix \<Rightarrow> nat list \<Rightarrow> u32 sym_matrix \<Rightarrow> u32 sym_matrix option" where
  "reserve_bandwidth matrix equivalence residual =
     fold_opt
       (\<lambda>ij r.
          (case (get_at equivalence (fst ij), get_at equivalence (snd ij)) of
             (Some a, Some b) \<Rightarrow> if a = b then Some r else residual_op (-) matrix equivalence ij r
           | _ \<Rightarrow> None))
       (lower_pairs (sm_size matrix)) residual"

definition or_new_emulation ::
  "node network \<Rightarrow> uuid \<Rightarrow> orchestrator
   \<Rightarrow> (orchestrator \<times> (node network \<times> cluster_node_info list) option result) option" where
  "or_new_emulation network emul_id s =
     (case net_bandwidth_matrix node_eq network node_is_app of
        None \<Rightarrow> None
      | Some (matrix, nodes) \<Rightarrow>
          (case find_isomorphism s matrix of
             None \<Rightarrow> None
           | Some (Inl e) \<Rightarrow> Some (s, Inl e)
           | Some (Inr None) \<Rightarrow> Some (s, Inr None)
           | Some (Inr (Some equivalence)) \<Rightarrow>
               (case fold_opt (place_app equivalence emul_id) [0..<sm_size matrix] (s, network, nodes, []) of
                  None \<Rightarrow> None
                | Some (s1, network1, nodes1, affected) \<Rightarrow>
                    (case reserve_bandwidth matrix equivalence (or_residual s1) of
                       None \<Rightarrow> None
                     | Some residual \<Rightarrow> Some
                         (s1\<lparr>or_residual := residual,
                             or_emulations := hm_insert (=) emul_id (matrix, equivalence) (or_emulations s1)\<rparr>,
                          Inr (Some (network1, affected)))))))"

section \<open>Stopping emulations\<close>

definition release_bandwidth ::
  "u32 sym_matrix \<Rightarrow> nat list \<Rightarrow> u32 sym_matrix \<Rightarrow> u32 sym_matrix option" where
  "release_bandwidth matrix equivalence residual =
     fold_opt (residual_op (+) matrix equivalence) (lower_pairs (sm_size matrix)) residual"

definition or_stop_emulation :: "uuid \<Rightarrow> orchestrator \<Rightarrow> (orchestrator \<times> unit result) option" where
  "or_stop_emulation emul_id s =
     (case hm_get (=) (or_emulations s) emul_id of
        None \<Rightarrow> Some (s, Inl (or_err InvalidData ''no emulation registered''))
      | Some (matrix, equivalence) \<Rightarrow>
          (case release_bandwidth matrix equivalence (or_residual s) of
             None \<Rightarrow> None
           | Some residual \<Rightarrow> Some
               (s\<lparr>or_residual := residual,
                  or_attributed := map (\<lambda>(h, l). (h, hs_remove (=) emul_id l)) (or_attributed s),
                  or_load := map (\<lambda>(h, m). (h, hm_remove (=) emul_id m)) (or_load s),
                  or_emulations := hm_remove (=) emul_id (or_emulations s)\<rparr>, Inr ())))"

definition decrease_load ::
  "uuid \<Rightarrow> cluster_node_info \<Rightarrow> orchestrator \<Rightarrow> (orchestrator \<times> bool) option" where
  "decrease_load emul_id node s =
     (case hm_get (=) (or_load s) node of
        None \<Rightarrow> None
      | Some m \<Rightarrow>
          (case hm_get (=) m emul_id of
             None \<Rightarrow> Some (s, False)
           | Some current_load \<Rightarrow>
               let load' = usize_sub current_load 1 in Some
               (s\<lparr>or_load := hm_update (=) node (hm_update (=) emul_id (\<lambda>_. load')) (or_load s)\<rparr>,
                load' = 0)))"

definition or_stop_app_emulation_on ::
  "uuid \<Rightarrow> cluster_node_info \<Rightarrow> nat \<Rightarrow> orchestrator \<Rightarrow> (orchestrator \<times> unit result) option" where
  "or_stop_app_emulation_on emul_id node app_idx s =
     (case hm_get (=) (or_emulations s) emul_id of
        None \<Rightarrow> Some (s, Inl (or_err InvalidData ''no emulation registered''))
      | Some (matrix, equivalence) \<Rightarrow>
          (case fold_opt (\<lambda>i r. if i = app_idx then Some r
                    else residual_op (+) matrix equivalence (app_idx, i) r)
                  [0..<sm_size matrix] (or_residual s) of
             None \<Rightarrow> None
           | Some residual \<Rightarrow>
               (case decrease_load emul_id node (s\<lparr>or_residual := residual\<rparr>) of
                  None \<Rightarrow> None
                | Some (s1, need_deletion) \<Rightarrow>
                    (case (if need_deletion then
                             (case hm_get (=) (or_attributed s1) node of
                                None \<Rightarrow> None
                              | Some _ \<Rightarrow> Some
                                  (s1\<lparr>or_load := hm_update (=) node (hm_remove (=) emul_id) (or_load s1),
                                      or_attributed := hm_update (=) node (hs_remove (=) emul_id)
                                        (or_attributed s1)\<rparr>))
                           else Some s1) of
                       None \<Rightarrow> None
                     | Some s2 \<Rightarrow> Some
                         (if list_ex (\<lambda>(_, l). hs_contains (=) l emul_id) (or_attributed s2) then s2
                          else s2\<lparr>or_emulations := hm_remove (=) emul_id (or_emulations s2)\<rparr>, Inr ())))))"

section \<open>Changes of the cluster\<close>

fun find_position :: "'a \<Rightarrow> 'a list \<Rightarrow> nat option" where
  "find_position x [] = None"
| "find_position x (y # ys) = (if y = x then Some 0 else map_option Suc (find_position x ys))"

definition or_remove_cluster_node ::
  "cluster_node_info \<Rightarrow> orchestrator \<Rightarrow> (orchestrator \<times> uuid list result) option" where
  "or_remove_cluster_node node0 s =
     (let node = node0\<lparr>cni_port := or_port s\<rparr> in
      case find_position node (or_hosts s) of
        None \<Rightarrow> Some (s, Inl (or_err InvalidData ''Cannot find the node to remove''))
      | Some ident \<Rightarrow>
          let uuids_concerned = concat (map snd (or_attributed s)) in
          (case fold_opt (\<lambda>u st. map_option fst (or_stop_emulation u st)) uuids_concerned s of
             None \<Rightarrow> None
           | Some s1 \<Rightarrow>
               (case sm_remove_id (or_residual s1) ident of
                  None \<Rightarrow> None
                | Some residual \<Rightarrow> Some
                    (s1\<lparr>or_residual := residual,
                        or_hosts := take ident (or_hosts s1) @ drop (Suc ident) (or_hosts s1),
                        or_attributed := hm_remove (=) node (or_attributed s1)\<rparr>,
                     Inr uuids_concerned))))"

definition add_cluster_node ::
  "u32 sym_matrix \<Rightarrow> (cluster_node_info, nat) hmap \<Rightarrow> cluster_node_info \<Rightarrow> orchestrator \<Rightarrow> orchestrator option" where
  "add_cluster_node matrix nodes_to_index node s =
     (let hosts = or_hosts s @ [node] in
      case hm_get (=) nodes_to_index node of
        None \<Rightarrow> None
      | Some node_index \<Rightarrow>
          (case sm_grow_fn (or_residual s) 1
                  (\<lambda>row col.
                     if row = col then Some (- 1)
                     else
                       let other = (if row = node_index then col else row) in
                       (case get_at hosts other of
                          None \<Rightarrow> None
                        | Some h \<Rightarrow>
                            (case hm_get (=) nodes_to_index h of
                               None \<Rightarrow> None
                             | Some other_node_index \<Rightarrow> sm_get matrix node_index other_node_index))) of
             None \<Rightarrow> None
           | Some residual \<Rightarrow> Some (s\<lparr>or_hosts := hosts, or_residual := residual\<rparr>)))"

definition or_update_with_cgraph ::
  "cluster_node_info cgraph \<Rightarrow> orchestrator \<Rightarrow> (orchestrator \<times> uuid list result) option" where
  "or_update_with_cgraph cgraph0 s =
     (case cg_speeds (convert_cgraph_nodeinfo (or_port s) cgraph0) of
        None \<Rightarrow> None
      | Some (matrix, nodes) \<Rightarrow>
          let to_remove = filter (\<lambda>n. n \<notin> set nodes) (or_hosts s);
              to_add = filter (\<lambda>n. n \<notin> set (or_hosts s)) nodes in
          (case fold_opt
                  (\<lambda>node (st, affected).
                     (case or_remove_cluster_node node st of
                        Some (st', Inr uuids) \<Rightarrow> Some (st', fold (hs_insert (=)) uuids affected)
                      | _ \<Rightarrow> None))
                  to_remove (s, []) of
             None \<Rightarrow> None
           | Some (s1, affected) \<Rightarrow>
               let nodes_to_index = fold (\<lambda>index acc. hm_insert (=) (nodes ! index) index acc)
                                      [0..<length nodes] [] in
               map_option (\<lambda>s2. (s2, Inr affected))
                 (fold_opt (add_cluster_node matrix nodes_to_index) to_add s1)))"

end
