(* ===== verification/Placement.thy ===== *)
theory Placement
  imports Orchestrator
begin

text \<open>
  The search of a placement: the enumeration of the combinations of hosts, the soundness of the
  check of a permutation and of Heap's algorithm around it, and what a placement that
  \<^verbatim>\<open>find_isomorphism\<close> returns guarantees.
\<close>

section \<open>next\_comb\<close>

text \<open>A combination of \<open>k\<close> of the numbers up to \<open>n\<close>: position \<open>q\<close> is at most
  \<open>n - k + 1 + q\<close>. A position that is not at its bound is free.\<close>

definition comb_bounded :: "nat list \<Rightarrow> nat \<Rightarrow> nat \<Rightarrow> bool" where
  "comb_bounded c k n \<longleftrightarrow> length c = k \<and> (\<forall>q < k. c ! q \<le> n - k + 1 + q)"

definition last_free :: "nat list \<Rightarrow> nat \<Rightarrow> nat \<Rightarrow> nat \<Rightarrow> bool" where
  "last_free c k n p \<longleftrightarrow> p < k \<and> c ! p < n - k + 1 + p \<and> (\<forall>q. p < q \<and> q < k \<longrightarrow> c ! q = n - k + 1 + q)"

text \<open>The next combination: the last free position goes up by one, the positions after it
  follow consecutively.\<close>

definition comb_after :: "nat list \<Rightarrow> nat \<Rightarrow> nat \<Rightarrow> nat list" where
  "comb_after c k p = take p c @ map (\<lambda>j. c ! p + 1 + j) [0..<k - p]"

definition bump :: "nat list \<Rightarrow> nat \<Rightarrow> nat list" where
  "bump c i = map (\<lambda>q. if i \<le> q then c ! q + 1 else c ! q) [0..<length c]"

lemma bump_nth [simp]: "q < length c \<Longrightarrow> bump c i ! q = (if i \<le> q then c ! q + 1 else c ! q)"
  by (simp add: bump_def)

lemma length_bump [simp]: "length (bump c i) = length c"
  by (simp add: bump_def)

lemma bump_update:
  assumes "0 < i" and "i < length c"
  shows "(bump c i)[i - 1 := bump c i ! (i - 1) + 1] = bump c (i - 1)"
  using assms by (intro nth_equalityI) (auto simp: nth_list_update)

lemma bump_last: "c \<noteq> [] \<Longrightarrow> c[length c - 1 := c ! (length c - 1) + 1] = bump c (length c - 1)"
  by (intro nth_equalityI) (auto simp: nth_list_update)

lemma carry_result:
  assumes "k \<le> n" and "n < 2 ^ 63" and "length c = k" and "last_free c k n p" and "p \<le> i" and "i < k"
  shows "next_comb_carry (bump c i) i k n = Some (bump c p, p)"
  using assms(5,6)
proof (induction i rule: less_induct)
  case (less i)
  have bound: "usize_add (usize_add (usize_sub n k) 1) i = n - k + 1 + i"
    using assms(1,2) less.prems by simp
  show ?case
  proof (cases "i = p")
    case True
    then have "\<not> n - k + 1 + i < c ! i + 1" using assms(4) by (simp add: last_free_def)
    then show ?thesis
      using True less.prems assms(3) bound by (subst next_comb_carry.simps) simp
  next
    case False
    then have pi: "p < i" using less.prems by simp
    then have full: "c ! i = n - k + 1 + i" using assms(4) less.prems by (simp add: last_free_def)
    have "next_comb_carry (bump c i) i k n = next_comb_carry (bump c (i - 1)) (i - 1) k n"
      using full pi less.prems assms(3) bound bump_update [of i c]
      by (subst next_comb_carry.simps) (simp add: Let_def)
    also have "\<dots> = Some (bump c p, p)" using less.IH [of "i - 1"] pi less.prems by simp
    finally show ?thesis .
  qed
qed

lemma fill_after:
  assumes "length c = k" and "p < k" and "m \<le> k" and "p < m"
  shows "fold (\<lambda>v comb. comb[v := comb ! (v - 1) + 1]) [p + 1..<m] (bump c p)
    = take p c @ map (\<lambda>j. c ! p + 1 + j) [0..<m - p] @ drop m (bump c p)"
  using assms(3,4)
proof (induction m)
  case (Suc m)
  show ?case
  proof (cases "m = p")
    case True
    have "bump c p = take p (bump c p) @ bump c p ! p # drop (Suc p) (bump c p)"
      using assms(1,2) by (intro id_take_nth_drop) simp
    moreover have "take p (bump c p) = take p c"
      using assms(1,2) by (intro nth_equalityI) auto
    ultimately show ?thesis using True assms(1,2) by simp
  next
    case False
    then have pm: "p < m" "m < k" using Suc.prems by simp_all
    let ?l = "take p c @ map (\<lambda>j. c ! p + 1 + j) [0..<m - p] @ drop m (bump c p)"
    have "fold (\<lambda>v comb. comb[v := comb ! (v - 1) + 1]) [p + 1..<Suc m] (bump c p)
      = ?l[m := ?l ! (m - 1) + 1]"
      using Suc.IH pm by simp
    also have "\<dots> = take p c @ map (\<lambda>j. c ! p + 1 + j) [0..<Suc m - p] @ drop (Suc m) (bump c p)"
    proof (rule nth_equalityI)
      fix q assume "q < length (?l[m := ?l ! (m - 1) + 1])"
      then have q: "q < k" using assms(1) pm by simp
      have idx: "m - 1 - p < m - p" "p + (m - 1 - p) = m - 1" "c ! p + 1 + (m - 1 - p) = c ! p + (m - p)"
        "\<not> m - 1 < p" using pm by simp_all
      have "?l ! (m - 1) = c ! p + (m - p)"
        using pm assms(1) idx by (simp add: nth_append del: diff_Suc_eq_diff_pred diff_diff_left)
      then show "?l[m := ?l ! (m - 1) + 1] ! q
        = (take p c @ map (\<lambda>j. c ! p + 1 + j) [0..<Suc m - p] @ drop (Suc m) (bump c p)) ! q"
        using q pm assms(1) by (cases q m rule: linorder_cases) (auto simp: nth_append nth_list_update)
    qed (use assms(1) pm in simp)
    finally show ?thesis .
  qed
qed simp

lemma next_comb_result:
  assumes "k \<le> n" and "n < 2 ^ 63" and "length c = k" and "last_free c k n p"
  shows "next_comb c k n
    = Some (if n - k < comb_after c k p ! 0 then None else Some (comb_after c k p))"
proof -
  have k: "0 < k" "p < k" using assms(4) by (auto simp: last_free_def)
  then have ne: "c \<noteq> []" using assms(3) by auto
  have carry: "next_comb_carry (c[k - 1 := c ! (k - 1) + 1]) (k - 1) k n = Some (bump c p, p)"
    using carry_result [OF assms, of "k - 1"] bump_last [OF ne] assms(3) k by simp
  have fill: "fold (\<lambda>v comb. comb[v := comb ! (v - 1) + 1]) [p + 1..<k] (bump c p) = comb_after c k p"
    using fill_after [OF assms(3) k(2), of k] k(2) assms(3) by (simp add: comb_after_def)
  have first: "bump c p ! 0 = comb_after c k p ! 0"
    using k assms(3) by (cases p) (auto simp: comb_after_def nth_append)
  have one: "usize_sub k 1 = k - 1" "usize_sub n k = n - k" using k assms(1) by simp_all
  show ?thesis
    using carry fill first one k assms(3)
    by (simp add: next_comb_def Let_def)
qed

text \<open>When every position is at its bound the carry runs off the front of the vector. With
  one application more than the bound of the set the bound of a position is its own index.\<close>

lemma carry_panics:
  assumes "length c = k" and "\<forall>q < k. usize_add (usize_add (usize_sub n k) 1) q \<le> c ! q"
    and "k < 2 ^ 64" and "i < k"
  shows "next_comb_carry (bump c i) i k n = None"
  using assms(4)
proof (induction i)
  case 0
  have "usize_sub 0 1 = 2 ^ 64 - 1" by (simp add: usize_sub_def)
  then show ?case
    using assms(1,3) spec [OF assms(2), of 0] 0 by (subst next_comb_carry.simps) (simp add: Let_def)
next
  case (Suc i)
  have "usize_add (usize_add (usize_sub n k) 1) (Suc i) \<le> c ! Suc i" using assms(2) Suc.prems by blast
  then show ?case
    using assms(1) Suc bump_update [of "Suc i" c] by (subst next_comb_carry.simps) (simp add: Let_def)
qed

lemma next_comb_panics:
  assumes "length c = k" and "\<forall>q < k. usize_add (usize_add (usize_sub n k) 1) q \<le> c ! q"
    and "k < 2 ^ 64" and "0 < k"
  shows "next_comb c k n = None"
proof -
  have ne: "c \<noteq> []" using assms(1,4) by auto
  have "next_comb_carry (c[k - 1 := c ! (k - 1) + 1]) (k - 1) k n = None"
    using carry_panics [OF assms(1-3), of "k - 1"] bump_last [OF ne] assms(1,4) by simp
  then show ?thesis using assms(1,4) by (simp add: next_comb_def Let_def)
qed

section \<open>Heap's algorithm\<close>

lemma swap_at_mset: "swap_at xs a b = Some ys \<Longrightarrow> mset ys = mset xs"
  by (auto simp: swap_at_def mset_swap split: if_splits)

lemma heap_loop_sound:
  "heap_loop verify n e c i = Some (Some r) \<Longrightarrow> verify r = Some True \<and> mset r = mset e"
proof (induction verify n e c i rule: heap_loop.induct)
  case (1 verify n e c i)
  from "1.prems" have i: "i < n" by (simp add: heap_loop.simps [of verify n e c i] split: if_splits)
  from "1.prems" i obtain d where d: "get_at c i = Some d"
    by (cases "get_at c i") (simp_all add: heap_loop.simps [of verify n e c i])
  show ?case
  proof (cases "d < i")
    case False
    with "1.prems" i d have "heap_loop verify n e (c[i := 0]) (i + 1) = Some (Some r)"
      by (simp add: heap_loop.simps [of verify n e c i])
    then show ?thesis by (rule "1.IH"(2) [OF i d False])
  next
    case lt: True
    let ?a = "if i mod 2 = 0 then 0 else d"
    from "1.prems" i d lt obtain e' where e': "swap_at e ?a i = Some e'"
      by (cases "swap_at e ?a i") (simp_all add: heap_loop.simps [of verify n e c i])
    have m: "mset e' = mset e" using swap_at_mset [OF e'] .
    from "1.prems" i d lt e' obtain b where b: "verify e' = Some b"
      by (cases "verify e'") (simp_all add: heap_loop.simps [of verify n e c i])
    show ?thesis
    proof (cases b)
      case True
      with "1.prems" i d lt e' b m show ?thesis by (simp add: heap_loop.simps [of verify n e c i])
    next
      case False
      with b have b': "verify e' = Some False" by simp
      with "1.prems" i d lt e' have "heap_loop verify n e' (c[i := d + 1]) 1 = Some (Some r)"
        by (simp add: heap_loop.simps [of verify n e c i])
      then show ?thesis using "1.IH"(1) [OF i d lt e' b'] False m by simp
    qed
  qed
qed

lemma heap_loop_total:
  assumes "\<And>e. mset e = M \<Longrightarrow> \<exists>b. verify e = Some b"
  shows "mset e = M \<Longrightarrow> n \<le> size M \<Longrightarrow> length c = n \<Longrightarrow> \<exists>r. heap_loop verify n e c i = Some r"
  using assms
proof (induction verify n e c i rule: heap_loop.induct)
  case (1 verify n e c i)
  note step = heap_loop.simps [of verify n e c i]
  show ?case
  proof (cases "i < n")
    case False
    then show ?thesis by (simp add: step)
  next
    case i: True
    have len: "n \<le> length e" using "1.prems"(1,2) by auto
    have d: "get_at c i = Some (c ! i)" using i "1.prems"(3) by (simp add: get_at_eq_Some)
    show ?thesis
    proof (cases "c ! i < i")
      case False
      then show ?thesis using i d "1.IH"(2) [OF i d False] "1.prems" by (simp add: step)
    next
      case lt: True
      let ?a = "if i mod 2 = 0 then 0 else c ! i"
      have "?a < length e" "i < length e" using i lt len by (auto split: if_splits)
      then obtain e' where e': "swap_at e ?a i = Some e'" unfolding swap_at_def by (simp only:) simp
      then have m: "mset e' = M" using swap_at_mset "1.prems"(1) by blast
      obtain b where b: "verify e' = Some b" using "1.prems"(4) [OF m] by blast
      show ?thesis
      proof (cases b)
        case True
        then show ?thesis using i d lt e' b by (simp add: step)
      next
        case False
        with b have b': "verify e' = Some False" by simp
        have "\<exists>r. heap_loop verify n e' (c[i := c ! i + 1]) 1 = Some r"
          using "1.IH"(1) [OF i d lt e' b' refl m "1.prems"(2)] "1.prems"(3,4) by simp
        then show ?thesis using i d lt e' b' by (simp add: step)
      qed
    qed
  qed
qed

lemma graph_isomorphism_sound:
  assumes "graph_isomorphism s g1 residual mapper = Some (Inr (Some e))"
  shows "verify_permutation s g1 residual e mapper = Some True"
    and "mset e = mset [0..<sm_size g1]" and "sm_size g1 = sm_size residual"
proof -
  have "sm_size g1 = sm_size residual
    \<and> verify_permutation s g1 residual e mapper = Some True \<and> mset e = mset [0..<sm_size g1]"
    using assms heap_loop_sound
    by (fastforce simp: graph_isomorphism_def Let_def split: if_splits option.splits bool.splits)
  then show "verify_permutation s g1 residual e mapper = Some True"
    "mset e = mset [0..<sm_size g1]" "sm_size g1 = sm_size residual" by blast+
qed

section \<open>What the check of a permutation means\<close>

text \<open>Applications by host, and the bandwidth that a host needs to the others: the sum, in
  \<^verbatim>\<open>u32\<close>, over the pairs of an application on the host and one elsewhere.\<close>

definition apps_on :: "nat list \<Rightarrow> nat \<Rightarrow> nat list" where
  "apps_on eqv h = filter (\<lambda>app. eqv ! app = h) [0..<length eqv]"

definition apps_off :: "nat list \<Rightarrow> nat \<Rightarrow> nat list" where
  "apps_off eqv h = filter (\<lambda>app. eqv ! app \<noteq> h) [0..<length eqv]"

definition required_bandwidth :: "u32 sym_matrix \<Rightarrow> nat list \<Rightarrow> nat \<Rightarrow> u32" where
  "required_bandwidth g eqv h =
     sum_list (map (\<lambda>(a, b). the (sm_get g a b))
       (concat (map (\<lambda>a. map (\<lambda>b. (a, b)) (apps_off eqv h)) (apps_on eqv h))))"

definition host_fits :: "orchestrator \<Rightarrow> u32 sym_matrix \<Rightarrow> nat list \<Rightarrow> nat \<Rightarrow> bool" where
  "host_fits s g eqv h \<longleftrightarrow> h < or_size s
     \<and> (\<exists>load. get_actual_load s h = Some load
          \<and> length (apps_on eqv h) \<le> usize_sub (or_max_load s) load)
     \<and> (\<forall>h' \<in> set eqv. h' \<noteq> h \<longrightarrow>
          (\<exists>r. sm_get (or_residual s) h h' = Some r \<and> required_bandwidth g eqv h \<le> r))"

definition placement_fits :: "orchestrator \<Rightarrow> u32 sym_matrix \<Rightarrow> nat list \<Rightarrow> bool" where
  "placement_fits s g eqv \<longleftrightarrow> length eqv = sm_size g \<and> (\<forall>h \<in> set eqv. host_fits s g eqv h)"

lemma map_opt_nth:
  "map_opt (\<lambda>i. case get_at xs i of None \<Rightarrow> None | Some x \<Rightarrow> f x) [0..<length xs] = map_opt f xs"
proof -
  have "map_opt (\<lambda>i. case get_at (zs @ ys) i of None \<Rightarrow> None | Some x \<Rightarrow> f x)
      [length zs..<length zs + length ys] = map_opt f ys" for zs ys
  proof (induction ys arbitrary: zs)
    case (Cons y ys)
    have "get_at (zs @ y # ys) (length zs) = Some y" by (simp add: get_at_eq_Some)
    then show ?case using Cons.IH [of "zs @ [y]"]
      by (simp add: upt_conv_Cons del: upt_Suc split: option.split)
  qed simp
  from this [of "[]" xs] show ?thesis by simp
qed

lemma hosts_of_apps:
  "length e = n \<Longrightarrow> map_opt (app_host_of s e mapper) [0..<n] = map_opt (real_host s mapper) e"
  using map_opt_nth [where xs = e and f = "real_host s mapper"] by (simp add: app_host_of_def [abs_def])

lemma fold_all_Some_True:
  "fold_opt (\<lambda>x ok. if \<not> ok then Some False else map_option P (f x)) xs b = Some True
    \<Longrightarrow> b \<and> (\<forall>x \<in> set xs. \<exists>r. f x = Some r \<and> P r)"
  by (induction xs arbitrary: b) (auto split: option.splits if_splits)

lemma fold_sum_Some:
  fixes t :: "'a :: comm_monoid_add"
  shows "fold_opt (\<lambda>(a, b) total. map_option (\<lambda>x. total + x) (f a b)) ps t = Some r
    \<Longrightarrow> r = t + sum_list (map (\<lambda>(a, b). the (f a b)) ps)"
proof (induction ps arbitrary: t)
  case (Cons p ps)
  obtain a b where p: "p = (a, b)" by (cases p)
  from Cons.prems p obtain x where x: "f a b = Some x" by (auto split: option.splits)
  from Cons.IH [of "t + x"] Cons.prems p x show ?case by (simp add: add.assoc)
qed simp

lemma real_host_lt: "real_host s mapper i = Some h \<Longrightarrow> h < or_size s"
  by (auto simp: real_host_def split: option.splits if_splits)

lemma verify_host_sound:
  assumes "verify_host s g e mapper host = Some True" and "map_opt (real_host s mapper) e = Some eqv"
    and "length e = sm_size g" and "host < or_size s"
  shows "host_fits s g eqv host"
proof -
  have len: "length eqv = sm_size g" using map_opt_length [OF assms(2)] assms(3) by simp
  have hosts: "map_opt (app_host_of s e mapper) [0..<sm_size g] = Some eqv"
    using hosts_of_apps [OF assms(3)] assms(2) by simp
  obtain load where load: "get_actual_load s host = Some load"
    using assms(1) hosts by (auto simp: verify_host_def Let_def split: option.splits)
  have room: "length (apps_on eqv host) \<le> usize_sub (or_max_load s) load"
    using assms(1) hosts load len
    by (auto simp: verify_host_def Let_def apps_on_def not_less split: option.splits if_splits)
  obtain total where
    total: "fold_opt (\<lambda>(a, b) total. map_option (\<lambda>x. total + x) (sm_get g a b))
      (concat (map (\<lambda>a. map (\<lambda>b. (a, b)) (apps_off eqv host)) (apps_on eqv host))) 0 = Some total"
    and check: "fold_opt (\<lambda>other ok. if \<not> ok then Some False
      else map_option (\<lambda>r. \<not> r < total) (sm_get (or_residual s) host other))
      (filter (\<lambda>h. h \<noteq> host) eqv) True = Some True"
    using assms(1,2) hosts load len
    by (auto simp: verify_host_def Let_def apps_on_def apps_off_def split: option.splits if_splits)
  have "total = required_bandwidth g eqv host"
    using fold_sum_Some [OF total] by (simp add: required_bandwidth_def)
  then show ?thesis
    using fold_all_Some_True [OF check] load room assms(4) by (auto simp: host_fits_def not_less)
qed

lemma verify_loop_sound:
  "verify_loop s g e mapper checked is = Some True \<Longrightarrow>
    \<forall>i \<in> set is. \<exists>h. real_host s mapper i = Some h
      \<and> (h \<in> set checked \<or> verify_host s g e mapper h = Some True)"
proof (induction s g e mapper checked "is" rule: verify_loop.induct)
  case (2 s g e mapper checked i rest)
  then obtain h where h: "real_host s mapper i = Some h" by (auto split: option.splits)
  show ?case
  proof (cases "h \<in> set checked")
    case True
    then show ?thesis using "2.IH"(1) [OF h True] "2.prems" h by simp
  next
    case False
    then have v: "verify_host s g e mapper h = Some True"
      using "2.prems" h by (auto split: option.splits bool.splits)
    then show ?thesis using "2.IH"(2) [OF h False v] "2.prems" h False by auto
  qed
qed simp

lemma verify_permutation_sound:
  assumes "verify_permutation s g residual e mapper = Some True" and "sm_size residual = sm_size g"
    and "mset e = mset [0..<sm_size g]" and "map_opt (real_host s mapper) e = Some eqv"
  shows "placement_fits s g eqv"
proof -
  have e: "length e = sm_size g" "set e = {0..<sm_size g}"
    using assms(3) mset_eq_length [OF assms(3)] mset_eq_setD [OF assms(3)] by simp_all
  have "host_fits s g eqv h" if mem: "h \<in> set eqv" for h
  proof -
    obtain i where i: "i \<in> set e" "real_host s mapper i = Some h"
      using assms(4) mem by (auto simp: map_opt_Some_iff list_all2_conv_all_nth in_set_conv_nth) blast
    then have "i \<in> set [0..<sm_size residual]" using e(2) assms(2) by simp
    with i(2) have "verify_host s g e mapper h = Some True"
      using verify_loop_sound [OF assms(1) [unfolded verify_permutation_def]] by fastforce
    then show ?thesis using assms(4) e(1) real_host_lt [OF i(2)] by (rule verify_host_sound)
  qed
  then show ?thesis using map_opt_length [OF assms(4)] e(1) by (simp add: placement_fits_def)
qed

section \<open>What a placement that is found guarantees\<close>

lemma test_combination_sound:
  assumes "test_combination s g c tested = Some (Inl (Inr (Some eqv)))"
  shows "placement_fits s g eqv"
proof -
  obtain sub e where sub: "sub_graph s c = Some sub"
    and iso: "graph_isomorphism s g sub c = Some (Inr (Some e))"
    and eqv: "map_opt (real_host s c) e = Some eqv"
    using assms by (auto simp: test_combination_def split: option.splits sum.splits if_splits)
  show ?thesis
    using verify_permutation_sound [OF graph_isomorphism_sound(1) [OF iso]
        graph_isomorphism_sound(3) [OF iso, symmetric] graph_isomorphism_sound(2) [OF iso] eqv] .
qed

lemma combination_loop_sound:
  assumes "combination_loop s g n c tested = Some (Inl (Inr (Some eqv)))"
  shows "placement_fits s g eqv"
proof -
  have "r = Inl (Inr (Some eqv)) \<longrightarrow> placement_fits s g eqv"
    if "combination_loop s g n c tested = Some r" for r
  proof (rule combination_loop.raw_induct [OF _ that])
    fix loop :: "orchestrator \<Rightarrow> u32 sym_matrix \<Rightarrow> nat \<Rightarrow> nat list \<Rightarrow> nat list list
      \<Rightarrow> (nat list option result + nat list list) option" and s g n c tested r
    assume IH: "\<And>s g n c tested r. loop s g n c tested = Some r \<Longrightarrow>
      r = Inl (Inr (Some eqv)) \<longrightarrow> placement_fits s g eqv"
    assume "(case test_combination s g c tested of
        None \<Rightarrow> None | Some (Inl r) \<Rightarrow> Some (Inl r)
      | Some (Inr tested) \<Rightarrow>
          (case next_comb c (sm_size g) n of
             None \<Rightarrow> None | Some None \<Rightarrow> Some (Inr tested)
           | Some (Some comb) \<Rightarrow> loop s g n comb tested)) = Some r"
    then show "r = Inl (Inr (Some eqv)) \<longrightarrow> placement_fits s g eqv"
      using IH test_combination_sound by (auto split: option.splits sum.splits)
  qed
  with assms show ?thesis by simp
qed

lemma find_iso_internal_sound:
  "find_iso_internal s g clones tested depth = Some (Inr (Some eqv)) \<Longrightarrow> placement_fits s g eqv"
  by (induction depth arbitrary: clones tested)
    (auto simp: Let_def split: option.splits sum.splits dest: combination_loop_sound)

lemma find_isomorphism_sound:
  "find_isomorphism s g = Some (Inr (Some eqv)) \<Longrightarrow> placement_fits s g eqv"
  by (simp add: find_isomorphism_def find_iso_internal_sound)

end
