(* ===== verification/Placement_Total.thy ===== *)
theory Placement_Total
  imports Placement
begin

text \<open>
  The search of a placement returns: on a well-formed orchestrator no step of it panics, and the
  enumeration of the combinations ends because each combination is greater than the one before
  in the lexicographic order.
\<close>

definition or_ok :: "orchestrator \<Rightarrow> bool" where
  "or_ok s \<longleftrightarrow> sm_wf (or_residual s) \<and> length (or_hosts s) = or_size s \<and> 0 < or_size s"

lemma or_ok_size: "or_ok s \<Longrightarrow> 0 < or_size s" "or_ok s \<Longrightarrow> or_size s < 2 ^ 26"
  by (simp_all add: or_ok_def sm_wf_def or_size_def sm_size_def)

lemma real_host_total: "or_ok s \<Longrightarrow> i < length mapper \<Longrightarrow> real_host s mapper i = Some (mapper ! i mod or_size s)"
  by (simp add: real_host_def or_ok_def)

lemma get_actual_load_total: "or_ok s \<Longrightarrow> h < or_size s \<Longrightarrow> \<exists>l. get_actual_load s h = Some l"
  by (simp add: get_actual_load_def or_ok_def)

lemma residual_total: "or_ok s \<Longrightarrow> h < or_size s \<Longrightarrow> k < or_size s \<Longrightarrow> \<exists>r. sm_get (or_residual s) h k = Some r"
  by (rule sm.get_total) (simp_all add: or_ok_def or_size_def)

section \<open>Checking a permutation\<close>

lemma verify_host_total:
  assumes ok: "or_ok s" and g: "sm_wf g" and e: "length e = sm_size g" "set e \<subseteq> {0..<length mapper}"
    and h: "host < or_size s"
  shows "\<exists>b. verify_host s g e mapper host = Some b"
proof -
  let ?hosts = "map (\<lambda>i. mapper ! i mod or_size s) e"
  have hosts: "map_opt (real_host s mapper) e = Some ?hosts"
    using e(2) by (intro map_opt_total real_host_total [OF ok]) auto
  have hosts': "map_opt (app_host_of s e mapper) [0..<sm_size g] = Some ?hosts"
    using hosts_of_apps [OF e(1)] hosts by simp
  obtain load where load: "get_actual_load s host = Some load"
    using get_actual_load_total [OF ok h] by blast
  let ?on = "filter (\<lambda>app. ?hosts ! app = host) [0..<sm_size g]"
  let ?off = "filter (\<lambda>app. ?hosts ! app \<noteq> host) [0..<sm_size g]"
  have "\<exists>t. fold_opt (\<lambda>(a, b) total. map_option (\<lambda>x. total + x) (sm_get g a b))
      (concat (map (\<lambda>a. map (\<lambda>b. (a, b)) ?off) ?on)) 0 = Some t \<and> True"
  proof (rule fold_opt_inv)
    fix p t assume "p \<in> set (concat (map (\<lambda>a. map (\<lambda>b. (a, b)) ?off) ?on))"
    then obtain a b where p: "p = (a, b)" "a < sm_size g" "b < sm_size g" by auto
    then obtain v where "sm_get g a b = Some v" using sm.get_total [OF g] by blast
    with p show "\<exists>t'. (case p of (a, b) \<Rightarrow> \<lambda>total. map_option (\<lambda>x. total + x) (sm_get g a b)) t
      = Some t' \<and> True" by simp
  qed simp
  then obtain total where total: "fold_opt (\<lambda>(a, b) total. map_option (\<lambda>x. total + x) (sm_get g a b))
      (concat (map (\<lambda>a. map (\<lambda>b. (a, b)) ?off) ?on)) 0 = Some total" by blast
  have r: "\<exists>r. sm_get (or_residual s) host k = Some r" if "k \<in> set ?hosts" for k
    using residual_total [OF ok h, of k] that or_ok_size(1) [OF ok] by auto
  have "\<exists>b. fold_opt (\<lambda>other ok. if \<not> ok then Some False
      else map_option (\<lambda>r. \<not> r < total) (sm_get (or_residual s) host other))
      (filter (\<lambda>h. h \<noteq> host) ?hosts) True = Some b \<and> True"
  proof (rule fold_opt_inv)
    fix k ok assume "k \<in> set (filter (\<lambda>h. h \<noteq> host) ?hosts)"
    then obtain v where "sm_get (or_residual s) host k = Some v" using r [of k] by auto
    then show "\<exists>b. (if \<not> ok then Some False
      else map_option (\<lambda>r. \<not> r < total) (sm_get (or_residual s) host k)) = Some b \<and> True" by (simp add: ex_bool_eq)
  qed simp
  then obtain b where "fold_opt (\<lambda>other ok. if \<not> ok then Some False
      else map_option (\<lambda>r. \<not> r < total) (sm_get (or_residual s) host other))
      (filter (\<lambda>h. h \<noteq> host) ?hosts) True = Some b" by blast
  then show ?thesis
    unfolding verify_host_def Let_def hosts hosts' load option.case total
    by (cases "usize_sub (or_max_load s) load < length ?on") (simp_all only: if_True if_False, blast+)
qed

lemma verify_loop_total:
  assumes ok: "or_ok s" and g: "sm_wf g" and e: "length e = sm_size g" "set e \<subseteq> {0..<length mapper}"
  shows "set is \<subseteq> {0..<length mapper} \<Longrightarrow> \<exists>b. verify_loop s g e mapper checked is = Some b"
proof (induction "is" arbitrary: checked)
  case (Cons i rest)
  let ?h = "mapper ! i mod or_size s"
  have h: "real_host s mapper i = Some ?h" using Cons.prems real_host_total [OF ok] by simp
  obtain b where b: "verify_host s g e mapper ?h = Some b"
    using verify_host_total [OF ok g e] or_ok_size(1) [OF ok] by fastforce
  show ?case using Cons.IH Cons.prems h b by (cases b) auto
qed (simp add: ex_bool_eq)

lemma verify_permutation_total:
  assumes "or_ok s" and "sm_wf g" and "mset e = mset [0..<sm_size g]"
    and "length mapper = sm_size g" and "sm_size residual = sm_size g"
  shows "\<exists>b. verify_permutation s g residual e mapper = Some b"
  unfolding verify_permutation_def
  using assms mset_eq_length [OF assms(3)] mset_eq_setD [OF assms(3)]
  by (intro verify_loop_total) simp_all

lemma graph_isomorphism_total:
  assumes "or_ok s" and "sm_wf g" and "length mapper = sm_size g" and "sm_size residual = sm_size g"
  shows "\<exists>r. graph_isomorphism s g residual mapper = Some (Inr r)"
proof -
  let ?v = "\<lambda>e. verify_permutation s g residual e mapper"
  have v: "\<exists>b. ?v e = Some b" if "mset e = mset [0..<sm_size g]" for e
    using verify_permutation_total [OF assms(1,2) that assms(3,4)] .
  obtain b where b: "?v [0..<sm_size g] = Some b" using v [OF refl] by blast
  obtain r where "heap_loop ?v (sm_size g) [0..<sm_size g] (replicate (sm_size g) 0) 1 = Some r"
    using heap_loop_total [where verify = ?v, OF v, of "mset [0..<sm_size g]"] by force
  then show ?thesis using b assms(4) by (cases b) (simp_all add: graph_isomorphism_def Let_def)
qed

section \<open>Testing a combination\<close>

lemma insert_class_total:
  assumes "0 < n"
  shows "\<exists>acc'. insert_class n acc val = Some acc'"
proof (induction "Suc (Max (insert 0 (set acc))) - val" arbitrary: val rule: less_induct)
  case less
  show ?case
  proof (cases "val \<in> set acc")
    case True
    then have "val \<le> Max (insert 0 (set acc))" by simp
    then have "Suc (Max (insert 0 (set acc))) - (val + n) < Suc (Max (insert 0 (set acc))) - val"
      using assms by linarith
    with less True show ?thesis by (subst insert_class.simps) simp
  qed (subst insert_class.simps, simp)
qed

lemma combination_set_total: "0 < n \<Longrightarrow> \<exists>r. combination_set n c = Some r"
  unfolding combination_set_def
  using fold_opt_inv [of c "\<lambda>_. True" "\<lambda>val acc. if n = 0 then None else insert_class n acc (val mod n)" "[]"]
    insert_class_total [of n] by simp

lemma all_remaining_total: "or_ok s \<Longrightarrow> \<exists>b. all_remaining s is = Some b"
proof (induction "is")
  case (Cons i "is")
  obtain l where "get_actual_load s (i mod or_size s) = Some l"
    using get_actual_load_total Cons.prems or_ok_size(1) by fastforce
  with Cons show ?case using or_ok_size(1) [OF Cons.prems] by (simp add: ex_bool_eq)
qed (simp add: ex_bool_eq)

lemma sub_graph_total:
  assumes "or_ok s" and "length c < 2 ^ 26"
  shows "\<exists>sub. sub_graph s c = Some sub \<and> sm_size sub = length c"
proof -
  have "\<exists>sub. sub_graph s c = Some sub"
    unfolding sub_graph_def
    using assms real_host_total residual_total or_ok_size(1) by (intro sm_new_fn_total) simp_all
  then show ?thesis
    using sm_new_fn_Some(2) [OF assms(2)] by (auto simp: sub_graph_def sm_size_def)
qed

lemma test_combination_total:
  assumes ok: "or_ok s" and g: "sm_wf g" and c: "length c = sm_size g"
  shows "(\<exists>eqv. test_combination s g c tested = Some (Inl (Inr eqv)))
    \<or> (\<exists>tested'. test_combination s g c tested = Some (Inr tested'))"
proof -
  obtain cs where cs: "combination_set (or_size s) c = Some cs"
    using combination_set_total or_ok_size(1) [OF ok] by blast
  obtain b where b: "all_remaining s cs = Some b" using all_remaining_total [OF ok] by blast
  have "length c < 2 ^ 26" using g c by (simp add: sm_wf_def sm_size_def)
  then obtain sub where sub: "sub_graph s c = Some sub" "sm_size sub = sm_size g"
    using sub_graph_total [OF ok, of c] c by auto
  obtain r where r: "graph_isomorphism s g sub c = Some (Inr r)"
    using graph_isomorphism_total [OF ok g c sub(2)] by blast
  show ?thesis
  proof (cases "\<not> list_ex (same_set cs) tested \<and> b")
    case True
    show ?thesis
    proof (cases r)
      case None
      then show ?thesis using cs b sub r True by (simp add: test_combination_def)
    next
      case (Some e)
      then have "set e \<subseteq> {0..<length c}"
        using graph_isomorphism_sound(2) r c mset_eq_setD by fastforce
      then have "map_opt (real_host s c) e = Some (map (\<lambda>i. c ! i mod or_size s) e)"
        by (intro map_opt_total real_host_total [OF ok]) auto
      then show ?thesis using cs b sub r Some True by (simp add: test_combination_def)
    qed
  next
    case False
    then have "test_combination s g c tested = Some (Inr tested)"
      using cs b by (simp only: test_combination_def option.case if_False)
    then show ?thesis by blast
  qed
qed

section \<open>Enumerating the combinations\<close>

text \<open>What the enumeration keeps: the combination is within its bounds, and its first position
  is not at its bound, so there is a free position.\<close>

definition comb_ok :: "nat list \<Rightarrow> nat \<Rightarrow> nat \<Rightarrow> bool" where
  "comb_ok c k n \<longleftrightarrow> comb_bounded c k n \<and> 0 < k \<and> k \<le> n \<and> n < 2 ^ 63 \<and> c ! 0 \<le> n - k"

lemma comb_ok_free: "comb_ok c k n \<Longrightarrow> \<exists>p. last_free c k n p"
proof -
  assume ok: "comb_ok c k n"
  let ?P = "\<lambda>q. q < k \<and> c ! q < n - k + 1 + q"
  let ?p = "Greatest ?P"
  have P0: "?P 0" using ok by (simp add: comb_ok_def)
  have P: "?P ?p" by (rule GreatestI_nat [of ?P 0 k]) (use P0 in auto)
  moreover have "c ! q = n - k + 1 + q" if q: "?p < q" "q < k" for q
  proof -
    have "\<not> ?P q" using Greatest_le_nat [of ?P q k] q(1) by auto
    then show ?thesis using q(2) ok by (fastforce simp: comb_ok_def comb_bounded_def)
  qed
  ultimately show ?thesis unfolding last_free_def by blast
qed

lemma comb_after_bounded:
  assumes "comb_ok c k n" and "last_free c k n p"
  shows "comb_bounded (comb_after c k p) k n"
  using assms by (auto simp: comb_bounded_def comb_ok_def last_free_def comb_after_def nth_append)

lemma comb_first: "0 < k \<Longrightarrow> k \<le> n \<Longrightarrow> n < 2 ^ 63 \<Longrightarrow> comb_ok [0..<k] k n"
  by (auto simp: comb_ok_def comb_bounded_def)

text \<open>The room left at each position.\<close>

definition comb_room :: "nat \<Rightarrow> nat \<Rightarrow> nat list \<Rightarrow> nat list" where
  "comb_room k n c = map (\<lambda>q. n - k + 1 + q - c ! q) [0..<k]"

lemma comb_after_decreases:
  assumes "length c = k" and "last_free c k n p"
  shows "(comb_room k n (comb_after c k p), comb_room k n c) \<in> lex less_than"
proof -
  have p: "p < k" "c ! p < n - k + 1 + p" using assms(2) by (auto simp: last_free_def)
  let ?a = "comb_room k n (comb_after c k p)" and ?b = "comb_room k n c"
  have same: "take p ?a = take p ?b"
    using p assms(1) by (intro nth_equalityI) (auto simp: comb_room_def comb_after_def nth_append)
  have "?a ! p < ?b ! p" using p assms(1) by (simp add: comb_room_def comb_after_def nth_append)
  moreover have len: "length ?a = k" "length ?b = k" by (simp_all add: comb_room_def)
  moreover have "?a = take p ?b @ ?a ! p # drop (Suc p) ?a" "?b = take p ?b @ ?b ! p # drop (Suc p) ?b"
    using id_take_nth_drop [of p ?a] id_take_nth_drop [of p ?b] p(1) len same by simp_all
  ultimately show ?thesis
    unfolding lex_conv by (intro CollectI case_prodI conjI exI [of _ "take p ?b"] exI [of _ "?a ! p"]
        exI [of _ "?b ! p"] exI [of _ "drop (Suc p) ?a"] exI [of _ "drop (Suc p) ?b"])
      (simp_all only: less_than_iff)
qed

lemma combination_loop_total:
  assumes ok: "or_ok s" and g: "sm_wf g"
  shows "comb_ok c (sm_size g) n \<Longrightarrow>
    (\<exists>eqv. combination_loop s g n c tested = Some (Inl (Inr eqv)))
    \<or> (\<exists>tested'. combination_loop s g n c tested = Some (Inr tested'))"
proof (induction "comb_room (sm_size g) n c" arbitrary: c tested
    rule: wf_induct_rule [OF wf_lex [OF wf_less_than]])
  case (1 c tested)
  have len: "length c = sm_size g" using 1(2) by (simp add: comb_ok_def comb_bounded_def)
  obtain p where p: "last_free c (sm_size g) n p" using comb_ok_free [OF 1(2)] by blast
  let ?c = "comb_after c (sm_size g) p"
  have kn: "sm_size g \<le> n" "n < 2 ^ 63" "0 < sm_size g" using 1(2) by (simp_all add: comb_ok_def)
  have nx: "next_comb c (sm_size g) n = Some (if n - sm_size g < ?c ! 0 then None else Some ?c)"
    using next_comb_result [OF kn(1,2) len p] .
  consider eqv where "test_combination s g c tested = Some (Inl (Inr eqv))"
    | tested' where "test_combination s g c tested = Some (Inr tested')"
    using test_combination_total [OF ok g len] by blast
  then show ?case
  proof cases
    case 1
    then show ?thesis by (simp add: combination_loop.simps [of s g n c])
  next
    case (2 tested')
    show ?thesis
    proof (cases "n - sm_size g < ?c ! 0")
      case True
      then show ?thesis using 2 nx by (simp add: combination_loop.simps [of s g n c])
    next
      case False
      then have "comb_ok ?c (sm_size g) n"
        using comb_after_bounded [OF 1(2) p] kn by (simp add: comb_ok_def)
      then show ?thesis
        using 1(1) [OF comb_after_decreases [OF len p], of tested'] 2 nx False
        by (simp add: combination_loop.simps [of s g n c])
    qed
  qed
qed

lemma find_iso_internal_total:
  assumes ok: "or_ok s" and g: "sm_wf g" and k: "0 < sm_size g"
    and room: "sm_size g \<le> or_size s - 1 + or_size s * clones" and few: "clones + depth < 2 ^ 27"
  shows "\<exists>r. find_iso_internal s g clones tested depth = Some (Inr r)"
  using room few
proof (induction depth arbitrary: clones tested)
  case (Suc depth)
  let ?n = "or_size s - 1 + or_size s * clones"
  have base: "usize_sub (or_size s) 1 = or_size s - 1" using or_ok_size(1) [OF ok] by simp
  have n: "(if 0 < clones then or_size s - 1 + or_size s * clones else or_size s - 1) = ?n" by simp
  have "or_size s * clones \<le> 2 ^ 26 * 2 ^ 27"
    using or_ok_size(2) [OF ok] Suc.prems(2) by (intro mult_le_mono) simp_all
  then have "?n < 2 ^ 63" using or_ok_size(2) [OF ok] by simp
  then have c: "comb_ok [0..<sm_size g] (sm_size g) ?n"
    using Suc.prems(1) k by (intro comb_first) simp_all
  consider eqv where "combination_loop s g ?n [0..<sm_size g] tested = Some (Inl (Inr eqv))"
    | tested' where "combination_loop s g ?n [0..<sm_size g] tested = Some (Inr tested')"
    using combination_loop_total [OF ok g c] by blast
  then show ?case
  proof cases
    case 1
    then show ?thesis by (simp only: find_iso_internal.simps Let_def base n) simp
  next
    case (2 tested')
    have "sm_size g \<le> or_size s - 1 + or_size s * (clones + 1)" using Suc.prems(1) by simp
    then show ?thesis
      using 2 Suc.IH [of "clones + 1" tested'] Suc.prems(2)
      by (simp only: find_iso_internal.simps Let_def base n) simp
  qed
qed simp

lemma clones_needed_small: "a < 2 ^ 31 \<Longrightarrow> b < 2 ^ 31 \<Longrightarrow> clones_needed a b = a - b"
proof -
  assume ab: "a < 2 ^ 31" "b < 2 ^ 31"
  have "(of_nat a :: i32) - of_nat b = word_of_int (int a - int b)" by simp
  then have "sint ((of_nat a :: i32) - of_nat b) = int a - int b"
    using ab sint_i32 [of "int a - int b"] by simp
  then show ?thesis by (simp add: clones_needed_def)
qed

text \<open>The search returns unless there are as many applications as hosts, or a single host.\<close>

lemma find_isomorphism_total:
  assumes ok: "or_ok s" and g: "sm_wf g" and k: "0 < sm_size g" "sm_size g \<noteq> or_size s"
    and hosts: "2 \<le> or_size s"
  shows "\<exists>r. find_isomorphism s g = Some (Inr r)"
proof -
  have lt: "sm_size g < 2 ^ 26" using g by (simp add: sm_wf_def sm_size_def)
  let ?c = "clones_needed (sm_size g) (or_size s)"
  have c: "?c = sm_size g - or_size s"
    using lt or_ok_size(2) [OF ok] by (intro clones_needed_small) simp_all
  have "sm_size g \<le> or_size s - 1 + or_size s * ?c"
  proof (cases "sm_size g < or_size s")
    case False
    then obtain d where d: "sm_size g = or_size s + Suc d"
      using k(2) less_imp_Suc_add [of "or_size s" "sm_size g"] by force
    have "2 * Suc d \<le> or_size s * Suc d" using hosts by (rule mult_le_mono1)
    then show ?thesis using c d by simp
  qed (use c in simp)
  then show ?thesis
    using find_iso_internal_total [OF ok g k(1), of ?c 5 "[]"] lt c by (simp add: find_isomorphism_def)
qed

end
