(* ===== verification/Placing.thy ===== *)
theory Placing
  imports Placement_Total
begin

text \<open>
  The effect of deploying and stopping an emulation: the bandwidth that is reserved between the
  hosts and given back, the load of the hosts, and the applications that are placed.
\<close>

section \<open>Bandwidth reserved and released\<close>

text \<open>What an emulation uses between two hosts: the sum, in \<^verbatim>\<open>u32\<close>, over the pairs of
  applications placed on them.\<close>

definition demand :: "u32 sym_matrix \<Rightarrow> nat list \<Rightarrow> nat \<Rightarrow> nat \<Rightarrow> u32" where
  "demand matrix eqv k l =
     sum_list (map (\<lambda>(i, j). the (sm_get matrix i j))
       (filter (\<lambda>(i, j). same_pair (eqv ! i) (eqv ! j) k l) (lower_pairs (sm_size matrix))))"

definition fits_on :: "u32 sym_matrix \<Rightarrow> nat list \<Rightarrow> nat \<Rightarrow> bool" where
  "fits_on matrix eqv n \<longleftrightarrow> sm_wf matrix \<and> length eqv = sm_size matrix \<and> (\<forall>h \<in> set eqv. h < n)"

lemma fits_onD:
  assumes "fits_on matrix eqv n" and "i < sm_size matrix"
  shows "get_at eqv i = Some (eqv ! i)" and "eqv ! i < n"
  using assms by (auto simp: fits_on_def)

lemma lower_pairs_lt: "(i, j) \<in> set (lower_pairs n) \<Longrightarrow> j < i \<and> i < n"
  by (auto simp: lower_pairs_def)

lemma residual_op_modify:
  assumes "fits_on matrix eqv n" and "i < sm_size matrix" and "j < sm_size matrix"
  shows "residual_op f matrix eqv (i, j) r
    = store_modify sm_get sm_set (eqv ! i) (eqv ! j) (\<lambda>x. f x (the (sm_get matrix i j))) r"
proof -
  obtain x where "sm_get matrix i j = Some x"
    using sm.get_total [of matrix i j] assms by (auto simp: fits_on_def)
  then show ?thesis using fits_onD [OF assms(1)] assms(2,3) by (simp add: residual_op_def)
qed

lemma on_pair_same: "on_pair k l (i, j, f) x = (if same_pair i j k l then f x else x)"
  by (auto simp: same_pair_def)

lemma fold_on_pair_plus:
  "fold (on_pair k l) (map (\<lambda>(i, j). (e i, e j, \<lambda>x. x + c i j)) ps)
    = (\<lambda>x :: u32. x + sum_list (map (\<lambda>(i, j). c i j) (filter (\<lambda>(i, j). same_pair (e i) (e j) k l) ps)))"
proof (induction ps)
  case (Cons p ps)
  then show ?case by (cases p) (simp add: on_pair_same fun_eq_iff add.assoc del: on_pair.simps)
qed (simp add: fun_eq_iff)

lemma fold_on_pair_minus:
  "fold (on_pair k l) (map (\<lambda>(i, j). (e i, e j, \<lambda>x. x - c i j)) ps)
    = (\<lambda>x :: u32. x - sum_list (map (\<lambda>(i, j). c i j) (filter (\<lambda>(i, j). same_pair (e i) (e j) k l) ps)))"
proof (induction ps)
  case (Cons p ps)
  then show ?case by (cases p) (simp add: on_pair_same fun_eq_iff diff_diff_eq del: on_pair.simps)
qed (simp add: fun_eq_iff)

lemma release_result:
  assumes fits: "fits_on matrix eqv (sm_size r)" and r: "sm_wf r"
  shows "\<exists>r'. release_bandwidth matrix eqv r = Some r' \<and> sm_wf r' \<and> sm_size r' = sm_size r
    \<and> (\<forall>k < sm_size r. \<forall>l < sm_size r.
         sm_get r' k l = map_option (\<lambda>x. x + demand matrix eqv k l) (sm_get r k l))"
proof -
  let ?ops = "map (\<lambda>(i, j). (eqv ! i, eqv ! j, \<lambda>x. x + the (sm_get matrix i j)))
    (lower_pairs (sm_size matrix))"
  have "release_bandwidth matrix eqv r
    = fold_opt (\<lambda>(i, j, f). store_modify sm_get sm_set i j f) ?ops r"
    unfolding release_bandwidth_def fold_opt_map
    by (rule fold_opt_cong) (auto simp: residual_op_modify [OF fits] dest!: lower_pairs_lt)
  moreover have "\<forall>(i, j, f) \<in> set ?ops. i < sm_size r \<and> j < sm_size r"
    using fits_onD(2) [OF fits] by (auto dest!: lower_pairs_lt)
  ultimately show ?thesis
    using sm.fold_modify [OF r, of ?ops] by (simp only: fold_on_pair_plus demand_def)
qed

lemma reserve_result:
  assumes fits: "fits_on matrix eqv (sm_size r)" and r: "sm_wf r"
  shows "\<exists>r'. reserve_bandwidth matrix eqv r = Some r' \<and> sm_wf r' \<and> sm_size r' = sm_size r
    \<and> (\<forall>k < sm_size r. \<forall>l < sm_size r. sm_get r' k l
         = map_option (\<lambda>x. if k = l then x else x - demand matrix eqv k l) (sm_get r k l))"
proof -
  let ?ps = "filter (\<lambda>(i, j). eqv ! i \<noteq> eqv ! j) (lower_pairs (sm_size matrix))"
  let ?ops = "map (\<lambda>(i, j). (eqv ! i, eqv ! j, \<lambda>x. x - the (sm_get matrix i j))) ?ps"
  have "reserve_bandwidth matrix eqv r
    = fold_opt (\<lambda>(i, j, f). store_modify sm_get sm_set i j f) ?ops r"
    unfolding reserve_bandwidth_def fold_opt_map fold_opt_filter
    by (rule fold_opt_cong)
      (auto simp: residual_op_modify [OF fits] fits_onD(1) [OF fits] dest!: lower_pairs_lt)
  moreover have "\<forall>(i, j, f) \<in> set ?ops. i < sm_size r \<and> j < sm_size r"
    using fits_onD(2) [OF fits] by (auto dest!: lower_pairs_lt)
  moreover have "fold (on_pair k l) ?ops = (\<lambda>x. if k = l then x else x - demand matrix eqv k l)" for k l
  proof -
    have "filter (\<lambda>(i, j). same_pair (eqv ! i) (eqv ! j) k l) ?ps
      = (if k = l then [] else
         filter (\<lambda>(i, j). same_pair (eqv ! i) (eqv ! j) k l) (lower_pairs (sm_size matrix)))"
      by (auto simp: same_pair_def filter_empty_conv intro!: filter_cong)
    then show ?thesis by (simp add: fold_on_pair_minus demand_def fun_eq_iff)
  qed
  ultimately show ?thesis using sm.fold_modify [OF r, of ?ops] by (simp only:)
qed

section \<open>Load and attribution\<close>

definition load_of :: "orchestrator \<Rightarrow> cluster_node_info \<Rightarrow> uuid \<Rightarrow> nat" where
  "load_of s host u =
     (case hm_get (=) (or_load s) host of
        None \<Rightarrow> 0
      | Some m \<Rightarrow> (case hm_get (=) m u of None \<Rightarrow> 0 | Some l \<Rightarrow> l))"

definition attributed_on :: "orchestrator \<Rightarrow> cluster_node_info \<Rightarrow> uuid \<Rightarrow> bool" where
  "attributed_on s host u \<longleftrightarrow>
     (case hm_get (=) (or_attributed s) host of None \<Rightarrow> False | Some l \<Rightarrow> hs_contains (=) l u)"

definition maps_ok :: "orchestrator \<Rightarrow> bool" where
  "maps_ok s \<longleftrightarrow> (\<forall>h m. hm_get (=) (or_load s) h = Some m \<longrightarrow> hm_distinct (=) m)
     \<and> (\<forall>h l. hm_get (=) (or_attributed s) h = Some l \<longrightarrow> hs_distinct (=) l)
     \<and> hm_distinct (=) (or_emulations s)"

lemma hm_get_map_values:
  "hm_get eq (map (\<lambda>(h, x). (h, f x)) m) k = map_option f (hm_get eq m k)"
  by (induction m) auto

lemma load_of_increase:
  "load_of (increase_load host u s) h v = load_of s h v + (if h = host \<and> v = u then 1 else 0)"
  by (auto simp: load_of_def increase_load_def hol_eq.hm_get_insert hol_eq.hm_get_update split: option.splits)

lemma hm_distinct_single: "hm_distinct eq [(a, b)]"
  by (simp add: hm_distinct_def hm_keys_def hs_contains_simps)

lemma maps_ok_increase: "maps_ok s \<Longrightarrow> maps_ok (increase_load host u s)"
  by (auto simp: maps_ok_def increase_load_def hol_eq.hm_get_insert hol_eq.hm_get_update
      hol_eq.hm_distinct_insert hol_eq.hm_distinct_update hm_distinct_single
      split: option.splits if_splits)

lemma attributed_on_attribute:
  "attributed_on (attribute_emul host u s) h v \<longleftrightarrow> attributed_on s h v \<or> h = host \<and> v = u"
  by (auto simp: attributed_on_def attribute_emul_def hol_eq.hm_get_insert hol_eq.hm_get_update
      hol_eq.hs_contains_insert hs_contains_simps split: option.splits if_splits)

lemma maps_ok_attribute: "maps_ok s \<Longrightarrow> maps_ok (attribute_emul host u s)"
  by (auto simp: maps_ok_def attribute_emul_def hol_eq.hm_get_insert hol_eq.hm_get_update
      hol_eq.hs_distinct_insert split: option.splits if_splits)

lemma load_of_attribute [simp]: "load_of (attribute_emul host u s) = load_of s"
  by (simp add: load_of_def attribute_emul_def fun_eq_iff)

lemma attributed_on_increase [simp]: "attributed_on (increase_load host u s) = attributed_on s"
  by (simp add: attributed_on_def increase_load_def fun_eq_iff)

lemma load_sum:
  fixes m :: "(uuid, nat) hmap"
  shows "hm_distinct (=) m \<Longrightarrow>
    fold (\<lambda>(_, load) acc. acc + load) m a = a + (\<Sum>u \<in> UNIV. case hm_get (=) m u of None \<Rightarrow> 0 | Some l \<Rightarrow> l)"
proof (induction m arbitrary: a)
  case (Cons p m)
  obtain u0 l0 where p: "p = (u0, l0)" by (cases p)
  have d: "hm_distinct (=) m" "hm_get (=) m u0 = None"
    using Cons.prems p hol_eq.hm_get_none [of m u0]
    by (simp_all add: hm_distinct_def hm_keys_def)
  let ?f = "\<lambda>m u. case hm_get (=) m u of None \<Rightarrow> 0 | Some l \<Rightarrow> (l :: nat)"
  have "(\<Sum>u \<in> UNIV. ?f (p # m) u) = (\<Sum>u \<in> UNIV. ?f m u + (if u = u0 then l0 else 0))"
    by (intro sum.cong) (use p d(2) in auto)
  also have "\<dots> = (\<Sum>u \<in> UNIV. ?f m u) + l0" by (simp add: sum.distrib)
  finally show ?case using Cons.IH [OF d(1), of "a + l0"] p by simp
qed simp

text \<open>The load of a host is the sum of the loads that the emulations put on it.\<close>

lemma actual_load_sum:
  assumes "maps_ok s" and "i < length (or_hosts s)"
  shows "get_actual_load s i = Some (\<Sum>u \<in> UNIV. load_of s (or_hosts s ! i) u)"
  using assms load_sum [where a = 0]
  by (auto simp: get_actual_load_def load_of_def maps_ok_def split: option.splits)

section \<open>Placing the applications\<close>

text \<open>Application \<open>i\<close> as it is placed, and the state after the first \<open>m\<close> applications.\<close>

definition placed :: "cluster_node_info list \<Rightarrow> nat list \<Rightarrow> node list \<Rightarrow> nat \<Rightarrow> node" where
  "placed hosts eqv nodes i =
     the (node_update_app (app_set_index i \<circ> app_set_host (hosts ! (eqv ! i))) (nodes ! i))"

definition loads_added :: "nat list \<Rightarrow> uuid \<Rightarrow> nat \<Rightarrow> orchestrator \<Rightarrow> orchestrator \<Rightarrow> bool" where
  "loads_added eqv u m s s' \<longleftrightarrow>
     (\<forall>h v. load_of s' h v = load_of s h v
        + (if v = u then length (filter (\<lambda>i. or_hosts s ! (eqv ! i) = h) [0..<m]) else 0))
     \<and> (\<forall>h v. attributed_on s' h v \<longleftrightarrow> attributed_on s h v
          \<or> v = u \<and> (\<exists>i < m. or_hosts s ! (eqv ! i) = h))
     \<and> (maps_ok s \<longrightarrow> maps_ok s')"

definition same_cluster :: "orchestrator \<Rightarrow> orchestrator \<Rightarrow> bool" where
  "same_cluster s s' \<longleftrightarrow> or_hosts s' = or_hosts s \<and> or_max_load s' = or_max_load s \<and> or_port s' = or_port s"

definition placed_upto ::
  "nat list \<Rightarrow> uuid \<Rightarrow> orchestrator \<Rightarrow> node network \<Rightarrow> node list \<Rightarrow> nat \<Rightarrow> placement \<Rightarrow> bool" where
  "placed_upto eqv u s net nodes m st \<longleftrightarrow>
     (case st of (s', net', nodes', affected) \<Rightarrow>
        loads_added eqv u m s s' \<and> same_cluster s s'
        \<and> or_residual s' = or_residual s \<and> or_emulations s' = or_emulations s
        \<and> set affected = (\<lambda>i. or_hosts s ! (eqv ! i)) ` {0..<m}
        \<and> nodes' = map (placed (or_hosts s) eqv nodes) [0..<m] @ drop m nodes
        \<and> net' = fold (\<lambda>i net. net_edit_vertex node_eq net (placed (or_hosts s) eqv nodes i)) [0..<m] net)"

lemma same_cluster_step:
  "same_cluster s s' \<Longrightarrow> same_cluster s (attribute_emul h u (increase_load h u s'))"
  by (simp add: same_cluster_def attribute_emul_def increase_load_def)

lemma loads_added_step:
  assumes "loads_added eqv u m s s'" and "h = or_hosts s ! (eqv ! m)"
  shows "loads_added eqv u (Suc m) s (attribute_emul h u (increase_load h u s'))"
  unfolding loads_added_def
proof (intro conjI allI impI)
  fix g v
  show "load_of (attribute_emul h u (increase_load h u s')) g v = load_of s g v
    + (if v = u then length (filter (\<lambda>i. or_hosts s ! (eqv ! i) = g) [0..<Suc m]) else 0)"
    using assms by (simp add: loads_added_def load_of_increase)
  show "attributed_on (attribute_emul h u (increase_load h u s')) g v \<longleftrightarrow> attributed_on s g v
    \<or> v = u \<and> (\<exists>i < Suc m. or_hosts s ! (eqv ! i) = g)"
    using assms by (auto simp: loads_added_def attributed_on_attribute less_Suc_eq)
next
  assume "maps_ok s"
  then show "maps_ok (attribute_emul h u (increase_load h u s'))"
    using assms(1) by (simp add: loads_added_def maps_ok_attribute maps_ok_increase)
qed

lemma place_app_step:
  assumes st: "placed_upto eqv u s net nodes m st"
    and m: "m < length eqv" "m < length nodes" "eqv ! m < length (or_hosts s)" "node_is_app (nodes ! m)"
  shows "\<exists>st'. place_app eqv u m st = Some st' \<and> placed_upto eqv u s net nodes (Suc m) st'"
proof -
  obtain s' net' nodes' affected where split: "st = (s', net', nodes', affected)" by (cases st)
  note D = st [unfolded split placed_upto_def prod.case]
  have nodes': "nodes' = map (placed (or_hosts s) eqv nodes) [0..<m] @ drop m nodes" using D by blast
  then have nd: "get_at nodes' m = Some (nodes ! m)" using m(2) by (simp add: nth_append)
  have hosts: "or_hosts s' = or_hosts s" using D by (simp add: same_cluster_def)
  let ?h = "or_hosts s ! (eqv ! m)"
  have up: "node_update_app (app_set_index m \<circ> app_set_host ?h) (nodes ! m) = Some (placed (or_hosts s) eqv nodes m)"
    using m(4) by (cases "nodes ! m") (simp_all add: placed_def)
  have list: "nodes'[m := placed (or_hosts s) eqv nodes m]
    = map (placed (or_hosts s) eqv nodes) [0..<Suc m] @ drop (Suc m) nodes"
    using nodes' m(2) by (simp add: list_update_append Cons_nth_drop_Suc [symmetric])
  have "set (hs_insert (=) ?h affected) = insert ?h (set affected)"
    by (auto simp: hs_insert_def hs_contains_iff)
  then have aff: "set (hs_insert (=) ?h affected) = (\<lambda>i. or_hosts s ! (eqv ! i)) ` {0..<Suc m}"
    using D by (simp add: atLeast0_lessThan_Suc)
  have "place_app eqv u m st = Some (attribute_emul ?h u (increase_load ?h u s'),
      net_edit_vertex node_eq net' (placed (or_hosts s) eqv nodes m),
      nodes'[m := placed (or_hosts s) eqv nodes m], hs_insert (=) ?h affected)"
    using m(1,3) nd hosts up by (simp add: split place_app_def)
  moreover have "placed_upto eqv u s net nodes (Suc m) (attribute_emul ?h u (increase_load ?h u s'),
      net_edit_vertex node_eq net' (placed (or_hosts s) eqv nodes m),
      nodes'[m := placed (or_hosts s) eqv nodes m], hs_insert (=) ?h affected)"
    using D list aff loads_added_step [OF _ refl, of eqv u m s s'] same_cluster_step [of s s' ?h u]
    unfolding placed_upto_def prod.case
    by (simp add: attribute_emul_def increase_load_def)
  ultimately show ?thesis by blast
qed

lemma place_apps_result:
  assumes "m \<le> length eqv" and "m \<le> length nodes" and "\<forall>h \<in> set eqv. h < length (or_hosts s)"
    and "\<forall>n \<in> set nodes. node_is_app n"
  shows "\<exists>st. fold_opt (place_app eqv u) [0..<m] (s, net, nodes, []) = Some st
    \<and> placed_upto eqv u s net nodes m st"
  using assms(1,2)
proof (induction m)
  case 0
  show ?case by (simp add: placed_upto_def loads_added_def same_cluster_def)
next
  case (Suc m)
  then obtain st where st: "fold_opt (place_app eqv u) [0..<m] (s, net, nodes, []) = Some st"
    "placed_upto eqv u s net nodes m st" by auto
  then obtain st' where "place_app eqv u m st = Some st'" "placed_upto eqv u s net nodes (Suc m) st'"
    using place_app_step [OF st(2)] Suc.prems assms(3,4) by auto
  with st(1) show ?case by (simp add: fold_opt_append)
qed

end
