(* ===== verification/Deployment.thy ===== *)
theory Deployment
  imports Placing
begin

text \<open>
  The operations of the orchestrator as wholes: what deploying an emulation does to the state,
  what stopping it gives back, and the invariant of the state that they keep.
\<close>

section \<open>The invariant\<close>

text \<open>Every emulation that is recorded was placed on hosts that exist.\<close>

definition emulations_fit :: "orchestrator \<Rightarrow> bool" where
  "emulations_fit s \<longleftrightarrow> (\<forall>u matrix eqv. hm_get (=) (or_emulations s) u = Some (matrix, eqv)
     \<longrightarrow> fits_on matrix eqv (or_size s))"

definition or_inv :: "orchestrator \<Rightarrow> bool" where
  "or_inv s \<longleftrightarrow> or_ok s \<and> maps_ok s \<and> emulations_fit s"

text \<open>The same without a host: all hosts of a cluster may be lost, and an emulation without
  applications is still placed.\<close>

definition or_shape :: "orchestrator \<Rightarrow> bool" where
  "or_shape s \<longleftrightarrow> sm_wf (or_residual s) \<and> length (or_hosts s) = or_size s"

definition or_fit :: "orchestrator \<Rightarrow> bool" where
  "or_fit s \<longleftrightarrow> or_shape s \<and> maps_ok s \<and> emulations_fit s"

lemma or_ok_shape: "or_ok s \<longleftrightarrow> or_shape s \<and> 0 < or_size s"
  by (auto simp: or_ok_def or_shape_def)

lemma or_inv_fit: "or_inv s \<longleftrightarrow> or_fit s \<and> 0 < or_size s"
  by (auto simp: or_inv_def or_fit_def or_ok_shape)

text \<open>The cells of the residual graph: \<open>f k l\<close> is applied to the cell of hosts \<open>k\<close> and \<open>l\<close>.\<close>

definition residual_changed :: "(nat \<Rightarrow> nat \<Rightarrow> u32 \<Rightarrow> u32) \<Rightarrow> orchestrator \<Rightarrow> orchestrator \<Rightarrow> bool" where
  "residual_changed f s s' \<longleftrightarrow> sm_wf (or_residual s') \<and> or_size s' = or_size s
     \<and> (\<forall>k < or_size s. \<forall>l < or_size s.
          sm_get (or_residual s') k l = map_option (f k l) (sm_get (or_residual s) k l))"

lemma or_shape_changed:
  "or_shape s \<Longrightarrow> residual_changed f s s' \<Longrightarrow> same_cluster s s' \<Longrightarrow> or_shape s'"
  by (simp add: or_shape_def residual_changed_def same_cluster_def)

section \<open>new\_emulation\<close>

definition reserved :: "u32 sym_matrix \<Rightarrow> nat list \<Rightarrow> nat \<Rightarrow> nat \<Rightarrow> u32 \<Rightarrow> u32" where
  "reserved matrix eqv k l x = (if k = l then x else x - demand matrix eqv k l)"

definition deployed ::
  "node network \<Rightarrow> uuid \<Rightarrow> u32 sym_matrix \<Rightarrow> node list \<Rightarrow> nat list \<Rightarrow> orchestrator
   \<Rightarrow> orchestrator \<Rightarrow> node network \<Rightarrow> cluster_node_info list \<Rightarrow> bool" where
  "deployed net u matrix nodes eqv s s' net' affected \<longleftrightarrow>
     loads_added eqv u (sm_size matrix) s s' \<and> same_cluster s s'
     \<and> residual_changed (reserved matrix eqv) s s'
     \<and> or_emulations s' = hm_insert (=) u (matrix, eqv) (or_emulations s)
     \<and> set affected = (\<lambda>i. or_hosts s ! (eqv ! i)) ` {0..<sm_size matrix}
     \<and> net' = fold (\<lambda>i net. net_edit_vertex node_eq net (placed (or_hosts s) eqv nodes i))
                [0..<sm_size matrix] net"

lemma bandwidth_matrix_apps:
  assumes "net_bandwidth_matrix node_eq net node_is_app = Some (matrix, nodes)"
    and "length nodes < 2 ^ 26"
  shows "sm_wf matrix" and "sm_size matrix = length nodes" and "\<forall>n \<in> set nodes. node_is_app n"
  using assms sm_new_fn_Some(1,2) [of "length nodes"]
  by (auto simp: net_bandwidth_matrix_def Let_def sm_size_def split: option.splits)

lemma placement_fits_on:
  "placement_fits s matrix eqv \<Longrightarrow> sm_wf matrix \<Longrightarrow> fits_on matrix eqv (or_size s)"
  by (simp add: placement_fits_def fits_on_def host_fits_def)

lemma loads_added_transfer:
  assumes "loads_added eqv u n s s1" and "or_load s' = or_load s1" and "or_attributed s' = or_attributed s1"
    and "or_emulations s1 = or_emulations s" and "or_emulations s' = hm_insert (=) u x (or_emulations s)"
  shows "loads_added eqv u n s s'"
proof -
  have "load_of s' = load_of s1" "attributed_on s' = attributed_on s1"
    using assms(2,3) by (simp_all add: load_of_def attributed_on_def fun_eq_iff)
  moreover have "maps_ok s'" if "maps_ok s" "maps_ok s1"
    using that hol_eq.hm_distinct_insert [of "or_emulations s" u x]
    by (simp add: maps_ok_def assms(2,3,5))
  ultimately show ?thesis using assms(1) unfolding loads_added_def by simp
qed

lemma new_emulation_places:
  assumes ok: "or_shape s" and m: "net_bandwidth_matrix node_eq net node_is_app = Some (matrix, nodes)"
    and lt: "length nodes < 2 ^ 26" and found: "find_isomorphism s matrix = Some (Inr (Some eqv))"
  shows "\<exists>s' net' affected. or_new_emulation net u s = Some (s', Inr (Some (net', affected)))
    \<and> placement_fits s matrix eqv \<and> deployed net u matrix nodes eqv s s' net' affected"
proof -
  have fits: "placement_fits s matrix eqv" using found by (rule find_isomorphism_sound)
  note B = bandwidth_matrix_apps [OF m lt]
  have on: "fits_on matrix eqv (or_size s)" using fits B(1) by (rule placement_fits_on)
  then have len: "length eqv = sm_size matrix" and rng: "\<forall>h \<in> set eqv. h < length (or_hosts s)"
    using ok by (simp_all add: fits_on_def or_shape_def)
  obtain s1 net1 nodes1 affected where
    st: "fold_opt (place_app eqv u) [0..<sm_size matrix] (s, net, nodes, []) = Some (s1, net1, nodes1, affected)"
    and up: "placed_upto eqv u s net nodes (sm_size matrix) (s1, net1, nodes1, affected)"
    using place_apps_result [OF _ _ rng B(3), of "sm_size matrix" u net] len B(2) by auto
  have P: "loads_added eqv u (sm_size matrix) s s1" "same_cluster s s1"
    "set affected = (\<lambda>i. or_hosts s ! (eqv ! i)) ` {0..<sm_size matrix}"
    "net1 = fold (\<lambda>i net. net_edit_vertex node_eq net (placed (or_hosts s) eqv nodes i))
      [0..<sm_size matrix] net"
    and res1: "or_residual s1 = or_residual s" and em1: "or_emulations s1 = or_emulations s"
    using up unfolding placed_upto_def prod.case by blast+
  obtain r where r: "reserve_bandwidth matrix eqv (or_residual s) = Some r" "sm_wf r" "sm_size r = or_size s"
    "\<forall>k < or_size s. \<forall>l < or_size s. sm_get r k l
         = map_option (\<lambda>x. if k = l then x else x - demand matrix eqv k l) (sm_get (or_residual s) k l)"
    using reserve_result [of matrix eqv "or_residual s"] on ok by (auto simp: or_size_def or_shape_def)
  let ?s' = "s1\<lparr>or_residual := r, or_emulations := hm_insert (=) u (matrix, eqv) (or_emulations s1)\<rparr>"
  have "or_new_emulation net u s = Some (?s', Inr (Some (net1, affected)))"
    using m found st r(1) res1 by (simp add: or_new_emulation_def)
  moreover have "residual_changed (reserved matrix eqv) s ?s'"
    using r(2-4) by (simp add: residual_changed_def reserved_def [abs_def] or_size_def)
  moreover have "same_cluster s ?s'" using P(2) by (simp add: same_cluster_def)
  moreover have "loads_added eqv u (sm_size matrix) s ?s'"
    by (rule loads_added_transfer [OF P(1) _ _ em1]) (simp_all add: em1)
  moreover have "or_emulations ?s' = hm_insert (=) u (matrix, eqv) (or_emulations s)"
    by (simp add: em1)
  ultimately show ?thesis using P(3,4) fits unfolding deployed_def by blast
qed

lemma new_emulation_deploys:
  assumes "or_ok s" "net_bandwidth_matrix node_eq net node_is_app = Some (matrix, nodes)"
    and "length nodes < 2 ^ 26" "find_isomorphism s matrix = Some (Inr (Some eqv))"
  shows "\<exists>s' net' affected. or_new_emulation net u s = Some (s', Inr (Some (net', affected)))
    \<and> placement_fits s matrix eqv \<and> deployed net u matrix nodes eqv s s' net' affected"
  using new_emulation_places[OF _ assms(2-4)] assms(1) by (simp add: or_ok_shape)

lemma new_emulation_unchanged:
  assumes "net_bandwidth_matrix node_eq net node_is_app = Some (matrix, nodes)"
    and "find_isomorphism s matrix = Some r" and "\<forall>eqv. r \<noteq> Inr (Some eqv)"
  shows "\<exists>r'. or_new_emulation net u s = Some (s, r') \<and> (\<forall>p. r' \<noteq> Inr (Some p))"
  using assms by (auto simp: or_new_emulation_def split: sum.splits option.splits)

lemma deployed_fit:
  assumes inv: "or_fit s" and d: "deployed net u matrix nodes eqv s s' net' affected"
    and fits: "fits_on matrix eqv (or_size s)"
  shows "or_fit s'"
proof -
  have "or_shape s'" using or_shape_changed inv d unfolding deployed_def or_fit_def by blast
  moreover have "maps_ok s'" using d inv by (simp add: deployed_def loads_added_def or_fit_def)
  moreover have "emulations_fit s'"
    using d inv fits
    by (auto simp: deployed_def or_fit_def emulations_fit_def residual_changed_def hol_eq.hm_get_insert
        split: if_splits)
  ultimately show ?thesis by (simp add: or_fit_def)
qed

lemma deployed_inv:
  assumes "or_inv s" "deployed net u matrix nodes eqv s s' net' affected" "fits_on matrix eqv (or_size s)"
  shows "or_inv s'"
proof -
  have "or_size s' = or_size s" using assms(2) by (simp add: deployed_def residual_changed_def)
  then show ?thesis using deployed_fit[OF _ assms(2,3)] assms(1) by (simp add: or_inv_fit)
qed

section \<open>stop\_emulation\<close>

definition released :: "u32 sym_matrix \<Rightarrow> nat list \<Rightarrow> nat \<Rightarrow> nat \<Rightarrow> u32 \<Rightarrow> u32" where
  "released matrix eqv k l x = x + demand matrix eqv k l"

definition stopped :: "uuid \<Rightarrow> u32 sym_matrix \<Rightarrow> nat list \<Rightarrow> orchestrator \<Rightarrow> orchestrator \<Rightarrow> bool" where
  "stopped u matrix eqv s s' \<longleftrightarrow>
     (\<forall>h v. load_of s' h v = (if v = u then 0 else load_of s h v))
     \<and> (\<forall>h v. attributed_on s' h v \<longleftrightarrow> v \<noteq> u \<and> attributed_on s h v)
     \<and> same_cluster s s' \<and> residual_changed (released matrix eqv) s s'
     \<and> (\<forall>v. hm_get (=) (or_emulations s') v = (if v = u then None else hm_get (=) (or_emulations s) v))
     \<and> maps_ok s'"

lemma stop_emulation_stops:
  assumes inv: "or_fit s" and emul: "hm_get (=) (or_emulations s) u = Some (matrix, eqv)"
  shows "\<exists>s'. or_stop_emulation u s = Some (s', Inr ()) \<and> stopped u matrix eqv s s'"
proof -
  have ok: "or_shape s" "maps_ok s" and on: "fits_on matrix eqv (sm_size (or_residual s))"
    using inv emul by (simp_all add: or_fit_def emulations_fit_def or_size_def)
  obtain r where r: "release_bandwidth matrix eqv (or_residual s) = Some r" "sm_wf r" "sm_size r = or_size s"
    "\<forall>k < or_size s. \<forall>l < or_size s.
         sm_get r k l = map_option (\<lambda>x. x + demand matrix eqv k l) (sm_get (or_residual s) k l)"
    using release_result [OF on] ok(1) by (auto simp: or_size_def or_shape_def)
  let ?s' = "s\<lparr>or_residual := r,
      or_attributed := map (\<lambda>(h, l). (h, hs_remove (=) u l)) (or_attributed s),
      or_load := map (\<lambda>(h, m). (h, hm_remove (=) u m)) (or_load s),
      or_emulations := hm_remove (=) u (or_emulations s)\<rparr>"
  have "or_stop_emulation u s = Some (?s', Inr ())" using emul r(1) by (simp add: or_stop_emulation_def)
  moreover have "stopped u matrix eqv s ?s'"
    unfolding stopped_def
  proof (intro conjI allI)
    fix h v
    show "load_of ?s' h v = (if v = u then 0 else load_of s h v)"
      using ok(2) by (auto simp: load_of_def hm_get_map_values hol_eq.hm_get_remove maps_ok_def
          split: option.splits)
    show "attributed_on ?s' h v \<longleftrightarrow> v \<noteq> u \<and> attributed_on s h v"
      using ok(2) by (auto simp: attributed_on_def hm_get_map_values hol_eq.hs_contains_remove maps_ok_def
          split: option.splits)
    show "hm_get (=) (or_emulations ?s') v = (if v = u then None else hm_get (=) (or_emulations s) v)"
      using ok(2) by (simp add: hol_eq.hm_get_remove maps_ok_def)
  next
    show "same_cluster s ?s'" by (simp add: same_cluster_def)
    show "residual_changed (released matrix eqv) s ?s'"
      using r(2-4) by (simp add: residual_changed_def released_def [abs_def] or_size_def)
    show "maps_ok ?s'"
      using ok(2) by (auto simp: maps_ok_def hm_get_map_values hol_eq.hm_distinct_remove
          hol_eq.hs_distinct_remove)
  qed
  ultimately show ?thesis by blast
qed

lemma stopped_fit:
  assumes inv: "or_fit s" and st: "stopped u matrix eqv s s'"
  shows "or_fit s'"
proof -
  have "or_shape s'" using or_shape_changed inv st unfolding stopped_def or_fit_def by blast
  moreover have "emulations_fit s'"
    using st inv by (auto simp: stopped_def or_fit_def emulations_fit_def residual_changed_def)
  ultimately show ?thesis using st by (simp add: or_fit_def stopped_def)
qed

lemma stopped_inv:
  assumes "or_inv s" "stopped u matrix eqv s s'"
  shows "or_inv s'"
proof -
  have "or_size s' = or_size s" using assms(2) by (simp add: stopped_def residual_changed_def)
  then show ?thesis using stopped_fit[OF _ assms(2)] assms(1) by (simp add: or_inv_fit)
qed

section \<open>Deploying then stopping\<close>

text \<open>Two states between which only the diagonal of the residual graph may differ.\<close>

definition same_but_diagonal :: "orchestrator \<Rightarrow> orchestrator \<Rightarrow> bool" where
  "same_but_diagonal s s' \<longleftrightarrow>
     (\<forall>h v. load_of s' h v = load_of s h v) \<and> (\<forall>h v. attributed_on s' h v \<longleftrightarrow> attributed_on s h v)
     \<and> (\<forall>v. hm_get (=) (or_emulations s') v = hm_get (=) (or_emulations s) v)
     \<and> same_cluster s s' \<and> or_size s' = or_size s
     \<and> (\<forall>k < or_size s. \<forall>l < or_size s. k \<noteq> l \<longrightarrow>
          sm_get (or_residual s') k l = sm_get (or_residual s) k l)"

definition unknown_emulation :: "uuid \<Rightarrow> orchestrator \<Rightarrow> bool" where
  "unknown_emulation u s \<longleftrightarrow> hm_get (=) (or_emulations s) u = None
     \<and> (\<forall>h. load_of s h u = 0 \<and> \<not> attributed_on s h u)"

lemma deployed_stopped:
  assumes d: "deployed net u matrix nodes eqv s s1 net' affected" and st: "stopped u matrix eqv s1 s2"
    and new: "unknown_emulation u s"
  shows "same_but_diagonal s s2"
  unfolding same_but_diagonal_def
proof (intro conjI allI impI)
  fix h v
  show "load_of s2 h v = load_of s h v"
    using d st new by (auto simp: deployed_def stopped_def loads_added_def unknown_emulation_def)
  show "attributed_on s2 h v \<longleftrightarrow> attributed_on s h v"
    using d st new by (auto simp: deployed_def stopped_def loads_added_def unknown_emulation_def)
  show "hm_get (=) (or_emulations s2) v = hm_get (=) (or_emulations s) v"
    using d st new by (auto simp: deployed_def stopped_def unknown_emulation_def hol_eq.hm_get_insert)
next
  show "same_cluster s s2" using d st by (simp add: deployed_def stopped_def same_cluster_def)
  show "or_size s2 = or_size s" using d st by (simp add: deployed_def stopped_def residual_changed_def)
next
  fix k l assume kl: "k < or_size s" "l < or_size s" "k \<noteq> l"
  have "sm_get (or_residual s1) k l = map_option (reserved matrix eqv k l) (sm_get (or_residual s) k l)"
    using d kl by (simp add: deployed_def residual_changed_def)
  moreover have "sm_get (or_residual s2) k l = map_option (released matrix eqv k l) (sm_get (or_residual s1) k l)"
    using d st kl by (simp add: deployed_def stopped_def residual_changed_def)
  ultimately show "sm_get (or_residual s2) k l = sm_get (or_residual s) k l"
    using kl(3) by (simp add: option.map_comp comp_def reserved_def released_def option.map_ident)
qed

lemma deploy_stop_round_trip:
  assumes inv: "or_inv s" and m: "net_bandwidth_matrix node_eq net node_is_app = Some (matrix, nodes)"
    and lt: "length nodes < 2 ^ 26" and found: "find_isomorphism s matrix = Some (Inr (Some eqv))"
    and new: "unknown_emulation u s"
  shows "\<exists>s1 net' affected s2. or_new_emulation net u s = Some (s1, Inr (Some (net', affected)))
    \<and> or_stop_emulation u s1 = Some (s2, Inr ()) \<and> same_but_diagonal s s2 \<and> or_inv s2"
proof -
  have ok: "or_ok s" using inv by (simp add: or_inv_def)
  obtain s1 net' affected where s1: "or_new_emulation net u s = Some (s1, Inr (Some (net', affected)))"
    "placement_fits s matrix eqv" "deployed net u matrix nodes eqv s s1 net' affected"
    using new_emulation_deploys [OF ok m lt found] by blast
  have inv1: "or_inv s1"
    using deployed_inv [OF inv s1(3)] placement_fits_on [OF s1(2) bandwidth_matrix_apps(1) [OF m lt]] .
  have emul: "hm_get (=) (or_emulations s1) u = Some (matrix, eqv)"
    using s1(3) by (simp add: deployed_def hol_eq.hm_get_insert)
  obtain s2 where s2: "or_stop_emulation u s1 = Some (s2, Inr ())" "stopped u matrix eqv s1 s2"
    using stop_emulation_stops [OF _ emul] inv1 by (auto simp: or_inv_fit)
  show ?thesis
    using s1(1) s2(1) deployed_stopped [OF s1(3) s2(2) new] stopped_inv [OF inv1 s2(2)] by blast
qed

text \<open>An emulation without applications is always placed, on no host, whatever the cluster.\<close>

lemma no_apps_placed:
  assumes "sm_size matrix = 0"
  shows "find_isomorphism s matrix = Some (Inr (Some []))"
proof -
  obtain m where m: "sub_graph s [] = Some m" using sm_new_fn_total [of 0] by (fastforce simp: sub_graph_def)
  then have "sm_size m = 0" using sm_new_fn_Some(2) [of 0 _ m] by (simp add: sub_graph_def sm_size_def)
  then have "graph_isomorphism s matrix m [] = Some (Inr (Some []))"
    by (simp add: graph_isomorphism_def verify_permutation_def assms)
  then have "test_combination s matrix [] [] = Some (Inl (Inr (Some [])))"
    using m by (simp add: test_combination_def combination_set_def)
  then have "combination_loop s matrix n [] [] = Some (Inl (Inr (Some [])))" for n
    by (subst combination_loop.simps) simp
  then show ?thesis by (simp add: find_isomorphism_def Let_def eval_nat_numeral assms)
qed

section \<open>remove\_cluster\_node\<close>

text \<open>Every recorded emulation that has an application is attributed to a host.\<close>

definition emulations_placed :: "orchestrator \<Rightarrow> bool" where
  "emulations_placed s \<longleftrightarrow> (\<forall>u matrix eqv. hm_get (=) (or_emulations s) u = Some (matrix, eqv)
     \<longrightarrow> 0 < sm_size matrix \<longrightarrow> (\<exists>h. attributed_on s h u))"

lemma deployed_placed:
  assumes d: "deployed net u matrix nodes eqv s s' net' affected" and "emulations_placed s"
  shows "emulations_placed s'"
  unfolding emulations_placed_def
proof (intro allI impI)
  fix v m e assume v: "hm_get (=) (or_emulations s') v = Some (m, e)" "0 < sm_size m"
  have on: "attributed_on s' h v \<longleftrightarrow> attributed_on s h v \<or> v = u \<and> (\<exists>i < sm_size matrix. or_hosts s ! (eqv ! i) = h)"
    for h using d by (simp add: deployed_def loads_added_def)
  show "\<exists>h. attributed_on s' h v"
  proof (cases "v = u")
    case True
    then have "m = matrix" using v(1) d by (simp add: deployed_def hol_eq.hm_get_insert)
    then show ?thesis using on True v(2) by blast
  next
    case False
    with v have "hm_get (=) (or_emulations s) v = Some (m, e)"
      using d by (simp add: deployed_def hol_eq.hm_get_insert)
    then show ?thesis using assms(2) on v(2) unfolding emulations_placed_def by blast
  qed
qed

text \<open>What stopping an emulation gives back between two hosts.\<close>

definition freed :: "orchestrator \<Rightarrow> nat \<Rightarrow> nat \<Rightarrow> uuid \<Rightarrow> u32" where
  "freed s k l u = (case hm_get (=) (or_emulations s) u of None \<Rightarrow> 0 | Some (matrix, eqv) \<Rightarrow> demand matrix eqv k l)"

definition all_stopped :: "uuid set \<Rightarrow> orchestrator \<Rightarrow> orchestrator \<Rightarrow> bool" where
  "all_stopped us s s' \<longleftrightarrow> same_cluster s s' \<and> residual_changed (\<lambda>k l x. x + (\<Sum>u \<in> us. freed s k l u)) s s'
     \<and> (\<forall>v. hm_get (=) (or_emulations s') v = (if v \<in> us then None else hm_get (=) (or_emulations s) v))
     \<and> (\<forall>h v. load_of s' h v = (if v \<in> us \<and> hm_get (=) (or_emulations s) v \<noteq> None then 0 else load_of s h v))"

lemma all_stopped_none: "or_shape s \<Longrightarrow> all_stopped {} s s"
  by (simp add: all_stopped_def same_cluster_def residual_changed_def or_shape_def option.map_ident)

lemma all_stopped_unknown:
  assumes "all_stopped us s s'" "hm_get (=) (or_emulations s) u = None" "finite us"
  shows "all_stopped (insert u us) s s'"
proof -
  have "freed s k l u = 0" for k l using assms(2) by (simp add: freed_def)
  then have "(\<Sum>v \<in> insert u us. freed s k l v) = (\<Sum>v \<in> us. freed s k l v)" for k l
    using assms(3) by (cases "u \<in> us") (simp_all add: insert_absorb)
  then show ?thesis using assms(1,2) by (auto simp: all_stopped_def)
qed

lemma all_stopped_step:
  assumes emul: "hm_get (=) (or_emulations s) u = Some (matrix, eqv)" and st: "stopped u matrix eqv s s1"
    and rest: "all_stopped us s1 s'" and fin: "finite us"
  shows "all_stopped (insert u us) s s'"
proof -
  have S: "same_cluster s s1" "or_size s1 = or_size s"
    "\<And>v. hm_get (=) (or_emulations s1) v = (if v = u then None else hm_get (=) (or_emulations s) v)"
    "\<And>h v. load_of s1 h v = (if v = u then 0 else load_of s h v)"
    "\<And>k l. k < or_size s \<Longrightarrow> l < or_size s
       \<Longrightarrow> sm_get (or_residual s1) k l = map_option (released matrix eqv k l) (sm_get (or_residual s) k l)"
    using st by (simp_all add: stopped_def residual_changed_def)
  have f1: "freed s1 k l v = (if v = u then 0 else freed s k l v)" for k l v by (simp add: freed_def S(3))
  have "(\<Sum>v \<in> us. freed s1 k l v) = (\<Sum>v \<in> us - {u}. freed s k l v)" for k l
    by (simp add: f1 sum.If_cases[OF fin] Diff_eq)
  then have sum: "(\<Sum>v \<in> insert u us. freed s k l v) = demand matrix eqv k l + (\<Sum>v \<in> us. freed s1 k l v)" for k l
    using fin emul by (simp add: sum.insert_remove freed_def)
  have R: "same_cluster s1 s'" "sm_wf (or_residual s')" "or_size s' = or_size s1"
    "\<And>k l. k < or_size s1 \<Longrightarrow> l < or_size s1 \<Longrightarrow> sm_get (or_residual s') k l
       = map_option (\<lambda>x. x + (\<Sum>u \<in> us. freed s1 k l u)) (sm_get (or_residual s1) k l)"
    using rest by (simp_all add: all_stopped_def residual_changed_def)
  have "residual_changed (\<lambda>k l x. x + (\<Sum>u \<in> insert u us. freed s k l u)) s s'"
    using R(2-4) S(2,5)
    by (simp add: residual_changed_def sum released_def option.map_comp comp_def add.assoc)
  moreover have "same_cluster s s'" using S(1) R(1) by (simp add: same_cluster_def)
  ultimately show ?thesis
    using rest emul by (auto simp: all_stopped_def S(3,4))
qed

lemma stop_all:
  assumes inv: "or_fit s"
  shows "\<exists>s'. fold_opt (\<lambda>u st. map_option fst (or_stop_emulation u st)) us s = Some s'
    \<and> or_fit s' \<and> all_stopped (set us) s s'"
  using inv
proof (induction us arbitrary: s)
  case Nil
  then show ?case by (simp add: all_stopped_none or_fit_def)
next
  case (Cons u us)
  show ?case
  proof (cases "hm_get (=) (or_emulations s) u")
    case None
    then have "or_stop_emulation u s = Some (s, Inl (or_err InvalidData ''no emulation registered''))"
      by (simp add: or_stop_emulation_def)
    then show ?thesis using Cons.IH[OF Cons.prems] all_stopped_unknown[OF _ None] by fastforce
  next
    case (Some p)
    then obtain matrix eqv where p: "hm_get (=) (or_emulations s) u = Some (matrix, eqv)" by (cases p) auto
    obtain s1 where s1: "or_stop_emulation u s = Some (s1, Inr ())" "stopped u matrix eqv s s1"
      using stop_emulation_stops[OF Cons.prems p] by blast
    obtain s' where "fold_opt (\<lambda>u st. map_option fst (or_stop_emulation u st)) us s1 = Some s'"
      "or_fit s'" "all_stopped (set us) s1 s'" using Cons.IH[OF stopped_fit[OF Cons.prems s1(2)]] by blast
    then show ?thesis using s1(1) all_stopped_step[OF p s1(2)] by simp
  qed
qed

lemma attributed_in:
  assumes "attributed_on s h u"
  shows "u \<in> set (concat (map snd (or_attributed s)))"
proof -
  obtain l where l: "hm_get (=) (or_attributed s) h = Some l" "u \<in> set l"
    using assms by (auto simp: attributed_on_def hs_contains_iff split: option.splits)
  then show ?thesis using hm_get_in [OF l(1)] by force
qed

lemma find_position_Some:
  "find_position x xs = Some i \<Longrightarrow> i < length xs \<and> xs ! i = x"
  by (induction xs arbitrary: i) (auto split: if_splits)

lemma find_position_None: "find_position x xs = None \<longleftrightarrow> x \<notin> set xs"
  by (induction xs) auto

text \<open>The host at \<open>ident\<close> and its row are gone, the hosts behind it moved up by one; the emulations
  \<open>us\<close> are stopped and their bandwidth is given back.\<close>

definition host_removed :: "nat \<Rightarrow> uuid set \<Rightarrow> orchestrator \<Rightarrow> orchestrator \<Rightarrow> bool" where
  "host_removed ident us s s' \<longleftrightarrow>
     or_hosts s' = take ident (or_hosts s) @ drop (Suc ident) (or_hosts s)
     \<and> sm_wf (or_residual s') \<and> Suc (or_size s') = or_size s \<and> length (or_hosts s') = or_size s'
     \<and> (\<forall>i < or_size s'. \<forall>j < or_size s'.
          sm_get (or_residual s') i j
          = map_option (\<lambda>x. x + (\<Sum>u \<in> us. freed s (skip_id ident i) (skip_id ident j) u))
              (sm_get (or_residual s) (skip_id ident i) (skip_id ident j)))
     \<and> or_max_load s' = or_max_load s \<and> or_port s' = or_port s
     \<and> (\<forall>u. hm_get (=) (or_emulations s') u = (if u \<in> us then None else hm_get (=) (or_emulations s) u))
     \<and> (\<forall>h u. load_of s' h u = (if u \<in> us \<and> hm_get (=) (or_emulations s) u \<noteq> None then 0 else load_of s h u))"

lemma remove_cluster_node_result:
  assumes inv: "or_inv s"
  shows "case find_position (node\<lparr>cni_port := or_port s\<rparr>) (or_hosts s) of
      None \<Rightarrow> (\<exists>e. or_remove_cluster_node node s = Some (s, Inl e) \<and> err_kind e = InvalidData)
    | Some ident \<Rightarrow> (\<exists>s' us. or_remove_cluster_node node s = Some (s', Inr us)
        \<and> us = concat (map snd (or_attributed s)) \<and> (\<forall>h u. attributed_on s h u \<longrightarrow> u \<in> set us)
        \<and> host_removed ident (set us) s s')"
proof (cases "find_position (node\<lparr>cni_port := or_port s\<rparr>) (or_hosts s)")
  case None
  then show ?thesis by (simp add: or_remove_cluster_node_def or_err_def)
next
  case (Some ident)
  let ?us = "concat (map snd (or_attributed s))"
  have lt: "ident < length (or_hosts s)" using find_position_Some [OF Some] by blast
  have fit: "or_fit s" and pos: "0 < or_size s" using inv by (simp_all add: or_inv_fit)
  obtain s1 where s1: "fold_opt (\<lambda>u st. map_option fst (or_stop_emulation u st)) ?us s = Some s1"
    "or_fit s1" and st: "all_stopped (set ?us) s s1" using stop_all [OF fit] by blast
  have size: "or_size s1 = or_size s" and cl: "same_cluster s s1"
    and cells: "\<And>k l. k < or_size s \<Longrightarrow> l < or_size s \<Longrightarrow> sm_get (or_residual s1) k l
        = map_option (\<lambda>x. x + (\<Sum>u \<in> set ?us. freed s k l u)) (sm_get (or_residual s) k l)"
    using st by (simp_all add: all_stopped_def residual_changed_def)
  have wf1: "sm_wf (or_residual s1)" "0 < sm_n (or_residual s1)" and len: "length (or_hosts s) = or_size s"
    using s1(2) fit pos size by (simp_all add: or_fit_def or_shape_def or_size_def sm_size_def)
  obtain r where r: "sm_remove_id (or_residual s1) ident = Some r" using sm_remove_id_total [OF wf1] by blast
  note R = sm_remove_id_Some [OF wf1 r]
  let ?s' = "s1\<lparr>or_residual := r, or_hosts := take ident (or_hosts s1) @ drop (Suc ident) (or_hosts s1),
      or_attributed := hm_remove (=) (node\<lparr>cni_port := or_port s\<rparr>) (or_attributed s1)\<rparr>"
  have run: "or_remove_cluster_node node s = Some (?s', Inr ?us)"
    using Some s1(1) r by (simp add: or_remove_cluster_node_def Let_def)
  have n: "sm_n (or_residual s1) = or_size s" using size by (simp add: or_size_def sm_size_def)
  have n': "or_size ?s' = or_size s - 1" using R(2) n by (simp add: or_size_def sm_size_def)
  have get: "sm_get (or_residual ?s') i j
      = map_option (\<lambda>x. x + (\<Sum>u \<in> set ?us. freed s (skip_id ident i) (skip_id ident j) u))
          (sm_get (or_residual s) (skip_id ident i) (skip_id ident j))"
    if "i < or_size ?s'" "j < or_size ?s'" for i j
  proof -
    have ij: "i < sm_n (or_residual s1) - 1" "j < sm_n (or_residual s1) - 1" using that n n' by simp_all
    have "skip_id ident i < or_size s" "skip_id ident j < or_size s" using that n' by (auto simp: skip_id_def)
    from cells [OF this] R(3) [OF ij] show ?thesis by simp
  qed
  have "load_of ?s' = load_of s1" by (simp add: load_of_def fun_eq_iff)
  then have "host_removed ident (set ?us) s ?s'"
    using R(1) n' get pos len lt cl st
    by (simp add: host_removed_def same_cluster_def all_stopped_def del: set_concat set_map)
  then show ?thesis using Some run attributed_in by (auto simp del: set_concat set_map)
qed

end
