(* ===== verification/Placement_Properties.thy ===== *)
theory Placement_Properties
  imports Deployment
begin

text \<open>
  What the orchestrator of \<^verbatim>\<open>emulation/src/orchestrator.rs\<close> guarantees, with
  witnesses on a cluster of two hosts and a topology of one application.
\<close>

section \<open>A concrete cluster\<close>

definition host_at :: "u8 \<Rightarrow> cluster_node_info" where
  "host_at n = cni_new (V4 [192, 168, 1, n]) 8081"

definition two_hosts :: "orchestrator option" where
  "two_hosts =
     map_option (\<lambda>r. \<lparr>or_residual = r, or_hosts = [host_at 1, host_at 2], or_attributed = [],
       or_emulations = [], or_load = [], or_max_load = 4, or_port = 8081\<rparr>)
       (sm_new_fn 2 (\<lambda>row col. Some (if row = col then - 1 else 1000)))"

definition one_app :: "node network option" where
  "one_app = network_new node_eq [App 0 (app_build None None ''A'' BareMetal)] ShortestPath"

lemma two_hosts_ok:
  "\<exists>s. two_hosts = Some s \<and> or_inv s \<and> emulations_placed s \<and> or_size s = 2
    \<and> or_hosts s = [host_at 1, host_at 2] \<and> or_load s = [] \<and> or_emulations s = [] \<and> or_attributed s = []
    \<and> or_max_load s = 4 \<and> or_port s = 8081 \<and> sm_get (or_residual s) 0 0 = Some (- 1)"
proof -
  let ?f = "\<lambda>row col. Some (if row = col then - 1 else 1000 :: u32)"
  obtain r where r: "sm_new_fn 2 ?f = Some r" using sm_new_fn_total [of 2 ?f] by auto
  have R: "sm_wf r" "sm_n r = 2" "sm_get r 0 0 = Some (- 1)"
    using sm_new_fn_Some(1,2) [OF _ r] sm_new_fn_Some(3) [OF _ r, of 0 0] by simp_all
  define s where "s = \<lparr>or_residual = r, or_hosts = [host_at 1, host_at 2], or_attributed = [],
       or_emulations = [], or_load = [], or_max_load = 4, or_port = 8081\<rparr>"
  have "two_hosts = Some s" by (simp add: two_hosts_def s_def r)
  moreover have "or_inv s"
    using R by (simp add: s_def or_inv_def or_ok_def maps_ok_def emulations_fit_def or_size_def sm_size_def
        hm_distinct_def hm_keys_def)
  moreover have "emulations_placed s" by (simp add: s_def emulations_placed_def)
  moreover have "or_size s = 2" "sm_get (or_residual s) 0 0 = Some (- 1)"
    using R by (simp_all add: s_def or_size_def sm_size_def)
  moreover have "or_hosts s = [host_at 1, host_at 2]" "or_load s = []" "or_emulations s = []"
    "or_attributed s = []" "or_max_load s = 4" "or_port s = 8081" by (simp_all add: s_def)
  ultimately show ?thesis by blast
qed

lemma one_app_matrix:
  "\<exists>net m. one_app = Some net
    \<and> net_bandwidth_matrix node_eq net node_is_app = Some (m, [App 0 (app_build None None ''A'' BareMetal)])
    \<and> sm_wf m \<and> sm_size m = 1 \<and> sm_get m 0 0 = Some (- 1)"
proof -
  let ?a = "App 0 (app_build None None ''A'' BareMetal)"
  obtain l :: "node link option sym_matrix" where l: "sm_new_fn 1 (\<lambda>_ _. Some None) = Some l"
    using sm_new_fn_total [of 1 "\<lambda>_ _. Some None"] by auto
  have net: "one_app = Some \<lparr>net_links = l, net_mapper = [(?a, 0)], net_strategy = ShortestPath\<rparr>"
    using l by (simp add: one_app_def network_new_def)
  let ?net = "\<lparr>net_links = l, net_mapper = [(?a, 0)], net_strategy = ShortestPath\<rparr>"
  let ?f = "\<lambda>row col. if row = col then Some (- 1)
     else (case net_bandwidth_between node_eq ?net ([?a] ! row) ([?a] ! col) of None \<Rightarrow> None | Some b \<Rightarrow> b)"
  obtain m where m: "sm_new_fn 1 ?f = Some m" using sm_new_fn_total [of 1 ?f] by auto
  have M: "sm_wf m" "sm_n m = 1" "sm_get m 0 0 = Some (- 1)"
    using sm_new_fn_Some(1,2) [OF _ m] sm_new_fn_Some(3) [OF _ m, of 0 0] by simp_all
  have "net_bandwidth_matrix node_eq ?net node_is_app = Some (m, [?a])"
    using m by (simp add: net_bandwidth_matrix_def hm_keys_def)
  then show ?thesis using net M by (auto simp: sm_size_def)
qed

lemma one_app_found:
  assumes s: "or_inv s" "or_size s = 2" "or_load s = []" "or_max_load s = 4"
    and m: "sm_wf m" "sm_size m = 1" "sm_get m 0 0 = Some (- 1)"
  shows "find_isomorphism s m = Some (Inr (Some [0]))"
proof -
  have ok: "or_ok s" using s(1) by (simp add: or_inv_def)
  have load: "get_actual_load s h = Some 0" if "h < 2" for h
    using ok s that by (simp add: get_actual_load_def or_ok_def)
  have set: "combination_set 2 [0] = Some [0]"
    by (simp add: combination_set_def insert_class.simps)
  obtain sub where sub: "sub_graph s [0] = Some sub" "sm_size sub = 1"
    using sub_graph_total [OF ok, of "[0]"] by auto
  have real: "real_host s [0] 0 = Some 0" using s(2) by (simp add: real_host_def)
  have "verify_permutation s m sub [0] [0] = Some True"
    using m sub real load [of 0] s
    by (simp add: verify_permutation_def verify_host_def app_host_of_def)
  then have "graph_isomorphism s m sub [0] = Some (Inr (Some [0]))"
    using m(2) sub(2) by (simp add: graph_isomorphism_def Let_def)
  then have "test_combination s m [0] [] = Some (Inl (Inr (Some [0])))"
    using set sub s load [of 0] real by (simp add: test_combination_def)
  then have "combination_loop s m 1 [0] [] = Some (Inl (Inr (Some [0])))"
    by (subst combination_loop.simps) simp
  moreover have "clones_needed 1 2 = 0" by (simp add: clones_needed_small)
  ultimately show ?thesis
    using s(2) m(2) by (simp add: find_isomorphism_def eval_nat_numeral)
qed

lemma deploy_setting:
  "\<exists>s net m. two_hosts = Some s \<and> one_app = Some net \<and> or_inv s \<and> or_size s = 2
    \<and> emulations_placed s \<and> unknown_emulation 7 s \<and> or_hosts s = [host_at 1, host_at 2] \<and> or_port s = 8081
    \<and> net_bandwidth_matrix node_eq net node_is_app = Some (m, [App 0 (app_build None None ''A'' BareMetal)])
    \<and> sm_wf m \<and> sm_size m = 1 \<and> find_isomorphism s m = Some (Inr (Some [0]))"
proof -
  obtain s where s: "two_hosts = Some s" "or_inv s" "emulations_placed s" "or_size s = 2"
    "or_hosts s = [host_at 1, host_at 2]" "or_load s = []" "or_emulations s = []" "or_attributed s = []"
    "or_max_load s = 4" "or_port s = 8081" using two_hosts_ok by blast
  obtain net m where m: "one_app = Some net" "sm_wf m" "sm_size m = 1" "sm_get m 0 0 = Some (- 1)"
    "net_bandwidth_matrix node_eq net node_is_app = Some (m, [App 0 (app_build None None ''A'' BareMetal)])"
    using one_app_matrix by blast
  have "unknown_emulation 7 s"
    using s(6-8) by (simp add: unknown_emulation_def load_of_def attributed_on_def)
  then show ?thesis using s m one_app_found [OF s(2,4,6,9) m(2-4)] by blast
qed

section \<open>Deploying and stopping\<close>

text \<open>C1: deploying an emulation and stopping it gives back the load of every host, the
  attributions, the recorded emulations and the residual bandwidth between every two different
  hosts.\<close>

theorem deploy_then_stop:
  assumes "or_inv s" and "net_bandwidth_matrix node_eq net node_is_app = Some (matrix, nodes)"
    and "length nodes < 2 ^ 26" and "find_isomorphism s matrix = Some (Inr (Some eqv))"
    and "unknown_emulation u s"
  shows "\<exists>s1 net' affected s2. or_new_emulation net u s = Some (s1, Inr (Some (net', affected)))
    \<and> or_stop_emulation u s1 = Some (s2, Inr ()) \<and> same_but_diagonal s s2 \<and> or_inv s2"
  using assms by (rule deploy_stop_round_trip)

theorem deploy_then_stop_witness:
  "\<exists>s net. two_hosts = Some s \<and> one_app = Some net
    \<and> (\<exists>s1 net' affected s2. or_new_emulation net 7 s = Some (s1, Inr (Some (net', affected)))
      \<and> or_stop_emulation 7 s1 = Some (s2, Inr ()) \<and> same_but_diagonal s s2 \<and> or_inv s2)"
proof -
  obtain s net m where D: "two_hosts = Some s" "one_app = Some net" "or_inv s" "unknown_emulation 7 s"
    "net_bandwidth_matrix node_eq net node_is_app = Some (m, [App 0 (app_build None None ''A'' BareMetal)])"
    "find_isomorphism s m = Some (Inr (Some [0]))" using deploy_setting by blast
  have "\<exists>s1 net' affected s2. or_new_emulation net 7 s = Some (s1, Inr (Some (net', affected)))
    \<and> or_stop_emulation 7 s1 = Some (s2, Inr ()) \<and> same_but_diagonal s s2 \<and> or_inv s2"
    by (rule deploy_then_stop [OF D(3,5) _ D(6,4)]) simp
  with D(1,2) show ?thesis by blast
qed

text \<open>C2: a placement that the search finds puts every application on a host of the cluster,
  no host gets more applications than its load limit leaves room for, and between every two hosts
  used the residual bandwidth covers the (wrapped) sum that the first needs.\<close>

theorem placement_respects_limits:
  assumes "find_isomorphism s g = Some (Inr (Some eqv))"
  shows "placement_fits s g eqv"
  using assms by (rule find_isomorphism_sound)

theorem placement_respects_limits_witness:
  "\<exists>s m. two_hosts = Some s \<and> find_isomorphism s m = Some (Inr (Some [0])) \<and> placement_fits s m [0]"
  using deploy_setting placement_respects_limits by blast

text \<open>C11: the search of a placement ends without a panic and without an error when there are
  at least two hosts, at least one application, and not exactly as many applications as hosts.\<close>

theorem placement_search_returns:
  assumes "or_ok s" and "sm_wf g" and "0 < sm_size g" and "sm_size g \<noteq> or_size s" and "2 \<le> or_size s"
  shows "\<exists>r. find_isomorphism s g = Some (Inr r)"
  using assms by (rule find_isomorphism_total)

theorem placement_search_returns_witness:
  "\<exists>s m. two_hosts = Some s \<and> sm_size m = 1 \<and> (\<exists>r. find_isomorphism s m = Some (Inr r))"
proof -
  obtain s where s: "two_hosts = Some s" "or_inv s" "or_size s = 2" using two_hosts_ok by blast
  obtain m :: "u32 sym_matrix" where m: "sm_wf m" "sm_size m = 1" using one_app_matrix by blast
  have "\<exists>r. find_isomorphism s m = Some (Inr r)"
    using s m by (intro placement_search_returns) (simp_all add: or_inv_def)
  with s m show ?thesis by blast
qed

text \<open>A deployment raises the load of each host by the applications it got, attributes the
  emulation to exactly the hosts used, lowers the residual bandwidth between two different hosts
  by the sum of what the pairs of applications on them need, records the emulation and edits the
  placed vertices of the topology.\<close>

theorem deployment_effect:
  assumes "or_ok s" and "net_bandwidth_matrix node_eq net node_is_app = Some (matrix, nodes)"
    and "length nodes < 2 ^ 26" and "find_isomorphism s matrix = Some (Inr (Some eqv))"
  shows "\<exists>s' net' affected. or_new_emulation net u s = Some (s', Inr (Some (net', affected)))
    \<and> placement_fits s matrix eqv \<and> deployed net u matrix nodes eqv s s' net' affected"
  using assms by (rule new_emulation_deploys)

theorem deployment_effect_witness:
  "\<exists>s net m nodes. two_hosts = Some s \<and> one_app = Some net
    \<and> (\<exists>s' net' affected. or_new_emulation net 7 s = Some (s', Inr (Some (net', affected)))
      \<and> placement_fits s m [0] \<and> deployed net 7 m nodes [0] s s' net' affected)"
proof -
  obtain s net m where D: "two_hosts = Some s" "one_app = Some net" "or_inv s"
    "net_bandwidth_matrix node_eq net node_is_app = Some (m, [App 0 (app_build None None ''A'' BareMetal)])"
    "find_isomorphism s m = Some (Inr (Some [0]))" using deploy_setting by blast
  have "or_ok s" using D(3) by (simp add: or_inv_def)
  from deployment_effect [OF this D(4) _ D(5)] D(1,2) show ?thesis by fastforce
qed

text \<open>Deploying an emulation, found or not, keeps the invariant of the orchestrator: one
  host and one row of residual bandwidth each, and every recorded emulation placed on existing
  hosts and, when it has an application, attributed to one of them.\<close>

theorem deploy_keeps_invariant:
  assumes inv: "or_inv s" "emulations_placed s"
    and m: "net_bandwidth_matrix node_eq net node_is_app = Some (matrix, nodes)"
    and lt: "length nodes < 2 ^ 26"
    and run: "or_new_emulation net u s = Some (s', r)"
  shows "or_inv s' \<and> emulations_placed s'"
proof (cases "\<exists>eqv. find_isomorphism s matrix = Some (Inr (Some eqv))")
  case True
  then obtain eqv where f: "find_isomorphism s matrix = Some (Inr (Some eqv))" by blast
  have ok: "or_ok s" using inv by (simp add: or_inv_def)
  note B = bandwidth_matrix_apps [OF m lt]
  obtain s1 net' aff where "or_new_emulation net u s = Some (s1, Inr (Some (net', aff)))"
    and fits: "placement_fits s matrix eqv" and d: "deployed net u matrix nodes eqv s s1 net' aff"
    using new_emulation_deploys [OF ok m lt f] by blast
  with run have s1: "s1 = s'" by simp
  show ?thesis
    using deployed_inv [OF inv(1) d placement_fits_on [OF fits B(1)]]
      deployed_placed [OF d inv(2)] s1 by simp
next
  case False
  then obtain q where q: "find_isomorphism s matrix = Some q" "\<forall>eqv. q \<noteq> Inr (Some eqv)"
    using run m by (cases "find_isomorphism s matrix") (auto simp: or_new_emulation_def)
  then have "s' = s" using new_emulation_unchanged [OF m q, of u] run by auto
  then show ?thesis using inv by simp
qed

theorem deploy_keeps_invariant_witness:
  "\<exists>s net s' r. two_hosts = Some s \<and> one_app = Some net \<and> or_new_emulation net 7 s = Some (s', r)
    \<and> or_inv s' \<and> emulations_placed s'"
proof -
  obtain s net m where D: "two_hosts = Some s" "one_app = Some net" "or_inv s" "emulations_placed s"
    "net_bandwidth_matrix node_eq net node_is_app = Some (m, [App 0 (app_build None None ''A'' BareMetal)])"
    "find_isomorphism s m = Some (Inr (Some [0]))" using deploy_setting by blast
  have "or_ok s" using D(3) by (simp add: or_inv_def)
  then obtain s' net' aff where "or_new_emulation net 7 s = Some (s', Inr (Some (net', aff)))"
    using new_emulation_deploys [OF _ D(5) _ D(6)] by fastforce
  then show ?thesis using deploy_keeps_invariant [OF D(3,4,5)] D(1,2) by fastforce
qed

text \<open>C31: \<^verbatim>\<open>remove_cluster_node\<close> reports an unknown node without a change;
  otherwise it stops every emulation that is attributed to any host, also those that do not use the
  removed host, gives back their bandwidth, and then takes out the host and its row of the residual
  graph: what is left between two other hosts is what there was between them and what the stopped
  emulations gave back.\<close>

theorem remove_host_stops_all:
  assumes "or_inv s"
  shows "case find_position (node\<lparr>cni_port := or_port s\<rparr>) (or_hosts s) of
      None \<Rightarrow> (\<exists>e. or_remove_cluster_node node s = Some (s, Inl e) \<and> err_kind e = InvalidData)
    | Some ident \<Rightarrow> (\<exists>s' us. or_remove_cluster_node node s = Some (s', Inr us)
        \<and> us = concat (map snd (or_attributed s)) \<and> (\<forall>h u. attributed_on s h u \<longrightarrow> u \<in> set us)
        \<and> host_removed ident (set us) s s')"
  using assms by (rule remove_cluster_node_result)

theorem remove_host_stops_all_witness:
  "\<exists>s. two_hosts = Some s
    \<and> (\<exists>s' us. or_remove_cluster_node (host_at 2) s = Some (s', Inr us) \<and> host_removed 1 (set us) s s')"
proof -
  obtain s where D: "two_hosts = Some s" "or_inv s"
    "or_hosts s = [host_at 1, host_at 2]" "or_port s = 8081" using deploy_setting by blast
  have "find_position ((host_at 2)\<lparr>cni_port := 8081\<rparr>) [host_at 1, host_at 2] = Some 1"
    by (simp add: host_at_def cni_new_def)
  then show ?thesis using remove_host_stops_all [OF D(2), of "host_at 2"] D by auto
qed

section \<open>The search\<close>

text \<open>The loop of Heap's algorithm ends, and what it returns is a permutation of its input
  that passes the check.\<close>

theorem heap_search_correct:
  assumes "\<And>e. mset e = mset e0 \<Longrightarrow> \<exists>b. verify e = Some b"
  shows "\<exists>r. heap_loop verify (length e0) e0 (replicate (length e0) 0) 1 = Some r
    \<and> (case r of None \<Rightarrow> True | Some e \<Rightarrow> mset e = mset e0 \<and> verify e = Some True)"
proof -
  obtain r where r: "heap_loop verify (length e0) e0 (replicate (length e0) 0) 1 = Some r"
    using heap_loop_total [of "mset e0" verify e0 "length e0"] assms by force
  then show ?thesis using heap_loop_sound by (cases r) fastforce+
qed

theorem heap_search_correct_witness:
  "\<exists>r. heap_loop (\<lambda>e. Some (hd e = 2)) 3 [0, 1, 2] [0, 0, 0] 1 = Some r
    \<and> (case r of None \<Rightarrow> True | Some e \<Rightarrow> mset e = mset [0, 1, 2] \<and> Some (hd e = 2) = Some True)"
  using heap_search_correct [of "[0, 1, 2]" "\<lambda>e. Some (hd e = 2)"] by (simp add: eval_nat_numeral)

text \<open>\<^verbatim>\<open>next_comb\<close> moves the last free position up by one and lets the
  positions after it follow consecutively; it reports the end as soon as the first position
  exceeds \<open>n - k\<close>, so the last combination, whose first position is \<open>n - k + 1\<close>, is
  never given although it is within the bounds.\<close>

theorem next_comb_step:
  assumes "k \<le> n" and "n < 2 ^ 63" and "comb_bounded c k n" and "last_free c k n p"
  shows "next_comb c k n = Some (if n - k < comb_after c k p ! 0 then None else Some (comb_after c k p))
    \<and> comb_bounded (comb_after c k p) k n"
proof -
  have "length c = k" using assms(3) by (simp add: comb_bounded_def)
  moreover have "comb_bounded (comb_after c k p) k n"
    using assms by (auto simp: comb_bounded_def last_free_def comb_after_def nth_append)
  ultimately show ?thesis using next_comb_result assms by blast
qed

theorem next_comb_step_witness:
  "next_comb [0, 2] 2 2 = Some None \<and> comb_bounded [1, 2] 2 2"
proof -
  have "comb_bounded [0, 2] 2 2" "last_free [0, 2] 2 2 0" "comb_after [0, 2] 2 0 = [1, 2]"
    by (auto simp: comb_bounded_def last_free_def comb_after_def less_Suc_eq numeral_2_eq_2)
  then show ?thesis using next_comb_step [of 2 2 "[0, 2]" 0] by simp
qed

text \<open>With exactly as many applications as hosts the enumeration panics on the step after
  the first combination: the carry runs off the front of the vector.\<close>

theorem next_comb_panics_on_full:
  assumes "0 < k" and "k < 2 ^ 63"
  shows "next_comb [0..<k] k (k - 1) = None"
proof (rule next_comb_panics)
  show "\<forall>q < k. usize_add (usize_add (usize_sub (k - 1) k) 1) q \<le> [0..<k] ! q"
    using assms by (auto simp: usize_add_def usize_sub_def)
qed (use assms in auto)

theorem next_comb_panics_on_full_witness: "next_comb [0, 1, 2] 3 2 = None"
proof -
  have "[0..<3] = [0, 1, 2 :: nat]" by (simp add: upt_conv_Cons)
  then show ?thesis using next_comb_panics_on_full [of 3] by simp
qed

end
