(* ===== verification/Framing.thy ===== *)
theory Framing
  imports Messages Hash_Collections
begin

unbundle bit_operations_syntax

text \<open>
  The transports of \<^verbatim>\<open>nethelper\<close>: the length prefix (\<^verbatim>\<open>get_size\<close>,
  \<^verbatim>\<open>prepare_data_to_send\<close>), reading and writing of frames on TCP and Unix streams, the
  handling loop of an accepted connection, UDP datagrams with the ignore list, and the modes of
  a TCP and of a Unix binding.

  A socket of the operating system is what it delivers: a stream is the list of its arrivals
  (pieces of bytes, cut anywhere, or an error), and its end is the end of the list. The outcome
  of a system call (\<^verbatim>\<open>connect\<close>, \<^verbatim>\<open>bind\<close>, \<^verbatim>\<open>send\<close>) is an
  argument. The code awaits in the order written, so a call is a function of the state.
\<close>

section \<open>Frames\<close>

definition content_length_length :: nat where
  "content_length_length = 2"

definition get_size :: "u8 list \<Rightarrow> nat option" where
  "get_size buf =
     (if length buf \<noteq> content_length_length then None
      else Some (fold (\<lambda>i size. size OR push_bit (8 * (content_length_length - 1 - i)) (unat (buf ! i)))
                   [0..<content_length_length] 0))"

text \<open>The bytes given are the serialised message.\<close>

definition prepare_data_to_send :: "u8 list \<Rightarrow> u8 list" where
  "prepare_data_to_send data = put_u16 (of_nat (length data)) @ data"

lemma or_low_byte: "b < 256 \<Longrightarrow> push_bit 8 a OR b = a * 256 + (b :: nat)"
proof -
  assume "b < 256"
  then have b: "take_bit 8 b = b" by (simp add: take_bit_nat_eq_self)
  have "push_bit 8 a AND b = 0"
    by (subst b [symmetric]) (auto intro!: bit_eqI simp: bit_simps)
  then show ?thesis
    using disjunctive_add_eq_or [of "push_bit 8 a" b] by (simp add: push_bit_eq_mult)
qed

lemma get_size_two: "get_size [a, b] = Some (unat a * 256 + unat b)"
proof -
  have "unat b < 256" using unsigned_less [of b, where ?'a = nat] by simp
  then show ?thesis by (simp add: get_size_def content_length_length_def numeral_2_eq_2 upt_rec or_low_byte)
qed

lemma unat_bytes: "unat (ucast (drop_bit 8 w) :: u8) * 256 + unat (ucast w :: u8) = unat (w :: u16)"
proof -
  have "unat w < 65536" using unsigned_less [of w, where ?'a = nat] by simp
  then show ?thesis by (simp add: unsigned_ucast_eq unsigned_drop_bit_eq take_bit_eq_mod drop_bit_eq_div unat_div)
qed

lemma get_size_put_u16 [simp]: "get_size (put_u16 w) = Some (unat w)"
  by (simp add: put_u16_def get_size_two unat_bytes)

lemma get_size_length: "n < 2 ^ 16 \<Longrightarrow> get_size (put_u16 (of_nat n)) = Some n"
  by (simp add: unat_of_nat)

section \<open>Streams\<close>

datatype arrival = Bytes "u8 list" | Broken string

type_synonym stream = "arrival list"

text \<open>One \<^verbatim>\<open>read\<close> with room for \<^verbatim>\<open>n\<close> bytes: what is there, at most
  \<^verbatim>\<open>n\<close> bytes of it; nothing at the end of the stream.\<close>

fun stream_read :: "nat \<Rightarrow> stream \<Rightarrow> (string + u8 list) \<times> stream" where
  "stream_read n [] = (Inr [], [])"
| "stream_read n (Broken e # s) = (Inl e, Broken e # s)"
| "stream_read n (Bytes bs # s) =
     (if length bs \<le> n then (Inr bs, s) else (Inr (take n bs), Bytes (drop n bs) # s))"

text \<open>\<^verbatim>\<open>read_exact\<close> of tokio: reads until the buffer is full, an error at the end.\<close>

fun read_exact :: "nat \<Rightarrow> stream \<Rightarrow> (string + u8 list) \<times> stream" where
  "read_exact 0 s = (Inr [], s)"
| "read_exact (Suc n) [] = (Inl ''early eof'', [])"
| "read_exact (Suc n) (Broken e # s) = (Inl e, Broken e # s)"
| "read_exact (Suc n) (Bytes bs # s) =
     (if Suc n < length bs then (Inr (take (Suc n) bs), Bytes (drop (Suc n) bs) # s)
      else case read_exact (Suc n - length bs) s of
             (Inl e, s') \<Rightarrow> (Inl e, s')
           | (Inr rest, s') \<Rightarrow> (Inr (bs @ rest), s'))"

text \<open>What a stream still delivers, whether it then breaks, and that no piece is empty.\<close>

fun contents :: "stream \<Rightarrow> u8 list" where
  "contents [] = []"
| "contents (Bytes bs # s) = bs @ contents s"
| "contents (Broken e # s) = []"

fun breaks :: "stream \<Rightarrow> string option" where
  "breaks [] = None"
| "breaks (Bytes bs # s) = breaks s"
| "breaks (Broken e # s) = Some e"

definition live :: "stream \<Rightarrow> bool" where
  "live s \<longleftrightarrow> Bytes [] \<notin> set s"

lemma live_simps [simp]:
  "live []" "live (Broken e # s) \<longleftrightarrow> live s" "live (Bytes bs # s) \<longleftrightarrow> bs \<noteq> [] \<and> live s"
  by (auto simp: live_def)

lemma live_map_Bytes: "live (map Bytes bss) \<longleftrightarrow> [] \<notin> set bss"
  by (induction bss) auto

lemma contents_map_Bytes [simp]: "contents (map Bytes bss @ s) = concat bss @ contents s"
  by (induction bss) auto

section \<open>Reading and writing frames on TCP\<close>

text \<open>The loop that fills the message; it only ends when all the bytes have come or on an
  error, so the model of the loop is a partial function.\<close>

partial_function (option) read_rest ::
  "nat \<Rightarrow> u8 list \<Rightarrow> stream \<Rightarrow> (u8 list result \<times> stream) option" where
  "read_rest bytes_to_read buf s =
     (if bytes_to_read = 0 then Some (Inr buf, s)
      else case stream_read bytes_to_read s of
             (Inl e, s') \<Rightarrow> Some (Inl (error_from e), s')
           | (Inr bs, s') \<Rightarrow> read_rest (bytes_to_read - length bs) (buf @ bs) s')"

definition tcp_err :: "error_kind \<Rightarrow> string \<Rightarrow> error" where
  "tcp_err k m = error_new ''tcp binding'' k m"

text \<open>The first read may fill only the first byte of the header: the second stays zero.\<close>

definition tcp_read_from_stream :: "stream \<Rightarrow> (u8 list result \<times> stream) option" where
  "tcp_read_from_stream s =
     (case stream_read content_length_length s of
        (Inl e, s') \<Rightarrow> Some (Inl (error_from e), s')
      | (Inr bs, s') \<Rightarrow>
          if length bs = 0 then Some (Inl (tcp_err UnexpectedEof ''End Of File, stop stream''), s')
          else case get_size (bs @ replicate (content_length_length - length bs) 0) of
                 None \<Rightarrow> None
               | Some sz \<Rightarrow> read_rest sz [] s')"

text \<open>A connection: its input, what was written, and the error the system gives on a write.\<close>

record conn =
  c_in :: stream
  c_out :: "u8 list"
  c_write_err :: "string option"

definition write_all :: "u8 list \<Rightarrow> conn \<Rightarrow> (string + unit) \<times> conn" where
  "write_all bs c =
     (case c_write_err c of
        Some e \<Rightarrow> (Inl e, c)
      | None \<Rightarrow> (Inr (), c\<lparr>c_out := c_out c @ bs\<rparr>))"

definition tcp_write_to_stream :: "('m \<Rightarrow> u8 list) \<Rightarrow> 'm \<Rightarrow> conn \<Rightarrow> unit result \<times> conn" where
  "tcp_write_to_stream encode x c =
     (case write_all (prepare_data_to_send (encode x)) c of
        (Inl e, c') \<Rightarrow>
          (Inl (error_wrap ''tcp binding'' BadWrite ''Cannot write on the TCP connection'' e), c')
      | (Inr u, c') \<Rightarrow> (Inr u, c'))"

text \<open>A handler answers a message or not.\<close>

type_synonym 'm handler = "u8 list \<Rightarrow> 'm option"

definition tcp_read_and_handle ::
  "('m \<Rightarrow> u8 list) \<Rightarrow> 'm handler \<Rightarrow> conn \<Rightarrow> (unit result \<times> conn) option" where
  "tcp_read_and_handle encode handler c =
     (case tcp_read_from_stream (c_in c) of
        None \<Rightarrow> None
      | Some (Inl e, s) \<Rightarrow> Some (Inl e, c\<lparr>c_in := s\<rparr>)
      | Some (Inr b, s) \<Rightarrow>
          (case handler b of
             None \<Rightarrow> Some (Inr (), c\<lparr>c_in := s\<rparr>)
           | Some x \<Rightarrow> Some (tcp_write_to_stream encode x (c\<lparr>c_in := s\<rparr>))))"

text \<open>The loop of the task that serves an accepted connection, until the first error.\<close>

partial_function (option) tcp_serve ::
  "('m \<Rightarrow> u8 list) \<Rightarrow> 'm handler \<Rightarrow> conn \<Rightarrow> conn option" where
  "tcp_serve encode handler c =
     (case tcp_read_and_handle encode handler c of
        None \<Rightarrow> None
      | Some (Inl e, c') \<Rightarrow> Some c'
      | Some (Inr u, c') \<Rightarrow> tcp_serve encode handler c')"

section \<open>Reading and writing frames on Unix sockets\<close>

definition unix_read_from_stream :: "stream \<Rightarrow> u8 list result \<times> stream" where
  "unix_read_from_stream s =
     (case read_exact 2 s of
        (Inl e, s') \<Rightarrow> (Inl (error_from e), s')
      | (Inr hd2, s') \<Rightarrow>
          (case get_u16 hd2 of
             None \<Rightarrow> (Inl (error_from ''early eof''), s')
           | Some (content_length, _) \<Rightarrow>
               (case read_exact (unat content_length) s' of
                  (Inl e, t) \<Rightarrow> (Inl (error_from e), t)
                | (Inr buf, t) \<Rightarrow> (Inr buf, t))))"

definition unix_write_to_stream :: "('m \<Rightarrow> u8 list) \<Rightarrow> 'm \<Rightarrow> conn \<Rightarrow> unit result \<times> conn" where
  "unix_write_to_stream encode x c =
     (let data = encode x
      in case write_all (put_u16 (of_nat (length data))) c of
           (Inl e, c') \<Rightarrow> (Inl (error_from e), c')
         | (Inr _, c') \<Rightarrow>
             (case write_all data c' of
                (Inl e, c'') \<Rightarrow>
                  (Inl (error_wrap ''tcp binding'' BadWrite
                          ''Cannot write on the Unix Socket connection'' e), c'')
              | (Inr u, c'') \<Rightarrow> (Inr u, c'')))"

definition unix_read_and_handle ::
  "('m \<Rightarrow> u8 list) \<Rightarrow> 'm handler \<Rightarrow> conn \<Rightarrow> unit result \<times> conn" where
  "unix_read_and_handle encode handler c =
     (case unix_read_from_stream (c_in c) of
        (Inl e, s) \<Rightarrow> (Inl e, c\<lparr>c_in := s\<rparr>)
      | (Inr b, s) \<Rightarrow>
          (case handler b of
             None \<Rightarrow> (Inr (), c\<lparr>c_in := s\<rparr>)
           | Some x \<Rightarrow> unix_write_to_stream encode x (c\<lparr>c_in := s\<rparr>)))"

partial_function (option) unix_serve ::
  "('m \<Rightarrow> u8 list) \<Rightarrow> 'm handler \<Rightarrow> conn \<Rightarrow> conn option" where
  "unix_serve encode handler c =
     (case unix_read_and_handle encode handler c of
        (Inl e, c') \<Rightarrow> Some c'
      | (Inr u, c') \<Rightarrow> unix_serve encode handler c')"

section \<open>What the reads return\<close>

lemma read_rest_full:
  "live s \<Longrightarrow> n \<le> length (contents s)
   \<Longrightarrow> \<exists>s'. read_rest n buf s = Some (Inr (buf @ take n (contents s)), s')
         \<and> live s' \<and> contents s' = drop n (contents s) \<and> breaks s' = breaks s"
proof (induction s arbitrary: n buf)
  case Nil
  then show ?case by (simp add: read_rest.simps)
next
  case (Cons a s)
  show ?case
  proof (cases a)
    case (Bytes bs)
    show ?thesis
    proof (cases "n = 0 \<or> length bs \<le> n")
      case True
      then show ?thesis
        using Bytes Cons.IH [of "n - length bs" "buf @ bs"] Cons.prems
        by (auto simp: read_rest.simps [of n])
    next
      case False
      then show ?thesis
        using Bytes Cons.prems by (simp add: read_rest.simps [of n] read_rest.simps [of 0])
    qed
  next
    case (Broken e)
    then show ?thesis using Cons.prems by (simp add: read_rest.simps)
  qed
qed

text \<open>A stream that ends inside a message: the loop keeps reading nothing.\<close>

lemma read_rest_short:
  assumes "length (contents s) < n" "breaks s = None" "live s"
  shows "read_rest n buf s = None"
proof -
  have "\<not> (length (contents s) < n \<and> breaks s = None \<and> live s)" if "read_rest n buf s = Some r" for r
  proof (rule read_rest.raw_induct [OF _ that])
    fix loop :: "nat \<Rightarrow> u8 list \<Rightarrow> stream \<Rightarrow> (u8 list result \<times> stream) option"
      and n buf s r
    assume IH: "\<And>n buf s r. loop n buf s = Some r
        \<Longrightarrow> \<not> (length (contents s) < n \<and> breaks s = None \<and> live s)"
      and body: "(if n = 0 then Some (Inr buf, s)
         else case stream_read n s of
             (Inl e, s') \<Rightarrow> Some (Inl (error_from e), s')
           | (Inr bs, s') \<Rightarrow> loop (n - length bs) (buf @ bs) s') = Some r"
    show "\<not> (length (contents s) < n \<and> breaks s = None \<and> live s)"
    proof (cases s)
      case Nil
      then show ?thesis using body IH [of n "buf @ []" "[]" r] by (cases "n = 0") auto
    next
      case (Cons a t)
      show ?thesis
      proof (cases a)
        case (Bytes bs)
        with Cons show ?thesis
          using body IH [of "n - length bs" "buf @ bs" t r] by (cases "n = 0") (auto split: if_splits)
      qed (use body Cons in \<open>cases "n = 0"; auto\<close>)
    qed
  qed
  with assms show ?thesis by (cases "read_rest n buf s") auto
qed

lemma read_rest_breaks:
  "live s \<Longrightarrow> length (contents s) < n \<Longrightarrow> breaks s = Some e
   \<Longrightarrow> \<exists>s'. read_rest n buf s = Some (Inl (error_from e), s')"
proof (induction s arbitrary: n buf)
  case (Cons a s)
  show ?case
  proof (cases a)
    case (Bytes bs)
    then show ?thesis
      using Cons.IH [of "n - length bs" "buf @ bs"] Cons.prems
      by (auto simp: read_rest.simps [of n])
  next
    case (Broken e')
    then show ?thesis using Cons.prems by (simp add: read_rest.simps)
  qed
qed simp

lemma read_exact_full:
  "live s \<Longrightarrow> n \<le> length (contents s)
   \<Longrightarrow> \<exists>s'. read_exact n s = (Inr (take n (contents s)), s')
         \<and> live s' \<and> contents s' = drop n (contents s) \<and> breaks s' = breaks s"
proof (induction n s rule: read_exact.induct)
  case (4 n bs s)
  show ?case
  proof (cases "Suc n < length bs")
    case False
    then show ?thesis using 4 by fastforce
  qed (use 4 in simp)
qed auto

lemma read_exact_short:
  "live s \<Longrightarrow> length (contents s) < n \<Longrightarrow> \<exists>e s'. read_exact n s = (Inl e, s')"
proof (induction n s rule: read_exact.induct)
  case (4 n bs s)
  then show ?case by fastforce
qed auto

end
