(* ===== verification/Transport.thy ===== *)
theory Transport
  imports Framing
begin

text \<open>
  What the transports of \<^verbatim>\<open>Framing\<close> deliver: a frame written by
  \<^verbatim>\<open>prepare_data_to_send\<close> is read back from a stream cut in pieces, and the serving
  loops answer every message of a connection in order. The loops are clients of the contract
  \<^verbatim>\<open>codec\<close> of a message type.
\<close>

section \<open>One frame\<close>

lemma prepare_parts: "prepare_data_to_send d = put_u16 (of_nat (length d)) @ d"
  by (simp add: prepare_data_to_send_def)

lemma length_prepare [simp]: "length (prepare_data_to_send d) = length d + 2"
  by (simp add: prepare_parts)

text \<open>The length is cut to 16 bits: the reader takes that many bytes.\<close>

lemma frame_size: "unat (of_nat (length d) :: u16) = length d mod 65536"
  by (simp add: unat_of_nat)

definition starts_whole :: "stream \<Rightarrow> bool" where
  "starts_whole s \<longleftrightarrow> (case s of Bytes b # _ \<Rightarrow> 2 \<le> length b | _ \<Rightarrow> False)"

lemma header_split:
  assumes "2 \<le> length b" "b @ x = put_u16 w @ y"
  shows "take 2 b = put_u16 w" "drop 2 b @ x = y"
  using assms(1) arg_cong [OF assms(2), of "take 2"] arg_cong [OF assms(2), of "drop 2"] by simp_all

lemma stream_read_header:
  assumes "starts_whole s" "live s" "contents s = put_u16 w @ rest"
  shows "\<exists>s'. stream_read 2 s = (Inr (put_u16 w), s') \<and> live s' \<and> contents s' = rest \<and> breaks s' = breaks s"
proof -
  obtain b t where s: "s = Bytes b # t" "2 \<le> length b"
    using assms(1) by (auto simp: starts_whole_def split: list.splits arrival.splits)
  have b: "take 2 b = put_u16 w" "drop 2 b @ contents t = rest"
    using header_split [OF s(2), of "contents t" w rest] s(1) assms(3) by simp_all
  show ?thesis using s b assms(2) by (cases "length b = 2") auto
qed

lemma tcp_read_frame:
  assumes "starts_whole s" "live s" "contents s = put_u16 (of_nat (length d)) @ rest"
    and "length d mod 65536 \<le> length rest"
  shows "\<exists>s'. tcp_read_from_stream s = Some (Inr (take (length d mod 65536) rest), s')
           \<and> live s' \<and> contents s' = drop (length d mod 65536) rest \<and> breaks s' = breaks s"
proof -
  obtain s1 where s1: "stream_read 2 s = (Inr (put_u16 (of_nat (length d))), s1)" "live s1"
    "contents s1 = rest" "breaks s1 = breaks s"
    using stream_read_header [OF assms(1-3)] by blast
  then have "tcp_read_from_stream s = read_rest (length d mod 65536) [] s1"
    by (simp add: tcp_read_from_stream_def content_length_length_def frame_size)
  then show ?thesis using read_rest_full [OF s1(2), of "length d mod 65536" "[]"] assms(4) s1 by simp
qed

lemma unix_read_frame:
  assumes "live s" "contents s = put_u16 (of_nat (length d)) @ rest"
    and "length d mod 65536 \<le> length rest"
  shows "\<exists>s'. unix_read_from_stream s = (Inr (take (length d mod 65536) rest), s')
           \<and> live s' \<and> contents s' = drop (length d mod 65536) rest \<and> breaks s' = breaks s"
proof -
  obtain s1 where s1: "read_exact 2 s = (Inr (put_u16 (of_nat (length d))), s1)" "live s1"
    "contents s1 = rest" "breaks s1 = breaks s"
    using read_exact_full [OF assms(1), of 2] assms(2) by auto
  obtain s2 where s2: "read_exact (length d mod 65536) s1 = (Inr (take (length d mod 65536) rest), s2)"
    "live s2" "contents s2 = drop (length d mod 65536) rest" "breaks s2 = breaks s"
    using read_exact_full [OF s1(2), of "length d mod 65536"] assms(3) s1 by auto
  have "get_u16 (put_u16 (of_nat (length d))) = Some (of_nat (length d), [])"
    using get_put_u16 [of "of_nat (length d)" "[]"] by simp
  then show ?thesis using s1(1) s2 by (simp add: unix_read_from_stream_def frame_size)
qed

text \<open>A stream that ends inside a frame. The first read of a TCP binding may give one byte only: then
  the length is read as that byte and a zero.\<close>

lemma cut_frame:
  assumes "contents s = take k (prepare_data_to_send d)" "k < 2 + length d mod 65536"
  shows "length (contents s) = k" "2 \<le> k \<Longrightarrow> contents s = put_u16 (of_nat (length d)) @ take (k - 2) d"
proof -
  have "length d mod 65536 \<le> length d" by simp
  with assms(2) have "k \<le> length d + 2" by linarith
  then show "length (contents s) = k" using assms(1) by simp
qed (simp add: assms(1) prepare_parts)

lemma tcp_read_short:
  assumes "live s" "breaks s = None" "starts_whole s" and cut: "contents s = take k (prepare_data_to_send d)"
    "k < 2 + length d mod 65536"
  shows "tcp_read_from_stream s = None"
proof -
  have "2 \<le> length (contents s)" using assms(3) by (auto simp: starts_whole_def split: list.splits arrival.splits)
  then have k: "2 \<le> k" using cut_frame(1) [OF cut] by simp
  obtain s1 where s1: "stream_read 2 s = (Inr (put_u16 (of_nat (length d))), s1)" "live s1"
    "contents s1 = take (k - 2) d" "breaks s1 = None"
    using stream_read_header [OF assms(3,1) cut_frame(2) [OF cut k]] assms(2) by auto
  have "length (take (k - 2) d) < length d mod 65536" using cut(2) k by simp
  then show ?thesis
    using read_rest_short [of s1 "length d mod 65536"] s1
    by (simp add: tcp_read_from_stream_def content_length_length_def frame_size)
qed

lemma high_byte: "unat (ucast (drop_bit 8 w) :: u8) = unat (w :: u16) div 256"
proof -
  have "unat (ucast w :: u8) < 256" using unsigned_less [of "ucast w :: u8", where ?'a = nat] by simp
  then show ?thesis using unat_bytes [of w] by linarith
qed

lemma tcp_read_one_byte:
  assumes "live s" "breaks s = None" "\<not> starts_whole s" and cut: "contents s = take k (prepare_data_to_send d)"
    "0 < k" "k < 2 + length d mod 65536" and n: "n = length d mod 65536 div 256 * 256"
  shows "if k - 1 < n then tcp_read_from_stream s = None
    else \<exists>s'. tcp_read_from_stream s = Some (Inr (take n (tl (contents s))), s')
           \<and> contents s' = drop n (tl (contents s))"
proof -
  obtain b t where s: "s = Bytes b # t" "b \<noteq> []" "live t" "breaks t = None"
    using assms(1,2) cut(1) cut_frame(1) [OF cut(1,3)] cut(2) by (cases s rule: contents.cases) auto
  have "length b < 2" using assms(3) s(1) by (simp add: starts_whole_def)
  with s(2) obtain x where b: "b = [x]" by (cases b; cases "tl b") auto
  have c: "x # contents t = take k (prepare_data_to_send d)" using cut(1) s(1) b by simp
  then have x: "x = ucast (drop_bit 8 (of_nat (length d) :: u16))"
    using cut(2) by (cases k) (simp_all add: prepare_parts put_u16_def)
  have "get_size (b @ replicate (2 - length b) 0) = Some n"
    by (simp add: b get_size_two x high_byte frame_size n)
  then have run: "tcp_read_from_stream s = read_rest n [] t"
    by (simp add: tcp_read_from_stream_def content_length_length_def s(1) b)
  have t: "contents t = tl (contents s)" "length (contents t) = k - 1"
    using s(1) b cut_frame(1) [OF cut(1,3)] by simp_all
  show ?thesis
    using read_rest_short [OF _ s(4,3), of n "[]"] read_rest_full [OF s(3), of n "[]"] t
    by (auto simp: run)
qed

lemma unix_read_short:
  assumes "live s" and cut: "contents s = take k (prepare_data_to_send d)" "k < 2 + length d mod 65536"
  shows "\<exists>e s'. unix_read_from_stream s = (Inl e, s')"
proof (cases "k < 2")
  case True
  then have "length (contents s) < 2" using cut_frame(1) [OF cut] by simp
  from read_exact_short [OF assms(1) this] show ?thesis by (auto simp: unix_read_from_stream_def)
next
  case False
  then have c: "contents s = put_u16 (of_nat (length d)) @ take (k - 2) d" using cut_frame(2) [OF cut] by simp
  obtain s2 where s2: "read_exact 2 s = (Inr (put_u16 (of_nat (length d))), s2)" "live s2" "contents s2 = take (k - 2) d"
    using read_exact_full [OF assms(1), of 2] c by auto
  have "length (contents s2) < length d mod 65536" using cut(2) False s2(3) by simp
  from read_exact_short [OF s2(2) this] obtain e s3 where "read_exact (length d mod 65536) s2 = (Inl e, s3)" by blast
  moreover have "get_u16 (put_u16 (of_nat (length d))) = Some (of_nat (length d), [])"
    using get_put_u16 [of "of_nat (length d)" "[]"] by simp
  ultimately show ?thesis using s2(1) by (auto simp: unix_read_from_stream_def frame_size)
qed

lemma read_at_end:
  "live s \<Longrightarrow> contents s = [] \<Longrightarrow> breaks s = None \<Longrightarrow> s = []"
  by (cases s rule: contents.cases) auto

section \<open>A whole connection\<close>

text \<open>What the handler answers to a list of messages.\<close>

definition replies :: "('m \<Rightarrow> u8 list) \<Rightarrow> 'm handler \<Rightarrow> 'm list \<Rightarrow> u8 list" where
  "replies encode handler ms =
     concat (map (\<lambda>m. case handler (encode m) of None \<Rightarrow> [] | Some x \<Rightarrow> prepare_data_to_send (encode x)) ms)"

lemma replies_Cons:
  "replies encode handler (m # ms) =
     (case handler (encode m) of None \<Rightarrow> [] | Some x \<Rightarrow> prepare_data_to_send (encode x))
     @ replies encode handler ms"
  by (simp add: replies_def)

definition frames :: "('m \<Rightarrow> u8 list) \<Rightarrow> 'm list \<Rightarrow> u8 list" where
  "frames encode ms = concat (map (\<lambda>m. prepare_data_to_send (encode m)) ms)"

text \<open>The pieces of one frame, cut anywhere behind its header.\<close>

definition pieces_of :: "u8 list \<Rightarrow> u8 list list \<Rightarrow> bool" where
  "pieces_of d bss \<longleftrightarrow>
     [] \<notin> set bss \<and> concat bss = prepare_data_to_send d \<and> bss \<noteq> [] \<and> 2 \<le> length (hd bss)"

lemma pieces_start: "pieces_of d bss \<Longrightarrow> starts_whole (map Bytes bss @ s)"
  by (cases bss) (auto simp: pieces_of_def starts_whole_def)

lemma live_append [simp]: "live (s @ t) \<longleftrightarrow> live s \<and> live t"
  by (auto simp: live_def)

lemma breaks_map_Bytes [simp]: "breaks (map Bytes bss @ s) = breaks s"
  by (induction bss) auto

lemma read_rest_pieces:
  "[] \<notin> set cs \<Longrightarrow> read_rest (length (concat cs)) buf (map Bytes cs @ s) = Some (Inr (buf @ concat cs), s)"
proof (induction cs arbitrary: buf)
  case (Cons c cs)
  then show ?case
    using Cons.IH [of "buf @ c"] by (auto simp: read_rest.simps [of "length c + length (concat cs)"])
qed (simp add: read_rest.simps)

lemma stream_read_pieces:
  "pieces_of d bss \<Longrightarrow> length d < 65536
   \<Longrightarrow> tcp_read_from_stream (map Bytes bss @ s) = Some (Inr d, s)"
proof -
  assume p: "pieces_of d bss" and d: "length d < 65536"
  obtain b cs where bss: "bss = b # cs" "2 \<le> length b" "[] \<notin> set cs" "b @ concat cs = prepare_data_to_send d"
    using p by (cases bss) (auto simp: pieces_of_def)
  have b: "take 2 b = put_u16 (of_nat (length d))" "drop 2 b @ concat cs = d"
    using header_split [OF bss(2) bss(4) [unfolded prepare_parts]] by simp_all
  show ?thesis
  proof (cases "length b = 2")
    case True
    with b have "b = put_u16 (of_nat (length d))" "concat cs = d" by auto
    with d read_rest_pieces [OF bss(3), of "[]" s] bss(1) show ?thesis
      by (simp add: tcp_read_from_stream_def content_length_length_def frame_size)
  next
    case False
    with bss(2,3) have n: "[] \<notin> set (drop 2 b # cs)" by auto
    from read_rest_pieces [OF n, of "[]" s] b(2)
    have "read_rest (length d) [] (Bytes (drop 2 b) # map Bytes cs @ s) = Some (Inr d, s)" by simp
    with False b(1) d bss(1,2) show ?thesis
      by (simp add: tcp_read_from_stream_def content_length_length_def frame_size)
  qed
qed

lemma tcp_serve_end:
  "c_in c = [] \<Longrightarrow> tcp_serve encode handler c = Some c"
  by (simp add: tcp_serve.simps tcp_read_and_handle_def tcp_read_from_stream_def)

lemma unix_serve_end:
  "c_in c = [] \<Longrightarrow> unix_serve encode handler c = Some c"
  by (simp add: unix_serve.simps unix_read_and_handle_def unix_read_from_stream_def numeral_2_eq_2)

lemma write_ok:
  "c_write_err c = None \<Longrightarrow> write_all bs c = (Inr (), c\<lparr>c_out := c_out c @ bs\<rparr>)"
  by (simp add: write_all_def)

lemma tcp_serve_frames:
  assumes "list_all2 (\<lambda>m bss. pieces_of (encode m) bss) ms pss"
    and "\<forall>m \<in> set ms. length (encode m) < 65536"
    and "c_in c = concat (map (map Bytes) pss)" "c_write_err c = None"
  shows "tcp_serve encode handler c = Some (c\<lparr>c_in := [], c_out := c_out c @ replies encode handler ms\<rparr>)"
  using assms
proof (induction arbitrary: c rule: list_all2_induct)
  case Nil
  then show ?case by (simp add: tcp_serve_end replies_def)
next
  case (Cons m ms bss pss)
  let ?s = "concat (map (map Bytes) pss)"
  have r: "tcp_read_from_stream (c_in c) = Some (Inr (encode m), ?s)"
    using stream_read_pieces [OF Cons.hyps(1), of ?s] Cons.prems by simp
  show ?case
  proof (cases "handler (encode m)")
    case None
    then have "tcp_serve encode handler c = tcp_serve encode handler (c\<lparr>c_in := ?s\<rparr>)"
      using r by (simp add: tcp_serve.simps [of _ _ c] tcp_read_and_handle_def)
    then show ?thesis using Cons.IH [of "c\<lparr>c_in := ?s\<rparr>"] Cons.prems None by (simp add: replies_Cons)
  next
    case (Some x)
    let ?c = "c\<lparr>c_in := ?s, c_out := c_out c @ prepare_data_to_send (encode x)\<rparr>"
    have "tcp_serve encode handler c = tcp_serve encode handler ?c"
      using r Some Cons.prems
      by (simp add: tcp_serve.simps [of _ _ c] tcp_read_and_handle_def tcp_write_to_stream_def write_ok)
    then show ?thesis using Cons.IH [of ?c] Cons.prems Some by (simp add: replies_Cons)
  qed
qed

lemma unix_serve_frames:
  assumes "live (c_in c)" "contents (c_in c) = frames encode ms" "breaks (c_in c) = None"
    and "\<forall>m \<in> set ms. length (encode m) < 65536" "c_write_err c = None"
  shows "unix_serve encode handler c = Some (c\<lparr>c_in := [], c_out := c_out c @ replies encode handler ms\<rparr>)"
  using assms
proof (induction ms arbitrary: c)
  case Nil
  then have "c_in c = []" by (intro read_at_end) (simp_all add: frames_def)
  then show ?case by (simp add: unix_serve_end replies_def)
next
  case (Cons m ms)
  have "contents (c_in c) = put_u16 (of_nat (length (encode m))) @ encode m @ frames encode ms"
    using Cons.prems(2) by (simp add: frames_def prepare_parts)
  from unix_read_frame [OF Cons.prems(1) this] obtain s where
    s: "unix_read_from_stream (c_in c) = (Inr (encode m), s)" "live s" "contents s = frames encode ms"
       "breaks s = None"
    using Cons.prems(3,4) by auto
  show ?case
  proof (cases "handler (encode m)")
    case None
    then have "unix_serve encode handler c = unix_serve encode handler (c\<lparr>c_in := s\<rparr>)"
      using s by (simp add: unix_serve.simps [of _ _ c] unix_read_and_handle_def)
    then show ?thesis using Cons.IH [of "c\<lparr>c_in := s\<rparr>"] Cons.prems s None by (simp add: replies_Cons)
  next
    case (Some x)
    let ?c = "c\<lparr>c_in := s, c_out := c_out c @ prepare_data_to_send (encode x)\<rparr>"
    have "unix_serve encode handler c = unix_serve encode handler ?c"
      using s Some Cons.prems
      by (simp add: unix_serve.simps [of _ _ c] unix_read_and_handle_def unix_write_to_stream_def
          write_ok prepare_parts Let_def)
    then show ?thesis using Cons.IH [of ?c] Cons.prems s Some by (simp add: replies_Cons)
  qed
qed

text \<open>The two loops as clients of the contract: an echo server for a faithful message type gives
  each message back.\<close>

context codec
begin

definition echo :: "'m handler" where
  "echo b = (case decode b of Some (Inr m) \<Rightarrow> Some m | _ \<Rightarrow> None)"

lemma replies_echo: "\<forall>m \<in> set ms. faithful m \<Longrightarrow> replies encode echo ms = frames encode ms"
  by (induction ms) (auto simp: replies_def frames_def echo_def decode_encode)

lemma unix_echo:
  assumes "live (c_in c)" "contents (c_in c) = frames encode ms" "breaks (c_in c) = None"
    and "\<forall>m \<in> set ms. faithful m \<and> length (encode m) < 65536" "c_write_err c = None"
  shows "unix_serve encode echo c = Some (c\<lparr>c_in := [], c_out := c_out c @ frames encode ms\<rparr>)"
  using unix_serve_frames [OF assms(1-3), of echo] assms(4,5) by (simp add: replies_echo)

end

end
