(* ===== verification/Machines.thy ===== *)
theory Machines
  imports Main
begin

text \<open>
  Components that live: a step relation, the states they start in, and what every step keeps. The
  bindings, the emulation manager and the orchestrator are instances.
\<close>

locale step_system =
  fixes step :: "'s \<Rightarrow> 's \<Rightarrow> bool" and starts :: "'s \<Rightarrow> bool" and keeps :: "'s \<Rightarrow> bool"
  assumes start_keeps: "starts s \<Longrightarrow> keeps s"
    and step_keeps: "step s s' \<Longrightarrow> keeps s \<Longrightarrow> keeps s'"
begin

lemma run_keeps: "step\<^sup>*\<^sup>* s s' \<Longrightarrow> keeps s \<Longrightarrow> keeps s'"
  by (induction rule: rtranclp_induct) (auto intro: step_keeps)

lemma reachable_keeps: "starts s \<Longrightarrow> step\<^sup>*\<^sup>* s s' \<Longrightarrow> keeps s'"
  by (blast intro: run_keeps start_keeps)

end

text \<open>A mark that no step of a sound state takes away, once it is set.\<close>

locale marked_system = step_system step starts keeps
  for step :: "'s \<Rightarrow> 's \<Rightarrow> bool" and starts :: "'s \<Rightarrow> bool" and keeps :: "'s \<Rightarrow> bool" +
  fixes mark :: "'s \<Rightarrow> bool"
  assumes step_mark: "step s s' \<Longrightarrow> keeps s \<Longrightarrow> mark s \<Longrightarrow> mark s'"
begin

lemma run_mark: "step\<^sup>*\<^sup>* s s' \<Longrightarrow> keeps s \<Longrightarrow> mark s \<Longrightarrow> mark s'"
proof (induction rule: rtranclp_induct)
  case (step t t')
  then show ?case using run_keeps step_mark by blast
qed

lemma mark_stays: "starts s \<Longrightarrow> step\<^sup>*\<^sup>* s t \<Longrightarrow> mark t \<Longrightarrow> step\<^sup>*\<^sup>* t t' \<Longrightarrow> mark t'"
  by (blast intro: run_mark reachable_keeps)

end

end
