(* ===== verification/Bindings.thy ===== *)
theory Bindings
  imports Framing Machines
begin

text \<open>
  The bindings of \<^verbatim>\<open>nethelper\<close>: \<^verbatim>\<open>TCPBinding\<close> and
  \<^verbatim>\<open>UnixBinding\<close> with their modes, \<^verbatim>\<open>UDPBinding\<close> with its ignore
  list, and the address conversions of \<^verbatim>\<open>common/src/subnet.rs\<close> they use. The outcome
  of a system call is an argument: an error text on the left or its result.
\<close>

section \<open>Addresses\<close>

text \<open>\<^verbatim>\<open>to_socket_addrs\<close> gives an error or the addresses found; the first is taken.\<close>

definition to_socket_addr :: "string + 'a list \<Rightarrow> 'a result" where
  "to_socket_addr resolved =
     (case resolved of
        Inl err \<Rightarrow> Inl (error_wrap ''socket address'' NotASocketAddr
                          ''Cannot convert into a Socket Address'' err)
      | Inr [] \<Rightarrow> Inl (error_new ''socket address'' NotASocketAddr ''No address found'')
      | Inr (a # _) \<Rightarrow> Inr a)"

text \<open>\<^verbatim>\<open>Path::is_absolute\<close>, \<^verbatim>\<open>file_name\<close> and \<^verbatim>\<open>extension\<close>
  of the standard library on an absolute Unix path.\<close>

definition path_is_absolute :: "string \<Rightarrow> bool" where
  "path_is_absolute p \<longleftrightarrow> (case p of c # _ \<Rightarrow> c = CHR ''/'' | [] \<Rightarrow> False)"

definition path_file_name :: "string \<Rightarrow> string option" where
  "path_file_name p =
     (case rev (filter (\<lambda>w. w \<noteq> [] \<and> w \<noteq> ''.'') (split_on CHR ''/'' p)) of
        [] \<Rightarrow> None | w # _ \<Rightarrow> if w = ''..'' then None else Some w)"

definition path_extension :: "string \<Rightarrow> string option" where
  "path_extension p =
     (case path_file_name p of
        None \<Rightarrow> None
      | Some file \<Rightarrow>
          (case rev (split_on CHR ''.'' file) of
             after # before # others \<Rightarrow> if others = [] \<and> before = [] then None else Some after
           | _ \<Rightarrow> None))"

text \<open>\<^verbatim>\<open>extension().unwrap()\<close> panics on an absolute path without extension.\<close>

definition check_is_socket :: "string \<Rightarrow> string option option" where
  "check_is_socket val =
     (if path_is_absolute val
      then (case path_extension val of
              None \<Rightarrow> None
            | Some ext \<Rightarrow> if ext = ''sock'' then Some (Some val) else Some None)
      else Some None)"

section \<open>TCP bindings\<close>

datatype mode = ModeNone | Connected conn | Listening

record 'm tcp_binding =
  b_mode :: mode
  b_handler :: "'m handler option"
  b_socket :: bool
  b_close :: bool

text \<open>\<^verbatim>\<open>socket_ok\<close> is the outcome of the creation of the socket.\<close>

definition tcp_bind_addr ::
  "string + unit \<Rightarrow> 'a result \<Rightarrow> ('a \<Rightarrow> string + unit) \<Rightarrow> 'm handler option \<Rightarrow> 'm tcp_binding result" where
  "tcp_bind_addr socket_ok addr os_bind handler =
     (case socket_ok of
        Inl e \<Rightarrow> Inl (error_from e)
      | Inr _ \<Rightarrow>
          (case addr of
             Inl e \<Rightarrow> Inl e
           | Inr a \<Rightarrow>
               (case os_bind a of
                  Inl e \<Rightarrow> Inl (error_from e)
                | Inr _ \<Rightarrow> Inr \<lparr>b_mode = ModeNone, b_handler = handler, b_socket = True, b_close = False\<rparr>)))"

definition tcp_set_handler :: "'m handler \<Rightarrow> 'm tcp_binding \<Rightarrow> 'm tcp_binding" where
  "tcp_set_handler h b = b\<lparr>b_handler := Some h\<rparr>"

definition tcp_connect ::
  "'a result \<Rightarrow> ('a \<Rightarrow> string + conn) \<Rightarrow> 'm tcp_binding \<Rightarrow> unit result \<times> 'm tcp_binding" where
  "tcp_connect addr os_connect b =
     (case b_mode b of
        ModeNone \<Rightarrow>
          if \<not> b_socket b
          then (Inl (tcp_err NoResource ''[TCPBinding] No socket found in TCP Binding... weird''), b)
          else let b = b\<lparr>b_socket := False\<rparr>
               in (case addr of
                     Inl e \<Rightarrow> (Inl e, b)
                   | Inr a \<Rightarrow>
                       (case os_connect a of
                          Inl e \<Rightarrow> (Inl (error_from e), b)
                        | Inr c \<Rightarrow> (Inr (), b\<lparr>b_mode := Connected c\<rparr>)))
      | _ \<Rightarrow> (Inl (tcp_err BadMode ''Binding already in a mode''), b))"

definition tcp_get_stream :: "'m tcp_binding \<Rightarrow> conn result" where
  "tcp_get_stream b =
     (case b_mode b of
        Connected c \<Rightarrow> Inr c
      | _ \<Rightarrow> Inl (tcp_err BadMode ''Binding not in good mode''))"

definition tcp_send :: "('m \<Rightarrow> u8 list) \<Rightarrow> 'm \<Rightarrow> 'm tcp_binding \<Rightarrow> unit result \<times> 'm tcp_binding" where
  "tcp_send encode m b =
     (case tcp_get_stream b of
        Inl e \<Rightarrow> (Inl e, b)
      | Inr c \<Rightarrow> (let (r, c') = tcp_write_to_stream encode m c in (r, b\<lparr>b_mode := Connected c'\<rparr>)))"

definition tcp_send_to ::
  "('m \<Rightarrow> u8 list) \<Rightarrow> 'm \<Rightarrow> 'a result \<Rightarrow> ('a \<Rightarrow> string + conn) \<Rightarrow> 'm tcp_binding
   \<Rightarrow> unit result \<times> 'm tcp_binding" where
  "tcp_send_to encode m addr os_connect b =
     (if b_mode b = ModeNone
      then (case tcp_connect addr os_connect b of
              (Inl e, b') \<Rightarrow> (Inl e, b')
            | (Inr _, b') \<Rightarrow> tcp_send encode m b')
      else tcp_send encode m b)"

text \<open>\<^verbatim>\<open>None\<close> is a read that never returns.\<close>

definition tcp_receive_with ::
  "('m \<Rightarrow> u8 list) \<Rightarrow> 'm handler \<Rightarrow> 'm tcp_binding \<Rightarrow> (unit result \<times> 'm tcp_binding) option" where
  "tcp_receive_with encode h b =
     (case tcp_get_stream b of
        Inl e \<Rightarrow> Some (Inl e, b)
      | Inr c \<Rightarrow>
          (case tcp_read_and_handle encode h c of
             None \<Rightarrow> None
           | Some (r, c') \<Rightarrow> Some (r, b\<lparr>b_mode := Connected c'\<rparr>)))"

definition tcp_receive_once ::
  "('m \<Rightarrow> u8 list) \<Rightarrow> 'm handler \<Rightarrow> 'm tcp_binding \<Rightarrow> (unit result \<times> 'm tcp_binding) option" where
  "tcp_receive_once encode handler_once b = tcp_receive_with encode handler_once b"

definition tcp_receive ::
  "('m \<Rightarrow> u8 list) \<Rightarrow> 'm tcp_binding \<Rightarrow> (unit result \<times> 'm tcp_binding) option" where
  "tcp_receive encode b =
     (case b_handler b of
        None \<Rightarrow> Some (Inl (tcp_err BadMode ''[TCPBinding]: Not in good mode''), b)
      | Some h \<Rightarrow> tcp_receive_with encode h b)"

text \<open>The accept loop that \<^verbatim>\<open>listen\<close> spawns serves each connection by
  \<^verbatim>\<open>tcp_serve\<close>.\<close>

definition tcp_listen :: "string + unit \<Rightarrow> 'm tcp_binding \<Rightarrow> unit result \<times> 'm tcp_binding" where
  "tcp_listen os_listen b =
     (case b_handler b of
        None \<Rightarrow> (Inl (tcp_err NoResource ''[TCPBinding] : Cannot start listening without handler''), b)
      | Some _ \<Rightarrow>
          (case b_mode b of
             ModeNone \<Rightarrow>
               if \<not> b_socket b
               then (Inl (tcp_err NoResource ''[TCPBinding] No socket found in TCP Binding... weird''), b)
               else let b = b\<lparr>b_socket := False\<rparr>
                    in (case os_listen of
                          Inl e \<Rightarrow> (Inl (error_from e), b)
                        | Inr _ \<Rightarrow> (Inr (), b\<lparr>b_close := True, b_mode := Listening\<rparr>))
           | _ \<Rightarrow> (Inl (tcp_err BadMode ''Binding already in a mode''), b)))"

text \<open>\<^verbatim>\<open>Drop\<close>: closes the accept loop; a panic when there is no channel, or when the loop
  has already ended (\<^verbatim>\<open>alive\<close> is false).\<close>

definition tcp_drop :: "bool \<Rightarrow> 'm tcp_binding \<Rightarrow> unit option" where
  "tcp_drop alive b = (if b_mode b = Listening then (if b_close b \<and> alive then Some () else None) else Some ())"

section \<open>Unix bindings\<close>

record 'm unix_binding =
  x_path :: string
  x_mode :: mode
  x_handler :: "'m handler option"
  x_close :: bool

definition unix_bind_addr :: "string option \<Rightarrow> 'm handler option \<Rightarrow> 'm unix_binding result" where
  "unix_bind_addr path handler =
     (case path of
        None \<Rightarrow> Inl (error_new ''nethelper unix socket'' InvalidData
                       ''The address given cannot be converted in unix socket'')
      | Some p \<Rightarrow> Inr \<lparr>x_path = p, x_mode = ModeNone, x_handler = handler, x_close = False\<rparr>)"

definition unix_bind :: "'m handler option \<Rightarrow> 'm unix_binding result" where
  "unix_bind handler =
     Inl (error_new ''nethelper unix socket'' Unsupported
            ''You cannot bind unix socket without giving the path'')"

definition unix_set_handler :: "'m handler \<Rightarrow> 'm unix_binding \<Rightarrow> 'm unix_binding" where
  "unix_set_handler h b = b\<lparr>x_handler := Some h\<rparr>"

definition unix_connect :: "(string \<Rightarrow> string + conn) \<Rightarrow> 'm unix_binding \<Rightarrow> unit result \<times> 'm unix_binding" where
  "unix_connect os_connect b =
     (case x_mode b of
        ModeNone \<Rightarrow>
          (case os_connect (x_path b) of
             Inl e \<Rightarrow> (Inl (error_from e), b)
           | Inr c \<Rightarrow> (Inr (), b\<lparr>x_mode := Connected c\<rparr>))
      | _ \<Rightarrow> (Inl (tcp_err BadMode ''Binding already in a mode''), b))"

definition unix_get_stream :: "'m unix_binding \<Rightarrow> conn result" where
  "unix_get_stream b =
     (case x_mode b of
        Connected c \<Rightarrow> Inr c
      | _ \<Rightarrow> Inl (tcp_err BadMode ''Binding not in good mode''))"

definition unix_send :: "('m \<Rightarrow> u8 list) \<Rightarrow> 'm \<Rightarrow> 'm unix_binding \<Rightarrow> unit result \<times> 'm unix_binding" where
  "unix_send encode m b =
     (case unix_get_stream b of
        Inl e \<Rightarrow> (Inl e, b)
      | Inr c \<Rightarrow> (let (r, c') = unix_write_to_stream encode m c in (r, b\<lparr>x_mode := Connected c'\<rparr>)))"

definition unix_send_to ::
  "('m \<Rightarrow> u8 list) \<Rightarrow> 'm \<Rightarrow> (string \<Rightarrow> string + conn) \<Rightarrow> 'm unix_binding \<Rightarrow> unit result \<times> 'm unix_binding" where
  "unix_send_to encode m os_connect b =
     (if x_mode b = ModeNone
      then (case unix_connect os_connect b of
              (Inl e, b') \<Rightarrow> (Inl e, b')
            | (Inr _, b') \<Rightarrow> unix_send encode m b')
      else unix_send encode m b)"

definition unix_receive :: "('m \<Rightarrow> u8 list) \<Rightarrow> 'm unix_binding \<Rightarrow> unit result \<times> 'm unix_binding" where
  "unix_receive encode b =
     (case x_handler b of
        None \<Rightarrow> (Inl (tcp_err BadMode ''Binding already in a mode''), b)
      | Some h \<Rightarrow>
          (case unix_get_stream b of
             Inl e \<Rightarrow> (Inl e, b)
           | Inr c \<Rightarrow> (let (r, c') = unix_read_and_handle encode h c in (r, b\<lparr>x_mode := Connected c'\<rparr>))))"

text \<open>\<^verbatim>\<open>expect\<close> on the handler panics.\<close>

definition unix_listen ::
  "(string \<Rightarrow> string + unit) \<Rightarrow> 'm unix_binding \<Rightarrow> (unit result \<times> 'm unix_binding) option" where
  "unix_listen os_bind b =
     (case x_handler b of
        None \<Rightarrow> None
      | Some _ \<Rightarrow>
          (case x_mode b of
             ModeNone \<Rightarrow>
               (case os_bind (x_path b) of
                  Inl e \<Rightarrow> Some (Inl (error_from e), b)
                | Inr _ \<Rightarrow> Some (Inr (), b\<lparr>x_close := True, x_mode := Listening\<rparr>))
           | _ \<Rightarrow> Some (Inl (tcp_err BadMode ''Binding already in a mode''), b)))"

text \<open>\<^verbatim>\<open>Drop\<close>: the channel must be there and the accept loop alive; the file of the
  socket is deleted (\<^verbatim>\<open>Some True\<close>) when it exists.\<close>

definition unix_drop :: "bool \<Rightarrow> (string \<Rightarrow> bool) \<Rightarrow> 'm unix_binding \<Rightarrow> bool option" where
  "unix_drop alive path_exists b =
     (if x_mode b = Listening
      then (if x_close b \<and> alive then Some (path_exists (x_path b)) else None)
      else Some False)"

section \<open>The default handler\<close>

text \<open>A message that cannot be parsed panics, and so does a closed channel; the answer is that of
  the controller, none when it drops the request.\<close>

definition default_handle ::
  "(u8 list \<Rightarrow> 'm result option) \<Rightarrow> ('m \<Rightarrow> 'm option option) option \<Rightarrow> u8 list \<Rightarrow> 'm option option" where
  "default_handle decode controller bytes =
     (case decode bytes of
        Some (Inr message) \<Rightarrow>
          (case controller of
             None \<Rightarrow> None
           | Some answer \<Rightarrow> Some (case answer message of None \<Rightarrow> None | Some v \<Rightarrow> v))
      | _ \<Rightarrow> None)"

section \<open>UDP bindings\<close>

record ('m, 'a) udp_binding =
  u_handler :: "'m handler option"
  u_ignore :: "'a list"

definition udp_err :: "error_kind \<Rightarrow> string \<Rightarrow> error" where
  "udp_err k m = error_new ''udp binding'' k m"

definition udp_bind_addr ::
  "'a result \<Rightarrow> ('a \<Rightarrow> string + unit) \<Rightarrow> 'm handler option \<Rightarrow> ('m, 'a) udp_binding result" where
  "udp_bind_addr addr os_bind handler =
     (case addr of
        Inl e \<Rightarrow> Inl e
      | Inr a \<Rightarrow>
          (case os_bind a of
             Inl e \<Rightarrow> Inl (error_from e)
           | Inr _ \<Rightarrow> Inr \<lparr>u_handler = handler, u_ignore = []\<rparr>))"

text \<open>\<^verbatim>\<open>to_socket_addr().unwrap()\<close> panics on an error.\<close>

definition udp_ignore :: "'a result \<Rightarrow> ('m, 'a) udp_binding \<Rightarrow> ('m, 'a) udp_binding option" where
  "udp_ignore val b =
     (case val of Inl _ \<Rightarrow> None | Inr a \<Rightarrow> Some (b\<lparr>u_ignore := hs_insert (=) a (u_ignore b)\<rparr>))"

definition udp_stop_ignoring :: "'a result \<Rightarrow> ('m, 'a) udp_binding \<Rightarrow> ('m, 'a) udp_binding option" where
  "udp_stop_ignoring val b =
     (case val of Inl _ \<Rightarrow> None | Inr a \<Rightarrow> Some (b\<lparr>u_ignore := hs_remove (=) a (u_ignore b)\<rparr>))"

definition udp_set_handler :: "'m handler \<Rightarrow> ('m, 'a) udp_binding \<Rightarrow> ('m, 'a) udp_binding" where
  "udp_set_handler h b = b\<lparr>u_handler := Some h\<rparr>"

text \<open>\<^verbatim>\<open>os_send\<close> says how many bytes went out; the second result is the
  datagrams that left.\<close>

type_synonym 'a datagram = "u8 list \<times> 'a"

definition udp_send_to ::
  "(u8 list \<Rightarrow> 'a \<Rightarrow> string + nat) \<Rightarrow> ('m \<Rightarrow> u8 list) \<Rightarrow> 'm \<Rightarrow> 'a result
   \<Rightarrow> unit result \<times> 'a datagram list" where
  "udp_send_to os_send encode to_send addr =
     (let buf = prepare_data_to_send (encode to_send)
      in case addr of
           Inl e \<Rightarrow> (Inl e, [])
         | Inr a \<Rightarrow>
             (case os_send buf a of
                Inl e \<Rightarrow> (Inl (error_from e), [])
              | Inr sent \<Rightarrow>
                  if sent < length buf
                  then (Inl (udp_err BadWrite ''not all the bytes where sent''), [(take sent buf, a)])
                  else (Inr (), [(buf, a)])))"

text \<open>\<^verbatim>\<open>send\<close> on a socket without a peer: the system refuses or takes the bytes; how
  many is not checked.\<close>

definition udp_send :: "(u8 list \<Rightarrow> string + nat) \<Rightarrow> ('m \<Rightarrow> u8 list) \<Rightarrow> 'm \<Rightarrow> unit result" where
  "udp_send os_send encode to_send =
     (case os_send (prepare_data_to_send (encode to_send)) of Inl e \<Rightarrow> Inl (error_from e) | Inr _ \<Rightarrow> Inr ())"

text \<open>The flag is set and read back; a socket that still refuses to broadcast panics.\<close>

definition udp_broadcast ::
  "string + unit \<Rightarrow> string + bool \<Rightarrow> (u8 list \<Rightarrow> 'a \<Rightarrow> string + nat) \<Rightarrow> ('m \<Rightarrow> u8 list) \<Rightarrow> 'm \<Rightarrow> 'a result
   \<Rightarrow> (unit result \<times> 'a datagram list) option" where
  "udp_broadcast set_flag get_flag os_send encode m broadcast_addr =
     (case (set_flag, get_flag) of
        (Inl e, _) \<Rightarrow> Some (Inl (error_from e), [])
      | (Inr _, Inl e) \<Rightarrow> Some (Inl (error_from e), [])
      | (Inr _, Inr on) \<Rightarrow> if on then Some (udp_send_to os_send encode m broadcast_addr) else None)"

text \<open>A datagram read into a buffer of \<^verbatim>\<open>n\<close> zero bytes.\<close>

definition datagram_into :: "nat \<Rightarrow> u8 list \<Rightarrow> u8 list" where
  "datagram_into n d = take n d @ replicate (n - length d) 0"

text \<open>One datagram: what is peeked and what is received are the same; the answer that goes back
  to the source, if any.\<close>

definition udp_receive_and_handle ::
  "(u8 list \<Rightarrow> 'a \<Rightarrow> string + nat) \<Rightarrow> ('m \<Rightarrow> u8 list) \<Rightarrow> 'm handler \<Rightarrow> 'a list \<Rightarrow> 'a datagram
   \<Rightarrow> (unit result \<times> 'a datagram list) option" where
  "udp_receive_and_handle os_send encode handler ignored datagram =
     (let (d, addr) = datagram
      in case get_size (datagram_into 2 d) of
           None \<Rightarrow> None
         | Some n \<Rightarrow>
             (let buf = drop content_length_length (datagram_into (n + content_length_length) d)
              in if \<not> hs_contains (=) ignored addr
                 then (case handler buf of
                         None \<Rightarrow> Some (Inr (), [])
                       | Some x \<Rightarrow> Some (udp_send_to os_send encode x (Inr addr)))
                 else Some (Inr (), [])))"

definition udp_receive ::
  "(u8 list \<Rightarrow> 'a \<Rightarrow> string + nat) \<Rightarrow> ('m \<Rightarrow> u8 list) \<Rightarrow> 'a datagram \<Rightarrow> ('m, 'a) udp_binding
   \<Rightarrow> (unit result \<times> 'a datagram list) option" where
  "udp_receive os_send encode datagram b =
     (case u_handler b of
        None \<Rightarrow> Some (Inl (udp_err NoResource
                  ''[UDPBinding] Cannot begin to listen if there is no Handler.''), [])
      | Some h \<Rightarrow> udp_receive_and_handle os_send encode h (u_ignore b) datagram)"

text \<open>The receiving task of \<^verbatim>\<open>listen\<close> over the datagrams that arrive: it works on the
  ignore list of the moment it started and ends at the first error.\<close>

fun udp_listen_loop ::
  "(u8 list \<Rightarrow> 'a \<Rightarrow> string + nat) \<Rightarrow> ('m \<Rightarrow> u8 list) \<Rightarrow> 'm handler \<Rightarrow> 'a list \<Rightarrow> 'a datagram list
   \<Rightarrow> 'a datagram list option" where
  "udp_listen_loop os_send encode handler ignored [] = Some []"
| "udp_listen_loop os_send encode handler ignored (d # ds) =
     (case udp_receive_and_handle os_send encode handler ignored d of
        None \<Rightarrow> None
      | Some (Inl e, out) \<Rightarrow> Some out
      | Some (Inr _, out) \<Rightarrow>
          (case udp_listen_loop os_send encode handler ignored ds of
             None \<Rightarrow> None | Some rest \<Rightarrow> Some (out @ rest)))"

section \<open>The life of a TCP binding\<close>

text \<open>The calls on a binding, with whatever the system answers; an address is its text.\<close>

inductive tcp_step :: "'m tcp_binding \<Rightarrow> 'm tcp_binding \<Rightarrow> bool" where
  set_handler: "tcp_step b (tcp_set_handler h b)"
| connect: "tcp_connect (addr :: string result) os b = (r, b') \<Longrightarrow> tcp_step b b'"
| listen: "tcp_listen os b = (r, b') \<Longrightarrow> tcp_step b b'"
| send: "tcp_send encode m b = (r, b') \<Longrightarrow> tcp_step b b'"
| send_to: "tcp_send_to encode m (addr :: string result) os b = (r, b') \<Longrightarrow> tcp_step b b'"
| receive: "tcp_receive encode b = Some (r, b') \<Longrightarrow> tcp_step b b'"
| receive_once: "tcp_receive_once encode h b = Some (r, b') \<Longrightarrow> tcp_step b b'"

definition tcp_fresh :: "'m tcp_binding \<Rightarrow> bool" where
  "tcp_fresh b \<longleftrightarrow> b_mode b = ModeNone \<and> b_socket b \<and> \<not> b_close b"

text \<open>The socket is taken exactly once, by the call that gives the binding its mode; the channel
  that closes the accept loop exists exactly while listening.\<close>

definition tcp_inv :: "'m tcp_binding \<Rightarrow> bool" where
  "tcp_inv b \<longleftrightarrow> (b_socket b \<longrightarrow> b_mode b = ModeNone) \<and> (b_close b \<longleftrightarrow> b_mode b = Listening)"

lemmas tcp_call_defs = tcp_set_handler_def tcp_connect_def tcp_listen_def tcp_send_def
  tcp_send_to_def tcp_receive_def tcp_receive_once_def tcp_receive_with_def tcp_get_stream_def Let_def

lemmas call_splits = if_splits mode.splits sum.splits option.splits prod.splits

lemma tcp_inv_connect: "tcp_inv b \<Longrightarrow> tcp_inv (snd (tcp_connect addr os b))"
  by (auto simp: tcp_connect_def tcp_inv_def Let_def split: call_splits)

lemma tcp_inv_send: "tcp_inv b \<Longrightarrow> tcp_inv (snd (tcp_send encode m b))"
  by (auto simp: tcp_send_def tcp_get_stream_def tcp_inv_def split: call_splits)

lemma tcp_inv_receive_with:
  "tcp_inv b \<Longrightarrow> tcp_receive_with encode h b = Some (r, b') \<Longrightarrow> tcp_inv b'"
  by (auto simp: tcp_receive_with_def tcp_get_stream_def tcp_inv_def split: call_splits)

lemma tcp_step_inv: "tcp_step b b' \<Longrightarrow> tcp_inv b \<Longrightarrow> tcp_inv b'"
proof (induction rule: tcp_step.induct)
  case (set_handler b h)
  then show ?case by (simp add: tcp_set_handler_def tcp_inv_def)
next
  case (connect addr os b r b')
  then show ?case using tcp_inv_connect [of b addr os] by simp
next
  case (listen os b r b')
  then show ?case by (auto simp: tcp_listen_def tcp_inv_def Let_def split: call_splits)
next
  case (send encode m b r b')
  then show ?case using tcp_inv_send [of b encode m] by simp
next
  case (send_to encode m addr os b r b')
  then show ?case
    using tcp_inv_connect [of b addr os] tcp_inv_send [of _ encode m]
    by (auto simp: tcp_send_to_def split: call_splits) (metis snd_conv)+
next
  case (receive encode b r b')
  then show ?case using tcp_inv_receive_with by (fastforce simp: tcp_receive_def split: call_splits)
next
  case (receive_once encode h b r b')
  then show ?case using tcp_inv_receive_with by (simp add: tcp_receive_once_def)
qed

text \<open>A mode is never left: a listening binding stays listening.\<close>

lemma tcp_step_listening: "tcp_step b b' \<Longrightarrow> b_mode b = Listening \<Longrightarrow> b_mode b' = Listening"
  by (induction rule: tcp_step.induct) (auto simp: tcp_call_defs split: call_splits)

lemma tcp_fresh_inv: "tcp_fresh b \<Longrightarrow> tcp_inv b"
  by (simp add: tcp_fresh_def tcp_inv_def)

interpretation tcp_life: marked_system tcp_step tcp_fresh tcp_inv "\<lambda>b. b_mode b = Listening"
  by unfold_locales (rule tcp_fresh_inv tcp_step_inv tcp_step_listening; assumption)+

end
