(* ===== verification/Listeners.thy ===== *)
theory Listeners
  imports Bindings Machines
begin

text \<open>
  The task that \<^verbatim>\<open>listen\<close> starts for a TCP and for a Unix binding
  (\<^verbatim>\<open>nethelper/src/tcp.rs\<close>, \<^verbatim>\<open>nethelper/src/unix.rs\<close>): it accepts connections,
  each of which is served by a task of its own, and keeps for each a channel to stop it. A channel
  that is dropped unused stops its task as well. What the task of a connection does while it
  serves is in \<^verbatim>\<open>Framing\<close>; here only its beginning and its end count.
\<close>

section \<open>State\<close>

text \<open>A connection is served; or its channel has resolved, and the task stops when it is next
  scheduled; or its task is over.\<close>

datatype serving = Serving | Stopping | Over

record listener =
  ln_accepting :: bool
  ln_chans :: "serving list"

definition listener_new :: listener where
  "listener_new = \<lparr>ln_accepting = True, ln_chans = []\<rparr>"

definition let_go :: "serving list \<Rightarrow> serving list" where
  "let_go chans = map (\<lambda>c. if c = Over then Over else Stopping) chans"

section \<open>The accept loop\<close>

text \<open>\<^verbatim>\<open>listener.accept().await?\<close>: an error leaves the loop, and with it the channels.\<close>

definition ln_accept :: "string + unit \<Rightarrow> listener \<Rightarrow> listener" where
  "ln_accept os l =
     (case os of
        Inr _ \<Rightarrow> l\<lparr>ln_chans := ln_chans l @ [Serving]\<rparr>
      | Inl _ \<Rightarrow> \<lparr>ln_accepting = False, ln_chans = let_go (ln_chans l)\<rparr>)"

text \<open>The task of a connection ends: its peer has closed it, or it was told to stop.\<close>

definition ln_over :: "nat \<Rightarrow> listener \<Rightarrow> listener" where
  "ln_over i l = l\<lparr>ln_chans := (ln_chans l)[i := Over]\<rparr>"

text \<open>The loop over the channels when the binding is closed. On TCP the result of a send is
  unwrapped, and the receiver of a connection that is over is gone.\<close>

fun tcp_tell_all :: "serving list \<Rightarrow> serving list \<times> unit option" where
  "tcp_tell_all [] = ([], Some ())"
| "tcp_tell_all (Over # chans) = (Over # let_go chans, None)"
| "tcp_tell_all (_ # chans) = (let (chans', r) = tcp_tell_all chans in (Stopping # chans', r))"

fun unix_tell_all :: "serving list \<Rightarrow> serving list" where
  "unix_tell_all [] = []"
| "unix_tell_all (Over # chans) = Over # unix_tell_all chans"
| "unix_tell_all (_ # chans) = Stopping # unix_tell_all chans"

definition tcp_ln_close :: "listener \<Rightarrow> listener \<times> unit option" where
  "tcp_ln_close l = (let (chans, r) = tcp_tell_all (ln_chans l) in (\<lparr>ln_accepting = False, ln_chans = chans\<rparr>, r))"

definition unix_ln_close :: "listener \<Rightarrow> listener" where
  "unix_ln_close l = \<lparr>ln_accepting = False, ln_chans = unix_tell_all (ln_chans l)\<rparr>"

section \<open>The life of the task\<close>

inductive ln_step :: "listener \<Rightarrow> listener \<Rightarrow> bool" where
  accept: "ln_accepting l \<Longrightarrow> ln_step l (ln_accept os l)"
| over: "i < length (ln_chans l) \<Longrightarrow> ln_step l (ln_over i l)"
| close_tcp: "ln_accepting l \<Longrightarrow> ln_step l (fst (tcp_ln_close l))"
| close_unix: "ln_accepting l \<Longrightarrow> ln_step l (unix_ln_close l)"

definition ln_inv :: "listener \<Rightarrow> bool" where
  "ln_inv l \<longleftrightarrow> (if ln_accepting l then Stopping \<notin> set (ln_chans l) else Serving \<notin> set (ln_chans l))"

lemma serving_cases: "c = Serving \<or> c = Stopping \<or> c = Over"
  by (cases c) auto

lemma let_go_no_serving [simp]: "Serving \<notin> set (let_go chans)"
  by (auto simp: let_go_def split: if_splits)

lemma unix_tell_all_let_go: "unix_tell_all chans = let_go chans"
  by (induction chans rule: unix_tell_all.induct) (auto simp: let_go_def)

lemma tcp_tell_all_let_go: "fst (tcp_tell_all chans) = let_go chans"
  by (induction chans rule: tcp_tell_all.induct) (auto simp: let_go_def split: prod.splits)

lemma tcp_tell_all_panics: "snd (tcp_tell_all chans) = None \<longleftrightarrow> Over \<in> set chans"
  by (induction chans rule: tcp_tell_all.induct) (auto split: prod.splits)

lemma tcp_close_state: "fst (tcp_ln_close l) = unix_ln_close l"
  using tcp_tell_all_let_go[of "ln_chans l"]
  by (simp add: tcp_ln_close_def unix_ln_close_def unix_tell_all_let_go case_prod_beta)

lemma tcp_close_panics: "snd (tcp_ln_close l) = None \<longleftrightarrow> Over \<in> set (ln_chans l)"
  using tcp_tell_all_panics[of "ln_chans l"] by (simp add: tcp_ln_close_def case_prod_beta)

lemma unix_close_inv: "ln_inv (unix_ln_close l)"
  by (simp add: ln_inv_def unix_ln_close_def unix_tell_all_let_go)

lemma ln_step_inv: "ln_step l l' \<Longrightarrow> ln_inv l \<Longrightarrow> ln_inv l'"
proof (induction rule: ln_step.induct)
  case (accept l os)
  then show ?case by (auto simp: ln_accept_def ln_inv_def split: sum.split)
next
  case (over i l)
  then show ?case using set_update_subset_insert[of "ln_chans l" i Over] by (auto simp: ln_over_def ln_inv_def)
qed (simp_all add: tcp_close_state unix_close_inv)

lemma ln_step_closed: "ln_step l l' \<Longrightarrow> \<not> ln_accepting l \<Longrightarrow> \<not> ln_accepting l'"
  by (induction rule: ln_step.induct) (auto simp: ln_over_def)

interpretation lner: marked_system ln_step "\<lambda>l. l = listener_new" ln_inv "\<lambda>l. \<not> ln_accepting l"
proof
  fix l l'
  show "l = listener_new \<Longrightarrow> ln_inv l" by (simp add: listener_new_def ln_inv_def)
  show "ln_step l l' \<Longrightarrow> ln_inv l \<Longrightarrow> ln_inv l'" by (rule ln_step_inv)
  show "ln_step l l' \<Longrightarrow> ln_inv l \<Longrightarrow> \<not> ln_accepting l \<Longrightarrow> \<not> ln_accepting l'" by (rule ln_step_closed)
qed

text \<open>Once the loop is over no connection is accepted, and none that was told to stop is served
  again; the connections stay in the order of their acceptance.\<close>

lemma closed_serves_nobody:
  assumes "ln_step\<^sup>*\<^sup>* listener_new l" "\<not> ln_accepting l" "ln_step\<^sup>*\<^sup>* l l'"
  shows "\<not> ln_accepting l' \<and> Serving \<notin> set (ln_chans l')"
proof -
  have inv: "ln_inv l" by (rule lner.reachable_keeps[OF refl assms(1)])
  have "\<not> ln_accepting l'" by (rule lner.run_mark[OF assms(3) inv assms(2)])
  moreover have "ln_inv l'" by (rule lner.run_keeps[OF assms(3) inv])
  ultimately show ?thesis by (simp add: ln_inv_def)
qed

end
