(* ===== verification/Subnet.thy ===== *)
theory Subnet
  imports Common Text
begin

unbundle bit_operations_syntax

text \<open>
  Masks and subnets (\<^verbatim>\<open>common/src/subnet.rs\<close>): the parsers, the CIDR prefix of a
  mask and the printers. The parsers panic on a bad text; \<^verbatim>\<open>Ipv4Addr::from_str\<close> and
  its \<^verbatim>\<open>Display\<close> are those of the standard library.
\<close>

section \<open>IPv4 texts\<close>

definition octet_parse :: "string \<Rightarrow> nat option" where
  "octet_parse s =
     (if s = [] \<or> 3 < length s \<or> (hd s = CHR ''0'' \<and> 1 < length s) then None
      else case digits_val 0 s of None \<Rightarrow> None | Some n \<Rightarrow> if n < 256 then Some n else None)"

definition ipv4_from_str :: "string \<Rightarrow> ipv4 option" where
  "ipv4_from_str s =
     (let parts = split_on CHR ''.'' s
      in if length parts \<noteq> 4 then None
         else map_option (map of_nat) (map_opt octet_parse parts))"

definition ipv4_display :: "ipv4 \<Rightarrow> string" where
  "ipv4_display a = join_with ''.'' (map (\<lambda>b. show_nat (unat b)) a)"

section \<open>Masks\<close>

type_synonym ip_mask = "u8 list"

definition ip_mask_display :: "ip_mask \<Rightarrow> string" where
  "ip_mask_display bytes = join_with ''.'' (map (\<lambda>b. show_nat (unat b)) bytes)"

text \<open>The inner loop counts the zero bits of a byte from the low end; the flag is the
  \<^verbatim>\<open>break 'external\<close>.\<close>

fun cidr_inner :: "nat \<Rightarrow> u8 \<Rightarrow> nat \<Rightarrow> u8 \<Rightarrow> u8 \<times> bool" where
  "cidr_inner 0 b bit_count zeros_count = (zeros_count, False)"
| "cidr_inner (Suc n) b bit_count zeros_count =
     (if drop_bit bit_count b AND 1 = 0 then cidr_inner n b (bit_count + 1) (zeros_count + 1)
      else (zeros_count, True))"

fun cidr_outer :: "u8 list \<Rightarrow> u8 \<Rightarrow> u8" where
  "cidr_outer [] zeros_count = zeros_count"
| "cidr_outer (b # bs) zeros_count =
     (case cidr_inner 8 b 0 zeros_count of
        (z, True) \<Rightarrow> z
      | (z, False) \<Rightarrow> cidr_outer bs z)"

definition to_cidr :: "ip_mask \<Rightarrow> u8" where
  "to_cidr bytes = 32 - cidr_outer (rev bytes) 0"

definition ip_mask_from_str :: "string \<Rightarrow> ip_mask option" where
  "ip_mask_from_str value =
     (let parts = split_on CHR ''.'' value
      in if length parts \<noteq> 4 then None
         else map_option (map of_nat) (map_opt (parse_uint 8) parts))"

section \<open>Subnets\<close>

record subnet =
  sn_ip :: ipv4
  sn_mask :: ip_mask

text \<open>One turn of the loop that sets the bits of the msk.\<close>

definition mask_step :: "nat \<Rightarrow> ip_mask \<times> nat \<Rightarrow> (ip_mask \<times> nat) option" where
  "mask_step i st =
     (let (msk, mask_index) = st;
          mask_index = (if i \<noteq> 0 \<and> i mod 8 = 0 then mask_index + 1 else mask_index)
      in case get_at msk mask_index of
           None \<Rightarrow> None
         | Some m \<Rightarrow>
             map_option (\<lambda>msk. (msk, mask_index))
               (set_at msk mask_index (m OR drop_bit (i mod 8) 128)))"

definition subnet_from_pair :: "string \<Rightarrow> u8 \<Rightarrow> subnet option" where
  "subnet_from_pair ip n =
     (if 32 < n then None
      else case ipv4_from_str ip of
             None \<Rightarrow> None
           | Some a \<Rightarrow>
               (case fold_opt mask_step [0..<unat n] ([0, 0, 0, 0], 0) of
                  None \<Rightarrow> None
                | Some (msk, _) \<Rightarrow> Some \<lparr>sn_ip = a, sn_mask = msk\<rparr>))"

definition subnet_from_str :: "string \<Rightarrow> subnet option" where
  "subnet_from_str value =
     (case split_on CHR ''/'' value of
        [ip, n] \<Rightarrow>
          (case parse_uint 8 n of None \<Rightarrow> None | Some k \<Rightarrow> subnet_from_pair ip (of_nat k))
      | _ \<Rightarrow> None)"

definition subnet_display :: "subnet \<Rightarrow> string" where
  "subnet_display s = ipv4_display (sn_ip s) @ ''/'' @ show_nat (unat (to_cidr (sn_mask s)))"

section \<open>Round trips\<close>

lemma octet_round_trip: "n < 256 \<Longrightarrow> octet_parse (show_nat n) = Some n"
proof -
  assume n: "n < 256"
  have "\<not> (hd (show_nat n) = CHR ''0'' \<and> 1 < length (show_nat n))"
    using show_nat_hd [of n] show_nat_length [of 0 0] by (cases "n = 0") auto
  moreover have "length (show_nat n) \<le> 3" using show_nat_length [of n 2] n by simp
  ultimately show ?thesis using n by (simp add: octet_parse_def digits_val_show)
qed

lemma show_nat_no_dot: "CHR ''.'' \<notin> set (show_nat n)" and show_nat_no_slash: "CHR ''/'' \<notin> set (show_nat n)"
  by (rule show_nat_no_char, simp)+

lemma ipv4_round_trip: "length a = 4 \<Longrightarrow> ipv4_from_str (ipv4_display a) = Some a"
proof -
  assume a: "length a = 4"
  have "split_on CHR ''.'' (ipv4_display a) = map (\<lambda>b. show_nat (unat b)) a"
    unfolding ipv4_display_def by (rule split_join) (use a show_nat_no_dot in auto)
  moreover have "map_opt octet_parse (map (\<lambda>b. show_nat (unat b)) a) = Some (map unat a)"
    using octet_round_trip unsigned_less [where 'b = 8 and ?'a = nat]
    by (simp add: map_opt_Some_iff list_all2_map1 list_all2_map2 list_all2_same)
  ultimately show ?thesis using a by (simp add: ipv4_from_str_def comp_def)
qed

text \<open>The mask of each of the 33 prefixes: the loop never leaves the array, and the prefix is
  counted back.\<close>

lemma mask_of_prefix:
  "n \<le> 32 \<Longrightarrow> \<exists>msk k. fold_opt mask_step [0..<n] ([0, 0, 0, 0], 0) = Some (msk, k)
     \<and> to_cidr msk = of_nat n \<and> length msk = 4"
proof -
  have "list_all (\<lambda>n. case fold_opt mask_step [0..<n] ([0, 0, 0, 0], 0) of
          None \<Rightarrow> False | Some (msk, k) \<Rightarrow> to_cidr msk = of_nat n \<and> length msk = 4) [0..<33]"
    by code_simp
  then have "n < 33 \<Longrightarrow> case fold_opt mask_step [0..<n] ([0, 0, 0, 0], 0) of
          None \<Rightarrow> False | Some (msk, k) \<Rightarrow> to_cidr msk = of_nat n \<and> length msk = 4"
    by (simp add: list_all_iff)
  then show "n \<le> 32 \<Longrightarrow> ?thesis" by (auto split: option.splits prod.splits)
qed

lemma ipv4_no_slash: "CHR ''/'' \<notin> set (ipv4_display a)"
proof -
  have "CHR ''/'' \<notin> set (join_with ''.'' (map (\<lambda>b. show_nat (unat (b :: u8))) a))"
    by (induction a rule: induct_list012) (auto simp: show_nat_no_slash)
  then show ?thesis by (simp add: ipv4_display_def)
qed

lemma subnet_text:
  assumes "length a = 4" "n \<le> 32"
  shows "\<exists>s. subnet_from_str (ipv4_display a @ ''/'' @ show_nat n) = Some s
           \<and> sn_ip s = a \<and> to_cidr (sn_mask s) = of_nat n
           \<and> subnet_display s = ipv4_display a @ ''/'' @ show_nat n"
proof -
  obtain msk k where m: "fold_opt mask_step [0..<n] ([0, 0, 0, 0], 0) = Some (msk, k)"
    "to_cidr msk = of_nat n"
    using mask_of_prefix [OF assms(2)] by auto
  have n: "unat (of_nat n :: u8) = n" using assms(2) by (simp add: unat_of_nat)
  have split: "split_on CHR ''/'' (ipv4_display a @ ''/'' @ show_nat n) = [ipv4_display a, show_nat n]"
    using split_on_append [OF ipv4_no_slash, of a "show_nat n"]
    by (simp add: split_on_word show_nat_no_slash)
  have "\<not> 32 < (of_nat n :: u8)" using assms(2) n by (simp add: word_less_nat_alt)
  then have "subnet_from_str (ipv4_display a @ ''/'' @ show_nat n) = Some \<lparr>sn_ip = a, sn_mask = msk\<rparr>"
    using assms m n unfolding subnet_from_str_def split
    by (simp add: subnet_from_pair_def parse_show_nat ipv4_round_trip)
  then show ?thesis using m(2) n by (simp add: subnet_display_def)
qed

end
