(* ===== verification/Service_Properties.thy ===== *)
theory Service_Properties
  imports Transport Bindings Listeners Subnet
begin

text \<open>
  What the messages, the transports and the bindings that all services share guarantee, with
  witnesses on small connections.
\<close>

section \<open>Messages\<close>

text \<open>C26: a message between an emulation core and a reporter is read back as it was written, except
  an event: its payload is not written, so the reader answers that it does not know the code.\<close>

theorem emul_message_round_trip:
  assumes "emul_faithful sd m \<or> m = EmulEvent ev"
  shows "emul_from_bytes sd (emul_to_bytes sd m)
    = Some (if m = EmulEvent ev then Inl (unrecognized ''opcode to tc_message'' 9) else Inr m)"
  using assms emul.decode_encode[of sd m] emul_event_lost[of sd ev] by auto

definition one_flow :: flow_conf where
  "one_flow = \<lparr>fc_src = V4 [10, 0, 0, 1], fc_dest = V4 [10, 0, 0, 2], fc_throughput = Some 7\<rparr>"

definition one_serde :: "'a \<Rightarrow> 'a serde" where
  "one_serde x = \<lparr>to_json = \<lambda>_. ''1'', from_json = \<lambda>_. Inr x\<rparr>"

lemma one_serde_ok: "serde_ok (one_serde x) x"
proof -
  have "valid_str ''1''" by code_simp
  then show ?thesis by (simp add: serde_ok_def one_serde_def)
qed

theorem emul_message_round_trip_witness:
  "\<exists>sd ev. emul_from_bytes sd (emul_to_bytes sd (FlowUpdate one_flow)) = Some (Inr (FlowUpdate one_flow))
    \<and> emul_from_bytes sd (emul_to_bytes sd (EmulEvent ev)) = Some (Inl (unrecognized ''opcode to tc_message'' 9))"
proof -
  let ?ev = "\<lparr>ev_app_id = 0, ev_time_ns = 0, ev_action = Join\<rparr>"
  let ?sd = "\<lparr>es_flow = one_serde one_flow, es_tc = one_serde (tc_default (V4 [10, 0, 0, 1])), es_event = one_serde ?ev\<rparr>"
  show ?thesis
    using emul_message_round_trip[of ?sd "FlowUpdate one_flow" ?ev] emul_message_round_trip[of ?sd "EmulEvent ?ev" ?ev]
      one_serde_ok[of one_flow] by auto
qed

section \<open>Connections\<close>

text \<open>C14: the serving loop of a TCP connection ends when the peer closes it between two messages,
  and by then it has handled every message in order and written every answer, however the bytes
  behind the length of each message were cut.\<close>

theorem tcp_connection_served:
  assumes "list_all2 (\<lambda>m bss. pieces_of (encode m) bss) ms pss"
    and "\<forall>m \<in> set ms. length (encode m) < 65536"
    and "c_in c = concat (map (map Bytes) pss)" "c_write_err c = None"
  shows "tcp_serve encode handler c = Some (c\<lparr>c_in := [], c_out := c_out c @ replies encode handler ms\<rparr>)"
  using assms by (rule tcp_serve_frames)

theorem tcp_connection_served_witness:
  "tcp_serve (\<lambda>m. m) Some \<lparr>c_in = [Bytes [0, 3, 1], Bytes [2, 3], Bytes [0, 1], Bytes [9]], c_out = [], c_write_err = None\<rparr>
    = Some \<lparr>c_in = [], c_out = [0, 3, 1, 2, 3, 0, 1, 9], c_write_err = None\<rparr>"
  using tcp_connection_served[of "\<lambda>m. m" "[[1, 2, 3], [9]]" "[[[0, 3, 1], [2, 3]], [[0, 1], [9]]]"
      "\<lparr>c_in = [Bytes [0, 3, 1], Bytes [2, 3], Bytes [0, 1], Bytes [9]], c_out = [], c_write_err = None\<rparr>" Some]
  by (simp add: pieces_of_def prepare_data_to_send_def put_u16_def replies_def drop_bit_eq_div)

text \<open>The serving loop of a Unix connection handles every message in order and writes every
  answer, wherever the bytes are cut, the length included.\<close>

theorem unix_connection_served:
  assumes "live (c_in c)" "contents (c_in c) = frames encode ms" "breaks (c_in c) = None"
    and "\<forall>m \<in> set ms. length (encode m) < 65536" "c_write_err c = None"
  shows "unix_serve encode handler c = Some (c\<lparr>c_in := [], c_out := c_out c @ replies encode handler ms\<rparr>)"
  using assms by (rule unix_serve_frames)

theorem unix_connection_served_witness:
  "unix_serve (\<lambda>m. m) Some \<lparr>c_in = [Bytes [0], Bytes [3, 1], Bytes [2, 3, 0], Bytes [1, 9]], c_out = [], c_write_err = None\<rparr>
    = Some \<lparr>c_in = [], c_out = [0, 3, 1, 2, 3, 0, 1, 9], c_write_err = None\<rparr>"
  using unix_connection_served[of "\<lparr>c_in = [Bytes [0], Bytes [3, 1], Bytes [2, 3, 0], Bytes [1, 9]], c_out = [],
      c_write_err = None\<rparr>" "\<lambda>m. m" "[[1, 2, 3], [9]]" Some]
  by (simp add: frames_def prepare_data_to_send_def put_u16_def replies_def drop_bit_eq_div)

text \<open>C34: when the peer closes a connection inside a message, after \<^verbatim>\<open>k\<close> bytes of its frame, the
  read on a Unix binding is an error. The read on a TCP binding never returns (it keeps reading
  nothing) when the length has arrived in one piece. When the first read gives one byte only, the
  length is taken as that byte and a zero: the read returns a message of so many of the bytes that
  follow, an empty one when the byte is 0, and never returns when there are fewer.\<close>

theorem closed_inside_message:
  assumes "live s" "breaks s = None" "contents s = take k (prepare_data_to_send d)"
    and "0 < k" "k < 2 + length d mod 65536"
  shows "(\<exists>e s'. unix_read_from_stream s = (Inl e, s'))
    \<and> (if starts_whole s then tcp_read_from_stream s = None
       else let n = length d mod 65536 div 256 * 256
            in if k - 1 < n then tcp_read_from_stream s = None
               else \<exists>s'. tcp_read_from_stream s = Some (Inr (take n (tl (contents s))), s')
                      \<and> contents s' = drop n (tl (contents s)))"
proof (cases "starts_whole s")
  case True
  then show ?thesis
    using unix_read_short[OF assms(1,3,5)] tcp_read_short[OF assms(1,2) True assms(3,5)] by simp
next
  case False
  then show ?thesis
    using unix_read_short[OF assms(1,3,5)] tcp_read_one_byte[OF assms(1,2) False assms(3,4,5) refl]
    by (simp add: Let_def)
qed

theorem closed_inside_message_witness:
  "tcp_read_from_stream [Bytes [0, 3, 1]] = None \<and> (\<exists>e s'. unix_read_from_stream [Bytes [0, 3, 1]] = (Inl e, s'))
   \<and> (\<exists>s'. tcp_read_from_stream [Bytes [0], Bytes [3, 1]] = Some (Inr [], s') \<and> contents s' = [3, 1])"
  using closed_inside_message[of "[Bytes [0, 3, 1]]" 3 "[1, 2, 3]"]
    closed_inside_message[of "[Bytes [0], Bytes [3, 1]]" 3 "[1, 2, 3]"]
  by (simp add: starts_whole_def prepare_data_to_send_def put_u16_def drop_bit_eq_div)




section \<open>Bindings\<close>

text \<open>C37: over every sequence of calls, a TCP binding holds its unused socket only while it has no
  mode, and the channel that stops its accept loop exactly while it listens; so dropping it finds
  the channel, and a binding that listens never leaves that mode.\<close>

theorem tcp_binding_life:
  assumes "tcp_step\<^sup>*\<^sup>* b b'" "tcp_fresh b"
  shows "tcp_inv b' \<and> tcp_drop True b' = Some ()
    \<and> (b_mode b' = Listening \<longrightarrow> (\<forall>b''. tcp_step\<^sup>*\<^sup>* b' b'' \<longrightarrow> b_mode b'' = Listening))"
proof -
  have inv: "tcp_inv b'" by (rule tcp_life.reachable_keeps[OF assms(2,1)])
  then show ?thesis using tcp_life.run_mark[OF _ inv] by (auto simp: tcp_inv_def tcp_drop_def)
qed

theorem tcp_binding_life_witness:
  "\<exists>b b' :: u8 list tcp_binding. tcp_bind_addr (Inr ()) (Inr ''10.0.0.1:80'') (\<lambda>_. Inr ()) (Some Some) = Inr b
    \<and> snd (tcp_listen (Inr ()) b) = b' \<and> b_mode b' = Listening \<and> tcp_inv b' \<and> tcp_drop True b' = Some ()"
proof -
  let ?b = "\<lparr>b_mode = ModeNone, b_handler = Some Some, b_socket = True, b_close = False\<rparr> :: u8 list tcp_binding"
  let ?c = "\<lparr>b_mode = Listening, b_handler = Some Some, b_socket = False, b_close = True\<rparr> :: u8 list tcp_binding"
  have l: "tcp_listen (Inr ()) ?b = (Inr (), ?c)" by (simp add: tcp_listen_def Let_def)
  then have "tcp_step ?b ?c" by (rule tcp_step.listen)
  then have "tcp_step\<^sup>*\<^sup>* ?b ?c" by (rule r_into_rtranclp)
  from tcp_binding_life[OF this] l show ?thesis
    by (intro exI[of _ ?b] exI[of _ ?c]) (simp add: tcp_bind_addr_def tcp_fresh_def)
qed

text \<open>C25: closing a listener, or one failing \<^verbatim>\<open>accept\<close>, stops every connection that is still
  served, and from then on nothing is accepted or served; closing a TCP listener and a Unix listener
  leave the same behind, but on TCP the closing task panics exactly when a connection that it once
  accepted is over already.\<close>

theorem closed_listener_serves_nobody:
  assumes "ln_step\<^sup>*\<^sup>* listener_new l" "ln_accepting l"
  shows "(\<forall>l' \<in> {unix_ln_close l, ln_accept (Inl e) l}. \<forall>l''. ln_step\<^sup>*\<^sup>* l' l'' \<longrightarrow>
            \<not> ln_accepting l'' \<and> Serving \<notin> set (ln_chans l''))
       \<and> fst (tcp_ln_close l) = unix_ln_close l
       \<and> (snd (tcp_ln_close l) = None \<longleftrightarrow> Over \<in> set (ln_chans l))"
proof -
  have step: "ln_step\<^sup>*\<^sup>* listener_new l' \<and> \<not> ln_accepting l'"
    if "l' \<in> {unix_ln_close l, ln_accept (Inl e) l}" for l'
  proof -
    from that have "l' = unix_ln_close l \<or> l' = ln_accept (Inl e) l" by blast
    then have "ln_step l l'" and "\<not> ln_accepting l'"
      using ln_step.close_unix[OF assms(2)] ln_step.accept[OF assms(2), of "Inl e"]
      by (auto simp: unix_ln_close_def ln_accept_def)
    then show ?thesis using rtranclp.rtrancl_into_rtrancl[OF assms(1)] by blast
  qed
  then have "\<forall>l' \<in> {unix_ln_close l, ln_accept (Inl e) l}. \<forall>l''. ln_step\<^sup>*\<^sup>* l' l'' \<longrightarrow>
      \<not> ln_accepting l'' \<and> Serving \<notin> set (ln_chans l'')"
    using closed_serves_nobody by blast
  then show ?thesis by (simp only: tcp_close_state tcp_close_panics simp_thms)
qed

text \<open>A listener with two connections, of which the first is over.\<close>

definition one_left :: listener where
  "one_left = ln_over 0 (ln_accept (Inr ()) (ln_accept (Inr ()) listener_new))"

theorem closed_listener_serves_nobody_witness:
  "ln_chans one_left = [Over, Serving] \<and> tcp_ln_close one_left = (\<lparr>ln_accepting = False, ln_chans = [Over, Stopping]\<rparr>, None)
   \<and> unix_ln_close one_left = \<lparr>ln_accepting = False, ln_chans = [Over, Stopping]\<rparr>"
proof -
  have chans: "ln_chans one_left = [Over, Serving]" and on: "ln_accepting one_left"
    by (simp_all add: one_left_def ln_over_def ln_accept_def listener_new_def)
  let ?a = "ln_accept (Inr ())"
  have "ln_step listener_new (?a listener_new)" "ln_step (?a listener_new) (?a (?a listener_new))"
    by (rule ln_step.accept; simp add: ln_accept_def listener_new_def)+
  moreover have "ln_step (?a (?a listener_new)) one_left"
    unfolding one_left_def by (rule ln_step.over) (simp add: ln_accept_def listener_new_def)
  ultimately have "ln_step\<^sup>*\<^sup>* listener_new one_left"
    by (rule converse_rtranclp_into_rtranclp[OF _ converse_rtranclp_into_rtranclp[OF _ r_into_rtranclp]])
  from closed_listener_serves_nobody[OF this on, of "[]"] chans show ?thesis
    by (simp add: unix_ln_close_def prod_eq_iff)
qed

section \<open>Subnets\<close>

text \<open>The text \<^verbatim>\<open>a.b.c.d/n\<close> of a subnet, with a prefix of at most 32 bits, is parsed
  to a subnet of that address whose mask has the prefix \<^verbatim>\<open>n\<close>, and it is printed back as
  the same text.\<close>

theorem subnet_round_trip:
  assumes "length a = 4" "n \<le> 32"
  shows "\<exists>s. subnet_from_str (ipv4_display a @ ''/'' @ show_nat n) = Some s
           \<and> sn_ip s = a \<and> to_cidr (sn_mask s) = of_nat n
           \<and> subnet_display s = ipv4_display a @ ''/'' @ show_nat n"
  using assms by (rule subnet_text)

theorem subnet_round_trip_witness:
  "\<exists>s. subnet_from_str (ipv4_display [10, 1, 2, 3] @ ''/'' @ show_nat 20) = Some s
     \<and> sn_ip s = [10, 1, 2, 3] \<and> to_cidr (sn_mask s) = of_nat 20
     \<and> subnet_display s = ipv4_display [10, 1, 2, 3] @ ''/'' @ show_nat 20"
  by (rule subnet_round_trip) simp_all

end
