(* ===== verification/Events.thy ===== *)
theory Events
  imports CGraph Messages
begin

text \<open>
  The events of the cluster manager and their wire format (\<^verbatim>\<open>cmanager/src/data.rs\<close>),
  with the updates of the cluster graph sent to the emulation manager
  (\<^verbatim>\<open>cgraph/src/message.rs\<close>). \<^verbatim>\<open>WCGraph\<close> is a wrapper around the
  cluster graph.
\<close>

type_synonym wcgraph = "cluster_node_info cgraph"

datatype cgraph_update = New wcgraph | Remove cluster_node_info

datatype cjq_kind = CjqAccepted cluster_node_info string | CjqWait nat

datatype cevent =
    CGraphUpdate wcgraph
  | CGraphGet
  | CGraphSend wcgraph
  | CJQResponse cjq_kind
  | CJQRequest cluster_node_info
  | CJQRetry
  | CJQAbort
  | CHeartbeat cluster_node_info string
  | CHeartbeatCheck
  | CHeartbeatReset
  | NodeFailure cluster_node_info
  | PClient
  | PServer cluster_node_info

record cevent_serde =
  cs_graph :: "wcgraph serde"
  cs_cjq :: "cjq_kind serde"
  cs_info :: "cluster_node_info serde"
  cs_beat :: "(cluster_node_info \<times> string) serde"

definition cevent_of_opcode :: "cevent_serde \<Rightarrow> u16 \<Rightarrow> string option \<Rightarrow> cevent result" where
  "cevent_of_opcode sd opcode data =
     (let text = (case data of None \<Rightarrow> [] | Some d \<Rightarrow> d)
      in if opcode = 0 \<and> data \<noteq> None then map_result CGraphUpdate (deserialize (cs_graph sd) text)
         else if opcode = 1 then Inr CGraphGet
         else if opcode = 2 \<and> data \<noteq> None then map_result CJQResponse (deserialize (cs_cjq sd) text)
         else if opcode = 3 \<and> data \<noteq> None then map_result CJQRequest (deserialize (cs_info sd) text)
         else if opcode = 4 then Inr CJQRetry
         else if opcode = 5 \<and> data \<noteq> None
         then map_result (\<lambda>(info, cid). CHeartbeat info cid) (deserialize (cs_beat sd) text)
         else if opcode = 6 then Inr PClient
         else if opcode = 7 \<and> data \<noteq> None then map_result PServer (deserialize (cs_info sd) text)
         else if opcode = 9 \<and> data \<noteq> None then map_result CGraphSend (deserialize (cs_graph sd) text)
         else if opcode = 10 \<and> data \<noteq> None then map_result NodeFailure (deserialize (cs_info sd) text)
         else if opcode = 11 then Inr CHeartbeatCheck
         else if opcode = 12 then Inr CHeartbeatReset
         else if opcode = 13 then Inr CJQAbort
         else Inl (unrecognized ''opcode to event'' opcode))"

fun opcode_of_cevent :: "cevent \<Rightarrow> u16" where
  "opcode_of_cevent (CGraphUpdate _) = 0"
| "opcode_of_cevent CGraphGet = 1"
| "opcode_of_cevent (CJQResponse _) = 2"
| "opcode_of_cevent (CJQRequest _) = 3"
| "opcode_of_cevent CJQRetry = 4"
| "opcode_of_cevent (CHeartbeat _ _) = 5"
| "opcode_of_cevent PClient = 6"
| "opcode_of_cevent (PServer _) = 7"
| "opcode_of_cevent (CGraphSend _) = 9"
| "opcode_of_cevent (NodeFailure _) = 10"
| "opcode_of_cevent CHeartbeatCheck = 11"
| "opcode_of_cevent CHeartbeatReset = 12"
| "opcode_of_cevent CJQAbort = 13"

definition cevent_to_bytes :: "cevent_serde \<Rightarrow> cevent \<Rightarrow> u8 list" where
  "cevent_to_bytes sd e =
     put_u16 (opcode_of_cevent e) @
     (case e of
        CGraphUpdate a \<Rightarrow> serialize (cs_graph sd) a
      | CJQResponse a \<Rightarrow> serialize (cs_cjq sd) a
      | CJQRequest a \<Rightarrow> serialize (cs_info sd) a
      | PServer a \<Rightarrow> serialize (cs_info sd) a
      | CGraphSend a \<Rightarrow> serialize (cs_graph sd) a
      | NodeFailure a \<Rightarrow> serialize (cs_info sd) a
      | CHeartbeat info cid \<Rightarrow> serialize (cs_beat sd) (info, cid)
      | _ \<Rightarrow> [])"

definition cevent_from_bytes :: "cevent_serde \<Rightarrow> u8 list \<Rightarrow> cevent result option" where
  "cevent_from_bytes sd buf =
     (case split_opcode buf of
        None \<Rightarrow> None
      | Some (opcode, payload) \<Rightarrow> Some (cevent_of_opcode sd opcode payload))"

fun cevent_display :: "cevent \<Rightarrow> string" where
  "cevent_display (CGraphUpdate _) = ''CGraphUpdate''"
| "cevent_display CGraphGet = ''CGraphGet''"
| "cevent_display (CGraphSend _) = ''CGraphSend''"
| "cevent_display (CJQResponse _) = ''CJQResponse''"
| "cevent_display (CJQRequest _) = ''CJQRequest''"
| "cevent_display CJQRetry = ''CJQRetry''"
| "cevent_display CJQAbort = ''CJQAbort''"
| "cevent_display (CHeartbeat _ u) = ''CHeartbeat('' @ u @ '')''"
| "cevent_display (NodeFailure _) = ''NodeFailure''"
| "cevent_display PClient = ''PClient''"
| "cevent_display (PServer _) = ''PServer''"
| "cevent_display CHeartbeatCheck = ''CHeartbeatCheck''"
| "cevent_display CHeartbeatReset = ''CHeartbeatReset''"

fun cevent_faithful :: "cevent_serde \<Rightarrow> cevent \<Rightarrow> bool" where
  "cevent_faithful sd (CGraphUpdate a) \<longleftrightarrow> serde_ok (cs_graph sd) a"
| "cevent_faithful sd (CJQResponse a) \<longleftrightarrow> serde_ok (cs_cjq sd) a"
| "cevent_faithful sd (CJQRequest a) \<longleftrightarrow> serde_ok (cs_info sd) a"
| "cevent_faithful sd (PServer a) \<longleftrightarrow> serde_ok (cs_info sd) a"
| "cevent_faithful sd (CGraphSend a) \<longleftrightarrow> serde_ok (cs_graph sd) a"
| "cevent_faithful sd (NodeFailure a) \<longleftrightarrow> serde_ok (cs_info sd) a"
| "cevent_faithful sd (CHeartbeat info cid) \<longleftrightarrow> serde_ok (cs_beat sd) (info, cid)"
| "cevent_faithful sd _ \<longleftrightarrow> True"

interpretation cev: codec "cevent_to_bytes sd" "cevent_from_bytes sd" "cevent_faithful sd" for sd
proof unfold_locales
  fix e
  assume "cevent_faithful sd e"
  then show "cevent_from_bytes sd (cevent_to_bytes sd e) = Some (Inr e)"
    by (cases e)
      (simp_all add: cevent_to_bytes_def cevent_from_bytes_def cevent_of_opcode_def split_opcode_simps)
qed

end
