(* ===== verification/Control.thy ===== *)
theory Control
  imports Events Hash_Collections
begin

text \<open>
  The controller of the cluster manager (\<^verbatim>\<open>cmanager/src/controller.rs\<close>) and its
  performance tests (\<^verbatim>\<open>cmanager/src/perf.rs\<close>). The state is the fields of
  \<^verbatim>\<open>Ctrl\<close> and the retry counter local to \<^verbatim>\<open>start\<close>. The main loop takes
  one message at a time from a channel: \<^verbatim>\<open>ctrl_handle\<close> is one turn, a function of the
  state to the new state and to what the turn sends, in order. The spawned tasks only send to
  that channel: each is the list of messages it sends.

  What the network and the system answer is the record \<^verbatim>\<open>world\<close>. Identifiers of clusters
  are printed and parsed by the crate \<^verbatim>\<open>uuid\<close>, two more of its fields.
\<close>

section \<open>State\<close>

record ctrl_config =
  cf_cjq_retry :: nat
  cf_cjq_timeout :: nat
  cf_cjq_waiting_time :: nat
  cf_heartbeat_misses :: nat
  cf_heartbeat_sleep :: nat
  cf_sufficient_speed :: u64
  cf_perf_test_retries :: nat
  cf_iperf3_port :: u16
  cf_cmanager_port :: u16
  cf_leader :: bool
  cf_local_speed :: u64

record ctrl =
  ct_cgraph :: wcgraph
  ct_my_info :: cluster_node_info
  ct_my_speed :: u64
  ct_is_leader :: bool
  ct_adding_new_node :: bool
  ct_started :: bool
  ct_config :: ctrl_config
  ct_misses :: "(cluster_node_info, nat) hmap"
  ct_cluster_id :: "uuid option"
  ct_retries :: nat

text \<open>What a turn sends: the answer on the message's channel, an update to the emulation
  manager, a message over TCP or by broadcast, an event put later on the own channel, the start
  of a heartbeat round or of an iperf3 server.\<close>

datatype effect =
    Answer "cevent option"
  | Update cgraph_update
  | SendTcp cluster_node_info cevent
  | Broadcast cevent
  | After nat cevent
  | Forward cevent
  | HeartbeatRound
  | LaunchServer

text \<open>The outcome of a performance test: of the connection and the request, of the answer, and of
  the run of iperf3.\<close>

record perf_run =
  pr_request :: "unit result"
  pr_answer :: "cevent result"
  pr_iperf :: "(fval option \<times> fval option) result"

record world =
  w_uuid_show :: "uuid \<Rightarrow> string"
  w_uuid_parse :: "string \<Rightarrow> uuid option"
  w_new_uuid :: uuid
  w_cjq_answers :: "cevent list result"
  w_get_graph :: "unit result"
  w_graph_answer :: "cevent option"
  w_perf :: "nat \<Rightarrow> cluster_node_info \<Rightarrow> perf_run"
  w_bind :: "unit result"
  w_send_ok :: bool
  w_server :: "unit result"
  w_have_update :: bool

section \<open>Performance tests\<close>

text \<open>\<^verbatim>\<open>(bps as u64) >> 10\<close>\<close>

definition perf_kbps :: "fval \<Rightarrow> u64" where
  "perf_kbps bps = drop_bit 10 (of_nat (f_to_usize bps))"

definition f64_min :: "fval \<Rightarrow> fval \<Rightarrow> fval" where
  "f64_min a b = (if a = NaN then b else if b = NaN then a else if fle a b then a else b)"

text \<open>The sender of the channel is dropped when iperf3 fails or the answer is another event: the
  receive then fails.\<close>

definition launch_test :: "perf_run \<Rightarrow> u64 result" where
  "launch_test p =
     (let failed = Inl (error_wrap ''perf'' CommandFailed ''error launching the perf test'' ''channel closed'')
      in case pr_request p of
           Inl e \<Rightarrow> Inl e
         | Inr _ \<Rightarrow>
             (case pr_answer p of
                Inl e \<Rightarrow> Inl e
              | Inr (PServer _) \<Rightarrow>
                  (case pr_iperf p of
                     Inr (Some sender_bps, Some receiver_bps) \<Rightarrow> Inr (perf_kbps (f64_min sender_bps receiver_bps))
                   | _ \<Rightarrow> failed)
              | Inr _ \<Rightarrow> failed))"

text \<open>The retries of one test: \<^verbatim>\<open>i\<close> counts the tries, \<^verbatim>\<open>n\<close> the tests made
  before.\<close>

fun test_tries ::
  "(nat \<Rightarrow> cluster_node_info \<Rightarrow> perf_run) \<Rightarrow> cluster_node_info \<Rightarrow> nat \<Rightarrow> nat \<Rightarrow> u64 result \<times> nat" where
  "test_tries perf info n 0 = (Inr 0, n)"
| "test_tries perf info n (Suc tries) =
     (case launch_test (perf n info) of
        Inr new_speed \<Rightarrow> (Inr new_speed, Suc n)
      | Inl e \<Rightarrow>
          if tries = 0
          then (Inl (error_wrap ''perf'' PerfTestFailed ''Exceeded number of tries.'' (error_display e)), Suc n)
          else test_tries perf info (Suc n) tries)"

partial_function (option) complete_loop ::
  "(nat \<Rightarrow> cluster_node_info \<Rightarrow> perf_run) \<Rightarrow> u64 \<Rightarrow> nat \<Rightarrow> cluster_node_info cnode \<Rightarrow> nat \<Rightarrow> wcgraph
   \<Rightarrow> (wcgraph \<times> unit result) option" where
  "complete_loop perf sufficient retries me n g =
     (case cg_find_missing_from_me me sufficient g of
        None \<Rightarrow> None
      | Some (g1, Inl e) \<Rightarrow> Some (g1, Inl e)
      | Some (g1, Inr None) \<Rightarrow> Some (g1, Inr ())
      | Some (g1, Inr (Some other)) \<Rightarrow>
          (case test_tries perf (cn_info other) n (retries + 1) of
             (Inl e, n') \<Rightarrow> Some (g1, Inl e)
           | (Inr speed, n') \<Rightarrow>
               (case cg_add_link_direct_test me other speed g1 of
                  None \<Rightarrow> None
                | Some (g2, Inl e) \<Rightarrow> Some (g2, Inl e)
                | Some (g2, Inr _) \<Rightarrow> complete_loop perf sufficient retries me n' g2)))"

definition complete_graph ::
  "(nat \<Rightarrow> cluster_node_info \<Rightarrow> perf_run) \<Rightarrow> u64 \<Rightarrow> nat \<Rightarrow> ctrl \<Rightarrow> (ctrl \<times> unit result) option" where
  "complete_graph perf sufficient_speed test_retries c =
     (case cg_add_node (ct_my_speed c) (ct_my_info c) (ct_cgraph c) of
        None \<Rightarrow> None
      | Some (g, Inl e) \<Rightarrow> Some (c\<lparr>ct_cgraph := g\<rparr>, Inl e)
      | Some (g, Inr me) \<Rightarrow>
          map_option (\<lambda>(g', r). (c\<lparr>ct_cgraph := g'\<rparr>, r))
            (complete_loop perf sufficient_speed test_retries me 0 g))"

section \<open>Joining\<close>

fun as_cjq_response :: "cevent \<Rightarrow> cjq_kind option" where
  "as_cjq_response (CJQResponse k) = Some k"
| "as_cjq_response _ = None"

text \<open>The events that reach the binding of the request before the timeout: the first response
  goes to the main channel, a timeout puts a retry there.\<close>

definition send_cluster_joining_request :: "world \<Rightarrow> ctrl \<Rightarrow> effect list result" where
  "send_cluster_joining_request w c =
     (case w_cjq_answers w of
        Inl e \<Rightarrow> Inl e
      | Inr received \<Rightarrow>
          Inr (Broadcast (CJQRequest (ct_my_info c)) #
            (case List.map_filter as_cjq_response received of
               kind # _ \<Rightarrow> [Forward (CJQResponse kind)]
             | [] \<Rightarrow> [Forward CJQRetry])))"

text \<open>The graph downloaded from the leader and completed. \<^verbatim>\<open>receive_once(..).unwrap()\<close>
  panics when no answer can be read.\<close>

definition add_myself_in_cluster :: "world \<Rightarrow> ctrl \<Rightarrow> (ctrl \<times> cevent result) option" where
  "add_myself_in_cluster w c =
     (case w_get_graph w of
        Inl e \<Rightarrow> Some (c, Inl e)
      | Inr _ \<Rightarrow>
          (case w_graph_answer w of
             None \<Rightarrow> None
           | Some (CGraphSend cgraph) \<Rightarrow>
               (case complete_graph (w_perf w) (cf_sufficient_speed (ct_config c))
                       (cf_perf_test_retries (ct_config c)) (c\<lparr>ct_cgraph := cgraph\<rparr>) of
                  None \<Rightarrow> None
                | Some (c', Inl e) \<Rightarrow> Some (c', Inl e)
                | Some (c', Inr _) \<Rightarrow> Some (c', Inr (CGraphUpdate (ct_cgraph c'))))
           | Some _ \<Rightarrow>
               Some (c, Inl (error_wrap ''cluster add'' NoResource
                         ''Failed to get the CGraph from the distant server'' ''channel closed''))))"

definition create_cluster :: "world \<Rightarrow> ctrl \<Rightarrow> (ctrl \<times> effect list result) option" where
  "create_cluster w c =
     (case cg_new of
        None \<Rightarrow> None
      | Some g0 \<Rightarrow>
          (case cg_add_node (ct_my_speed c) (ct_my_info c) g0 of
             None \<Rightarrow> None
           | Some (g, Inl e) \<Rightarrow> Some (c\<lparr>ct_adding_new_node := False, ct_cgraph := g\<rparr>, Inl e)
           | Some (g, Inr _) \<Rightarrow>
               Some (c\<lparr>ct_adding_new_node := False, ct_cgraph := g, ct_cluster_id := Some (w_new_uuid w)\<rparr>,
                     Inr [After 1 CHeartbeatCheck])))"

section \<open>Heartbeats\<close>

definition cg_infos :: "wcgraph \<Rightarrow> cluster_node_info list" where
  "cg_infos g = hs_collect (=) (map cn_info (cg_nodes g))"

text \<open>\<^verbatim>\<open>HeartBeatHandler::handle\<close> forwards the node of a heartbeat.\<close>

definition heartbeat_handle :: "cevent result \<Rightarrow> cluster_node_info option" where
  "heartbeat_handle r = (case r of Inr (CHeartbeat info _) \<Rightarrow> Some info | _ \<Rightarrow> None)"

text \<open>The task of a heartbeat round: \<^verbatim>\<open>received\<close> are the nodes that answered; the result is
  the messages the task puts on the main channel, each awaited before the next.\<close>

definition heartbeat_missing :: "wcgraph \<Rightarrow> cluster_node_info list \<Rightarrow> cluster_node_info list" where
  "heartbeat_missing g received =
     hs_collect (=) (map cn_info (filter (\<lambda>n. \<not> hs_contains (=) received (cn_info n)) (cg_nodes g)))"

definition heartbeat_round :: "wcgraph \<Rightarrow> cluster_node_info list \<Rightarrow> cevent list" where
  "heartbeat_round g received =
     (let remaining = heartbeat_missing g received
      in (if remaining = [] then [CHeartbeatReset] else []) @ map NodeFailure remaining)"

text \<open>\<^verbatim>\<open>cluster_id.unwrap()\<close> panics outside a cluster; the broadcast of the round is the
  first thing sent.\<close>

definition perform_heartbeat_check :: "world \<Rightarrow> ctrl \<Rightarrow> effect list option" where
  "perform_heartbeat_check w c =
     (case ct_cluster_id c of
        None \<Rightarrow> None
      | Some cid \<Rightarrow>
          Some [Broadcast (CHeartbeat (ct_my_info c) (w_uuid_show w cid)), HeartbeatRound,
                After (cf_heartbeat_sleep (ct_config c)) CHeartbeatCheck])"

section \<open>The handlers\<close>

type_synonym turn = "(ctrl \<times> effect list) result option"

definition on_cgraph_update :: "world \<Rightarrow> wcgraph \<Rightarrow> ctrl \<Rightarrow> turn" where
  "on_cgraph_update w graph c =
     (if \<not> w_have_update w then None
      else Some (Inr (c\<lparr>ct_adding_new_node := False, ct_cgraph := graph\<rparr>, [Update (New graph), Answer None])))"

definition on_cjq_response :: "world \<Rightarrow> cjq_kind \<Rightarrow> ctrl \<Rightarrow> turn" where
  "on_cjq_response w kind c0 =
     (let c = c0\<lparr>ct_retries := cf_cjq_retry (ct_config c0)\<rparr>
      in case kind of
           CjqAccepted info cluster_id \<Rightarrow>
             (case add_myself_in_cluster w c of
                None \<Rightarrow> None
              | Some (c', Inr update_event) \<Rightarrow>
                  (case w_bind w of
                     Inl e \<Rightarrow> Some (Inl e)
                   | Inr _ \<Rightarrow>
                       (case w_uuid_parse w cluster_id of
                          None \<Rightarrow> None
                        | Some cid \<Rightarrow>
                            if \<not> w_send_ok w then None
                            else Some (Inr (c'\<lparr>ct_cluster_id := Some cid\<rparr>, [SendTcp info update_event]))))
              | Some (c', Inl e) \<Rightarrow>
                  if \<not> w_send_ok w then None
                  else Some (Inr (c', [SendTcp info CJQAbort, After (cf_cjq_timeout (ct_config c')) CJQRetry])))
         | CjqWait duration \<Rightarrow> Some (Inr (c, [After duration CJQRetry])))"

definition on_cjq_request :: "world \<Rightarrow> cluster_node_info \<Rightarrow> ctrl \<Rightarrow> turn" where
  "on_cjq_request w info c =
     (if ct_is_leader c
      then if ct_adding_new_node c
           then Some (Inr (c, [Answer (Some (CJQResponse (CjqWait (cf_cjq_waiting_time (ct_config c)))))]))
           else
             let c1 = (if hs_contains (=) (cg_infos (ct_cgraph c)) info
                       then c\<lparr>ct_misses := hm_remove (=) info (ct_misses c)\<rparr> else c)
             in (case ct_cluster_id c1 of
                   None \<Rightarrow> None
                 | Some cid \<Rightarrow>
                     Some (Inr (c1\<lparr>ct_adding_new_node := True\<rparr>,
                       [Answer (Some (CJQResponse (CjqAccepted (ct_my_info c1) (w_uuid_show w cid))))])))
      else Some (Inr (c, [Answer None])))"

definition on_cjq_retry :: "world \<Rightarrow> ctrl \<Rightarrow> turn" where
  "on_cjq_retry w c =
     (if 0 < ct_retries c
      then let c1 = c\<lparr>ct_retries := ct_retries c - 1\<rparr>
           in (case send_cluster_joining_request w c1 of
                 Inl e \<Rightarrow> Some (Inl e)
               | Inr outs \<Rightarrow> Some (Inr (c1, outs)))
      else Some (Inl (error_new ''cjq retry'' NoResource ''Didn't found a cluster in the subnet'')))"

definition on_heartbeat :: "world \<Rightarrow> string \<Rightarrow> ctrl \<Rightarrow> turn" where
  "on_heartbeat w other c =
     Some (Inr (c,
       [Answer
         (case w_uuid_parse w other of
            None \<Rightarrow> None
          | Some other_id \<Rightarrow>
              (case ct_cluster_id c of
                 None \<Rightarrow> None
               | Some cid \<Rightarrow> if cid = other_id then Some (CHeartbeat (ct_my_info c) other) else None))]))"

text \<open>The removal unwraps its result and asserts that the graph lost one node.\<close>

definition on_node_failure :: "world \<Rightarrow> cluster_node_info \<Rightarrow> ctrl \<Rightarrow> turn" where
  "on_node_failure w info c =
     (case hm_get (=) (ct_misses c) info of
        Some missed_heartbeat \<Rightarrow>
          if cf_heartbeat_misses (ct_config c) \<le> missed_heartbeat + 1
          then
            (case cg_remove_one_by (\<lambda>n. cni_eq (cn_info n) info) (ct_cgraph c) of
               Some (g, Inr _) \<Rightarrow>
                 if usize_sub (cg_size (ct_cgraph c)) 1 \<noteq> cg_size g \<or> \<not> w_have_update w then None
                 else Some (Inr (c\<lparr>ct_cgraph := g, ct_misses := hm_remove (=) info (ct_misses c)\<rparr>,
                        [Update (Remove info), Answer None]))
             | _ \<Rightarrow> None)
          else Some (Inr (c\<lparr>ct_misses := hm_insert (=) info (missed_heartbeat + 1) (ct_misses c)\<rparr>, [Answer None]))
      | None \<Rightarrow> Some (Inr (c\<lparr>ct_misses := hm_insert (=) info 1 (ct_misses c)\<rparr>, [Answer None])))"

text \<open>A message carries its answer channel or not: \<^verbatim>\<open>True\<close> when it does.\<close>

fun ctrl_handle :: "world \<Rightarrow> cevent \<times> bool \<Rightarrow> ctrl \<Rightarrow> turn" where
  "ctrl_handle w (CGraphGet, True) c = Some (Inr (c, [Answer (Some (CGraphSend (ct_cgraph c)))]))"
| "ctrl_handle w (CGraphUpdate graph, True) c = on_cgraph_update w graph c"
| "ctrl_handle w (CJQResponse kind, False) c = on_cjq_response w kind c"
| "ctrl_handle w (CJQRequest info, True) c = on_cjq_request w info c"
| "ctrl_handle w (CJQAbort, True) c = Some (Inr (c\<lparr>ct_adding_new_node := False\<rparr>, [Answer None]))"
| "ctrl_handle w (CJQRetry, False) c = on_cjq_retry w c"
| "ctrl_handle w (CHeartbeat _ other, True) c = on_heartbeat w other c"
| "ctrl_handle w (NodeFailure info, True) c = on_node_failure w info c"
| "ctrl_handle w (CHeartbeatReset, True) c = Some (Inr (c\<lparr>ct_misses := []\<rparr>, [Answer None]))"
| "ctrl_handle w (CHeartbeatCheck, False) c =
     (if ct_is_leader c
      then (case perform_heartbeat_check w c of None \<Rightarrow> None | Some outs \<Rightarrow> Some (Inr (c, outs)))
      else Some (Inr (c, [])))"
| "ctrl_handle w (PClient, True) c =
     (case w_server w of
        Inl e \<Rightarrow> Some (Inl e)
      | Inr _ \<Rightarrow>
          Some (Inr (c, [LaunchServer,
            Answer (Some (PServer (cni_new (cni_ip_addr (ct_my_info c)) (cf_iperf3_port (ct_config c)))))])))"
| "ctrl_handle w _ c = Some (Inr (c, []))"

section \<open>Construction and start\<close>

text \<open>\<^verbatim>\<open>build\<close>: the two bindings unwrap.\<close>

definition ctrl_build :: "string + ip_addr \<Rightarrow> bool \<Rightarrow> ctrl_config \<Rightarrow> ctrl result option" where
  "ctrl_build parsed_ip bindings_ok config =
     (case parsed_ip of
        Inl e \<Rightarrow> Some (Inl (error_wrap ''CMANAGER CTRL'' NotASocketAddr ''Cannot parse the IP address'' e))
      | Inr my_ip \<Rightarrow>
          if \<not> bindings_ok then None
          else
            (case cg_new of
               None \<Rightarrow> None
             | Some g \<Rightarrow>
                 Some (Inr \<lparr>ct_cgraph = g, ct_my_info = cni_new my_ip (cf_cmanager_port config),
                   ct_my_speed = cf_local_speed config, ct_is_leader = cf_leader config,
                   ct_adding_new_node = False, ct_started = False, ct_config = config,
                   ct_misses = [], ct_cluster_id = None, ct_retries = cf_cjq_retry config\<rparr>)))"

text \<open>The outcome of the two calls of \<^verbatim>\<open>listen\<close> is an argument.\<close>

definition ctrl_init :: "unit result \<Rightarrow> unit result \<Rightarrow> ctrl \<Rightarrow> unit result" where
  "ctrl_init tcp_listen udp_listen c =
     (if \<not> ct_started c
      then (case tcp_listen of Inl e \<Rightarrow> Inl e | Inr _ \<Rightarrow> udp_listen)
      else Inl (error_new ''controller init'' AlreadyStarted ''Controller already started''))"

definition ctrl_begin :: "world \<Rightarrow> ctrl \<Rightarrow> turn" where
  "ctrl_begin w c0 =
     (let c = c0\<lparr>ct_retries := cf_cjq_retry (ct_config c0)\<rparr>
      in if \<not> ct_is_leader c
         then (case send_cluster_joining_request w c of
                 Inl e \<Rightarrow> Some (Inl e) | Inr outs \<Rightarrow> Some (Inr (c, outs)))
         else (case create_cluster w c of
                 None \<Rightarrow> None
               | Some (c', Inl e) \<Rightarrow> Some (Inl e)
               | Some (c', Inr outs) \<Rightarrow>
                   if \<not> w_have_update w then None
                   else Some (Inr (c', outs @ [Update (New (ct_cgraph c'))]))))"

text \<open>The loop of \<^verbatim>\<open>start\<close> over the messages of the channel, each with the world as it is
  then.\<close>

fun ctrl_loop :: "(world \<times> cevent \<times> bool) list \<Rightarrow> ctrl \<Rightarrow> turn" where
  "ctrl_loop [] c = Some (Inr (c, []))"
| "ctrl_loop ((w, m) # ms) c =
     (case ctrl_handle w m c of
        None \<Rightarrow> None
      | Some (Inl e) \<Rightarrow> Some (Inl e)
      | Some (Inr (c', outs)) \<Rightarrow>
          (case ctrl_loop ms c' of
             None \<Rightarrow> None
           | Some (Inl e) \<Rightarrow> Some (Inl e)
           | Some (Inr (c'', outs')) \<Rightarrow> Some (Inr (c'', outs @ outs'))))"

end
