(* ===== verification/Control_Props.thy ===== *)
theory Control_Props
  imports Control CGraph_Speeds
begin

text \<open>
  The controller: the completion of the graph by performance tests ends, the turns of the main
  loop keep the invariant \<^verbatim>\<open>ctrl_ok\<close>, a node that keeps missing its heartbeats is
  removed, and one node joins at a time.
\<close>

section \<open>Completion of the graph\<close>

definition untested :: "'i cgraph \<Rightarrow> nat \<Rightarrow> nat set" where
  "untested g i = {j. j < cg_n g \<and> \<not> td_direct_tested (cg_cell g i j)}"

lemma finite_untested [simp]: "finite (untested g i)"
  by (simp add: untested_def)

lemma missing_step_tested:
  assumes inv: "cg_inv g" and ij: "cn_index from < cg_n g" "cn_index to < cg_n g"
    and step: "missing_step from suff to (g, ml) = Some (g', ml')"
  shows "cg_inv g' \<and> cg_n g' = cg_n g \<and> cg_nodes g' = cg_nodes g
    \<and> untested g' (cn_index from) \<subseteq> untested g (cn_index from)"
proof -
  have ks: "\<forall>k \<in> set (cg_nodes g). cn_index k < cg_n g" using inv by (auto simp: cg_inv_def)
  obtain h b where h: "find_shortcut from to (cg_nodes g) g = Some (h, b)"
    "only_cell (cn_index from) (cn_index to) g h" "\<not> b \<longrightarrow> h = g"
    "b \<longrightarrow> td_direct_tested (cg_cell h (cn_index from) (cn_index to))"
    using find_shortcut_result [OF inv ij ks] by blast
  have "g' = g \<or> g' = h" using step h(1) by (auto simp: missing_step_def split: if_splits option.splits)
  moreover have "untested h (cn_index from) \<subseteq> untested g (cn_index from)"
  proof (cases b)
    case True
    then have "td_direct_tested (cg_cell h (cn_index from) j)"
      if "j < cg_n g" "td_direct_tested (cg_cell g (cn_index from) j)" for j
      using that h(2,4) ij by (cases "j = cn_index to") (auto simp: only_cell_def same_pair_def)
    then show ?thesis using h(2) by (auto simp: untested_def only_cell_def)
  qed (use h(3) in simp)
  ultimately show ?thesis using inv h(2) by (auto simp: only_cell_def)
qed

lemma find_missing_tested:
  assumes inv: "cg_inv g" and me: "cn_index me < cg_n g"
    and run: "cg_find_missing_from_me me suff g = Some (g', r)"
  shows "untested g' (cn_index me) \<subseteq> untested g (cn_index me)"
proof -
  let ?I = "\<lambda>(h, ml). cg_inv h \<and> cg_n h = cg_n g \<and> cg_nodes h = cg_nodes g
    \<and> untested h (cn_index me) \<subseteq> untested g (cn_index me)"
  obtain ml where f: "fold_opt (missing_step me suff) (cg_nodes g) (g, []) = Some (g', ml)"
    using run by (auto simp: cg_find_missing_from_me_def split: option.splits)
  have "?I (g', ml)"
  proof (rule fold_opt_invar [OF f])
    show "?I (g, [])" using inv by simp
  next
    fix t s s'
    assume t: "t \<in> set (cg_nodes g)" and I: "?I s" and step: "missing_step me suff t s = Some s'"
    obtain h l h' l' where s: "s = (h, l)" "s' = (h', l')" by (cases s; cases s')
    have "cn_index t < cg_n h" using t inv I s by (auto simp: cg_inv_def)
    with missing_step_tested [of h me t suff l h' l'] I step me s show "?I s'" by auto
  qed
  then show ?thesis by simp
qed

lemma link_test_same:
  assumes "link_test_spec from to s g r"
  shows "cg_n (fst r) = cg_n g \<and> cg_nodes (fst r) = cg_nodes g"
proof (cases "\<not> {cn_index from, cn_index to} \<subseteq> {..<cg_n g} \<or> min (cn_speed from) (cn_speed to) < s")
  case True
  then show ?thesis using assms unfolding link_test_spec_def by (auto split: if_splits)
next
  case False
  then obtain g1 g2 u where "r = (g2, Inr u)" "link_tested g (cn_index from) (cn_index to) s g1"
    "extrapolated g1 g2"
    using assms unfolding link_test_spec_def by (elim exE conjE | simp split: if_splits)+
  then show ?thesis using extrapolatedD(2,3) [of g1 g2] by (simp add: link_tested_def)
qed

lemma link_test_tested:
  assumes "link_test_spec from to s g (g', Inr useful)"
    and "cn_index from < cg_n g" "cn_index to < cg_n g"
  shows "untested g' (cn_index from) = untested g (cn_index from) - {cn_index to}"
    and "cg_n g' = cg_n g" and "cg_nodes g' = cg_nodes g"
proof -
  obtain g1 where g1: "link_tested g (cn_index from) (cn_index to) s g1" "extrapolated g1 g'"
    using assms by (auto simp: link_test_spec_def split: if_splits)
  have n: "cg_n g1 = cg_n g" "cg_nodes g1 = cg_nodes g" using g1(1) by (auto simp: link_tested_def)
  show n': "cg_n g' = cg_n g" and "cg_nodes g' = cg_nodes g"
    using extrapolatedD(2,3) [OF g1(2)] n by simp_all
  have "td_direct_tested (cg_cell g' (cn_index from) j)
      \<longleftrightarrow> td_direct_tested (cg_cell g (cn_index from) j) \<or> j = cn_index to" if "j < cg_n g" for j
    using that g1 n assms(2) by (auto simp: extrapolated_def link_tested_def same_pair_def)
  then show "untested g' (cn_index from) = untested g (cn_index from) - {cn_index to}"
    using n' by (auto simp: untested_def)
qed

text \<open>Every turn tests one more link from the joining node: the loop ends, whatever the tests
  give, and when it ends without an error no link is left to test.\<close>

lemma complete_loop_ends:
  assumes "cg_inv g" and "cn_index me < cg_n g"
  shows "\<exists>g' r. complete_loop perf suff retries me n g = Some (g', r)
    \<and> cg_inv g' \<and> cg_n g' = cg_n g \<and> cg_nodes g' = cg_nodes g
    \<and> (r = Inr () \<longrightarrow> (\<forall>t \<in> set (cg_nodes g). \<not> unsettled g' me suff t))"
  using assms
proof (induction "card (untested g (cn_index me))" arbitrary: g n rule: less_induct)
  case less
  note inv = less.prems(1) and me = less.prems(2)
  obtain g1 r1 where f: "cg_find_missing_from_me me suff g = Some (g1, Inr r1)" "cg_inv g1"
    "cg_n g1 = cg_n g" "cg_nodes g1 = cg_nodes g"
    and r1: "case r1 of None \<Rightarrow> \<forall>t \<in> set (cg_nodes g). \<not> unsettled g1 me suff t
      | Some node \<Rightarrow> node \<in> set (cg_nodes g) \<and> unsettled g1 me suff node
          \<and> (\<forall>t \<in> set (cg_nodes g). unsettled g1 me suff t \<longrightarrow> cn_speed t \<le> cn_speed node)"
    using cg_find_missing_result [OF inv me, of suff] by blast
  show ?case
  proof (cases r1)
    case None
    then show ?thesis using f r1 by (subst complete_loop.simps) simp
  next
    case (Some other)
    then have other: "other \<in> set (cg_nodes g)" "unsettled g1 me suff other" using r1 by simp_all
    then have o: "cn_index other < cg_n g1" using inv f(3) by (auto simp: cg_inv_def)
    obtain r n' where t: "test_tries perf (cn_info other) n (Suc retries) = (r, n')" by fastforce
    show ?thesis
    proof (cases r)
      case (Inl e)
      then show ?thesis using f Some t by (subst complete_loop.simps) simp
    next
      case (Inr speed)
      obtain g2 r2 where l: "cg_add_link_direct_test me other speed g1 = Some (g2, r2)"
        "link_test_spec me other speed g1 (g2, r2)" "cg_inv g2"
        using cg_add_link_direct_test_result [OF f(2), of me other speed] by auto
      have n2: "cg_n g2 = cg_n g1" "cg_nodes g2 = cg_nodes g1"
        using link_test_same [OF l(2)] by simp_all
      show ?thesis
      proof (cases r2)
        case (Inl e)
        then show ?thesis using f Some t \<open>r = Inr speed\<close> l n2 by (subst complete_loop.simps) simp
      next
        case (Inr u)
        have "untested g2 (cn_index me) = untested g1 (cn_index me) - {cn_index other}"
          using link_test_tested(1) [of me other speed g1 g2 u] l(2) Inr me f(3) o by simp
        moreover have "cn_index other \<in> untested g1 (cn_index me)"
          using other(2) o by (simp add: untested_def unsettled_def Let_def)
        moreover have "untested g1 (cn_index me) \<subseteq> untested g (cn_index me)"
          by (rule find_missing_tested [OF inv me f(1)])
        ultimately have "untested g2 (cn_index me) \<subset> untested g (cn_index me)" by auto
        then have "card (untested g2 (cn_index me)) < card (untested g (cn_index me))"
          by (rule psubset_card_mono [OF finite_untested])
        from less.hyps [OF this l(3), of n'] me f n2
        obtain g' r' where "complete_loop perf suff retries me n' g2 = Some (g', r')" "cg_inv g'"
          "cg_n g' = cg_n g" "cg_nodes g' = cg_nodes g"
          "r' = Inr () \<longrightarrow> (\<forall>t \<in> set (cg_nodes g). \<not> unsettled g' me suff t)"
          by auto
        then show ?thesis
          using f(1) Some t \<open>r = Inr speed\<close> l(1) Inr by (subst complete_loop.simps) simp
      qed
    qed
  qed
qed

lemma complete_graph_result:
  assumes "cg_inv (ct_cgraph c)" and "Suc (cg_n (ct_cgraph c)) < 2 ^ 26"
  shows "\<exists>c' r. complete_graph perf suff retries c = Some (c', r) \<and> c' = c\<lparr>ct_cgraph := ct_cgraph c'\<rparr>
    \<and> cg_inv (ct_cgraph c')
    \<and> (\<exists>me \<in> set (cg_nodes (ct_cgraph c')). cn_info me = ct_my_info c
         \<and> (r = Inr () \<longrightarrow> (\<forall>t \<in> set (cg_nodes (ct_cgraph c')). \<not> unsettled (ct_cgraph c') me suff t)))"
proof -
  obtain g me where g: "cg_add_node (ct_my_speed c) (ct_my_info c) (ct_cgraph c) = Some (g, Inr me)"
    "cg_inv g" "node_added (ct_my_speed c) (ct_my_info c) (ct_cgraph c) g me"
    using cg_add_node_result [OF assms, of "ct_my_speed c" "ct_my_info c"] by blast
  have me: "me \<in> set (cg_nodes g)" "cn_info me = ct_my_info c"
    using g(3) by (auto simp: node_added_def split: if_splits)
  then have "cn_index me < cg_n g" using g(2) by (auto simp: cg_inv_def)
  from complete_loop_ends [OF g(2) this, of perf suff retries 0]
  obtain g' r where l: "complete_loop perf suff retries me 0 g = Some (g', r)"
    "cg_inv g'" "cg_nodes g' = cg_nodes g" "r = Inr () \<longrightarrow> (\<forall>t \<in> set (cg_nodes g). \<not> unsettled g' me suff t)"
    by blast
  then show ?thesis using g(1) me by (auto simp: complete_graph_def)
qed

section \<open>The invariant of the controller\<close>

abbreviation members :: "ctrl \<Rightarrow> cluster_node_info list" where
  "members c \<equiv> map cn_info (cg_nodes (ct_cgraph c))"

definition graph_ok :: "wcgraph \<Rightarrow> bool" where
  "graph_ok g \<longleftrightarrow> cg_inv g \<and> distinct (map cn_info (cg_nodes g)) \<and> Suc (cg_n g) < 2 ^ 26"

definition ctrl_ok :: "ctrl \<Rightarrow> bool" where
  "ctrl_ok c \<longleftrightarrow> cg_inv (ct_cgraph c) \<and> distinct (members c) \<and> hm_distinct (=) (ct_misses c)
     \<and> (ct_adding_new_node c \<longrightarrow> ct_is_leader c)"

lemma length_nodes: "cg_inv g \<Longrightarrow> length (cg_nodes g) = cg_n g"
proof -
  assume "cg_inv g"
  then have "length (map cn_index (cg_nodes g)) = card {..<cg_n g}"
    unfolding cg_inv_def by (metis distinct_card)
  then show ?thesis by simp
qed

lemma node_removed_infos:
  assumes "node_removed node g g'" "node \<in> set (cg_nodes g)" "distinct (map cn_info (cg_nodes g))"
    and "distinct (map cn_index (cg_nodes g))"
  shows "map cn_info (cg_nodes g') = filter (\<lambda>i. i \<noteq> cn_info node) (map cn_info (cg_nodes g))"
proof -
  have shift: "cn_info (cg_shift node n) = cn_info n" for n by (simp add: cg_shift_def cnode_build_def)
  have iff: "cn_index n \<noteq> cn_index node \<longleftrightarrow> cn_info n \<noteq> cn_info node" if "n \<in> set (cg_nodes g)" for n
    using that assms(2-4) by (auto simp: distinct_map inj_on_def)
  have "map cn_info (cg_nodes g') = map cn_info (filter (\<lambda>n. cn_index n \<noteq> cn_index node) (cg_nodes g))"
    using assms(1) shift by (simp add: node_removed_def comp_def)
  also have "filter (\<lambda>n. cn_index n \<noteq> cn_index node) (cg_nodes g)
      = filter (\<lambda>n. cn_info n \<noteq> cn_info node) (cg_nodes g)"
    using iff by (intro filter_cong) auto
  finally show ?thesis by (simp add: filter_map comp_def)
qed

text \<open>What a missed heartbeat does to the count of a node, and when the node is lost.\<close>

definition lost :: "nat \<Rightarrow> nat option \<Rightarrow> bool" where
  "lost limit beats \<longleftrightarrow> (\<exists>k. beats = Some k \<and> limit \<le> k + 1)"

definition counted :: "nat \<Rightarrow> nat option \<Rightarrow> nat option" where
  "counted limit beats =
     (case beats of None \<Rightarrow> Some 1 | Some k \<Rightarrow> if limit \<le> k + 1 then None else Some (k + 1))"

definition same_role :: "ctrl \<Rightarrow> ctrl \<Rightarrow> bool" where
  "same_role c c' \<longleftrightarrow>
     c' = c\<lparr>ct_cgraph := ct_cgraph c', ct_misses := ct_misses c'\<rparr>"

lemma same_role_trans: "same_role a b \<Longrightarrow> same_role b c \<Longrightarrow> same_role a c"
  by (cases a; cases b; cases c) (simp add: same_role_def)

lemma node_failure_result:
  assumes ok: "ctrl_ok c" and mem: "info \<in> set (members c)" and upd: "w_have_update w"
  defines "limit \<equiv> cf_heartbeat_misses (ct_config c)" and "beats \<equiv> hm_get (=) (ct_misses c) info"
  shows "\<exists>c' outs. on_node_failure w info c = Some (Inr (c', outs)) \<and> ctrl_ok c' \<and> same_role c c'
    \<and> (\<forall>i. hm_get (=) (ct_misses c') i = (if i = info then counted limit beats else hm_get (=) (ct_misses c) i))
    \<and> members c' = (if lost limit beats then filter (\<lambda>i. i \<noteq> info) (members c) else members c)
    \<and> outs = (if lost limit beats then [Update (Remove info)] else []) @ [Answer None]"
proof -
  have hm: "hm_distinct (=) (ct_misses c)" using ok by (simp add: ctrl_ok_def)
  show ?thesis
  proof (cases "lost limit beats")
    case True
    then obtain k where k: "beats = Some k" "limit \<le> k + 1" by (auto simp: lost_def)
    have inv: "cg_inv (ct_cgraph c)" using ok by (simp add: ctrl_ok_def)
    obtain node g where g: "node \<in> set (cg_nodes (ct_cgraph c))" "cn_info node = info"
      "cg_remove_one_by (\<lambda>n. cni_eq (cn_info n) info) (ct_cgraph c) = Some (g, Inr ())"
      "cg_inv g" "node_removed node (ct_cgraph c) g"
      using cg_remove_one_by_result [OF inv, of "\<lambda>n. cni_eq (cn_info n) info"] mem by auto
    have size: "cg_size g = cg_size (ct_cgraph c) - 1" "0 < cg_size (ct_cgraph c)"
      using g(5) length_nodes [OF inv] length_nodes [OF g(4)]
      by (auto simp: node_removed_def cg_size_def)
    have infos: "map cn_info (cg_nodes g) = filter (\<lambda>i. i \<noteq> info) (members c)"
      using node_removed_infos [OF g(5,1)] ok g(2) by (simp add: ctrl_ok_def cg_inv_def)
    let ?c = "c\<lparr>ct_cgraph := g, ct_misses := hm_remove (=) info (ct_misses c)\<rparr>"
    have "on_node_failure w info c = Some (Inr (?c, [Update (Remove info), Answer None]))"
      using k g(3) size upd by (simp add: on_node_failure_def beats_def limit_def)
    moreover have "ctrl_ok ?c"
      using ok g(4) infos hol_eq.hm_distinct_remove [OF hm] by (simp add: ctrl_ok_def)
    moreover have "counted limit beats = None" using k by (simp add: counted_def)
    ultimately show ?thesis
      using True infos hol_eq.hm_get_remove [OF hm] by (auto simp: same_role_def)
  next
    case False
    define v where "v = (case beats of None \<Rightarrow> 1 | Some k \<Rightarrow> k + 1)"
    let ?c = "c\<lparr>ct_misses := hm_insert (=) info v (ct_misses c)\<rparr>"
    have "on_node_failure w info c = Some (Inr (?c, [Answer None]))"
      using False by (auto simp: on_node_failure_def beats_def limit_def v_def lost_def split: option.split)
    moreover have "counted limit beats = Some v"
      using False by (auto simp: counted_def v_def lost_def split: option.split)
    moreover have "ctrl_ok ?c" using ok hol_eq.hm_distinct_insert [OF hm] by (simp add: ctrl_ok_def)
    ultimately show ?thesis
      using False hol_eq.hm_get_insert [of info v "ct_misses c"] by (auto simp: same_role_def)
  qed
qed

text \<open>A list of failures of different members, one after the other.\<close>

definition failed_nodes :: "ctrl \<Rightarrow> cluster_node_info set \<Rightarrow> ctrl \<Rightarrow> bool" where
  "failed_nodes c missing c' \<longleftrightarrow> (let limit = cf_heartbeat_misses (ct_config c);
       beats = hm_get (=) (ct_misses c)
     in (\<forall>i. hm_get (=) (ct_misses c') i = (if i \<in> missing then counted limit (beats i) else beats i))
      \<and> members c' = filter (\<lambda>i. \<not> (i \<in> missing \<and> lost limit (beats i))) (members c))"

lemma failures_result:
  assumes "ctrl_ok c" "set infos \<subseteq> set (members c)" "distinct infos" "w_have_update w"
  shows "\<exists>c' outs. ctrl_loop (map (\<lambda>i. (w, NodeFailure i, True)) infos) c = Some (Inr (c', outs))
    \<and> ctrl_ok c' \<and> same_role c c' \<and> failed_nodes c (set infos) c'"
  using assms
proof (induction infos arbitrary: c)
  case Nil
  then show ?case by (simp add: failed_nodes_def Let_def same_role_def)
next
  case (Cons info infos)
  let ?limit = "cf_heartbeat_misses (ct_config c)" and ?beats = "hm_get (=) (ct_misses c)"
  obtain c1 o1 where c1: "on_node_failure w info c = Some (Inr (c1, o1))" "ctrl_ok c1" "same_role c c1"
    "\<forall>i. hm_get (=) (ct_misses c1) i = (if i = info then counted ?limit (?beats info) else ?beats i)"
    "members c1 = (if lost ?limit (?beats info) then filter (\<lambda>i. i \<noteq> info) (members c) else members c)"
    using node_failure_result [OF Cons.prems(1) _ Cons.prems(4), of info] Cons.prems(2) by auto
  have sub: "set infos \<subseteq> set (members c1)" using Cons.prems(2,3) c1(5) by auto
  obtain c' o' where c': "ctrl_loop (map (\<lambda>i. (w, NodeFailure i, True)) infos) c1 = Some (Inr (c', o'))"
    "ctrl_ok c'" "same_role c1 c'" "failed_nodes c1 (set infos) c'"
    using Cons.IH [OF c1(2) sub _ Cons.prems(4)] Cons.prems(3) by auto
  have cfg: "ct_config c1 = ct_config c" using c1(3) by (cases c; cases c1) (simp add: same_role_def)
  have "failed_nodes c (set (info # infos)) c'"
    using c'(4) c1(4,5) Cons.prems(3) cfg
    by (auto simp: failed_nodes_def Let_def intro!: filter_cong)
  then show ?case using c1(1) c' same_role_trans [OF c1(3) c'(3)] by simp
qed

text \<open>A heartbeat round: nobody missing resets every count; otherwise the missing members, and
  only they, are counted or removed.\<close>

lemma heartbeat_round_result:
  fixes received :: "cluster_node_info list"
  assumes ok: "ctrl_ok c" and upd: "w_have_update w"
  defines "missing \<equiv> set (members c) - set received"
  shows "\<exists>c' outs. ctrl_loop (map (\<lambda>e. (w, e, True)) (heartbeat_round (ct_cgraph c) received)) c
      = Some (Inr (c', outs)) \<and> ctrl_ok c' \<and> same_role c c'
    \<and> (if missing = {} then ct_misses c' = [] \<and> members c' = members c else failed_nodes c missing c')"
proof -
  let ?rem = "heartbeat_missing (ct_cgraph c) received"
  have contains: "hs_contains (=) xs x \<longleftrightarrow> x \<in> set xs" for xs :: "cluster_node_info list" and x
    by (auto simp: hs_contains_iff)
  have "distinct (map cn_info (filter P (cg_nodes (ct_cgraph c))))" for P
    using ok by (simp add: ctrl_ok_def distinct_map_filter)
  moreover have "hs_distinct (=) xs = distinct xs" for xs :: "cluster_node_info list"
    by (induction xs) (simp_all add: contains)
  ultimately have rem: "?rem = map cn_info (filter (\<lambda>n. cn_info n \<notin> set received) (cg_nodes (ct_cgraph c)))"
    and dist: "distinct ?rem"
    by (simp_all add: heartbeat_missing_def contains hol_eq.hs_collect_distinct)
  have set_rem: "set ?rem = missing" using rem by (auto simp: missing_def)
  show ?thesis
  proof (cases "missing = {}")
    case True
    then have "?rem = []" using set_rem by simp
    then show ?thesis using ok True
      by (simp add: heartbeat_round_def ctrl_ok_def same_role_def hm_distinct_def hm_keys_def)
  next
    case False
    then have "?rem \<noteq> []" using set_rem by auto
    moreover have "set ?rem \<subseteq> set (members c)" using set_rem by (auto simp: missing_def)
    ultimately show ?thesis
      using failures_result [OF ok _ dist upd] False set_rem
      by (simp add: heartbeat_round_def comp_def)
  qed
qed

section \<open>Every turn keeps the invariant\<close>

lemma complete_graph_ok:
  assumes "graph_ok (ct_cgraph c)"
  shows "\<exists>c' r. complete_graph perf suff retries c = Some (c', r) \<and> c' = c\<lparr>ct_cgraph := ct_cgraph c'\<rparr>
    \<and> cg_inv (ct_cgraph c') \<and> distinct (members c')"
proof -
  have inv: "cg_inv (ct_cgraph c)" "Suc (cg_n (ct_cgraph c)) < 2 ^ 26" "distinct (members c)"
    using assms by (simp_all add: graph_ok_def)
  obtain g me where g: "cg_add_node (ct_my_speed c) (ct_my_info c) (ct_cgraph c) = Some (g, Inr me)"
    "cg_inv g" "node_added (ct_my_speed c) (ct_my_info c) (ct_cgraph c) g me"
    using cg_add_node_result [OF inv(1,2), of "ct_my_speed c" "ct_my_info c"] by blast
  have "me \<in> set (cg_nodes g)" and d: "distinct (map cn_info (cg_nodes g))"
    using g(3) inv(3) by (auto simp: node_added_def split: if_splits)
  then have "cn_index me < cg_n g" using g(2) by (auto simp: cg_inv_def)
  from complete_loop_ends [OF g(2) this, of perf suff retries 0]
  obtain g' r where "complete_loop perf suff retries me 0 g = Some (g', r)"
    "cg_inv g'" "cg_nodes g' = cg_nodes g"
    by blast
  then show ?thesis using g(1) d by (auto simp: complete_graph_def)
qed

text \<open>The graphs that reach the controller come from the controllers of the other nodes.\<close>

definition input_ok :: "world \<Rightarrow> cevent \<Rightarrow> bool" where
  "input_ok w m \<longleftrightarrow> (\<forall>g. m = CGraphUpdate g \<or> w_graph_answer w = Some (CGraphSend g) \<longrightarrow> graph_ok g)"

lemma add_myself_ok:
  assumes "ctrl_ok c" "input_ok w m" "add_myself_in_cluster w c = Some (c', r)"
  shows "ctrl_ok c' \<and> c' = c\<lparr>ct_cgraph := ct_cgraph c'\<rparr>"
proof (cases "\<exists>g. w_get_graph w = Inr () \<and> w_graph_answer w = Some (CGraphSend g)")
  case True
  then obtain g where g: "w_get_graph w = Inr ()" "w_graph_answer w = Some (CGraphSend g)" by blast
  then have "graph_ok (ct_cgraph (c\<lparr>ct_cgraph := g\<rparr>))" using assms(2) by (simp add: input_ok_def)
  from complete_graph_ok [OF this, of "w_perf w" "cf_sufficient_speed (ct_config c)" "cf_perf_test_retries (ct_config c)"]
  obtain c1 r1 where c1: "complete_graph (w_perf w) (cf_sufficient_speed (ct_config c))
      (cf_perf_test_retries (ct_config c)) (c\<lparr>ct_cgraph := g\<rparr>) = Some (c1, r1)"
    "c1 = c\<lparr>ct_cgraph := ct_cgraph c1\<rparr>" "cg_inv (ct_cgraph c1)" "distinct (members c1)"
    by auto
  have "c' = c1" using assms(3) g c1(1) by (auto simp: add_myself_in_cluster_def split: sum.splits)
  moreover have "ctrl_ok c1" using assms(1) c1(3,4) by (subst c1(2)) (simp add: ctrl_ok_def)
  ultimately show ?thesis using c1(2) by simp
next
  case False
  then have "c' = c"
    using assms(3) by (auto simp: add_myself_in_cluster_def split: sum.splits option.splits cevent.splits)
  then show ?thesis using assms(1) by simp
qed

lemma ctrl_ok_fields:
  "ctrl_ok c \<Longrightarrow> ctrl_ok (c\<lparr>ct_retries := n\<rparr>)"
  "ctrl_ok c \<Longrightarrow> ctrl_ok (c\<lparr>ct_cluster_id := u\<rparr>)"
  "ctrl_ok c \<Longrightarrow> ctrl_ok (c\<lparr>ct_adding_new_node := False\<rparr>)"
  "ctrl_ok c \<Longrightarrow> ctrl_ok (c\<lparr>ct_misses := []\<rparr>)"
  "ctrl_ok c \<Longrightarrow> ctrl_ok (c\<lparr>ct_misses := hm_remove (=) info (ct_misses c)\<rparr>)"
  "ctrl_ok c \<Longrightarrow> ctrl_ok (c\<lparr>ct_misses := hm_insert (=) info k (ct_misses c)\<rparr>)"
  by (simp_all add: ctrl_ok_def hol_eq.hm_distinct_remove hol_eq.hm_distinct_insert)
    (simp add: hm_distinct_def hm_keys_def)

lemma node_failure_ok:
  assumes ok: "ctrl_ok c" and turn: "on_node_failure w info c = Some (Inr (c', outs))"
  shows "ctrl_ok c'"
proof (cases "info \<in> set (members c) \<and> w_have_update w")
  case True
  then show ?thesis using node_failure_result [OF ok, of info w] turn by auto
next
  case False
  have inv: "cg_inv (ct_cgraph c)" using ok by (simp add: ctrl_ok_def)
  have "c' = c\<lparr>ct_misses := ct_misses c'\<rparr> \<and> (\<exists>k. ct_misses c' = hm_insert (=) info k (ct_misses c))"
    using turn False cg_remove_one_by_result [OF inv, of "\<lambda>n. cni_eq (cn_info n) info"]
    by (auto simp: on_node_failure_def split: option.splits if_splits sum.splits)
  then obtain k where "c' = c\<lparr>ct_misses := hm_insert (=) info k (ct_misses c)\<rparr>" by auto
  then show ?thesis using ctrl_ok_fields(6) [OF ok] by simp
qed

lemma cjq_response_ok:
  assumes ok: "ctrl_ok c" and inp: "input_ok w m" and turn: "on_cjq_response w kind c = Some (Inr (c', outs))"
  shows "ctrl_ok c'"
proof -
  let ?c = "c\<lparr>ct_retries := cf_cjq_retry (ct_config c)\<rparr>"
  have c: "ctrl_ok ?c" by (rule ctrl_ok_fields(1) [OF ok])
  show ?thesis
  proof (cases kind)
    case (CjqAccepted info cid)
    then obtain c1 r where c1: "add_myself_in_cluster w ?c = Some (c1, r)"
      "c' = c1\<lparr>ct_cluster_id := ct_cluster_id c'\<rparr>"
      using turn by (auto simp: on_cjq_response_def Let_def split: option.splits sum.splits if_splits)
    then show ?thesis using add_myself_ok [OF c inp c1(1)] ctrl_ok_fields(2) by metis
  next
    case (CjqWait d)
    then show ?thesis using turn c by (simp add: on_cjq_response_def)
  qed
qed

lemma cjq_request_ok:
  assumes "ctrl_ok c" "on_cjq_request w info c = Some (Inr (c', outs))"
  shows "ctrl_ok c'"
proof -
  have "ctrl_ok (c1\<lparr>ct_adding_new_node := True\<rparr>)" if "ctrl_ok c1" "ct_is_leader c1" for c1
    using that by (simp add: ctrl_ok_def)
  then show ?thesis
    using assms ctrl_ok_fields(5) [OF assms(1), of info]
    by (auto simp: on_cjq_request_def Let_def split: if_splits option.splits)
qed

lemma ctrl_handle_ok:
  assumes ok: "ctrl_ok c" and inp: "input_ok w m"
    and turn: "ctrl_handle w (m, answered) c = Some (Inr (c', outs))"
  shows "ctrl_ok c'"
proof (cases m)
  case (CGraphUpdate g)
  then show ?thesis
    using turn ok inp
    by (cases answered) (auto simp: on_cgraph_update_def ctrl_ok_def input_ok_def graph_ok_def split: if_splits)
next
  case (CJQResponse k)
  then show ?thesis using turn ok cjq_response_ok [OF ok inp] by (cases answered) auto
next
  case (CJQRequest info)
  then show ?thesis using turn ok cjq_request_ok [OF ok] by (cases answered) auto
next
  case (NodeFailure info)
  then show ?thesis using turn ok node_failure_ok [OF ok] by (cases answered) auto
next
  case CJQRetry
  then show ?thesis
    using turn ok ctrl_ok_fields(1) [OF ok]
    by (cases answered) (auto simp: on_cjq_retry_def Let_def split: if_splits sum.splits)
next
  case CHeartbeatCheck
  then show ?thesis using turn ok by (cases answered) (auto split: if_splits option.splits)
next
  case PClient
  then show ?thesis using turn ok by (cases answered) (auto split: sum.splits)
qed (use turn ok ctrl_ok_fields(3,4) [OF ok] in \<open>cases answered; auto simp: on_heartbeat_def\<close>)+

text \<open>A leader starts with itself as only member.\<close>

lemma create_cluster_ok:
  "\<exists>c'. create_cluster w c = Some (c', Inr [After 1 CHeartbeatCheck]) \<and> members c' = [ct_my_info c]
     \<and> cg_inv (ct_cgraph c') \<and> \<not> ct_adding_new_node c' \<and> ct_cluster_id c' = Some (w_new_uuid w)
     \<and> ct_misses c' = ct_misses c"
proof -
  obtain g0 :: wcgraph where g0: "cg_new = Some g0" "cg_inv g0" "cg_n g0 = 0"
    using cg_new_result by blast
  have "cg_nodes g0 = []" using length_nodes [OF g0(2)] g0(3) by simp
  with cg_add_node_result [OF g0(2), of "ct_my_speed c" "ct_my_info c"] g0(3)
  obtain g me where g: "cg_add_node (ct_my_speed c) (ct_my_info c) g0 = Some (g, Inr me)" "cg_inv g"
    "map cn_info (cg_nodes g) = [ct_my_info c]"
    by (auto simp: node_added_def)
  then show ?thesis unfolding create_cluster_def g0(1) by simp
qed

section \<open>One node joins at a time\<close>

fun accepts :: "effect \<Rightarrow> bool" where
  "accepts (Answer (Some (CJQResponse (CjqAccepted _ _)))) \<longleftrightarrow> True"
| "accepts _ \<longleftrightarrow> False"

fun ends_joining :: "cevent \<Rightarrow> bool" where
  "ends_joining (CGraphUpdate _) \<longleftrightarrow> True"
| "ends_joining CJQAbort \<longleftrightarrow> True"
| "ends_joining _ \<longleftrightarrow> False"

lemma adding_kept:
  assumes ok: "ctrl_ok c" and inp: "input_ok w m" and adding: "ct_adding_new_node c" and m: "\<not> ends_joining m"
    and turn: "ctrl_handle w (m, answered) c = Some (Inr (c', outs))"
  shows "ct_adding_new_node c' \<and> (\<forall>e \<in> set outs. \<not> accepts e)"
proof (cases m)
  case (CJQResponse kind)
  let ?c = "c\<lparr>ct_retries := cf_cjq_retry (ct_config c)\<rparr>"
  have "ct_adding_new_node c1" if "add_myself_in_cluster w ?c = Some (c1, r)" for c1 r
    using add_myself_ok [OF ctrl_ok_fields(1) [OF ok] inp that] adding
    by (cases c1) auto
  then show ?thesis using turn CJQResponse adding
    by (cases answered)
      (auto simp: on_cjq_response_def Let_def split: cjq_kind.splits option.splits sum.splits if_splits)
next
  case (CJQRequest info)
  then show ?thesis
    using turn adding ok
    by (cases answered) (auto simp: on_cjq_request_def ctrl_ok_def Let_def split: if_splits option.splits)
next
  case (NodeFailure info)
  then show ?thesis
    using turn adding
    by (cases answered) (auto simp: on_node_failure_def split: if_splits option.splits sum.splits)
next
  case CJQRetry
  then show ?thesis
    using turn adding
    by (cases answered)
      (auto simp: on_cjq_retry_def send_cluster_joining_request_def Let_def
        split: if_splits option.splits sum.splits list.splits)
next
  case CHeartbeatCheck
  then show ?thesis
    using turn adding
    by (cases answered) (auto simp: perform_heartbeat_check_def split: if_splits option.splits)
next
  case PClient
  then show ?thesis using turn adding by (cases answered) (auto split: sum.splits)
qed (use turn adding m in \<open>cases answered; auto simp: on_heartbeat_def split: option.splits if_splits\<close>)+

lemma joining_exclusive:
  assumes "ctrl_loop ms c = Some (Inr (c', outs))" "ctrl_ok c" "ct_adding_new_node c"
    and "\<forall>(w, m, b) \<in> set ms. input_ok w m \<and> \<not> ends_joining m"
  shows "ct_adding_new_node c' \<and> (\<forall>e \<in> set outs. \<not> accepts e)"
  using assms
proof (induction ms arbitrary: c c' outs)
  case (Cons a ms)
  obtain w m b where a: "a = (w, m, b)" by (cases a)
  obtain c1 o1 o2 where c1: "ctrl_handle w (m, b) c = Some (Inr (c1, o1))"
    "ctrl_loop ms c1 = Some (Inr (c', o2))" "outs = o1 @ o2"
    using Cons.prems(1) a by (auto split: option.splits sum.splits)
  have inp: "input_ok w m" "\<not> ends_joining m" using Cons.prems(4) a by auto
  from adding_kept [OF Cons.prems(2) inp(1) Cons.prems(3) inp(2) c1(1)]
  have "ct_adding_new_node c1" "\<forall>e \<in> set o1. \<not> accepts e" by simp_all
  with Cons.IH [OF c1(2) ctrl_handle_ok [OF Cons.prems(2) inp(1) c1(1)]] Cons.prems(4) c1(3)
  show ?case by auto
qed simp

lemma accept_marks:
  assumes "ctrl_handle w (m, b) c = Some (Inr (c', outs))" "e \<in> set outs" "accepts e"
  shows "\<not> ct_adding_new_node c \<and> ct_adding_new_node c' \<and> ct_is_leader c"
proof -
  have "\<exists>info. m = CJQRequest info \<and> b"
    using assms
    by (cases m; cases b; cases e rule: accepts.cases)
      (auto simp: on_cgraph_update_def on_cjq_response_def on_cjq_retry_def on_heartbeat_def
        on_node_failure_def perform_heartbeat_check_def send_cluster_joining_request_def Let_def
        split: if_splits option.splits sum.splits cjq_kind.splits list.splits)
  then show ?thesis
    using assms by (auto simp: on_cjq_request_def Let_def split: if_splits option.splits)
qed

end
