(* ===== verification/Actions.thy ===== *)
theory Actions
  imports Common
begin

text \<open>
  The handlers that send while they work: an \<^verbatim>\<open>action\<close> is the list of what was sent, in
  order, with the \<^verbatim>\<open>Result\<close> at its end; what was sent before an error stays sent.
  \<^verbatim>\<open>None\<close> is a panic.
\<close>

type_synonym ('e, 'a) action = "('e list \<times> 'a result) option"

definition act_return :: "'a \<Rightarrow> ('e, 'a) action" where
  "act_return x = Some ([], Inr x)"

definition act_fail :: "error \<Rightarrow> ('e, 'a) action" where
  "act_fail e = Some ([], Inl e)"

definition act_emit :: "'e \<Rightarrow> ('e, unit) action" where
  "act_emit e = Some ([e], Inr ())"

definition act_unwrap :: "'a option \<Rightarrow> ('e, 'a) action" where
  "act_unwrap m = (case m of None \<Rightarrow> None | Some x \<Rightarrow> Some ([], Inr x))"

definition act_bind :: "('e, 'a) action \<Rightarrow> ('a \<Rightarrow> ('e, 'b) action) \<Rightarrow> ('e, 'b) action" where
  "act_bind m f =
     (case m of
        None \<Rightarrow> None
      | Some (es, Inl e) \<Rightarrow> Some (es, Inl e)
      | Some (es, Inr x) \<Rightarrow> (case f x of None \<Rightarrow> None | Some (es', r) \<Rightarrow> Some (es @ es', r)))"

fun act_each :: "('a \<Rightarrow> ('e, unit) action) \<Rightarrow> 'a list \<Rightarrow> ('e, unit) action" where
  "act_each f [] = act_return ()"
| "act_each f (x # xs) = act_bind (f x) (\<lambda>_. act_each f xs)"

text \<open>A send that may fail: what is sent, whether it arrives, the error otherwise.\<close>

definition act_send :: "'e \<Rightarrow> unit result \<Rightarrow> ('e, unit) action" where
  "act_send e outcome = Some ([e], outcome)"

lemma act_bind_simps [simp]:
  "act_bind (act_return x) f = f x"
  "act_bind (act_fail e) f = act_fail e"
  "act_bind None f = None"
  "act_bind (Some (es, Inl e)) f = Some (es, Inl e)"
  "act_bind (Some (es, Inr x)) f = (case f x of None \<Rightarrow> None | Some (es', r) \<Rightarrow> Some (es @ es', r))"
  by (simp_all add: act_bind_def act_return_def act_fail_def split: option.split)

lemma act_unwrap_simps [simp]: "act_unwrap None = None" "act_unwrap (Some x) = act_return x"
  by (simp_all add: act_unwrap_def act_return_def)

lemma act_bind_return [simp]: "act_bind m act_return = m"
  by (auto simp: act_bind_def act_return_def split: option.splits sum.splits)

lemma act_bind_assoc: "act_bind (act_bind m f) g = act_bind m (\<lambda>x. act_bind (f x) g)"
  by (auto simp: act_bind_def split: option.splits sum.splits)

lemma act_bind_eq_Some:
  "act_bind m f = Some (es, r) \<longleftrightarrow>
     (\<exists>e. m = Some (es, Inl e) \<and> r = Inl e)
     \<or> (\<exists>es1 x es2. m = Some (es1, Inr x) \<and> f x = Some (es2, r) \<and> es = es1 @ es2)"
  by (auto simp: act_bind_def split: option.splits sum.splits)

lemma act_return_eq_Some [simp]: "act_return x = Some (es, r) \<longleftrightarrow> es = [] \<and> r = Inr x"
  by (auto simp: act_return_def)

lemma act_fail_eq_Some [simp]: "act_fail e = Some (es, r) \<longleftrightarrow> es = [] \<and> r = Inl e"
  by (auto simp: act_fail_def)

lemma act_emit_eq_Some [simp]: "act_emit a = Some (es, r) \<longleftrightarrow> es = [a] \<and> r = Inr ()"
  by (auto simp: act_emit_def)

lemma act_send_eq_Some [simp]: "act_send a out = Some (es, r) \<longleftrightarrow> es = [a] \<and> r = out"
  by (auto simp: act_send_def)

lemma act_unwrap_eq_Some [simp]: "act_unwrap m = Some (es, r) \<longleftrightarrow> (\<exists>x. m = Some x \<and> es = [] \<and> r = Inr x)"
  by (cases m) auto

lemma act_each_ok:
  assumes "\<And>x. x \<in> set xs \<Longrightarrow> f x = Some (g x, Inr ())"
  shows "act_each f xs = Some (concat (map g xs), Inr ())"
  using assms by (induction xs) (auto simp: act_return_def)

text \<open>What every sent item of a loop satisfies.\<close>

lemma act_each_all:
  assumes "act_each f xs = Some (es, r)"
    and "\<And>x es r. x \<in> set xs \<Longrightarrow> f x = Some (es, r) \<Longrightarrow> \<forall>e \<in> set es. P e"
  shows "\<forall>e \<in> set es. P e"
  using assms
proof (induction xs arbitrary: es r)
  case (Cons x xs)
  then show ?case by (auto simp: act_bind_eq_Some) blast+
qed simp

end
