(* ===== verification/Omanager.thy ===== *)
theory Omanager
  imports Orchestrator Actions Events
begin

text \<open>
  The orchestration manager of the leader (\<^verbatim>\<open>emulation/src/pubapi.rs\<close>): it takes new
  topologies, aborts and stops, and the updates of the cluster graph. Its state is the
  orchestrator and, per emulation, the nodes it runs on with their readiness. A turn of its loop
  returns what it sends, in order. The world answers which nodes can be reached, and parses a
  topology (the parser is the theory \<^verbatim>\<open>Topology\<close>).
\<close>

record omanager =
  om_my_emanager :: cluster_node_info
  om_my_omanager :: cluster_node_info
  om_orchestrator :: orchestrator
  om_nodes :: "(uuid, (cluster_node_info, bool) hmap) hmap"

record oworld =
  ow_new_uuid :: uuid
  ow_show :: "uuid \<Rightarrow> string"
  ow_parse_uuid :: "string \<Rightarrow> uuid option"
  ow_parse_topology :: "string \<Rightarrow> uuid \<Rightarrow> (node network \<times> emulation_event list) result option"
  ow_local :: bool
  ow_reach :: "cluster_node_info \<Rightarrow> bool"

text \<open>A message to the local emulation manager or to that of another node, with whether it
  arrives; an answer to the sender.\<close>

datatype oeffect =
    ToLocal emanager_message bool
  | ToNode cluster_node_info emanager_message bool
  | Reply "omanager_message option"

definition om_build ::
  "cluster_node_info \<Rightarrow> u16 \<Rightarrow> u16 \<Rightarrow> wcgraph \<Rightarrow> nat \<Rightarrow> omanager option" where
  "om_build my_info omanager_port emanager_port original_cgraph max_load_per_node =
     map_option
       (\<lambda>orch. \<lparr>om_my_emanager = my_info\<lparr>cni_port := emanager_port\<rparr>,
                om_my_omanager = my_info\<lparr>cni_port := omanager_port\<rparr>,
                om_orchestrator = orch, om_nodes = []\<rparr>)
       (or_new original_cgraph emanager_port max_load_per_node)"

section \<open>Aborting\<close>

definition om_deliver :: "oworld \<Rightarrow> omanager \<Rightarrow> emanager_message \<Rightarrow> cluster_node_info \<Rightarrow> oeffect" where
  "om_deliver w s m node =
     (if cni_eq (om_my_emanager s) node then ToLocal m (ow_local w) else ToNode node m (ow_reach w node))"

text \<open>A failed send is only reported; the emulation is forgotten in any case.\<close>

fun abort_emulations :: "oworld \<Rightarrow> uuid list \<Rightarrow> omanager \<Rightarrow> oeffect list \<times> omanager" where
  "abort_emulations w [] s = ([], s)"
| "abort_emulations w (u # us) s =
     (case hm_get (=) (om_nodes s) u of
        None \<Rightarrow> abort_emulations w us s
      | Some nodes \<Rightarrow>
          (let sent = map (om_deliver w s (ExperimentStop (ow_show w u))) (hm_keys nodes);
               (sent', s') = abort_emulations w us (s\<lparr>om_nodes := hm_remove (=) u (om_nodes s)\<rparr>)
           in (sent @ sent', s')))"

section \<open>New emulations\<close>

text \<open>The loop over the nodes; \<^verbatim>\<open>before\<close> are the nodes it has sent to. A node that cannot be
  reached makes it stop the emulation on those, over the network.\<close>

fun send_experiment ::
  "oworld \<Rightarrow> omanager \<Rightarrow> emulation \<Rightarrow> cluster_node_info list \<Rightarrow> cluster_node_info list
   \<Rightarrow> (oeffect, unit) action" where
  "send_experiment w s emul before [] = act_return ()"
| "send_experiment w s emul before (node # nodes) =
     (let m = ExperimentNew (om_my_omanager s) emul
      in if cni_eq node (om_my_emanager s)
         then (if ow_local w
               then act_bind (act_emit (ToLocal m True)) (\<lambda>_. send_experiment w s emul (before @ [node]) nodes)
               else act_bind (act_emit (ToLocal m False)) (\<lambda>_. act_fail
                      (error_wrap ''send start emulation'' CommandFailed
                         ''cannot send new topology to local node'' ''channel closed'')))
         else (if ow_reach w node
               then act_bind (act_emit (ToNode node m True)) (\<lambda>_. send_experiment w s emul (before @ [node]) nodes)
               else act_bind (act_emit (ToNode node m False))
                      (\<lambda>_. act_bind
                        (act_each (\<lambda>n. act_emit (ToNode n (ExperimentStop (ow_show w (em_uuid emul))) (ow_reach w n)))
                           before)
                        (\<lambda>_. act_fail (error_new ''send start emulation'' CommandFailed
                           ''Error when sending emulation to everyone. Destination not reached.'')))))"

definition send_new_emulation ::
  "oworld \<Rightarrow> omanager \<Rightarrow> uuid \<Rightarrow> node network \<Rightarrow> cluster_node_info list \<Rightarrow> emulation_event list
   \<Rightarrow> (oeffect, unit) action" where
  "send_new_emulation w s u network nodes events =
     send_experiment w s (emulation_build u network events) [] nodes"

type_synonym oturn = "(oeffect list \<times> omanager) option"

definition on_new_topology :: "oworld \<Rightarrow> string \<Rightarrow> omanager \<Rightarrow> oturn" where
  "on_new_topology w topology s =
     (let u = ow_new_uuid w
      in case ow_parse_topology w topology u of
           None \<Rightarrow> None
         | Some (Inl e) \<Rightarrow> Some ([Reply (Some (Rejected (BadFile (error_display e))))], s)
         | Some (Inr (network, events)) \<Rightarrow>
             (case or_new_emulation network u (om_orchestrator s) of
                None \<Rightarrow> None
              | Some (orch, Inl e) \<Rightarrow>
                  Some ([Reply (Some (Rejected NoDeploymentFound))], s\<lparr>om_orchestrator := orch\<rparr>)
              | Some (orch, Inr None) \<Rightarrow>
                  Some ([Reply (Some (Rejected NoDeploymentFound))], s\<lparr>om_orchestrator := orch\<rparr>)
              | Some (orch, Inr (Some (network', affected))) \<Rightarrow>
                  (let nodes_ready_map = fold (\<lambda>n acc. hm_insert (=) n False acc) affected [];
                       s' = s\<lparr>om_orchestrator := orch, om_nodes := hm_insert (=) u nodes_ready_map (om_nodes s)\<rparr>
                   in case send_new_emulation w s' u network' affected events of
                        None \<Rightarrow> None
                      | Some (sent, Inr _) \<Rightarrow> Some (sent @ [Reply (Some Accepted)], s')
                      | Some (sent, Inl _) \<Rightarrow> Some (sent @ [Reply (Some (Rejected NoDeploymentFound))], s'))))"

section \<open>The other messages\<close>

definition on_abort :: "oworld \<Rightarrow> string \<Rightarrow> omanager \<Rightarrow> oturn" where
  "on_abort w i s =
     (case ow_parse_uuid w i of
        None \<Rightarrow> None
      | Some u \<Rightarrow> (let (sent, s') = abort_emulations w [u] s in Some (sent @ [Reply None], s')))"

text \<open>An error of the orchestrator is only reported.\<close>

definition on_clean_stop :: "oworld \<Rightarrow> string \<Rightarrow> cluster_node_info \<Rightarrow> nat \<Rightarrow> omanager \<Rightarrow> oturn" where
  "on_clean_stop w i node app_idx s =
     (case ow_parse_uuid w i of
        None \<Rightarrow> None
      | Some u \<Rightarrow>
          (case or_stop_app_emulation_on u node app_idx (om_orchestrator s) of
             None \<Rightarrow> None
           | Some (orch, _) \<Rightarrow> Some ([Reply None], s\<lparr>om_orchestrator := orch\<rparr>)))"

text \<open>The loop that tells the nodes to start: a lost local channel panics, a node out of reach
  aborts the emulation and ends the loop.\<close>

fun send_ready ::
  "oworld \<Rightarrow> uuid \<Rightarrow> cluster_node_info list \<Rightarrow> omanager \<Rightarrow> oturn" where
  "send_ready w u [] s = Some ([], s)"
| "send_ready w u (node # nodes) s =
     (let m = ExperimentReady (ow_show w u)
      in if cni_eq (om_my_emanager s) node
         then (if ow_local w
               then map_option (\<lambda>(sent, s'). (ToLocal m True # sent, s')) (send_ready w u nodes s)
               else None)
         else (if ow_reach w node
               then map_option (\<lambda>(sent, s'). (ToNode node m True # sent, s')) (send_ready w u nodes s)
               else (let (sent, s') = abort_emulations w [u] s in Some (ToNode node m False # sent, s'))))"

text \<open>Both \<^verbatim>\<open>get_mut\<close> unwrap: an unknown emulation or node panics.\<close>

definition on_emulation_ready :: "oworld \<Rightarrow> string \<Rightarrow> cluster_node_info \<Rightarrow> omanager \<Rightarrow> oturn" where
  "on_emulation_ready w i node s =
     (case ow_parse_uuid w i of
        None \<Rightarrow> None
      | Some u \<Rightarrow>
          (case hm_get (=) (om_nodes s) u of
             None \<Rightarrow> None
           | Some nodes \<Rightarrow>
               (case hm_get (=) nodes node of
                  None \<Rightarrow> None
                | Some _ \<Rightarrow>
                    (let nodes' = hm_update (=) node (\<lambda>_. True) nodes;
                         s' = s\<lparr>om_nodes := hm_update (=) u (\<lambda>_. nodes') (om_nodes s)\<rparr>
                     in if list_all snd nodes'
                        then map_option (\<lambda>(sent, s''). (sent @ [Reply None], s''))
                               (send_ready w u (hm_keys nodes') s')
                        else Some ([Reply None], s')))))"

text \<open>A message with an answer channel, or without (\<^verbatim>\<open>False\<close>).\<close>

fun handle_experiment_message :: "oworld \<Rightarrow> omanager_message \<times> bool \<Rightarrow> omanager \<Rightarrow> oturn" where
  "handle_experiment_message w (NewTopology topology, True) s = on_new_topology w topology s"
| "handle_experiment_message w (Abort i, True) s = on_abort w i s"
| "handle_experiment_message w (CleanStop i node app_idx, True) s = on_clean_stop w i node app_idx s"
| "handle_experiment_message w (EmulationReady i node, True) s = on_emulation_ready w i node s"
| "handle_experiment_message w (_, True) s =
     Some ([Reply (Some (Rejected (BadFile ''You need to send file via NewTopology enumeration'')))], s)"
| "handle_experiment_message w (_, False) s = Some ([], s)"

section \<open>The loop\<close>

text \<open>An error of the orchestrator is unwrapped here.\<close>

fun on_graph_update :: "oworld \<Rightarrow> cgraph_update \<Rightarrow> omanager \<Rightarrow> oturn" where
  "on_graph_update w (New graph) s =
     (case or_update_with_cgraph graph (om_orchestrator s) of
        Some (orch, Inr affected) \<Rightarrow> Some (abort_emulations w affected (s\<lparr>om_orchestrator := orch\<rparr>))
      | _ \<Rightarrow> None)"
| "on_graph_update w (Remove node) s =
     (case or_remove_cluster_node node (om_orchestrator s) of
        Some (orch, Inr affected) \<Rightarrow> Some (abort_emulations w affected (s\<lparr>om_orchestrator := orch\<rparr>))
      | _ \<Rightarrow> None)"

text \<open>\<^verbatim>\<open>accept_topology\<close>: the messages and the updates in the order the loop takes them.\<close>

fun accept_topology ::
  "(oworld \<times> ((omanager_message \<times> bool) + cgraph_update)) list \<Rightarrow> omanager \<Rightarrow> oturn" where
  "accept_topology [] s = Some ([], s)"
| "accept_topology ((w, input) # inputs) s =
     (case (case input of Inl m \<Rightarrow> handle_experiment_message w m s | Inr u \<Rightarrow> on_graph_update w u s) of
        None \<Rightarrow> None
      | Some (sent, s') \<Rightarrow>
          map_option (\<lambda>(sent', s''). (sent @ sent', s'')) (accept_topology inputs s'))"

end
