(* ===== verification/Omanager_Props.thy ===== *)
theory Omanager_Props
  imports Omanager Deployment
begin

text \<open>
  The orchestration manager: what a new topology leaves behind in the orchestrator and on the
  nodes, on every outcome of the sends; the start signal goes out only after every node of the
  emulation has reported; an abort tells every node and forgets the emulation.
\<close>

section \<open>Sending a new emulation\<close>

definition arrives :: "oworld \<Rightarrow> omanager \<Rightarrow> cluster_node_info \<Rightarrow> bool" where
  "arrives w s n = (if n = om_my_emanager s then ow_local w else ow_reach w n)"

lemma send_experiment_result:
  "\<exists>sent r. send_experiment w s emul before nodes = Some (sent, r)
     \<and> (r = Inr () \<longleftrightarrow> (\<forall>n \<in> set nodes. arrives w s n))
     \<and> (r = Inr () \<longrightarrow> sent = map (om_deliver w s (ExperimentNew (om_my_omanager s) emul)) nodes)"
proof (induction nodes arbitrary: before)
  case Nil
  then show ?case by (simp add: act_return_def)
next
  case (Cons n nodes)
  let ?m = "ExperimentNew (om_my_omanager s) emul"
  obtain sent r where rest: "send_experiment w s emul (before @ [n]) nodes = Some (sent, r)"
    "r = Inr () \<longleftrightarrow> (\<forall>n \<in> set nodes. arrives w s n)"
    "r = Inr () \<longrightarrow> sent = map (om_deliver w s ?m) nodes"
    using Cons.IH by blast
  define e where "e = om_deliver w s ?m n"
  show ?case
  proof (cases "arrives w s n")
    case True
    have "send_experiment w s emul before (n # nodes) = Some (e # sent, r)"
      using True rest(1)
      by (auto simp: arrives_def e_def om_deliver_def act_emit_def Let_def split: if_splits)
    then show ?thesis using rest(2,3) True by (auto simp: e_def)
  next
    case False
    have stop: "\<exists>es. act_each (\<lambda>n. act_emit (ToNode n (ExperimentStop (ow_show w (em_uuid emul))) (ow_reach w n)))
        before = Some (es, Inr ())"
      by (induction before) (auto simp: act_emit_def act_return_def)
    then have "\<exists>es er. send_experiment w s emul before (n # nodes) = Some (es, Inl er)"
      using False by (auto simp: arrives_def act_emit_def act_fail_def Let_def split: if_splits)
    then show ?thesis using False by auto
  qed
qed

lemma ready_map:
  "hm_keys (fold (\<lambda>n acc. hm_insert (=) n False acc) ns m) = fold (hs_insert (=)) ns (hm_keys m)"
  by (induction ns arbitrary: m) (simp_all add: hol_eq.hm_keys_insert)

lemma ready_map_get:
  "hm_get (=) (fold (\<lambda>n acc. hm_insert (=) n False acc) ns m) k
     = (if k \<in> set ns then Some False else hm_get (=) m k)"
  by (induction ns arbitrary: m) (auto simp: hol_eq.hm_get_insert)

text \<open>What a topology with a placement leaves: the emulation is deployed in the orchestrator and
  every host of it is not ready, whether or not the hosts could be told.\<close>

lemma new_topology_result:
  fixes orch :: orchestrator
  assumes "ow_parse_topology w topology (ow_new_uuid w) = Some (Inr (net, events))"
    and "or_ok (om_orchestrator s)"
    and "net_bandwidth_matrix node_eq net node_is_app = Some (matrix, nodes)" "length nodes < 2 ^ 26"
    and "find_isomorphism (om_orchestrator s) matrix = Some (Inr (Some eqv))"
  shows "\<exists>s' net' affected sent.
    deployed net (ow_new_uuid w) matrix nodes eqv (om_orchestrator s) (om_orchestrator s') net' affected
    \<and> (\<forall>u. hm_get (=) (om_nodes s') u = (if u = ow_new_uuid w
            then Some (fold (\<lambda>n acc. hm_insert (=) n False acc) affected []) else hm_get (=) (om_nodes s) u))
    \<and> (if \<forall>n \<in> set affected. arrives w s n
       then on_new_topology w topology s = Some (map (om_deliver w s (ExperimentNew (om_my_omanager s)
              (emulation_build (ow_new_uuid w) net' events))) affected @ [Reply (Some Accepted)], s')
       else on_new_topology w topology s = Some (sent @ [Reply (Some (Rejected NoDeploymentFound))], s'))"
proof -
  obtain orch' net' affected where d: "or_new_emulation net (ow_new_uuid w) (om_orchestrator s)
      = Some (orch', Inr (Some (net', affected)))"
    "deployed net (ow_new_uuid w) matrix nodes eqv (om_orchestrator s) orch' net' affected"
    using new_emulation_deploys [OF assms(2-5)] by blast
  let ?s' = "s\<lparr>om_orchestrator := orch', om_nodes := hm_insert (=) (ow_new_uuid w)
      (fold (\<lambda>n acc. hm_insert (=) n False acc) affected []) (om_nodes s)\<rparr>"
  let ?emul = "emulation_build (ow_new_uuid w) net' events"
  obtain sent r where sent: "send_experiment w ?s' ?emul [] affected = Some (sent, r)"
    "r = Inr () \<longleftrightarrow> (\<forall>n \<in> set affected. arrives w ?s' n)"
    "r = Inr () \<longrightarrow> sent = map (om_deliver w ?s' (ExperimentNew (om_my_omanager ?s') ?emul)) affected"
    using send_experiment_result [of w ?s' ?emul "[]" affected] by blast
  have same: "arrives w ?s' = arrives w s" "om_deliver w ?s' = om_deliver w s"
    by (auto simp: arrives_def om_deliver_def fun_eq_iff)
  have nodes: "\<forall>u. hm_get (=) (om_nodes ?s') u = (if u = ow_new_uuid w
      then Some (fold (\<lambda>n acc. hm_insert (=) n False acc) affected []) else hm_get (=) (om_nodes s) u)"
    by (simp add: hol_eq.hm_get_insert)
  have run: "on_new_topology w topology s = Some (sent @ [Reply (Some
      (case r of Inl _ \<Rightarrow> Rejected NoDeploymentFound | Inr _ \<Rightarrow> Accepted))], ?s')"
    using assms(1) d(1) sent(1) by (simp add: on_new_topology_def send_new_emulation_def Let_def split: sum.split)
  have dep: "deployed net (ow_new_uuid w) matrix nodes eqv (om_orchestrator s) (om_orchestrator ?s') net' affected"
    using d(2) by simp
  have "if \<forall>n \<in> set affected. arrives w s n
       then on_new_topology w topology s = Some (map (om_deliver w s (ExperimentNew (om_my_omanager s) ?emul))
              affected @ [Reply (Some Accepted)], ?s')
       else on_new_topology w topology s = Some (sent @ [Reply (Some (Rejected NoDeploymentFound))], ?s')"
    using run sent(2,3) same by (cases r) simp_all
  with dep nodes show ?thesis by blast
qed

section \<open>Aborting\<close>

lemma abort_emulations_orchestrator:
  "abort_emulations w us s = (sent, s') \<Longrightarrow> om_orchestrator s' = om_orchestrator s
     \<and> om_my_emanager s' = om_my_emanager s"
proof (induction us arbitrary: s sent)
  case (Cons u us)
  then show ?case by (fastforce split: option.splits prod.splits simp: Let_def)
qed simp

lemma abort_one:
  assumes "hm_distinct (=) (om_nodes s)" "hm_get (=) (om_nodes s) u = Some nodes"
  shows "abort_emulations w [u] s = (map (om_deliver w s (ExperimentStop (ow_show w u))) (hm_keys nodes),
      s\<lparr>om_nodes := hm_remove (=) u (om_nodes s)\<rparr>)"
    and "hm_get (=) (hm_remove (=) u (om_nodes s)) v = (if v = u then None else hm_get (=) (om_nodes s) v)"
  using assms by (auto simp: hol_eq.hm_get_remove)

section \<open>The start signal\<close>

type_synonym oinput = "oworld \<times> ((omanager_message \<times> bool) + cgraph_update)"

definition om_turn :: "oinput \<Rightarrow> omanager \<Rightarrow> oturn" where
  "om_turn i s = (case i of (w, Inl m) \<Rightarrow> handle_experiment_message w m s | (w, Inr u) \<Rightarrow> on_graph_update w u s)"

lemma accept_topology_Cons:
  "accept_topology (i # is) s =
     (case om_turn i s of
        None \<Rightarrow> None
      | Some (sent, s') \<Rightarrow> map_option (\<lambda>(sent', s''). (sent @ sent', s'')) (accept_topology is s'))"
  by (cases i; cases "snd i") (auto simp: om_turn_def split: option.split)

lemma accept_topology_append:
  "accept_topology (is @ js) s =
     (case accept_topology is s of
        None \<Rightarrow> None
      | Some (sent, s') \<Rightarrow> map_option (\<lambda>(sent', s''). (sent @ sent', s'')) (accept_topology js s'))"
proof (induction "is" arbitrary: s)
  case Nil
  then show ?case by (simp add: option.map_ident_strong split: option.split)
next
  case (Cons i "is")
  show ?case
    using Cons.IH
    by (auto simp del: accept_topology.simps simp: accept_topology_Cons option.map_comp comp_def
        split: option.split prod.split intro!: option.map_cong0)
qed

definition reported :: "oinput list \<Rightarrow> uuid \<Rightarrow> cluster_node_info \<Rightarrow> bool" where
  "reported is u n \<longleftrightarrow> (\<exists>w i. (w, Inl (EmulationReady i n, True)) \<in> set is \<and> ow_parse_uuid w i = Some u)"

definition ready_flag :: "omanager \<Rightarrow> uuid \<Rightarrow> cluster_node_info \<Rightarrow> bool" where
  "ready_flag s u n \<longleftrightarrow> (\<exists>nodes. hm_get (=) (om_nodes s) u = Some nodes \<and> hm_get (=) nodes n = Some True)"

text \<open>The emulations that are known, and for each its nodes.\<close>

definition om_wf :: "omanager \<Rightarrow> bool" where
  "om_wf s \<longleftrightarrow> hm_distinct (=) (om_nodes s)
     \<and> (\<forall>u nodes. hm_get (=) (om_nodes s) u = Some nodes \<longrightarrow> hm_distinct (=) nodes)"

text \<open>A turn that sets no flag beyond those of the state before.\<close>

definition flags_kept :: "omanager \<Rightarrow> omanager \<Rightarrow> bool" where
  "flags_kept s s' \<longleftrightarrow> om_wf s' \<and> (\<forall>u n. ready_flag s' u n \<longrightarrow> ready_flag s u n)"

lemma flags_kept_refl: "om_wf s \<Longrightarrow> flags_kept s s"
  by (simp add: flags_kept_def)

lemma flags_kept_orchestrator: "om_wf s \<Longrightarrow> flags_kept s (s\<lparr>om_orchestrator := orch\<rparr>)"
  by (simp add: flags_kept_def om_wf_def ready_flag_def)

lemma flags_kept_trans: "flags_kept a b \<Longrightarrow> flags_kept b c \<Longrightarrow> flags_kept a c"
  by (auto simp: flags_kept_def)

lemma flags_kept_remove:
  assumes "om_wf s"
  shows "flags_kept s (s\<lparr>om_nodes := hm_remove (=) u (om_nodes s)\<rparr>)"
  using assms hol_eq.hm_distinct_remove
  by (auto simp: flags_kept_def om_wf_def ready_flag_def hol_eq.hm_get_remove split: if_splits)

lemma flags_kept_insert:
  assumes wf: "om_wf s"
  shows "flags_kept s (s\<lparr>om_orchestrator := orch,
      om_nodes := hm_insert (=) u (fold (\<lambda>n acc. hm_insert (=) n False acc) ns []) (om_nodes s)\<rparr>)"
proof -
  have "hm_distinct (=) (fold (\<lambda>n acc. hm_insert (=) n False acc) ns m)" if "hm_distinct (=) m"
    for m :: "(cluster_node_info, bool) hmap"
    using that by (induction ns arbitrary: m) (simp_all add: hol_eq.hm_distinct_insert)
  from this [of "[]"] have "hm_distinct (=) (fold (\<lambda>n acc. hm_insert (=) n False acc) ns [])"
    by (simp add: hm_distinct_def hm_keys_def)
  then show ?thesis using wf
    by (auto simp: flags_kept_def om_wf_def ready_flag_def hol_eq.hm_get_insert hol_eq.hm_distinct_insert
        ready_map_get split: if_splits)
qed

lemma abort_flags: "om_wf s \<Longrightarrow> abort_emulations w us s = (sent, s') \<Longrightarrow> flags_kept s s'"
proof (induction us arbitrary: s sent)
  case Nil
  then show ?case by (simp add: flags_kept_refl)
next
  case (Cons u us)
  show ?case
  proof (cases "hm_get (=) (om_nodes s) u")
    case None
    then show ?thesis using Cons by simp
  next
    case (Some nodes)
    let ?s1 = "s\<lparr>om_nodes := hm_remove (=) u (om_nodes s)\<rparr>"
    obtain sent' where "abort_emulations w us ?s1 = (sent', s')"
      using Cons.prems(2) Some by (auto simp: Let_def split: prod.splits)
    moreover have k: "flags_kept s ?s1" by (rule flags_kept_remove [OF Cons.prems(1)])
    moreover have "om_wf ?s1" using k by (simp add: flags_kept_def)
    ultimately show ?thesis using Cons.IH flags_kept_trans by blast
  qed
qed

lemma send_ready_flags: "om_wf s \<Longrightarrow> send_ready w u ns s = Some (sent, s') \<Longrightarrow> flags_kept s s'"
proof (induction ns arbitrary: sent)
  case Nil
  then show ?case by (simp add: flags_kept_refl)
next
  case (Cons n ns)
  then show ?case
    by (auto simp: Let_def simp del: abort_emulations.simps split: if_splits prod.splits intro: abort_flags)
qed

text \<open>The one message that sets a flag, and only its own.\<close>

lemma ready_marks:
  assumes wf: "om_wf s" and turn: "on_emulation_ready w i node s = Some (sent, s')"
  obtains u nodes s1 where "ow_parse_uuid w i = Some u" "hm_get (=) (om_nodes s) u = Some nodes"
    "hm_get (=) nodes node \<noteq> None"
    "s1 = s\<lparr>om_nodes := hm_update (=) u (\<lambda>_. hm_update (=) node (\<lambda>_. True) nodes) (om_nodes s)\<rparr>"
    "om_wf s1" "\<forall>v n. ready_flag s1 v n \<longleftrightarrow> ready_flag s v n \<or> v = u \<and> n = node"
    "if list_all snd (hm_update (=) node (\<lambda>_. True) nodes)
     then \<exists>sent'. send_ready w u (hm_keys nodes) s1 = Some (sent', s') \<and> sent = sent' @ [Reply None]
     else sent = [Reply None] \<and> s' = s1"
proof -
  obtain u nodes where u: "ow_parse_uuid w i = Some u" "hm_get (=) (om_nodes s) u = Some nodes"
    "hm_get (=) nodes node \<noteq> None"
    using turn by (auto simp: on_emulation_ready_def split: option.splits)
  let ?nodes = "hm_update (=) node (\<lambda>_. True) nodes"
  let ?s1 = "s\<lparr>om_nodes := hm_update (=) u (\<lambda>_. ?nodes) (om_nodes s)\<rparr>"
  have "om_wf ?s1"
    using wf u by (auto simp: om_wf_def hol_eq.hm_get_update hol_eq.hm_distinct_update split: if_splits)
  moreover have "\<forall>v n. ready_flag ?s1 v n \<longleftrightarrow> ready_flag s v n \<or> v = u \<and> n = node"
    using u by (auto simp: ready_flag_def hol_eq.hm_get_update split: if_splits)
  moreover have "if list_all snd ?nodes
     then \<exists>sent'. send_ready w u (hm_keys nodes) ?s1 = Some (sent', s') \<and> sent = sent' @ [Reply None]
     else sent = [Reply None] \<and> s' = ?s1"
    using turn u by (auto simp: on_emulation_ready_def Let_def hol_eq.hm_keys_update split: if_splits option.splits)
  ultimately show thesis using that u by blast
qed

lemma new_topology_flags:
  assumes "om_wf s" "on_new_topology w topology s = Some (sent, s')"
  shows "flags_kept s s'"
  using assms
  by (auto simp: on_new_topology_def Let_def flags_kept_refl flags_kept_orchestrator flags_kept_insert
      split: option.splits sum.splits)

lemma turn_flags:
  assumes wf: "om_wf s" and turn: "om_turn i s = Some (sent, s')"
  shows "om_wf s' \<and> (\<forall>u n. ready_flag s' u n \<longrightarrow> ready_flag s u n \<or> reported [i] u n)"
proof (cases "\<exists>w j n. i = (w, Inl (EmulationReady j n, True))")
  case True
  then obtain w j n where i: "i = (w, Inl (EmulationReady j n, True))" by blast
  then have "on_emulation_ready w j n s = Some (sent, s')" using turn by (simp add: om_turn_def)
  from ready_marks [OF wf this] obtain u nodes s1 where
    m: "ow_parse_uuid w j = Some u" "hm_get (=) (om_nodes s) u = Some nodes" "hm_get (=) nodes n \<noteq> None"
      "s1 = s\<lparr>om_nodes := hm_update (=) u (\<lambda>_. hm_update (=) n (\<lambda>_. True) nodes) (om_nodes s)\<rparr>"
      "om_wf s1" "\<forall>v k. ready_flag s1 v k \<longleftrightarrow> ready_flag s v k \<or> v = u \<and> k = n"
      "if list_all snd (hm_update (=) n (\<lambda>_. True) nodes)
       then \<exists>sent'. send_ready w u (hm_keys nodes) s1 = Some (sent', s') \<and> sent = sent' @ [Reply None]
       else sent = [Reply None] \<and> s' = s1" .
  have "flags_kept s1 s'"
    using m(7) send_ready_flags [OF m(5)] flags_kept_refl [OF m(5)] by (auto split: if_splits)
  then show ?thesis using m(1,5,6) i by (auto simp: flags_kept_def reported_def)
next
  case False
  obtain w k where i: "i = (w, k)" by (cases i)
  have "flags_kept s s'"
  proof (cases k)
    case (Inl mb)
    obtain m b where mb: "mb = (m, b)" by (cases mb)
    show ?thesis
      using turn False i Inl mb wf
      by (cases m; cases b)
        (auto simp: om_turn_def on_abort_def on_clean_stop_def flags_kept_refl flags_kept_orchestrator
          simp del: abort_emulations.simps
          split: option.splits prod.splits intro: abort_flags new_topology_flags)
  next
    case (Inr u)
    then obtain us orch where t: "abort_emulations w us (s\<lparr>om_orchestrator := orch\<rparr>) = (sent, s')"
      using turn i by (cases u) (auto simp: om_turn_def split: option.splits sum.splits)
    have k: "flags_kept s (s\<lparr>om_orchestrator := orch\<rparr>)" by (rule flags_kept_orchestrator [OF wf])
    then have "om_wf (s\<lparr>om_orchestrator := orch\<rparr>)" by (simp add: flags_kept_def)
    from abort_flags [OF this t] show ?thesis using k flags_kept_trans by blast
  qed
  then show ?thesis by (auto simp: flags_kept_def)
qed

lemma run_flags:
  "accept_topology is s = Some (sent, s') \<Longrightarrow> om_wf s
   \<Longrightarrow> om_wf s' \<and> (\<forall>u n. ready_flag s' u n \<longrightarrow> ready_flag s u n \<or> reported is u n)"
proof (induction "is" arbitrary: s sent)
  case (Cons i "is")
  obtain o1 s1 o2 where t: "om_turn i s = Some (o1, s1)" "accept_topology is s1 = Some (o2, s')"
    using Cons.prems(1)
    by (auto simp del: accept_topology.simps simp: accept_topology_Cons split: option.splits prod.splits)
  have "reported [i] u n \<or> reported is u n \<longleftrightarrow> reported (i # is) u n" for u n
    by (auto simp: reported_def)
  with turn_flags [OF Cons.prems(2) t(1)] Cons.IH [OF t(2)] show ?case by blast
qed simp

fun starts :: "oeffect \<Rightarrow> string option" where
  "starts (ToLocal (ExperimentReady t) _) = Some t"
| "starts (ToNode _ (ExperimentReady t) _) = Some t"
| "starts _ = None"

lemma abort_starts: "abort_emulations w us s = (sent, s') \<Longrightarrow> e \<in> set sent \<Longrightarrow> starts e = None"
proof (induction us arbitrary: s sent)
  case (Cons u us)
  then show ?case by (fastforce simp: Let_def om_deliver_def split: option.splits prod.splits if_splits)
qed simp

lemma send_ready_starts:
  "send_ready w u ns s = Some (sent, s') \<Longrightarrow> e \<in> set sent \<Longrightarrow> starts e = Some t \<Longrightarrow> t = ow_show w u"
proof (induction ns arbitrary: sent)
  case (Cons n ns)
  then show ?case
    by (auto simp: Let_def simp del: abort_emulations.simps split: if_splits prod.splits)
      (metis abort_starts option.distinct(1))+
qed simp

lemma send_experiment_starts:
  "send_experiment w s emul before ns = Some (sent, r) \<Longrightarrow> e \<in> set sent \<Longrightarrow> starts e = None"
proof (induction ns arbitrary: before sent)
  case (Cons n ns)
  have stop: "starts e = None" if "act_each (\<lambda>n. act_emit (ToNode n (ExperimentStop (ow_show w (em_uuid emul)))
      (ow_reach w n))) before = Some (es, q)" "e \<in> set es" for es q
    using act_each_all [OF that(1), of "\<lambda>e. starts e = None"] that(2) by auto
  show ?case
    using Cons by (auto simp: Let_def act_bind_eq_Some dest: stop split: if_splits)
qed simp

lemma hm_get_key: "k \<in> set (hm_keys m) \<Longrightarrow> \<exists>v. hm_get (=) m k = Some v"
proof (induction m)
  case (Cons p m)
  then show ?case by (cases p; cases "fst p = k") (auto simp: hm_keys_def)
qed (simp add: hm_keys_def)

lemma all_true:
  assumes "list_all snd (hm_update (=) n (\<lambda>_. True) nodes)" "k \<in> set (hm_keys nodes)"
  shows "k = n \<or> hm_get (=) nodes k = Some True"
proof -
  let ?m = "hm_update (=) n (\<lambda>_. True) nodes"
  obtain v where v: "hm_get (=) ?m k = Some v"
    using hm_get_key [of k ?m] assms(2) by (auto simp: hol_eq.hm_keys_update)
  then have v_true: v using hm_get_in [OF v] assms(1) by (auto simp: list_all_iff)
  show ?thesis
    using v v_true by (cases "k = n") (simp_all add: hol_eq.hm_get_update)
qed

lemma turn_starts:
  assumes "om_wf s" "om_turn i s = Some (sent, s')" "e \<in> set sent" "starts e = Some t"
  shows "\<exists>w j n u nodes. i = (w, Inl (EmulationReady j n, True)) \<and> ow_parse_uuid w j = Some u
    \<and> t = ow_show w u \<and> hm_get (=) (om_nodes s) u = Some nodes \<and> n \<in> set (hm_keys nodes)
    \<and> (\<forall>k \<in> set (hm_keys nodes). k = n \<or> ready_flag s u k)"
proof -
  obtain w k where i: "i = (w, k)" by (cases i)
  have "\<exists>j n. k = Inl (EmulationReady j n, True)"
  proof (cases k)
    case (Inl mb)
    obtain m b where mb: "mb = (m, b)" by (cases mb)
    show ?thesis
      using assms(2-4) i Inl mb
      by (cases m; cases b)
        (auto simp: om_turn_def on_abort_def on_clean_stop_def on_new_topology_def send_new_emulation_def Let_def
          simp del: abort_emulations.simps
          split: option.splits prod.splits sum.splits,
         (metis abort_starts send_experiment_starts option.distinct(1))+)
  next
    case (Inr u)
    then show ?thesis
      using assms(2-4) i
      by (cases u)
        (auto simp: om_turn_def split: option.splits sum.splits, (metis abort_starts option.distinct(1))+)
  qed
  then obtain j n where k: "k = Inl (EmulationReady j n, True)" by blast
  then have t: "on_emulation_ready w j n s = Some (sent, s')" using assms(2) i by (simp add: om_turn_def)
  from ready_marks [OF assms(1) t] obtain u nodes s1 where
    m: "ow_parse_uuid w j = Some u" "hm_get (=) (om_nodes s) u = Some nodes" "hm_get (=) nodes n \<noteq> None"
      "s1 = s\<lparr>om_nodes := hm_update (=) u (\<lambda>_. hm_update (=) n (\<lambda>_. True) nodes) (om_nodes s)\<rparr>"
      "om_wf s1" "\<forall>v k. ready_flag s1 v k \<longleftrightarrow> ready_flag s v k \<or> v = u \<and> k = n"
      "if list_all snd (hm_update (=) n (\<lambda>_. True) nodes)
       then \<exists>sent'. send_ready w u (hm_keys nodes) s1 = Some (sent', s') \<and> sent = sent' @ [Reply None]
       else sent = [Reply None] \<and> s' = s1" .
  then obtain sent' where all: "list_all snd (hm_update (=) n (\<lambda>_. True) nodes)"
    and sr: "send_ready w u (hm_keys nodes) s1 = Some (sent', s')" "sent = sent' @ [Reply None]"
    using assms(3,4) by (auto split: if_splits)
  have "e \<in> set sent'" using assms(3,4) sr(2) by auto
  then have name: "t = ow_show w u" by (rule send_ready_starts [OF sr(1) _ assms(4)])
  have "k' = n \<or> ready_flag s u k'" if "k' \<in> set (hm_keys nodes)" for k'
    using all_true [OF all that] m(2) by (auto simp: ready_flag_def)
  moreover have "n \<in> set (hm_keys nodes)"
    using m(3) hm_get_in [of _ nodes n] by (force simp: hm_keys_def)
  ultimately show ?thesis using i k m(1,2) name by blast
qed

text \<open>The start signal goes out only in a turn in which a node of the emulation reports, all the
  other ones having reported before.\<close>

lemma start_needs_all:
  assumes run: "accept_topology pre s = Some (sent1, s1)" and fresh: "om_nodes s = []"
    and turn: "accept_topology [i] s1 = Some (sent2, s2)" and e: "e \<in> set sent2" "starts e = Some t"
  shows "\<exists>w j n u nodes. i = (w, Inl (EmulationReady j n, True)) \<and> ow_parse_uuid w j = Some u \<and> t = ow_show w u
    \<and> hm_get (=) (om_nodes s1) u = Some nodes \<and> n \<in> set (hm_keys nodes)
    \<and> (\<forall>m \<in> set (hm_keys nodes). m \<noteq> n \<longrightarrow> reported pre u m)"
proof -
  have turn': "om_turn i s1 = Some (sent2, s2)"
    using turn by (auto simp del: accept_topology.simps(2) simp: accept_topology_Cons split: option.splits)
  have wf: "om_wf s" using fresh by (simp add: om_wf_def hm_distinct_def hm_keys_def)
  have none: "\<not> ready_flag s u n" for u n using fresh by (simp add: ready_flag_def)
  from run_flags [OF run wf] have f: "om_wf s1" "\<forall>u n. ready_flag s1 u n \<longrightarrow> reported pre u n"
    using none by blast+
  from turn_starts [OF f(1) turn' e] obtain w j n u nodes where
    k: "i = (w, Inl (EmulationReady j n, True))" "ow_parse_uuid w j = Some u" "t = ow_show w u"
       "hm_get (=) (om_nodes s1) u = Some nodes" "n \<in> set (hm_keys nodes)"
       "\<forall>k \<in> set (hm_keys nodes). k = n \<or> ready_flag s1 u k"
    by (elim exE conjE)
  have "\<forall>m \<in> set (hm_keys nodes). m \<noteq> n \<longrightarrow> reported pre u m" using k(6) f(2) by blast
  with k(1-5) show ?thesis by blast
qed

end
