(* ===== verification/Manager_Properties.thy ===== *)
theory Manager_Properties
  imports Control_Props Omanager_Props Placement_Properties
begin

text \<open>
  What the two managers of the leader guarantee: the controller of the cluster
  (\<^verbatim>\<open>cmanager/src/controller.rs\<close>) and the orchestration manager
  (\<^verbatim>\<open>emulation/src/pubapi.rs\<close>). The witnesses use a leader that is alone in its
  cluster, and the cluster of two hosts of the theory \<^verbatim>\<open>Placement_Properties\<close>.
\<close>

section \<open>A concrete leader\<close>

definition leader_config :: ctrl_config where
  "leader_config =
     \<lparr>cf_cjq_retry = 3, cf_cjq_timeout = 1, cf_cjq_waiting_time = 5, cf_heartbeat_misses = 2,
      cf_heartbeat_sleep = 2, cf_sufficient_speed = 100, cf_perf_test_retries = 1, cf_iperf3_port = 5201,
      cf_cmanager_port = 8080, cf_leader = True, cf_local_speed = 1000\<rparr>"

definition quiet_world :: world where
  "quiet_world =
     \<lparr>w_uuid_show = \<lambda>_. ''c'', w_uuid_parse = \<lambda>_. None, w_new_uuid = 5, w_cjq_answers = Inr [],
      w_get_graph = Inr (), w_graph_answer = None,
      w_perf = \<lambda>_ _. \<lparr>pr_request = Inr (), pr_answer = Inr PClient, pr_iperf = Inr (None, None)\<rparr>,
      w_bind = Inr (), w_send_ok = True, w_server = Inr (), w_have_update = True\<rparr>"

lemma input_ok_quiet: "(\<And>g. m \<noteq> CGraphUpdate g) \<Longrightarrow> input_ok quiet_world m"
  by (simp add: input_ok_def quiet_world_def)

text \<open>A controller as it is built, and after its start.\<close>

lemma built_fresh:
  assumes "ctrl_build parsed ok config = Some (Inr c)"
  shows "cg_inv (ct_cgraph c) \<and> members c = [] \<and> ct_misses c = [] \<and> \<not> ct_adding_new_node c \<and> ct_config c = config
    \<and> ct_is_leader c = cf_leader config"
proof -
  obtain g :: wcgraph where g: "cg_new = Some g" "cg_inv g" "cg_n g = 0" using cg_new_result by blast
  have "cg_nodes g = []" using length_nodes[OF g(2)] g(3) by simp
  then show ?thesis using assms g(2) unfolding ctrl_build_def g(1) by (auto split: sum.splits if_splits)
qed

lemma begun_ok:
  assumes "ctrl_build parsed ok config = Some (Inr c0)" "ctrl_begin w c0 = Some (Inr (c, outs))"
  shows "ctrl_ok c"
proof -
  let ?c0 = "c0\<lparr>ct_retries := cf_cjq_retry (ct_config c0)\<rparr>"
  note fresh = built_fresh[OF assms(1)]
  obtain c1 where "create_cluster w ?c0 = Some (c1, Inr [After 1 CHeartbeatCheck])" "members c1 = [ct_my_info ?c0]"
    "cg_inv (ct_cgraph c1)" "\<not> ct_adding_new_node c1" "ct_misses c1 = ct_misses ?c0"
    using create_cluster_ok[of w ?c0] by auto
  then show ?thesis
    using assms(2) fresh
    by (auto simp: ctrl_begin_def Let_def ctrl_ok_def hm_distinct_def hm_keys_def split: if_splits sum.splits)
qed

definition node_at :: "u8 \<Rightarrow> cluster_node_info" where
  "node_at k = cni_new (V4 [10, 0, 0, k]) 8080"

definition alone :: "ctrl \<Rightarrow> bool" where
  "alone c \<longleftrightarrow> ctrl_ok c \<and> graph_ok (ct_cgraph c) \<and> members c = [node_at 1] \<and> ct_is_leader c
     \<and> \<not> ct_adding_new_node c \<and> ct_cluster_id c = Some 5 \<and> ct_misses c = [] \<and> ct_config c = leader_config"

lemma leader_setting:
  obtains c0 c outs where "ctrl_build (Inr (V4 [10, 0, 0, 1])) True leader_config = Some (Inr c0)"
    "ctrl_begin quiet_world c0 = Some (Inr (c, outs))" "alone c"
proof -
  obtain g :: wcgraph where g: "cg_new = Some g" using cg_new_result by blast
  define c0 where "c0 = \<lparr>ct_cgraph = g, ct_my_info = cni_new (V4 [10, 0, 0, 1]) 8080, ct_my_speed = 1000,
    ct_is_leader = True, ct_adding_new_node = False, ct_started = False, ct_config = leader_config,
    ct_misses = [], ct_cluster_id = None, ct_retries = 3\<rparr>"
  have b: "ctrl_build (Inr (V4 [10, 0, 0, 1])) True leader_config = Some (Inr c0)"
    unfolding ctrl_build_def g by (simp add: c0_def leader_config_def)
  let ?c0 = "c0\<lparr>ct_retries := cf_cjq_retry (ct_config c0)\<rparr>"
  from create_cluster_ok[of quiet_world ?c0] obtain c
    where "create_cluster quiet_world ?c0 = Some (c, Inr [After 1 CHeartbeatCheck]) \<and> members c = [ct_my_info ?c0]
      \<and> cg_inv (ct_cgraph c) \<and> \<not> ct_adding_new_node c \<and> ct_cluster_id c = Some (w_new_uuid quiet_world)
      \<and> ct_misses c = ct_misses ?c0" by (rule exE)
  then have c: "create_cluster quiet_world ?c0 = Some (c, Inr [After 1 CHeartbeatCheck])"
    "members c = [ct_my_info ?c0]" "cg_inv (ct_cgraph c)" "\<not> ct_adding_new_node c"
    "ct_cluster_id c = Some (w_new_uuid quiet_world)" "ct_misses c = ct_misses ?c0" by simp_all
  have same: "ct_is_leader c = ct_is_leader ?c0" "ct_config c = ct_config ?c0"
    using c(1) by (auto simp: create_cluster_def split: option.splits sum.splits)
  have run: "ctrl_begin quiet_world c0 = Some (Inr (c, [After 1 CHeartbeatCheck, Update (New (ct_cgraph c))]))"
    using c(1) by (simp add: ctrl_begin_def c0_def quiet_world_def)
  have "length (members c) = 1" using c(2) by simp
  then have "cg_n (ct_cgraph c) = 1" using length_nodes[OF c(3)] by simp
  then have "graph_ok (ct_cgraph c)" using c(2,3) by (simp add: graph_ok_def)
  then have "alone c"
    using begun_ok[OF b run] c same by (simp add: alone_def c0_def quiet_world_def node_at_def)
  with b run show ?thesis by (rule that)
qed

section \<open>The controller\<close>

text \<open>C7: over the whole life of a controller, from its construction through its start and every
  message of its loop, the cluster graph is well formed, no node is listed twice, and only a
  leader is adding a node. The graphs that other nodes send must be well formed.\<close>

theorem controller_invariant:
  assumes "ctrl_build parsed ok config = Some (Inr c0)" "ctrl_begin w0 c0 = Some (Inr (c1, outs1))"
    and "ctrl_loop ms c1 = Some (Inr (c', outs))"
    and "\<forall>(w, m, b) \<in> set ms. input_ok w m"
  shows "ctrl_ok c'"
proof -
  have "ctrl_ok c'" if "ctrl_loop ms c = Some (Inr (c', outs))" "ctrl_ok c" for c outs
    using that assms(4)
  proof (induction ms arbitrary: c outs)
    case (Cons a ms)
    obtain w m b where a: "a = (w, m, b)" by (cases a)
    obtain c1 o1 o2 where c1: "ctrl_handle w (m, b) c = Some (Inr (c1, o1))" "ctrl_loop ms c1 = Some (Inr (c', o2))"
      using Cons.prems(1) a by (auto split: option.splits sum.splits)
    have "ctrl_ok c1" using ctrl_handle_ok[OF Cons.prems(2) _ c1(1)] Cons.prems(3) by (simp add: a)
    with Cons.IH[OF c1(2)] Cons.prems(3) show ?case by simp
  qed simp
  from this[OF assms(3) begun_ok[OF assms(1,2)]] show ?thesis .
qed

theorem controller_invariant_witness:
  "\<exists>c0 c1 o1 c' outs. ctrl_build (Inr (V4 [10, 0, 0, 1])) True leader_config = Some (Inr c0)
     \<and> ctrl_begin quiet_world c0 = Some (Inr (c1, o1))
     \<and> ctrl_loop [(quiet_world, CJQRequest (node_at 2), True)] c1 = Some (Inr (c', outs))
     \<and> ctrl_ok c' \<and> ct_adding_new_node c'"
proof -
  obtain c0 c1 o1 where s: "ctrl_build (Inr (V4 [10, 0, 0, 1])) True leader_config = Some (Inr c0)"
    "ctrl_begin quiet_world c0 = Some (Inr (c1, o1))" and "alone c1" by (rule leader_setting)
  then have c1: "ct_is_leader c1" "\<not> ct_adding_new_node c1" "ct_cluster_id c1 = Some 5" by (simp_all add: alone_def)
  obtain c' outs where r: "ctrl_loop [(quiet_world, CJQRequest (node_at 2), True)] c1 = Some (Inr (c', outs))"
    "ct_adding_new_node c'"
    using c1 by (cases "hs_contains (=) (cg_infos (ct_cgraph c1)) (node_at 2)")
      (simp_all add: on_cjq_request_def Let_def)
  have "ctrl_ok c'" by (rule controller_invariant[OF s(1,2) r(1)]) (simp add: input_ok_quiet)
  with s(1,2) r show ?thesis by blast
qed

text \<open>C8: the completion of the graph by a joining node ends whatever the performance tests give;
  the joining node is in the graph, and when there was no error no link from it is left whose
  test is needed.\<close>

theorem complete_graph_ends:
  assumes "cg_inv (ct_cgraph c)" and "Suc (cg_n (ct_cgraph c)) < 2 ^ 26"
  shows "\<exists>c' r. complete_graph perf suff retries c = Some (c', r) \<and> c' = c\<lparr>ct_cgraph := ct_cgraph c'\<rparr>
    \<and> cg_inv (ct_cgraph c')
    \<and> (\<exists>me \<in> set (cg_nodes (ct_cgraph c')). cn_info me = ct_my_info c
         \<and> (r = Inr () \<longrightarrow> (\<forall>t \<in> set (cg_nodes (ct_cgraph c')). \<not> unsettled (ct_cgraph c') me suff t)))"
  using assms by (rule complete_graph_result)

theorem complete_graph_ends_witness:
  "\<exists>c c' r. members c = [node_at 1]
    \<and> complete_graph (w_perf quiet_world) 100 1 (c\<lparr>ct_my_info := node_at 2\<rparr>) = Some (c', r)
    \<and> cg_inv (ct_cgraph c')"
proof -
  obtain c where "alone c" by (rule leader_setting)
  then have c: "graph_ok (ct_cgraph c)" "members c = [node_at 1]" by (simp_all add: alone_def)
  from complete_graph_ends[of "c\<lparr>ct_my_info := node_at 2\<rparr>" "w_perf quiet_world" 100 1] c
  obtain c' r where "complete_graph (w_perf quiet_world) 100 1 (c\<lparr>ct_my_info := node_at 2\<rparr>) = Some (c', r)"
    "cg_inv (ct_cgraph c')" by (auto simp: graph_ok_def)
  then show ?thesis using c(2) by (intro exI[of _ c] exI[of _ c'] exI[of _ r]) simp
qed

text \<open>C16: a heartbeat round in which every member answered resets all counts; otherwise each member
  that is missing, and no other, is counted once more, or removed from the cluster when that
  reaches the limit of the configuration (the first miss only starts the count). The leader is a
  member like the others: it is counted as missing when its own heartbeat was not received, although
  a comment of the code says that it does not count itself.\<close>

theorem heartbeat_round_effect:
  fixes received :: "cluster_node_info list"
  assumes "ctrl_ok c" and "w_have_update w" and "missing = set (members c) - set received"
  shows "\<exists>c' outs. ctrl_loop (map (\<lambda>e. (w, e, True)) (heartbeat_round (ct_cgraph c) received)) c
      = Some (Inr (c', outs)) \<and> ctrl_ok c' \<and> same_role c c'
    \<and> (if missing = {} then ct_misses c' = [] \<and> members c' = members c else failed_nodes c missing c')"
  unfolding assms(3) by (rule heartbeat_round_result[OF assms(1,2)])

theorem heartbeat_round_effect_witness:
  "\<exists>c c' outs. members c = [node_at 1]
    \<and> ctrl_loop (map (\<lambda>e. (quiet_world, e, True)) (heartbeat_round (ct_cgraph c) [])) c = Some (Inr (c', outs))
    \<and> failed_nodes c {node_at 1} c'"
proof -
  obtain c where "alone c" by (rule leader_setting)
  then have c: "ctrl_ok c" "members c = [node_at 1]" by (simp_all add: alone_def)
  have "w_have_update quiet_world" by (simp add: quiet_world_def)
  from heartbeat_round_effect[OF c(1) this, of "{node_at 1}" "[]"] c(2) obtain c' outs where
    "ctrl_loop (map (\<lambda>e. (quiet_world, e, True)) (heartbeat_round (ct_cgraph c) [])) c = Some (Inr (c', outs))"
    "failed_nodes c {node_at 1} c'" by auto
  with c(2) show ?thesis by (intro exI[of _ c] exI[of _ c'] exI[of _ outs]) simp
qed

text \<open>C15: after a leader has accepted a joining node it accepts no other one before the graph of the
  joiner or its abort arrives.\<close>

theorem one_joins_at_a_time:
  assumes "ctrl_ok c" "input_ok w m" "ctrl_handle w (m, b) c = Some (Inr (c1, outs1))"
    and "e \<in> set outs1" "accepts e"
    and "ctrl_loop ms c1 = Some (Inr (c', outs))"
    and "\<forall>(w, m, b) \<in> set ms. input_ok w m \<and> \<not> ends_joining m"
  shows "ct_adding_new_node c' \<and> (\<forall>e \<in> set outs. \<not> accepts e)"
  using joining_exclusive[OF assms(6) ctrl_handle_ok[OF assms(1-3)] _ assms(7)] accept_marks[OF assms(3-5)]
  by blast

theorem one_joins_at_a_time_witness:
  "\<exists>c c1 e outs1 c' outs. ctrl_handle quiet_world (CJQRequest (node_at 2), True) c = Some (Inr (c1, outs1))
    \<and> e \<in> set outs1 \<and> accepts e
    \<and> ctrl_loop [(quiet_world, CJQRequest (node_at 3), True)] c1 = Some (Inr (c', outs))
    \<and> ct_adding_new_node c' \<and> (\<forall>e \<in> set outs. \<not> accepts e)"
proof -
  let ?m = "CJQRequest (node_at 2)" and ?ms = "[(quiet_world, CJQRequest (node_at 3), True)]"
  obtain c where "alone c" by (rule leader_setting)
  then have c: "ctrl_ok c" "ct_is_leader c" "\<not> ct_adding_new_node c" "ct_cluster_id c = Some 5"
    by (simp_all add: alone_def)
  let ?e = "Answer (Some (CJQResponse (CjqAccepted (ct_my_info c) ''c'')))"
  obtain c1 where c1: "ctrl_handle quiet_world (?m, True) c = Some (Inr (c1, [?e]))" "ct_is_leader c1" "ct_adding_new_node c1"
    using c(2-4) by (cases "hs_contains (=) (cg_infos (ct_cgraph c)) (node_at 2)")
      (simp_all add: on_cjq_request_def Let_def quiet_world_def)
  obtain outs where r: "ctrl_loop ?ms c1 = Some (Inr (c1, outs))"
    using c1(2,3) by (simp add: on_cjq_request_def)
  have "ct_adding_new_node c1 \<and> (\<forall>e \<in> set outs. \<not> accepts e)"
    by (rule one_joins_at_a_time[OF c(1) _ c1(1) _ _ r, of ?e]) (simp_all add: input_ok_quiet)
  with c1(1) r show ?thesis by (intro exI[of _ c] exI[of _ c1] exI[of _ ?e]) auto
qed

section \<open>The orchestration manager\<close>

text \<open>C12: a topology that parses and has a placement is deployed in the orchestrator, and the manager
  waits for every host of it; the client hears that it is accepted when every host could be told,
  and that it is rejected otherwise, while the deployment stays.\<close>

theorem topology_deployed:
  assumes "ow_parse_topology w topology (ow_new_uuid w) = Some (Inr (net, events))"
    and "or_ok (om_orchestrator s)"
    and "net_bandwidth_matrix node_eq net node_is_app = Some (matrix, nodes)" "length nodes < 2 ^ 26"
    and "find_isomorphism (om_orchestrator s) matrix = Some (Inr (Some eqv))"
  shows "\<exists>s' net' affected sent.
    deployed net (ow_new_uuid w) matrix nodes eqv (om_orchestrator s) (om_orchestrator s') net' affected
    \<and> (\<forall>u. hm_get (=) (om_nodes s') u = (if u = ow_new_uuid w
            then Some (fold (\<lambda>n acc. hm_insert (=) n False acc) affected []) else hm_get (=) (om_nodes s) u))
    \<and> (if \<forall>n \<in> set affected. arrives w s n
       then on_new_topology w topology s = Some (map (om_deliver w s (ExperimentNew (om_my_omanager s)
              (emulation_build (ow_new_uuid w) net' events))) affected @ [Reply (Some Accepted)], s')
       else on_new_topology w topology s = Some (sent @ [Reply (Some (Rejected NoDeploymentFound))], s'))"
  using assms by (rule new_topology_result)

definition topology_world :: "node network \<Rightarrow> bool \<Rightarrow> oworld" where
  "topology_world net reach =
     \<lparr>ow_new_uuid = 7, ow_show = \<lambda>_. ''seven'', ow_parse_uuid = \<lambda>_. Some 7,
      ow_parse_topology = \<lambda>_ _. Some (Inr (net, [])), ow_local = reach, ow_reach = \<lambda>_. reach\<rparr>"

definition manager_of :: "orchestrator \<Rightarrow> omanager" where
  "manager_of orch =
     \<lparr>om_my_emanager = host_at 1, om_my_omanager = host_at 1, om_orchestrator = orch, om_nodes = []\<rparr>"

lemma same_hosts_map:
  "set ns = {n} \<Longrightarrow> fold (\<lambda>n acc. hm_insert (=) n False acc) ns [] = [(n, False)]"
proof -
  assume n: "set ns = {n}"
  have "fold (\<lambda>n acc. hm_insert (=) n False acc) ms [(n, False)] = [(n, False)]" if "set ms \<subseteq> {n}" for ms
    using that by (induction ms) auto
  then show ?thesis using n by (cases ns) auto
qed

text \<open>The manager on the two hosts, with one application on the first.\<close>

lemma topology_setting:
  obtains net orch matrix nodes where "find_isomorphism orch matrix = Some (Inr (Some [0]))" "or_ok orch"
    "net_bandwidth_matrix node_eq net node_is_app = Some (matrix, nodes)" "length nodes < 2 ^ 26"
    "sm_size matrix = 1" "or_hosts orch ! 0 = host_at 1"
proof -
  obtain s net m where D: "or_inv s" "or_hosts s = [host_at 1, host_at 2]"
    "net_bandwidth_matrix node_eq net node_is_app = Some (m, [App 0 (app_build None None ''A'' BareMetal)])"
    "sm_size m = 1" "find_isomorphism s m = Some (Inr (Some [0]))" using deploy_setting by blast
  show ?thesis by (rule that[OF D(5) _ D(3) _ D(4)]) (use D(1,2) in \<open>simp_all add: or_inv_def\<close>)
qed

text \<open>What the deployment of that one application means.\<close>

lemma first_host_outcome:
  assumes "deployed net 7 matrix nodes [0] orch (om_orchestrator s') net' affected"
    and "sm_size matrix = 1" "or_hosts orch ! 0 = host_at 1"
    and "\<forall>u. hm_get (=) (om_nodes s') u = (if u = 7
            then Some (fold (\<lambda>n acc. hm_insert (=) n False acc) affected [])
            else hm_get (=) (om_nodes (manager_of orch)) u)"
    and "if \<forall>n \<in> set affected. arrives (topology_world net True) (manager_of orch) n
       then on_new_topology (topology_world net True) ''text'' (manager_of orch) = Some (told @ [Reply (Some Accepted)], s')
       else P"
  shows "on_new_topology (topology_world net True) ''text'' (manager_of orch) = Some (told @ [Reply (Some Accepted)], s')"
    and "hm_get (=) (om_nodes s') 7 = Some [(host_at 1, False)]"
proof -
  have "set affected = {host_at 1}" using assms(1-3) by (simp add: deployed_def)
  then show "hm_get (=) (om_nodes s') 7 = Some [(host_at 1, False)]"
    using assms(4) by (simp add: same_hosts_map)
  have "\<forall>n \<in> set affected. arrives (topology_world net True) (manager_of orch) n"
    by (simp add: topology_world_def manager_of_def arrives_def)
  then show "on_new_topology (topology_world net True) ''text'' (manager_of orch) = Some (told @ [Reply (Some Accepted)], s')"
    using assms(5) by simp
qed

lemma first_host_told:
  assumes "\<exists>s' net' affected sent.
    deployed net 7 matrix nodes [0] orch (om_orchestrator s') net' affected
    \<and> (\<forall>u. hm_get (=) (om_nodes s') u = (if u = 7
            then Some (fold (\<lambda>n acc. hm_insert (=) n False acc) affected [])
            else hm_get (=) (om_nodes (manager_of orch)) u))
    \<and> (if \<forall>n \<in> set affected. arrives (topology_world net True) (manager_of orch) n
       then on_new_topology (topology_world net True) ''text'' (manager_of orch)
         = Some (told affected net' @ [Reply (Some Accepted)], s')
       else P s' sent)"
    and one: "sm_size matrix = 1" "or_hosts orch ! 0 = host_at 1"
  shows "\<exists>told s'. on_new_topology (topology_world net True) ''text'' (manager_of orch) = Some (told @ [Reply (Some Accepted)], s')
    \<and> hm_get (=) (om_nodes s') 7 = Some [(host_at 1, False)]"
  using assms(1) by (elim exE conjE) (use first_host_outcome[OF _ one] in blast)

theorem topology_deployed_witness:
  "\<exists>net orch told s'. on_new_topology (topology_world net True) ''text'' (manager_of orch) = Some (told @ [Reply (Some Accepted)], s')
    \<and> hm_get (=) (om_nodes s') 7 = Some [(host_at 1, False)]"
proof -
  obtain net orch matrix nodes where S: "find_isomorphism orch matrix = Some (Inr (Some [0]))" "or_ok orch"
    "net_bandwidth_matrix node_eq net node_is_app = Some (matrix, nodes)" "length nodes < 2 ^ 26"
    and one: "sm_size matrix = 1" "or_hosts orch ! 0 = host_at 1" by (rule topology_setting)
  have w: "ow_new_uuid (topology_world net True) = 7" "om_orchestrator (manager_of orch) = orch"
    "ow_parse_topology (topology_world net True) ''text'' (ow_new_uuid (topology_world net True)) = Some (Inr (net, []))"
    by (simp_all add: topology_world_def manager_of_def)
  have o: "or_ok (om_orchestrator (manager_of orch))"
    "find_isomorphism (om_orchestrator (manager_of orch)) matrix = Some (Inr (Some [0]))" using S(1,2) w(2) by simp_all
  show ?thesis
    using first_host_told[OF topology_deployed[OF w(3) o(1) S(3,4) o(2), unfolded w(1,2)] one] by blast
qed

text \<open>C5: whatever messages and updates arrived before, in any order, the orchestration manager
  tells an emulation manager to start an emulation only in a turn in which a host of that emulation
  reports that it is ready, and by then all its other hosts had reported. (A host that reports
  again has the start signal sent again.)\<close>

theorem start_needs_all_hosts:
  assumes "accept_topology pre s = Some (sent1, s1)" and "om_nodes s = []"
    and "accept_topology [i] s1 = Some (sent2, s2)" and "e \<in> set sent2" "starts e = Some t"
  shows "\<exists>w j n u nodes. i = (w, Inl (EmulationReady j n, True)) \<and> ow_parse_uuid w j = Some u \<and> t = ow_show w u
    \<and> hm_get (=) (om_nodes s1) u = Some nodes \<and> n \<in> set (hm_keys nodes)
    \<and> (\<forall>m \<in> set (hm_keys nodes). m \<noteq> n \<longrightarrow> reported pre u m)"
  using assms by (rule start_needs_all)

text \<open>The report of the host of that application starts it.\<close>

lemma first_host_ready:
  assumes "hm_get (=) (om_nodes s') 7 = Some [(host_at 1, False)]" "om_my_emanager s' = host_at 1"
  shows "\<exists>s2. handle_experiment_message (topology_world net True) (EmulationReady ''i'' (host_at 1), True) s'
    = Some ([ToLocal (ExperimentReady ''seven'') True, Reply None], s2)"
  using assms by (simp add: on_emulation_ready_def topology_world_def Let_def hm_keys_def)

definition new_topology_input :: "node network \<Rightarrow> oinput" where
  "new_topology_input net = (topology_world net True, Inl (NewTopology ''text'', True))"

definition ready_input :: "node network \<Rightarrow> oinput" where
  "ready_input net = (topology_world net True, Inl (EmulationReady ''i'' (host_at 1), True))"

lemma new_topology_emanager: "on_new_topology w text s = Some (sent, s') \<Longrightarrow> om_my_emanager s' = om_my_emanager s"
  by (auto simp: on_new_topology_def Let_def split: option.splits sum.splits prod.splits)

lemma start_run:
  obtains net orch sent1 s1 s2 where "accept_topology [new_topology_input net] (manager_of orch) = Some (sent1, s1)"
    "hm_get (=) (om_nodes s1) 7 = Some [(host_at 1, False)]"
    "accept_topology [ready_input net] s1 = Some ([ToLocal (ExperimentReady ''seven'') True, Reply None], s2)"
proof -
  obtain net orch matrix nodes where S: "find_isomorphism orch matrix = Some (Inr (Some [0]))" "or_ok orch"
    "net_bandwidth_matrix node_eq net node_is_app = Some (matrix, nodes)" "length nodes < 2 ^ 26"
    and one: "sm_size matrix = 1" "or_hosts orch ! 0 = host_at 1" by (rule topology_setting)
  have w: "ow_new_uuid (topology_world net True) = 7" "om_orchestrator (manager_of orch) = orch"
    "ow_parse_topology (topology_world net True) ''text'' (ow_new_uuid (topology_world net True)) = Some (Inr (net, []))"
    by (simp_all add: topology_world_def manager_of_def)
  have o: "or_ok (om_orchestrator (manager_of orch))"
    "find_isomorphism (om_orchestrator (manager_of orch)) matrix = Some (Inr (Some [0]))" using S(1,2) w(2) by simp_all
  obtain told s1 where 1: "on_new_topology (topology_world net True) ''text'' (manager_of orch)
      = Some (told @ [Reply (Some Accepted)], s1)" "hm_get (=) (om_nodes s1) 7 = Some [(host_at 1, False)]"
    using first_host_told[OF new_topology_result[OF w(3) o(1) S(3,4) o(2), unfolded w(1,2)] one] by blast
  have "om_my_emanager s1 = host_at 1" using new_topology_emanager[OF 1(1)] by (simp add: manager_of_def)
  from first_host_ready[OF 1(2) this, of net] obtain s2 where
    2: "handle_experiment_message (topology_world net True) (EmulationReady ''i'' (host_at 1), True) s1
      = Some ([ToLocal (ExperimentReady ''seven'') True, Reply None], s2)" by (rule exE)
  show ?thesis
  proof (rule that)
    show "accept_topology [new_topology_input net] (manager_of orch) = Some (told @ [Reply (Some Accepted)], s1)"
      using 1(1) by (simp add: new_topology_input_def)
    show "accept_topology [ready_input net] s1 = Some ([ToLocal (ExperimentReady ''seven'') True, Reply None], s2)"
      using 2 by (simp add: ready_input_def)
  qed (rule 1(2))
qed

theorem start_needs_all_hosts_witness:
  "\<exists>net orch sent1 s1 s2 w j n u nodes.
     accept_topology [new_topology_input net] (manager_of orch) = Some (sent1, s1)
    \<and> accept_topology [ready_input net] s1 = Some ([ToLocal (ExperimentReady ''seven'') True, Reply None], s2)
    \<and> ready_input net = (w, Inl (EmulationReady j n, True)) \<and> ow_parse_uuid w j = Some u
    \<and> hm_get (=) (om_nodes s1) u = Some nodes \<and> n \<in> set (hm_keys nodes)
    \<and> (\<forall>m \<in> set (hm_keys nodes). m \<noteq> n \<longrightarrow> reported [new_topology_input net] u m)"
proof -
  obtain net orch sent1 s1 s2 where
    run: "accept_topology [new_topology_input net] (manager_of orch) = Some (sent1, s1)"
      "accept_topology [ready_input net] s1 = Some ([ToLocal (ExperimentReady ''seven'') True, Reply None], s2)"
    by (rule start_run)
  have "om_nodes (manager_of orch) = []" by (simp add: manager_of_def)
  from start_needs_all_hosts[OF run(1) this run(2) list.set_intros(1) starts.simps(1)] obtain w j n u nodes where
    "ready_input net = (w, Inl (EmulationReady j n, True))" "ow_parse_uuid w j = Some u"
    "hm_get (=) (om_nodes s1) u = Some nodes" "n \<in> set (hm_keys nodes)"
    "\<forall>m \<in> set (hm_keys nodes). m \<noteq> n \<longrightarrow> reported [new_topology_input net] u m"
    by (elim exE conjE)
  then show ?thesis
    using run
    by (intro exI[of _ net] exI[of _ orch] exI[of _ sent1] exI[of _ s1] exI[of _ s2] exI[of _ w] exI[of _ j]
        exI[of _ n] exI[of _ u] exI[of _ nodes]) blast
qed

end
