(* ===== verification/Orchlife.thy ===== *)
theory Orchlife
  imports Machines Deployment CGraph_Speeds
begin

text \<open>
  The orchestrator over its whole life: the state that all its operations keep, from the graph it is
  built from through every deployment, stop and change of the cluster.
\<close>

section \<open>A sound orchestrator\<close>

text \<open>Every host has one row of the residual graph, and the port of the emulation managers.\<close>

definition cluster_ok :: "orchestrator \<Rightarrow> bool" where
  "cluster_ok s \<longleftrightarrow> sm_wf (or_residual s) \<and> length (or_hosts s) = or_size s \<and> distinct (or_hosts s)
     \<and> (\<forall>h \<in> set (or_hosts s). cni_port h = or_port s)"

text \<open>A load that is recorded is never 0, so one less does not wrap around.\<close>

definition load_entries :: "orchestrator \<Rightarrow> bool" where
  "load_entries s \<longleftrightarrow> hm_distinct (=) (or_load s) \<and> hm_distinct (=) (or_attributed s)
     \<and> (\<forall>h m u l. hm_get (=) (or_load s) h = Some m \<longrightarrow> hm_get (=) m u = Some l \<longrightarrow> 0 < l)"

text \<open>An emulation is attributed to exactly the hosts that it loads, these are hosts of the cluster, the
  emulation is recorded, and no host is loaded above the limit.\<close>

definition loads_ok :: "orchestrator \<Rightarrow> bool" where
  "loads_ok s \<longleftrightarrow> load_entries s \<and> (\<forall>h u. attributed_on s h u \<longleftrightarrow> 0 < load_of s h u)
     \<and> (\<forall>h u. attributed_on s h u \<longrightarrow> h \<in> set (or_hosts s) \<and> hm_get (=) (or_emulations s) u \<noteq> None)
     \<and> (\<forall>h. (\<Sum>u \<in> UNIV. load_of s h u) \<le> or_max_load s)"

definition or_sound :: "orchestrator \<Rightarrow> bool" where
  "or_sound s \<longleftrightarrow> cluster_ok s \<and> maps_ok s \<and> emulations_fit s \<and> emulations_placed s \<and> loads_ok s"

lemmas or_sound_defs = or_sound_def cluster_ok_def loads_ok_def

lemma or_sound_inv: "or_sound s \<Longrightarrow> or_hosts s \<noteq> [] \<Longrightarrow> or_inv s"
  using length_greater_0_conv[of "or_hosts s"] by (simp add: or_sound_defs or_inv_def or_ok_def)

lemma or_sound_fit: "or_sound s \<Longrightarrow> or_fit s"
  by (simp add: or_sound_defs or_fit_def or_shape_def)

section \<open>Stopping an emulation\<close>

lemma stop_sound:
  assumes sound: "or_sound s" and run: "or_stop_emulation u s = Some (s', r)"
  shows "or_sound s' \<and> same_cluster s s'
    \<and> (\<forall>v. hm_get (=) (or_emulations s') v = (if v = u then None else hm_get (=) (or_emulations s) v))
    \<and> (\<forall>h v. attributed_on s' h v \<longleftrightarrow> v \<noteq> u \<and> attributed_on s h v)"
proof (cases "hm_get (=) (or_emulations s) u")
  case None
  then have "s' = s" using run by (simp add: or_stop_emulation_def)
  moreover have "\<not> attributed_on s h u" for h using sound None unfolding or_sound_def loads_ok_def by blast
  ultimately show ?thesis using sound None by (auto simp: same_cluster_def)
next
  case (Some p)
  then obtain matrix eqv where p: "hm_get (=) (or_emulations s) u = Some (matrix, eqv)" by (cases p) auto
  have inv: "or_fit s" using sound by (rule or_sound_fit)
  from stop_emulation_stops[OF inv p] run have st: "stopped u matrix eqv s s'" by simp
  have inv': "or_fit s'" by (rule stopped_fit[OF inv st])
  have S: "\<And>h v. load_of s' h v = (if v = u then 0 else load_of s h v)"
    "\<And>h v. attributed_on s' h v \<longleftrightarrow> v \<noteq> u \<and> attributed_on s h v" "same_cluster s s'" "or_size s' = or_size s"
    "\<And>v. hm_get (=) (or_emulations s') v = (if v = u then None else hm_get (=) (or_emulations s) v)" "maps_ok s'"
    using st by (simp_all add: stopped_def residual_changed_def)
  have maps: "or_attributed s' = map (\<lambda>(h, l). (h, hs_remove (=) u l)) (or_attributed s)"
    "or_load s' = map (\<lambda>(h, m). (h, hm_remove (=) u m)) (or_load s)"
    using run p by (auto simp: or_stop_emulation_def split: option.splits)
  have keys: "hm_keys (or_attributed s') = hm_keys (or_attributed s)" "hm_keys (or_load s') = hm_keys (or_load s)"
    by (simp_all add: maps hm_keys_def comp_def case_prod_beta)
  have "0 < l" if e: "hm_get (=) (or_load s') h = Some m'" "hm_get (=) m' v = Some l" for h m' v l
  proof -
    obtain m where m: "hm_get (=) (or_load s) h = Some m" "m' = hm_remove (=) u m"
      using e(1) by (auto simp: maps hm_get_map_values)
    then have "hm_distinct (=) m" using sound by (simp add: or_sound_def maps_ok_def)
    then have "hm_get (=) m v = Some l" using e(2) m(2) by (simp add: hol_eq.hm_get_remove split: if_splits)
    then show ?thesis using m(1) sound unfolding or_sound_defs load_entries_def by blast
  qed
  then have "load_entries s'" using sound keys by (simp add: or_sound_defs load_entries_def hm_distinct_def)
  moreover have "(\<Sum>v \<in> UNIV. load_of s' h v) \<le> or_max_load s'" for h
  proof -
    have "(\<Sum>v \<in> UNIV. load_of s' h v) \<le> (\<Sum>v \<in> UNIV. load_of s h v)" by (rule sum_mono) (simp add: S)
    also have "\<dots> \<le> or_max_load s'" using sound S(3) by (simp add: or_sound_defs same_cluster_def)
    finally show ?thesis .
  qed
  ultimately have "loads_ok s'"
    using sound S unfolding or_sound_defs same_cluster_def by auto
  moreover have "cluster_ok s'"
    using sound S(3,4) inv' by (simp add: or_sound_defs same_cluster_def or_fit_def or_shape_def)
  moreover have "emulations_placed s'"
    using sound S(2,5) unfolding or_sound_def emulations_placed_def by (metis option.distinct(1))
  ultimately have "or_sound s'" using S(6) inv' by (simp add: or_sound_def or_fit_def)
  then show ?thesis using S(2,3,5) by simp
qed

section \<open>Deploying an emulation\<close>

lemma load_entries_increase: "load_entries s \<Longrightarrow> load_entries (increase_load h u s)"
  unfolding load_entries_def increase_load_def
  by (auto simp: hol_eq.hm_get_insert hol_eq.hm_get_update hol_eq.hm_distinct_insert hol_eq.hm_distinct_update
      split: option.splits if_splits)

lemma load_entries_attribute: "load_entries s \<Longrightarrow> load_entries (attribute_emul h u s)"
  by (auto simp: load_entries_def attribute_emul_def hol_eq.hm_distinct_insert hol_eq.hm_distinct_update
      split: option.splits)

lemma load_entries_place:
  "place_app eqv u i (s, net, nodes, aff) = Some (s', net', nodes', aff') \<Longrightarrow> load_entries s \<Longrightarrow> load_entries s'"
  by (auto simp: place_app_def load_entries_increase load_entries_attribute split: option.splits)

lemma load_entries_places:
  assumes "fold_opt (place_app eqv u) is (s, net, nodes, []) = Some (s', net', nodes', aff')" "load_entries s"
  shows "load_entries s'"
proof -
  have "case (s', net', nodes', aff') of (s, _) \<Rightarrow> load_entries s"
    by (rule fold_opt_invar[OF assms(1)]) (use assms(2) load_entries_place in auto)
  then show ?thesis by simp
qed

text \<open>A deployment of a placement that fits does not load a host above the limit.\<close>

lemma deployed_below_limit:
  assumes sound: "or_sound s" and fits: "placement_fits s matrix eqv" and d: "deployed net u matrix nodes eqv s s' net' aff"
  shows "(\<Sum>v \<in> UNIV. load_of s' h v) \<le> or_max_load s'"
proof -
  let ?new = "filter (\<lambda>i. or_hosts s ! (eqv ! i) = h) [0..<sm_size matrix]"
  have load: "load_of s' h v = load_of s h v + (if v = u then length ?new else 0)" for v
    using d by (simp add: deployed_def loads_added_def)
  then have sum: "(\<Sum>v \<in> UNIV. load_of s' h v) = (\<Sum>v \<in> UNIV. load_of s h v) + length ?new"
    by (simp add: sum.distrib)
  have below: "(\<Sum>v \<in> UNIV. load_of s h v) \<le> or_max_load s" using sound by (simp add: or_sound_defs)
  have max: "or_max_load s' = or_max_load s" using d by (simp add: deployed_def same_cluster_def)
  have len: "length eqv = sm_size matrix" using fits by (simp add: placement_fits_def)
  show ?thesis
  proof (cases "?new = []")
    case True
    then show ?thesis using sum below max by simp
  next
    case False
    then obtain i where i: "i < sm_size matrix" "or_hosts s ! (eqv ! i) = h" by (auto simp: filter_empty_conv)
    let ?k = "eqv ! i"
    have "?k \<in> set eqv" using i(1) len by simp
    then have hf: "host_fits s matrix eqv ?k" and all: "\<forall>k \<in> set eqv. k < or_size s"
      using fits by (auto simp: placement_fits_def host_fits_def)
    have hosts: "distinct (or_hosts s)" "length (or_hosts s) = or_size s" "maps_ok s"
      using sound by (simp_all add: or_sound_defs)
    have k: "?k < length (or_hosts s)" using all \<open>?k \<in> set eqv\<close> hosts(2) by simp
    have "?new = apps_on eqv ?k"
      unfolding apps_on_def len
    proof (rule filter_cong[OF refl])
      fix j
      assume "j \<in> set [0..<sm_size matrix]"
      then have "eqv ! j < length (or_hosts s)" using all len hosts(2) by simp
      then show "or_hosts s ! (eqv ! j) = h \<longleftrightarrow> eqv ! j = ?k"
        using i(2) nth_eq_iff_index_eq[OF hosts(1) _ k] by auto
    qed
    moreover have "length (apps_on eqv ?k) \<le> or_max_load s - (\<Sum>v \<in> UNIV. load_of s h v)"
      using hf actual_load_sum[OF hosts(3) k] below i(2) by (simp add: host_fits_def)
    ultimately show ?thesis using sum below max by simp
  qed
qed

lemma deploy_sound:
  assumes sound: "or_sound s" and m: "net_bandwidth_matrix node_eq net node_is_app = Some (matrix, nodes)"
    and lt: "length nodes < 2 ^ 26" and run: "or_new_emulation net u s = Some (s', r)"
  shows "or_sound s'"
proof (cases "\<exists>eqv. find_isomorphism s matrix = Some (Inr (Some eqv))")
  case False
  then obtain q where q: "find_isomorphism s matrix = Some q" "\<forall>eqv. q \<noteq> Inr (Some eqv)"
    using run m by (cases "find_isomorphism s matrix") (auto simp: or_new_emulation_def)
  then have "s' = s" using new_emulation_unchanged [OF m q, of u] run by auto
  then show ?thesis using sound by simp
next
  case True
  then obtain eqv where f: "find_isomorphism s matrix = Some (Inr (Some eqv))" by blast
  note B = bandwidth_matrix_apps [OF m lt]
  have fits: "placement_fits s matrix eqv" using f by (rule find_isomorphism_sound)
  have on: "fits_on matrix eqv (or_size s)" by (rule placement_fits_on[OF fits B(1)])
  have inv: "or_fit s" using sound by (rule or_sound_fit)
  then have shape: "or_shape s" by (simp add: or_fit_def)
  obtain s1 net1 aff where d1: "or_new_emulation net u s = Some (s1, Inr (Some (net1, aff)))"
    "deployed net u matrix nodes eqv s s1 net1 aff" using new_emulation_places[OF shape m lt f] by blast
  then have d: "deployed net u matrix nodes eqv s s' net1 aff" using run by simp
  have inv': "or_fit s'" by (rule deployed_fit[OF inv d on])
  obtain s2 net2 nodes2 aff2 where places:
    "fold_opt (place_app eqv u) [0..<sm_size matrix] (s, net, nodes, []) = Some (s2, net2, nodes2, aff2)"
    and maps: "or_load s' = or_load s2" "or_attributed s' = or_attributed s2"
    using run m f by (auto simp: or_new_emulation_def split: option.splits)
  have entries: "load_entries s'"
    using load_entries_places[OF places] sound maps by (simp add: or_sound_defs load_entries_def)
  have C: "same_cluster s s'" "or_size s' = or_size s" "or_emulations s' = hm_insert (=) u (matrix, eqv) (or_emulations s)"
    using d by (simp_all add: deployed_def residual_changed_def)
  have load: "load_of s' h v = load_of s h v
      + (if v = u then length (filter (\<lambda>i. or_hosts s ! (eqv ! i) = h) [0..<sm_size matrix]) else 0)" for h v
    using d by (simp add: deployed_def loads_added_def)
  have att: "attributed_on s' h v \<longleftrightarrow> attributed_on s h v \<or> v = u \<and> (\<exists>i < sm_size matrix. or_hosts s ! (eqv ! i) = h)" for h v
    using d by (simp add: deployed_def loads_added_def)
  have mem: "or_hosts s ! (eqv ! i) \<in> set (or_hosts s)" if "i < sm_size matrix" for i
    using on that sound by (auto simp: fits_on_def or_sound_defs)
  have "attributed_on s' h v \<longleftrightarrow> 0 < load_of s' h v" for h v
    using sound unfolding att load by (auto simp: or_sound_defs filter_empty_conv)
  moreover have "h \<in> set (or_hosts s') \<and> hm_get (=) (or_emulations s') v \<noteq> None" if "attributed_on s' h v" for h v
  proof (cases "attributed_on s h v")
    case True
    then show ?thesis using sound C by (simp add: or_sound_defs same_cluster_def hol_eq.hm_get_insert)
  next
    case False
    then show ?thesis using that mem C by (auto simp: att same_cluster_def hol_eq.hm_get_insert)
  qed
  ultimately have "loads_ok s'" using entries deployed_below_limit[OF sound fits d] by (simp add: loads_ok_def)
  moreover have "cluster_ok s'"
    using sound C(1,2) inv' by (simp add: or_sound_defs same_cluster_def or_fit_def or_shape_def)
  moreover have "emulations_placed s'"
    using deployed_placed[OF d] sound by (simp add: or_sound_def)
  ultimately show ?thesis using inv' by (simp add: or_sound_def or_fit_def)
qed

section \<open>Stopping one application\<close>

lemma residual_op_keeps:
  assumes "residual_op f matrix eqv (i, j) r = Some r'" "fits_on matrix eqv (sm_size r)" "sm_wf r"
  shows "sm_wf r' \<and> sm_size r' = sm_size r"
proof -
  obtain a b x where ab: "get_at eqv i = Some a" "get_at eqv j = Some b"
    and m: "store_modify sm_get sm_set a b (\<lambda>y. f y x) r = Some r'"
    using assms(1) by (auto simp: residual_op_def split: option.splits)
  have "a < sm_size r" "b < sm_size r" using ab assms(2) by (auto simp: fits_on_def get_at_def split: if_splits)
  from sm.modify_total[OF assms(3) this, of "\<lambda>y. f y x"] m show ?thesis by auto
qed

lemma attributed_somewhere:
  assumes "hm_distinct (=) (or_attributed s)"
  shows "list_ex (\<lambda>(_, l). hs_contains (=) l u) (or_attributed s) \<longleftrightarrow> (\<exists>h. attributed_on s h u)"
proof
  assume "list_ex (\<lambda>(_, l). hs_contains (=) l u) (or_attributed s)"
  then obtain h l where "(h, l) \<in> set (or_attributed s)" "hs_contains (=) l u" by (auto simp: list_ex_iff)
  with hol_eq.hm_get_member[OF assms, of h l] have "attributed_on s h u" by (simp add: attributed_on_def)
  then show "\<exists>h. attributed_on s h u" ..
next
  assume "\<exists>h. attributed_on s h u"
  then obtain h l where "hm_get (=) (or_attributed s) h = Some l" "hs_contains (=) l u"
    by (auto simp: attributed_on_def split: option.splits)
  then show "list_ex (\<lambda>(_, l). hs_contains (=) l u) (or_attributed s)"
    using hm_get_in[of "(=)" "or_attributed s" h l] by (force simp: list_ex_iff)
qed

text \<open>One application less of \<open>u\<close> on \<open>node\<close>.\<close>

definition one_less :: "cluster_node_info \<Rightarrow> uuid \<Rightarrow> orchestrator \<Rightarrow> orchestrator \<Rightarrow> bool" where
  "one_less node u s s' \<longleftrightarrow> same_cluster s s' \<and> or_residual s' = or_residual s \<and> or_emulations s' = or_emulations s
     \<and> (\<forall>h v. load_of s' h v = (if h = node \<and> v = u then load_of s h v - 1 else load_of s h v))
     \<and> (\<forall>h v. attributed_on s' h v \<longleftrightarrow> attributed_on s h v \<and> (h = node \<and> v = u \<longrightarrow> 1 < load_of s h v))
     \<and> load_entries s' \<and> maps_ok s'"

definition drop_attribution :: "cluster_node_info \<Rightarrow> uuid \<Rightarrow> orchestrator \<Rightarrow> orchestrator" where
  "drop_attribution node u s = s\<lparr>or_load := hm_update (=) node (hm_remove (=) u) (or_load s),
     or_attributed := hm_update (=) node (hs_remove (=) u) (or_attributed s)\<rparr>"

lemma decrease_load_lowers:
  assumes sound: "or_sound s" and run: "decrease_load u node s = Some (s1, need)" and load: "1 < load_of s node u"
  shows "\<not> need \<and> one_less node u s s1"
proof -
  obtain m l where m: "hm_get (=) (or_load s) node = Some m" "hm_get (=) m u = Some l" "load_of s node u = l"
    using load by (auto simp: load_of_def split: option.splits)
  let ?s1 = "s\<lparr>or_load := hm_update (=) node (hm_update (=) u (\<lambda>_. l - 1)) (or_load s)\<rparr>"
  have s1: "s1 = ?s1" "\<not> need" using run m load by (auto simp: decrease_load_def Let_def)
  have ent: "load_entries s" "maps_ok s" using sound by (simp_all add: or_sound_defs)
  have "load_of ?s1 h v = (if h = node \<and> v = u then load_of s h v - 1 else load_of s h v)" for h v
    using m by (auto simp: load_of_def hol_eq.hm_get_update split: option.splits)
  moreover have "attributed_on ?s1 = attributed_on s" by (simp add: attributed_on_def fun_eq_iff)
  moreover have "load_entries ?s1"
    using ent(1) m load unfolding load_entries_def
    by (auto simp: hol_eq.hm_get_update hol_eq.hm_distinct_update split: if_splits)
  moreover have "maps_ok ?s1"
    using ent(2) by (auto simp: maps_ok_def hol_eq.hm_get_update hol_eq.hm_distinct_update split: if_splits)
  ultimately show ?thesis using s1 load by (auto simp: one_less_def same_cluster_def)
qed

lemma decrease_load_ends:
  assumes sound: "or_sound s" and run: "decrease_load u node s = Some (s1, need)" and load: "load_of s node u = 1"
  shows "need \<and> one_less node u s (drop_attribution node u s1)"
proof -
  obtain m where m: "hm_get (=) (or_load s) node = Some m" "hm_get (=) m u = Some 1"
    using load by (auto simp: load_of_def split: option.splits)
  let ?s1 = "s\<lparr>or_load := hm_update (=) node (hm_update (=) u (\<lambda>_. 0)) (or_load s)\<rparr>"
  let ?s2 = "drop_attribution node u ?s1"
  have s1: "s1 = ?s1" "need" using run m by (auto simp: decrease_load_def Let_def)
  have ent: "load_entries s" "maps_ok s" using sound by (simp_all add: or_sound_defs)
  have dm: "hm_distinct (=) m" using ent(2) m(1) by (simp add: maps_ok_def)
  note get = hol_eq.hm_get_update hol_eq.hm_get_remove[OF hol_eq.hm_distinct_update[OF dm]]
  have "load_of ?s2 h v = (if h = node \<and> v = u then load_of s h v - 1 else load_of s h v)" for h v
    using m by (auto simp: load_of_def drop_attribution_def get)
  moreover have "attributed_on ?s2 h v \<longleftrightarrow> attributed_on s h v \<and> (h = node \<and> v = u \<longrightarrow> 1 < load_of s h v)" for h v
    using load ent(2) by (auto simp: attributed_on_def drop_attribution_def hol_eq.hm_get_update maps_ok_def
        hol_eq.hs_contains_remove split: option.splits)
  moreover have "load_entries ?s2"
    using ent(1) m(1) unfolding load_entries_def drop_attribution_def
    by (auto simp: get hol_eq.hm_distinct_update split: if_splits)
  moreover have "maps_ok ?s2"
    using ent(2) unfolding maps_ok_def drop_attribution_def
    by (auto simp: hol_eq.hm_get_update hol_eq.hm_distinct_update hol_eq.hm_distinct_remove
        hol_eq.hs_distinct_remove split: if_splits)
  ultimately show ?thesis using s1 by (simp add: one_less_def same_cluster_def drop_attribution_def)
qed

text \<open>When its last application has stopped, the emulation is forgotten.\<close>

definition forget_unattributed :: "uuid \<Rightarrow> orchestrator \<Rightarrow> orchestrator" where
  "forget_unattributed u s =
     (if list_ex (\<lambda>(_, l). hs_contains (=) l u) (or_attributed s) then s
      else s\<lparr>or_emulations := hm_remove (=) u (or_emulations s)\<rparr>)"

lemma one_less_sound:
  assumes sound: "or_sound s" and less: "one_less node u s s1"
  shows "or_sound (forget_unattributed u s1)"
proof -
  let ?s = "forget_unattributed u s1"
  have L: "or_hosts s1 = or_hosts s" "or_max_load s1 = or_max_load s" "or_port s1 = or_port s"
    "or_residual s1 = or_residual s" "or_emulations s1 = or_emulations s"
    "\<And>h v. load_of s1 h v = (if h = node \<and> v = u then load_of s h v - 1 else load_of s h v)"
    "\<And>h v. attributed_on s1 h v \<longleftrightarrow> attributed_on s h v \<and> (h = node \<and> v = u \<longrightarrow> 1 < load_of s h v)"
    "load_entries s1" "maps_ok s1"
    using less by (simp_all add: one_less_def same_cluster_def)
  have same: "load_of ?s = load_of s1" "attributed_on ?s = attributed_on s1" "or_hosts ?s = or_hosts s1"
    "or_max_load ?s = or_max_load s1" "or_port ?s = or_port s1" "or_residual ?s = or_residual s1"
    "or_load ?s = or_load s1" "or_attributed ?s = or_attributed s1"
    by (simp_all add: forget_unattributed_def load_of_def attributed_on_def fun_eq_iff)
  have emul_dist: "hm_distinct (=) (or_emulations s1)" using L(9) by (simp add: maps_ok_def)
  have emul: "hm_get (=) (or_emulations ?s) v
      = (if v = u \<and> (\<forall>h. \<not> attributed_on s1 h u) then None else hm_get (=) (or_emulations s) v)" for v
    using attributed_somewhere[of s1 u] L(5,8) emul_dist
    by (auto simp: forget_unattributed_def load_entries_def hol_eq.hm_get_remove)
  have S: "cluster_ok s" "emulations_fit s" "emulations_placed s" "\<And>h v. attributed_on s h v \<longleftrightarrow> 0 < load_of s h v"
    "\<And>h v. attributed_on s h v \<Longrightarrow> h \<in> set (or_hosts s) \<and> hm_get (=) (or_emulations s) v \<noteq> None"
    "\<And>h. (\<Sum>v \<in> UNIV. load_of s h v) \<le> or_max_load s"
    using sound unfolding or_sound_def loads_ok_def by blast+
  have "cluster_ok ?s" using S(1) L(1,3,4) by (simp add: cluster_ok_def same or_size_def)
  moreover have "maps_ok ?s"
    using L(9) emul_dist by (auto simp: maps_ok_def same) (simp add: forget_unattributed_def hol_eq.hm_distinct_remove)
  moreover have "emulations_fit ?s"
    using S(2) L(4) unfolding emulations_fit_def emul same(6) or_size_def by (auto split: if_splits)
  moreover have "emulations_placed ?s"
    unfolding emulations_placed_def
  proof (intro allI impI)
    fix v matrix eqv
    assume v: "hm_get (=) (or_emulations ?s) v = Some (matrix, eqv)" "0 < sm_size matrix"
    show "\<exists>h. attributed_on ?s h v"
    proof (cases "v = u")
      case True
      then show ?thesis using v(1) unfolding emul same(2) by (auto split: if_splits)
    next
      case False
      then have "\<exists>h. attributed_on s h v" using v S(3) unfolding emul emulations_placed_def by simp
      then show ?thesis using False by (auto simp: same(2) L(7))
    qed
  qed
  moreover have "loads_ok ?s"
    unfolding loads_ok_def
  proof (intro conjI allI impI)
    show "load_entries ?s" using L(8) by (simp add: load_entries_def same)
    fix h v
    show "attributed_on ?s h v \<longleftrightarrow> 0 < load_of ?s h v" by (auto simp: same L(6,7) S(4))
    show "h \<in> set (or_hosts ?s)" if "attributed_on ?s h v"
      using that S(5)[of h v] by (simp add: same L(1,7))
    show "hm_get (=) (or_emulations ?s) v \<noteq> None" if "attributed_on ?s h v"
    proof -
      have "attributed_on s1 h v" using that by (simp add: same)
      moreover from this have "hm_get (=) (or_emulations s) v \<noteq> None" using S(5)[of h v] by (simp add: L(7))
      ultimately show ?thesis unfolding emul by auto
    qed
    have "(\<Sum>v \<in> UNIV. load_of ?s h v) \<le> (\<Sum>v \<in> UNIV. load_of s h v)" by (rule sum_mono) (simp add: same L(6))
    then show "(\<Sum>v \<in> UNIV. load_of ?s h v) \<le> or_max_load ?s" using S(6)[of h] by (simp add: same L(2))
  qed
  ultimately show ?thesis by (simp add: or_sound_def)
qed

lemma residual_sound:
  "or_sound s \<Longrightarrow> sm_wf r \<Longrightarrow> sm_size r = or_size s \<Longrightarrow> or_sound (s\<lparr>or_residual := r\<rparr>)"
proof -
  let ?s = "s\<lparr>or_residual := r\<rparr>"
  assume sound: "or_sound s" and r: "sm_wf r" "sm_size r = or_size s"
  have view: "load_of ?s = load_of s" "attributed_on ?s = attributed_on s"
    by (simp_all add: load_of_def attributed_on_def fun_eq_iff)
  have "cluster_ok ?s" using sound r by (simp add: or_sound_def cluster_ok_def or_size_def)
  moreover have "maps_ok ?s" using sound by (simp add: or_sound_def maps_ok_def)
  moreover have "emulations_fit ?s" using sound r by (simp add: or_sound_def emulations_fit_def or_size_def)
  moreover have "emulations_placed ?s" using sound by (simp add: or_sound_def emulations_placed_def view)
  moreover have "loads_ok ?s" using sound by (simp add: or_sound_def loads_ok_def load_entries_def view)
  ultimately show ?thesis by (simp add: or_sound_def)
qed

lemma stop_app_sound:
  assumes sound: "or_sound s" and run: "or_stop_app_emulation_on u node i s = Some (s', r)"
  shows "or_sound s'"
proof (cases "hm_get (=) (or_emulations s) u")
  case None
  then show ?thesis using sound run by (simp add: or_stop_app_emulation_on_def)
next
  case (Some p)
  then obtain matrix eqv where p: "hm_get (=) (or_emulations s) u = Some (matrix, eqv)" by (cases p) auto
  let ?f = "\<lambda>j r. if j = i then Some r else residual_op (+) matrix eqv (i, j) r"
  obtain res where res: "fold_opt ?f [0..<sm_size matrix] (or_residual s) = Some res"
    using run p by (auto simp: or_stop_app_emulation_on_def split: option.splits)
  have fits: "fits_on matrix eqv (or_size s)" using sound p by (simp add: or_sound_def emulations_fit_def)
  have "sm_wf res \<and> sm_size res = or_size s"
  proof (rule fold_opt_invar[OF res])
    show "sm_wf (or_residual s) \<and> sm_size (or_residual s) = or_size s"
      using sound by (simp add: or_sound_defs or_size_def)
    fix j r r'
    assume "sm_wf r \<and> sm_size r = or_size s" "?f j r = Some r'"
    then show "sm_wf r' \<and> sm_size r' = or_size s"
      using residual_op_keeps[of "(+)" matrix eqv i j r r'] fits by (auto split: if_splits)
  qed
  then have sound0: "or_sound (s\<lparr>or_residual := res\<rparr>)" using residual_sound[OF sound] by blast
  let ?s0 = "s\<lparr>or_residual := res\<rparr>"
  obtain s1 need where dec: "decrease_load u node ?s0 = Some (s1, need)"
    using run p res by (auto simp: or_stop_app_emulation_on_def split: option.splits)
  consider "load_of ?s0 node u = 0" | "load_of ?s0 node u = 1" | "1 < load_of ?s0 node u" by linarith
  then show ?thesis
  proof cases
    case 1
    obtain m where m: "hm_get (=) (or_load ?s0) node = Some m"
      using dec by (auto simp: decrease_load_def split: option.splits)
    have "hm_get (=) m u = None"
    proof (cases "hm_get (=) m u")
      case (Some l)
      then have "0 < l" using sound0 m unfolding or_sound_defs load_entries_def by blast
      then show ?thesis using 1 m Some by (simp add: load_of_def)
    qed
    then have s1: "s1 = ?s0" "\<not> need" using dec m by (simp_all add: decrease_load_def)
    have "\<not> attributed_on ?s0 node u" using sound0 1 by (simp add: or_sound_defs)
    then have "one_less node u ?s0 ?s0"
      using sound0 1 by (auto simp: one_less_def same_cluster_def or_sound_defs)
    moreover have "s' = forget_unattributed u ?s0"
      using run p res dec s1 by (auto simp: or_stop_app_emulation_on_def forget_unattributed_def)
    ultimately show ?thesis using one_less_sound[OF sound0] by blast
  next
    case 2
    note D = decrease_load_ends[OF sound0 dec 2]
    have "s' = forget_unattributed u (drop_attribution node u s1)"
      using run p res dec D
      by (auto simp: or_stop_app_emulation_on_def forget_unattributed_def drop_attribution_def split: option.splits)
    then show ?thesis using one_less_sound[OF sound0] D by blast
  next
    case 3
    note D = decrease_load_lowers[OF sound0 dec 3]
    have "s' = forget_unattributed u s1"
      using run p res dec D by (auto simp: or_stop_app_emulation_on_def forget_unattributed_def)
    then show ?thesis using one_less_sound[OF sound0] D by blast
  qed
qed

section \<open>Graphs of the cluster\<close>

text \<open>The nodes of a graph that the controller sends have different addresses.\<close>

definition usable_graph :: "cluster_node_info cgraph \<Rightarrow> bool" where
  "usable_graph g \<longleftrightarrow> cg_inv g \<and> distinct (map (\<lambda>n. cni_ip_addr (cn_info n)) (cg_nodes g))"

lemma usable_graph_speeds:
  assumes "usable_graph g" "cg_speeds (convert_cgraph_nodeinfo port g) = Some (m, hosts)"
  shows "sm_wf m" "sm_size m = length hosts" "distinct hosts" "\<forall>h \<in> set hosts. cni_port h = port" "length hosts < 2 ^ 26"
proof -
  let ?h = "\<lambda>n. n\<lparr>cn_info := (cn_info n)\<lparr>cni_port := port\<rparr>\<rparr>"
  have inv: "cg_inv g" and ips: "distinct (map (\<lambda>n. cni_ip_addr (cn_info n)) (cg_nodes g))"
    using assms(1) by (simp_all add: usable_graph_def)
  note M = cg_map_nodes_result[OF inv, of "\<lambda>cni. cni\<lparr>cni_port := port\<rparr>"]
  from cg_speeds_result[OF M(1)] assms(2) have S: "sm_wf m" "sm_n m = cg_n g" "length hosts = cg_n g"
    and at: "\<forall>node \<in> set (cg_nodes g). hosts ! cn_index node = (cn_info node)\<lparr>cni_port := port\<rparr>"
    by (auto simp: convert_cgraph_nodeinfo_def M(2,3))
  then show "sm_wf m" "sm_size m = length hosts" "length hosts < 2 ^ 26" by (simp_all add: sm_size_def sm_wf_def)
  have node: "\<exists>n \<in> set (cg_nodes g). cn_index n = i \<and> hosts ! i = (cn_info n)\<lparr>cni_port := port\<rparr>" if "i < length hosts" for i
    using cg_node_by_index_total[OF inv, of i] at that S(3) by auto
  show "\<forall>h \<in> set hosts. cni_port h = port"
  proof
    fix h
    assume "h \<in> set hosts"
    then obtain i where "i < length hosts" "hosts ! i = h" by (auto simp: in_set_conv_nth)
    with node[of i] show "cni_port h = port" by auto
  qed
  show "distinct hosts"
    unfolding distinct_conv_nth
  proof (intro allI impI)
    fix i j
    assume ij: "i < length hosts" "j < length hosts" "i \<noteq> j"
    obtain a where a: "a \<in> set (cg_nodes g)" "cn_index a = i" "hosts ! i = (cn_info a)\<lparr>cni_port := port\<rparr>"
      using node[OF ij(1)] by blast
    obtain b where b: "b \<in> set (cg_nodes g)" "cn_index b = j" "hosts ! j = (cn_info b)\<lparr>cni_port := port\<rparr>"
      using node[OF ij(2)] by blast
    have "cni_ip_addr (cn_info a) \<noteq> cni_ip_addr (cn_info b)"
      using ips a(1,2) b(1,2) ij(3) by (auto simp: distinct_map dest: inj_onD)
    then show "hosts ! i \<noteq> hosts ! j" unfolding a(3) b(3) by (metis cluster_node_info.select_convs(1) cluster_node_info.surjective cluster_node_info.update_convs(2))
  qed
qed

lemma or_new_sound:
  assumes "usable_graph g" "or_new g port max_load = Some s"
  shows "or_sound s"
proof -
  obtain m hosts where S: "cg_speeds (convert_cgraph_nodeinfo port g) = Some (m, hosts)"
    "s = \<lparr>or_residual = m, or_hosts = hosts, or_attributed = [], or_emulations = [], or_load = [], or_max_load = max_load,
      or_port = port\<rparr>"
    using assms(2) by (auto simp: or_new_def split: option.splits)
  note G = usable_graph_speeds[OF assms(1) S(1)]
  show ?thesis
    using G by (simp add: S(2) or_sound_defs or_size_def maps_ok_def emulations_fit_def emulations_placed_def
        load_entries_def attributed_on_def load_of_def hm_distinct_def hm_keys_def)
qed

section \<open>Losing a host\<close>

lemma stops_sound:
  assumes "fold_opt (\<lambda>u st. map_option fst (or_stop_emulation u st)) us s = Some s'" "or_sound s"
  shows "or_sound s' \<and> same_cluster s s'
    \<and> (\<forall>v. hm_get (=) (or_emulations s') v = (if v \<in> set us then None else hm_get (=) (or_emulations s) v))
    \<and> (\<forall>h v. attributed_on s' h v \<longleftrightarrow> v \<notin> set us \<and> attributed_on s h v)"
  using assms
proof (induction us arbitrary: s)
  case Nil
  then show ?case by (simp add: same_cluster_def)
next
  case (Cons u us)
  then obtain s1 r where 1: "or_stop_emulation u s = Some (s1, r)"
    "fold_opt (\<lambda>u st. map_option fst (or_stop_emulation u st)) us s1 = Some s'" by (auto split: option.splits)
  note S = stop_sound[OF Cons.prems(2) 1(1)]
  note I = Cons.IH[OF 1(2) S[THEN conjunct1]]
  from S I show ?case by (auto simp: same_cluster_def)
qed

definition host_lost :: "cluster_node_info \<Rightarrow> orchestrator \<Rightarrow> orchestrator \<Rightarrow> bool" where
  "host_lost h s s' \<longleftrightarrow> set (or_hosts s') = set (or_hosts s) - {h} \<and> or_port s' = or_port s \<and> or_max_load s' = or_max_load s"

lemma remove_sound:
  assumes sound: "or_sound s" and run: "or_remove_cluster_node node0 s = Some (s', r)"
  shows "or_sound s' \<and> (case r of Inl e \<Rightarrow> s' = s | Inr us \<Rightarrow> host_lost (node0\<lparr>cni_port := or_port s\<rparr>) s s')"
proof (cases "find_position (node0\<lparr>cni_port := or_port s\<rparr>) (or_hosts s)")
  case None
  then show ?thesis using sound run by (auto simp: or_remove_cluster_node_def)
next
  case (Some k)
  let ?node = "node0\<lparr>cni_port := or_port s\<rparr>" and ?us = "concat (map snd (or_attributed s))"
  have k: "k < length (or_hosts s)" "or_hosts s ! k = ?node" using find_position_Some[OF Some] by auto
  obtain s1 res where s1: "fold_opt (\<lambda>u st. map_option fst (or_stop_emulation u st)) ?us s = Some s1"
    and res: "sm_remove_id (or_residual s1) k = Some res"
    and s': "s' = s1\<lparr>or_residual := res, or_hosts := take k (or_hosts s1) @ drop (Suc k) (or_hosts s1),
      or_attributed := hm_remove (=) ?node (or_attributed s1)\<rparr>" and r: "r = Inr ?us"
    using run Some by (auto simp: or_remove_cluster_node_def Let_def split: option.splits)
  have S1: "or_sound s1" "same_cluster s s1"
    and em: "\<And>v. hm_get (=) (or_emulations s1) v = (if v \<in> set ?us then None else hm_get (=) (or_emulations s) v)"
    and at: "\<And>h v. attributed_on s1 h v \<longleftrightarrow> v \<notin> set ?us \<and> attributed_on s h v"
    using stops_sound[OF s1 sound] by blast+
  have att1: "\<not> attributed_on s1 h v" for h v using at attributed_in by blast
  have load1: "load_of s1 h v = 0" for h v using att1 S1(1) by (simp add: or_sound_defs)
  have none: "sm_size matrix = 0" if "hm_get (=) (or_emulations s1) v = Some (matrix, eqv)" for v matrix eqv
    using that att1 S1(1) unfolding or_sound_def emulations_placed_def by blast
  have hosts: "or_hosts s1 = or_hosts s" "or_port s1 = or_port s" "or_max_load s1 = or_max_load s"
    using S1(2) by (simp_all add: same_cluster_def)
  have C: "distinct (or_hosts s)" "length (or_hosts s) = or_size s1" "sm_wf (or_residual s1)"
    "\<forall>h \<in> set (or_hosts s). cni_port h = or_port s" "hm_distinct (=) (or_attributed s1)"
    using S1(1) hosts by (simp_all add: or_sound_defs load_entries_def)
  then have pos: "0 < sm_n (or_residual s1)" using k(1) by (simp add: or_size_def sm_size_def)
  note R = sm_remove_id_Some(1,2)[OF C(3) pos res]
  let ?hs = "take k (or_hosts s) @ drop (Suc k) (or_hosts s)"
  have split: "or_hosts s = take k (or_hosts s) @ or_hosts s ! k # drop (Suc k) (or_hosts s)"
    using id_take_nth_drop[OF k(1)] .
  have "distinct (take k (or_hosts s) @ or_hosts s ! k # drop (Suc k) (or_hosts s))" using C(1) split by simp
  then have hs: "distinct ?hs" "?node \<notin> set ?hs" unfolding k(2) by auto
  have "set (or_hosts s) = insert ?node (set ?hs)" using arg_cong[OF split, of set] unfolding k(2) by auto
  then have set: "set ?hs = set (or_hosts s) - {?node}" using hs(2) by auto
  have view: "load_of s' = load_of s1" by (simp add: s' load_of_def fun_eq_iff)
  have att: "\<not> attributed_on s' h v" for h v
    using att1[of h v] C(5) by (auto simp: s' attributed_on_def hol_eq.hm_get_remove split: option.splits)
  have "cluster_ok s'"
    using R C(2,4) hs(1) set k(1) by (auto simp: s' cluster_ok_def hosts or_size_def sm_size_def)
  moreover have "maps_ok s'"
    using S1(1) C(5) by (auto simp: s' or_sound_def maps_ok_def hol_eq.hm_get_remove split: if_splits)
  moreover have "emulations_placed s'" using none by (auto simp: s' emulations_placed_def)
  moreover have "emulations_fit s'"
    using none S1(1) by (force simp: s' or_sound_def emulations_fit_def fits_on_def)
  moreover have "load_entries s'"
    using S1(1) C(5) by (auto simp: s' or_sound_defs load_entries_def hol_eq.hm_distinct_remove)
  then have "loads_ok s'" using att load1 by (simp add: loads_ok_def view)
  ultimately show ?thesis using set hosts by (simp add: or_sound_def host_lost_def s' r)
qed

section \<open>Growing and changing the cluster\<close>

lemma add_sound:
  assumes sound: "or_sound s" and new: "node \<notin> set (or_hosts s)" "cni_port node = or_port s"
    and small: "Suc (length (or_hosts s)) < 2 ^ 26" and run: "add_cluster_node matrix idx node s = Some s'"
  shows "or_sound s' \<and> or_hosts s' = or_hosts s @ [node] \<and> or_port s' = or_port s \<and> or_max_load s' = or_max_load s"
proof -
  obtain f res where grow: "sm_grow_fn (or_residual s) 1 f = Some res"
    and s': "s' = s\<lparr>or_hosts := or_hosts s @ [node], or_residual := res\<rparr>"
    using run by (auto simp: add_cluster_node_def Let_def split: option.splits)
  have C: "sm_n (or_residual s) = length (or_hosts s)" using sound by (simp add: or_sound_defs or_size_def sm_size_def)
  then have "sm_n (or_residual s) + 1 < 2 ^ 26" using small by simp
  note R = sm_grow_fn_Some(1,2)[OF this grow]
  have view: "load_of s' = load_of s" "attributed_on s' = attributed_on s"
    by (simp_all add: s' load_of_def attributed_on_def fun_eq_iff)
  have "cluster_ok s'" using sound new R C by (auto simp: s' or_sound_defs or_size_def sm_size_def)
  moreover have "maps_ok s'" using sound by (simp add: s' or_sound_def maps_ok_def)
  moreover have "emulations_fit s'"
    using sound R C unfolding or_sound_def emulations_fit_def fits_on_def
    by (simp add: s' or_size_def sm_size_def) (meson less_SucI)
  moreover have "emulations_placed s'" using sound by (simp add: or_sound_def emulations_placed_def view) (simp add: s')
  moreover have "loads_ok s'"
    using sound unfolding or_sound_def loads_ok_def load_entries_def view by (simp add: s')
  ultimately show ?thesis by (simp add: or_sound_def) (simp add: s')
qed

lemma adds_sound:
  assumes "fold_opt (add_cluster_node matrix idx) ns s = Some s'" "or_sound s"
    and "distinct (or_hosts s @ ns)" "\<forall>n \<in> set ns. cni_port n = or_port s" "length (or_hosts s @ ns) < 2 ^ 26"
  shows "or_sound s' \<and> or_hosts s' = or_hosts s @ ns \<and> or_max_load s' = or_max_load s"
  using assms
proof (induction ns arbitrary: s)
  case (Cons n ns)
  then obtain s1 where 1: "add_cluster_node matrix idx n s = Some s1" "fold_opt (add_cluster_node matrix idx) ns s1 = Some s'"
    by (auto split: option.splits)
  have A: "or_sound s1 \<and> or_hosts s1 = or_hosts s @ [n] \<and> or_port s1 = or_port s \<and> or_max_load s1 = or_max_load s"
    by (rule add_sound[OF Cons.prems(2) _ _ _ 1(1)]) (use Cons.prems in auto)
  then have "or_sound s' \<and> or_hosts s' = or_hosts s1 @ ns \<and> or_max_load s' = or_max_load s1"
    by (intro Cons.IH[OF 1(2)]) (use Cons.prems in auto)
  then show ?case using A by simp
qed simp

lemma removes_sound:
  assumes "fold_opt (\<lambda>node (st, affected).
      (case or_remove_cluster_node node st of
         Some (st', Inr uuids) \<Rightarrow> Some (st', fold (hs_insert (=)) uuids affected)
       | _ \<Rightarrow> None)) ns (s, aff) = Some (s', aff')" "or_sound s"
    and "\<forall>n \<in> set ns. cni_port n = or_port s"
  shows "or_sound s' \<and> set (or_hosts s') = set (or_hosts s) - set ns \<and> or_port s' = or_port s \<and> or_max_load s' = or_max_load s"
  using assms
proof (induction ns arbitrary: s aff)
  case (Cons n ns)
  then obtain s1 us where 1: "or_remove_cluster_node n s = Some (s1, Inr us)"
    "fold_opt (\<lambda>node (st, affected).
      (case or_remove_cluster_node node st of
         Some (st', Inr uuids) \<Rightarrow> Some (st', fold (hs_insert (=)) uuids affected)
       | _ \<Rightarrow> None)) ns (s1, fold (hs_insert (=)) us aff) = Some (s', aff')"
    by (auto split: option.splits sum.splits)
  have "n\<lparr>cni_port := or_port s\<rparr> = n" using Cons.prems(3) by (cases n) simp
  then have A: "or_sound s1" "host_lost n s s1" using remove_sound[OF Cons.prems(2) 1(1)] by simp_all
  then have "or_sound s' \<and> set (or_hosts s') = set (or_hosts s1) - set ns \<and> or_port s' = or_port s1 \<and> or_max_load s' = or_max_load s1"
    by (intro Cons.IH[OF 1(2)]) (use Cons.prems(3) in \<open>auto simp: host_lost_def\<close>)
  then show ?case using A(2) by (auto simp: host_lost_def)
qed simp

lemma update_sound:
  assumes sound: "or_sound s" and g: "usable_graph g" and run: "or_update_with_cgraph g s = Some (s', r)"
  shows "or_sound s' \<and> or_max_load s' = or_max_load s"
proof -
  obtain matrix nodes where sp: "cg_speeds (convert_cgraph_nodeinfo (or_port s) g) = Some (matrix, nodes)"
    using run by (auto simp: or_update_with_cgraph_def split: option.splits)
  note G = usable_graph_speeds[OF g sp]
  let ?gone = "filter (\<lambda>n. n \<notin> set nodes) (or_hosts s)" and ?new = "filter (\<lambda>n. n \<notin> set (or_hosts s)) nodes"
  obtain s1 aff idx where 1: "fold_opt (\<lambda>node (st, affected).
      (case or_remove_cluster_node node st of
         Some (st', Inr uuids) \<Rightarrow> Some (st', fold (hs_insert (=)) uuids affected)
       | _ \<Rightarrow> None)) ?gone (s, []) = Some (s1, aff)"
    and 2: "fold_opt (add_cluster_node matrix idx) ?new s1 = Some s'"
    using run sp by (auto simp: or_update_with_cgraph_def Let_def split: option.splits)
  have S1: "or_sound s1" "set (or_hosts s1) = set (or_hosts s) - set ?gone" "or_port s1 = or_port s"
    "or_max_load s1 = or_max_load s"
    using removes_sound[OF 1 sound] sound by (auto simp: or_sound_defs)
  have dist: "distinct (or_hosts s1 @ ?new)" using S1 G(3) by (auto simp: or_sound_defs)
  have "length (or_hosts s1 @ ?new) = card (set (or_hosts s1 @ ?new))" using distinct_card[OF dist] by simp
  also have "\<dots> \<le> card (set nodes)" by (rule card_mono) (auto simp: S1(2))
  also have "\<dots> < 2 ^ 26" using card_length[of nodes] G(5) by (rule le_less_trans)
  finally show ?thesis using adds_sound[OF 2 S1(1) dist] G(4) S1(3,4) by simp
qed

section \<open>The life of the orchestrator\<close>

text \<open>Its calls, in any order and with any arguments; a topology has fewer than \<^verbatim>\<open>2 ^ 26\<close>
  applications (the bound of the symmetric matrix) and a graph of the cluster is usable.\<close>

inductive or_step :: "orchestrator \<Rightarrow> orchestrator \<Rightarrow> bool" where
  deploy: "net_bandwidth_matrix node_eq net node_is_app = Some (matrix, nodes) \<Longrightarrow> length nodes < 2 ^ 26
    \<Longrightarrow> or_new_emulation net u s = Some (s', r) \<Longrightarrow> or_step s s'"
| stop: "or_stop_emulation u s = Some (s', r') \<Longrightarrow> or_step s s'"
| stop_app: "or_stop_app_emulation_on u node i s = Some (s', r') \<Longrightarrow> or_step s s'"
| remove: "or_remove_cluster_node node s = Some (s', rs) \<Longrightarrow> or_step s s'"
| update: "usable_graph g \<Longrightarrow> or_update_with_cgraph g s = Some (s', rs) \<Longrightarrow> or_step s s'"

inductive_cases or_stepE: "or_step s s'"

definition or_start :: "orchestrator \<Rightarrow> bool" where
  "or_start s \<longleftrightarrow> (\<exists>g port max_load. usable_graph g \<and> or_new g port max_load = Some s)"

lemma or_step_sound: "or_step s s' \<Longrightarrow> or_sound s \<Longrightarrow> or_sound s'"
proof (induction rule: or_step.induct)
  case deploy
  show ?case by (rule deploy_sound[OF deploy(4,1,2,3)])
next
  case stop
  show ?case using stop_sound[OF stop(2,1)] by blast
next
  case stop_app
  show ?case by (rule stop_app_sound[OF stop_app(2,1)])
next
  case remove
  show ?case using remove_sound[OF remove(2,1)] by blast
next
  case update
  show ?case using update_sound[OF update(3,1,2)] by blast
qed

text \<open>The limit of the load never changes.\<close>

lemma deploy_limit: "or_new_emulation net u s = Some (s', r) \<Longrightarrow> or_max_load s' = or_max_load s"
proof -
  have place: "or_max_load (fst st') = or_max_load (fst st)" if "place_app eqv u i st = Some st'" for eqv i st st'
    using that by (cases st) (auto simp: place_app_def increase_load_def attribute_emul_def split: option.splits)
  have places: "or_max_load (fst st') = or_max_load (fst st)" if "fold_opt (place_app eqv u) is st = Some st'" for eqv "is" st st'
    by (rule fold_opt_invar[OF that]) (auto dest: place)
  show "or_new_emulation net u s = Some (s', r) \<Longrightarrow> or_max_load s' = or_max_load s"
    using places by (fastforce simp: or_new_emulation_def split: option.splits sum.splits)
qed

lemma stop_app_limit: "or_stop_app_emulation_on u node i s = Some (s', r) \<Longrightarrow> or_max_load s' = or_max_load s"
  by (auto simp: or_stop_app_emulation_on_def decrease_load_def Let_def split: option.splits if_splits)

lemma or_step_limit: "or_step s s' \<Longrightarrow> or_sound s \<Longrightarrow> or_max_load s' = or_max_load s"
proof (induction rule: or_step.induct)
  case deploy
  show ?case by (rule deploy_limit[OF deploy(3)])
next
  case stop
  show ?case using stop_sound[OF stop(2,1)] by (simp add: same_cluster_def)
next
  case stop_app
  show ?case by (rule stop_app_limit[OF stop_app(1)])
next
  case (remove node s s' rs)
  show ?case using remove_sound[OF remove(2,1)] by (cases rs) (simp_all add: host_lost_def)
next
  case update
  show ?case using update_sound[OF update(3,1,2)] by blast
qed

interpretation orch: marked_system or_step or_start or_sound "\<lambda>s. or_max_load s = n" for n
  by unfold_locales (auto simp: or_start_def or_step_limit intro: or_new_sound or_step_sound)

end
