(* ===== verification/Omanager_Life.thy ===== *)
theory Omanager_Life
  imports Manager_Properties Orchlife Cluster_Properties
begin

text \<open>
  The orchestration manager (\<^verbatim>\<open>emulation/src/pubapi.rs\<close>) drives the orchestrator: whatever it is
  sent, the orchestrator stays sound.
\<close>

section \<open>What the manager is sent\<close>

text \<open>A topology has fewer than \<^verbatim>\<open>2 ^ 26\<close> applications (it may have none), and a graph of the
  cluster is well-formed with nodes of different addresses.\<close>

definition admissible :: "oinput \<Rightarrow> bool" where
  "admissible i \<longleftrightarrow>
     (case i of
        (w, Inl (NewTopology topology, _)) \<Rightarrow>
          (\<forall>net events matrix nodes. ow_parse_topology w topology (ow_new_uuid w) = Some (Inr (net, events))
             \<longrightarrow> net_bandwidth_matrix node_eq net node_is_app = Some (matrix, nodes)
             \<longrightarrow> length nodes < 2 ^ 26)
      | (w, Inr (New g)) \<Rightarrow> usable_graph g
      | _ \<Rightarrow> True)"

inductive om_step :: "omanager \<Rightarrow> omanager \<Rightarrow> bool" where
  turn: "admissible i \<Longrightarrow> om_turn i s = Some (sent, s') \<Longrightarrow> om_step s s'"

definition om_start :: "omanager \<Rightarrow> bool" where
  "om_start s \<longleftrightarrow> (\<exists>g me op ep max_load. usable_graph g \<and> om_build me op ep g max_load = Some s)"

section \<open>The orchestrator of the manager\<close>

lemma abort_orchestrator: "om_orchestrator (snd (abort_emulations w us s)) = om_orchestrator s"
  by (induction w us s rule: abort_emulations.induct) (auto split: option.split prod.split)

lemma send_ready_orchestrator:
  "send_ready w u ns s = Some (sent, s') \<Longrightarrow> om_orchestrator s' = om_orchestrator s"
proof (induction ns arbitrary: sent)
  case (Cons n ns)
  then show ?case using abort_orchestrator[of w "[u]" s] by (auto simp: Let_def split: if_splits prod.splits)
qed simp

text \<open>A turn is at most one call of the orchestrator.\<close>

lemma turn_orchestrator:
  assumes "admissible i" "om_turn i s = Some (sent, s')"
  shows "om_orchestrator s' = om_orchestrator s \<or> or_step (om_orchestrator s) (om_orchestrator s')"
proof -
  obtain w input where i: "i = (w, input)" by (cases i)
  show ?thesis
  proof (cases input)
    case (Inr u)
    show ?thesis
    proof (cases u)
      case (New g)
      then obtain orch affected where o: "or_update_with_cgraph g (om_orchestrator s) = Some (orch, Inr affected)"
        "abort_emulations w affected (s\<lparr>om_orchestrator := orch\<rparr>) = (sent, s')"
        using assms(2) i Inr by (auto simp: om_turn_def split: option.splits sum.splits prod.splits)
      have "usable_graph g" using assms(1) i Inr New by (simp add: admissible_def)
      then have "or_step (om_orchestrator s) orch" using o(1) by (rule or_step.update)
      then show ?thesis using abort_orchestrator[of w affected "s\<lparr>om_orchestrator := orch\<rparr>"] o(2) by simp
    next
      case (Remove node)
      then obtain orch affected where o: "or_remove_cluster_node node (om_orchestrator s) = Some (orch, Inr affected)"
        "abort_emulations w affected (s\<lparr>om_orchestrator := orch\<rparr>) = (sent, s')"
        using assms(2) i Inr by (auto simp: om_turn_def split: option.splits sum.splits prod.splits)
      have "or_step (om_orchestrator s) orch" using o(1) by (rule or_step.remove)
      then show ?thesis using abort_orchestrator[of w affected "s\<lparr>om_orchestrator := orch\<rparr>"] o(2) by simp
    qed
  next
    case (Inl mb)
    obtain m b where mb: "mb = (m, b)" by (cases mb)
    have run: "handle_experiment_message w (m, b) s = Some (sent, s')" using assms(2) i Inl mb by (simp add: om_turn_def)
    show ?thesis
    proof (cases b)
      case True
      show ?thesis
      proof (cases m)
        case (NewTopology t)
        then have new: "on_new_topology w t s = Some (sent, s')" using run True by simp
        then obtain net events where p: "ow_parse_topology w t (ow_new_uuid w) = Some (Inr (net, events))
            \<or> om_orchestrator s' = om_orchestrator s"
          by (auto simp: on_new_topology_def Let_def split: option.splits sum.splits)
        show ?thesis
        proof (cases "om_orchestrator s' = om_orchestrator s")
          case False
          with p have p: "ow_parse_topology w t (ow_new_uuid w) = Some (Inr (net, events))" by simp
          obtain r where r: "or_new_emulation net (ow_new_uuid w) (om_orchestrator s) = Some (om_orchestrator s', r)"
            using new p by (auto simp: on_new_topology_def Let_def split: option.splits sum.splits prod.splits)
          then obtain matrix nodes where m: "net_bandwidth_matrix node_eq net node_is_app = Some (matrix, nodes)"
            by (auto simp: or_new_emulation_def split: option.splits)
          have "length nodes < 2 ^ 26"
            using assms(1) p m i Inl mb NewTopology by (simp add: admissible_def)
          then show ?thesis using or_step.deploy[OF m _ r] by blast
        qed simp
      next
        case (Abort t)
        then show ?thesis using run True by (auto simp: on_abort_def split: option.splits)
      next
        case (CleanStop t node k)
        then obtain u r where "or_stop_app_emulation_on u node k (om_orchestrator s) = Some (om_orchestrator s', r)"
          using run True by (auto simp: on_clean_stop_def split: option.splits)
        then show ?thesis by (blast intro: or_step.stop_app)
      next
        case (EmulationReady t node)
        then have ready: "on_emulation_ready w t node s = Some (sent, s')" using run True by simp
        show ?thesis
          using ready send_ready_orchestrator
          by (fastforce simp: on_emulation_ready_def Let_def split: option.splits if_splits prod.splits)
      qed (use run True in auto)
    qed (use run in \<open>cases m; auto\<close>)
  qed
qed

lemma om_step_orchestrator:
  "om_step s s' \<Longrightarrow> om_orchestrator s' = om_orchestrator s \<or> or_step (om_orchestrator s) (om_orchestrator s')"
  by (erule om_step.cases) (blast dest: turn_orchestrator)

interpretation omgr: marked_system om_step om_start "\<lambda>s. or_sound (om_orchestrator s)"
  "\<lambda>s. or_max_load (om_orchestrator s) = n" for n
proof unfold_locales
  show "or_sound (om_orchestrator s)" if "om_start s" for s
    using that by (auto simp: om_start_def om_build_def intro: or_new_sound)
  fix s s' assume step: "om_step s s'" and sound: "or_sound (om_orchestrator s)"
  show "or_sound (om_orchestrator s')" using om_step_orchestrator[OF step] or_step_sound[OF _ sound] sound by auto
  show "or_max_load (om_orchestrator s') = n" if "or_max_load (om_orchestrator s) = n"
    using om_step_orchestrator[OF step] or_step_limit[OF _ sound] that by auto
qed

lemma accept_topology_steps:
  "accept_topology is s = Some (sent, s') \<Longrightarrow> \<forall>i \<in> set is. admissible i \<Longrightarrow> om_step\<^sup>*\<^sup>* s s'"
proof (induction "is" arbitrary: s sent)
  case (Cons i "is")
  obtain w input where i: "i = (w, input)" by (cases i)
  then obtain sent1 s1 sent2 where 1: "om_turn i s = Some (sent1, s1)" "accept_topology is s1 = Some (sent2, s')"
    using Cons.prems(1) by (cases input) (auto simp: om_turn_def split: option.splits)
  have "om_step s s1" using Cons.prems(2) 1(1) by (auto intro: om_step.turn)
  moreover have "om_step\<^sup>*\<^sup>* s1 s'" using Cons.IH[OF 1(2)] Cons.prems(2) by simp
  ultimately show ?case by (rule converse_rtranclp_into_rtranclp)
qed simp

section \<open>The property\<close>

text \<open>C10: over the whole life of the orchestration manager, for all messages and updates in any
  order, when the topologies have fewer than \<^verbatim>\<open>2 ^ 26\<close> applications and the graphs of the cluster
  are well-formed with nodes of different addresses: the orchestrator has one row of residual
  bandwidth for each of its hosts, an emulation is attributed to exactly the hosts that it loads,
  these are hosts of the cluster and it is recorded; a recorded emulation is placed on hosts that
  exist and, when it has an application, attributed to one of them (one without applications stays
  recorded without a host); and no host is ever loaded above the limit that was configured.\<close>

theorem orchestrator_stays_sound:
  assumes "usable_graph g" "om_build me om_port em_port g max_load = Some s0"
    and "\<forall>i \<in> set is. admissible i" "accept_topology is s0 = Some (sent, s)" "orch = om_orchestrator s"
  shows "length (or_hosts orch) = or_size orch \<and> distinct (or_hosts orch)
    \<and> (\<forall>h. (\<Sum>u \<in> UNIV. load_of orch h u) \<le> max_load)
    \<and> (\<forall>h u. attributed_on orch h u \<longleftrightarrow> 0 < load_of orch h u)
    \<and> (\<forall>h u. attributed_on orch h u \<longrightarrow> h \<in> set (or_hosts orch) \<and> hm_get (=) (or_emulations orch) u \<noteq> None)
    \<and> (\<forall>u matrix eqv. hm_get (=) (or_emulations orch) u = Some (matrix, eqv) \<longrightarrow> 0 < sm_size matrix
         \<longrightarrow> (\<exists>h. attributed_on orch h u))
    \<and> emulations_fit orch"
proof -
  have start: "om_start s0" unfolding om_start_def using assms(1,2) by blast
  have steps: "om_step\<^sup>*\<^sup>* s0 s" by (rule accept_topology_steps[OF assms(4,3)])
  have "or_max_load (om_orchestrator s0) = max_load" using assms(2) by (auto simp: om_build_def or_new_def split: option.splits)
  then have "or_max_load orch = max_load"
    unfolding assms(5) by (rule omgr.run_mark[OF steps omgr.start_keeps[OF start]])
  moreover have "or_sound orch" unfolding assms(5) by (rule omgr.reachable_keeps[OF start steps])
  ultimately show ?thesis
    unfolding or_sound_def cluster_ok_def loads_ok_def emulations_placed_def by blast
qed

text \<open>A leader with another machine, and a topology of one application.\<close>

definition two_machines :: "cluster_node_info cgraph option" where
  "two_machines =
     (case cg_new of
        None \<Rightarrow> None
      | Some g0 \<Rightarrow>
          (case cg_add_node 1000 (host_at 1) g0 of
             Some (g, Inr _) \<Rightarrow>
               (case cg_add_node 500 (host_at 2) g of Some (g', Inr _) \<Rightarrow> Some g' | _ \<Rightarrow> None)
           | _ \<Rightarrow> None))"

lemma two_machines_ok:
  "\<exists>g. two_machines = Some g \<and> cg_inv g \<and> cg_n g = 2
    \<and> cg_nodes g = [cnode_build 0 1000 (host_at 1), cnode_build 1 500 (host_at 2)]"
proof -
  obtain g0 :: "cluster_node_info cgraph" where new: "cg_new = Some g0" "cg_inv g0" "cg_n g0 = 0" "cg_nodes g0 = []"
    using cg_new_result by blast
  obtain g a where g: "cg_add_node 1000 (host_at 1) g0 = Some (g, Inr a)" "cg_inv g" "node_added 1000 (host_at 1) g0 g a"
    using cg_add_node_result [OF new(2), of 1000 "host_at 1"] new(3) by auto
  then have g1: "cg_n g = 1" "cg_nodes g = [cnode_build 0 1000 (host_at 1)]"
    using new by (simp_all add: node_added_def cnode_build_def)
  have "host_at 1 \<noteq> host_at 2" by (simp add: host_at_def cni_new_def)
  moreover obtain h b where h: "cg_add_node 500 (host_at 2) g = Some (h, Inr b)" "cg_inv h" "node_added 500 (host_at 2) g h b"
    using cg_add_node_result [OF g(2), of 500 "host_at 2"] g1 by auto
  ultimately have "cg_n h = 2" "cg_nodes h = [cnode_build 0 1000 (host_at 1), cnode_build 1 500 (host_at 2)]"
    using g1 by (simp_all add: node_added_def cnode_build_def)
  moreover have "two_machines = Some h"
    unfolding two_machines_def new(1) option.case g(1) prod.case sum.case h(1) ..
  ultimately show ?thesis using h(2) by blast
qed

lemma two_machines_manager:
  obtains g orch where "two_machines = Some g" "usable_graph g" "om_build (host_at 1) 8081 8081 g 4 = Some (manager_of orch)"
    "or_size orch = 2" "or_load orch = []" "or_max_load orch = 4" "or_hosts orch ! 0 = host_at 1"
proof -
  obtain g where g: "two_machines = Some g" "cg_inv g" "cg_n g = 2"
    "cg_nodes g = [cnode_build 0 1000 (host_at 1), cnode_build 1 500 (host_at 2)]" using two_machines_ok by blast
  have usable: "usable_graph g" using g(2,4) by (simp add: usable_graph_def cnode_build_def host_at_def cni_new_def)
  note M = cg_map_nodes_result[OF g(2), of "\<lambda>cni. cni\<lparr>cni_port := 8081\<rparr>"]
  from cg_speeds_result[OF M(1)] obtain m hosts where
    sp: "cg_speeds (convert_cgraph_nodeinfo 8081 g) = Some (m, hosts)" "sm_n m = 2" "hosts ! 0 = host_at 1"
    by (auto simp: convert_cgraph_nodeinfo_def M(2,3) g(3,4) cnode_build_def host_at_def cni_new_def)
  show ?thesis
    by (rule that[OF g(1) usable, of "\<lparr>or_residual = m, or_hosts = hosts, or_attributed = [], or_emulations = [], or_load = [],
        or_max_load = 4, or_port = 8081\<rparr>"])
      (use sp in \<open>simp_all add: om_build_def or_new_def manager_of_def or_size_def sm_size_def host_at_def cni_new_def\<close>)
qed

theorem orchestrator_stays_sound_witness:
  "\<exists>g net orch sent s. two_machines = Some g \<and> om_build (host_at 1) 8081 8081 g 4 = Some (manager_of orch)
    \<and> accept_topology [(topology_world net True, Inl (NewTopology ''text'', True))] (manager_of orch) = Some (sent, s)
    \<and> Reply (Some Accepted) \<in> set sent \<and> (\<forall>h. (\<Sum>u \<in> UNIV. load_of (om_orchestrator s) h u) \<le> 4)"
proof -
  obtain g orch where G: "two_machines = Some g" "usable_graph g" "om_build (host_at 1) 8081 8081 g 4 = Some (manager_of orch)"
    "or_size orch = 2" "or_load orch = []" "or_max_load orch = 4" and one: "or_hosts orch ! 0 = host_at 1"
    by (rule two_machines_manager)
  have "om_start (manager_of orch)" unfolding om_start_def using G(2,3) by blast
  then have sound: "or_sound orch" using omgr.start_keeps by (fastforce simp: manager_of_def)
  moreover have "or_hosts orch \<noteq> []" using sound G(4) by (auto simp: or_sound_defs)
  ultimately have inv: "or_inv orch" by (rule or_sound_inv)
  obtain net m where m: "sm_wf m" "sm_size m = 1" "sm_get m 0 0 = Some (- 1)"
    "net_bandwidth_matrix node_eq net node_is_app = Some (m, [App 0 (app_build None None ''A'' BareMetal)])"
    using one_app_matrix by blast
  let ?w = "topology_world net True"
  have w: "ow_new_uuid ?w = 7" "om_orchestrator (manager_of orch) = orch"
    "ow_parse_topology ?w ''text'' (ow_new_uuid ?w) = Some (Inr (net, []))" by (simp_all add: topology_world_def manager_of_def)
  have o: "or_ok (om_orchestrator (manager_of orch))" "find_isomorphism (om_orchestrator (manager_of orch)) m = Some (Inr (Some [0]))"
    using inv one_app_found[OF inv G(4-6) m(1-3)] by (simp_all add: w(2) or_inv_def)
  obtain told s where run: "on_new_topology ?w ''text'' (manager_of orch) = Some (told @ [Reply (Some Accepted)], s)"
    using first_host_told[OF new_topology_result[OF w(3) o(1) m(4) _ o(2), unfolded w(1,2)] m(2) one] by auto
  let ?is = "[(?w, Inl (NewTopology ''text'', True))]"
  have acc: "accept_topology ?is (manager_of orch) = Some (told @ [Reply (Some Accepted)], s)" using run by simp
  have "\<forall>i \<in> set ?is. admissible i" using m(4) by (simp add: admissible_def topology_world_def)
  from orchestrator_stays_sound[OF G(2,3) this acc refl] G(1,3) acc show ?thesis
    by (intro exI[of _ g] exI[of _ net] exI[of _ orch] exI[of _ "told @ [Reply (Some Accepted)]"] exI[of _ s]) simp
qed

end
