(* ===== verification/Emulcore.thy ===== *)
theory Emulcore
  imports Data Bwsync Actions
begin

text \<open>
  The emulation core of a node (\<^verbatim>\<open>emulation/src/emulcore.rs\<close>): it watches the flows of
  one emulation, shares the bandwidth between them, and follows the programmed events of its
  applications. The state is the fields of \<^verbatim>\<open>EmulCore\<close> that are not sockets or channels,
  and the two variables of the main loop (the active flows and the bandwidth graph). What a turn
  sends is an action; the world says which sends succeed. A turn that fails ends the loop.
\<close>

section \<open>State\<close>

record emul_core =
  ec_leader :: cluster_node_info
  ec_graph :: "node network"
  ec_events :: "emulation_event list option"
  ec_apps :: "(node, app_status) hmap"
  ec_others :: "cluster_node_info list"
  ec_ip :: "(ip_addr, node) hmap"
  ec_myself :: cluster_node_info
  ec_id :: uuid

text \<open>What goes out: a command to the reporter of an application, a message to the emulation
  manager of another host, the stop of a container, a message to the leader.\<close>

datatype ec_effect =
    ToReporter node emul_message
  | ToHost cluster_node_info emanager_message
  | StopContainer string
  | ToLeader omanager_message

record ec_world =
  cw_tc :: "node \<Rightarrow> unit result"
  cw_host :: "cluster_node_info \<Rightarrow> unit result"
  cw_dock :: "string \<Rightarrow> unit result"
  cw_leader :: "unit result"
  cw_show :: "uuid \<Rightarrow> string"
  cw_show_ip :: "ip_addr \<Rightarrow> string"

record ec_loop =
  el_core :: emul_core
  el_flows :: "node flow list"
  el_bw :: "node network"

text \<open>\<^verbatim>\<open>as_app()\<close>, \<^verbatim>\<open>ip_addr()\<close> and \<^verbatim>\<open>runs_on()\<close> panic on a bridge
  and on a missing field.\<close>

definition node_ip :: "node \<Rightarrow> ip_addr option" where
  "node_ip n = (case node_as_app n of None \<Rightarrow> None | Some a \<Rightarrow> app_ip a)"

definition node_runs_on :: "node \<Rightarrow> cluster_node_info \<Rightarrow> bool option" where
  "node_runs_on n host = (case node_as_app n of None \<Rightarrow> None | Some a \<Rightarrow> app_runs_on a host)"

definition node_host :: "node \<Rightarrow> cluster_node_info option" where
  "node_host n = (case node_as_app n of None \<Rightarrow> None | Some a \<Rightarrow> app_host a)"

section \<open>Construction\<close>

definition parse_emulation ::
  "emulation \<Rightarrow> cluster_node_info \<Rightarrow> ((ip_addr, node) hmap \<times> cluster_node_info list) option" where
  "parse_emulation emul myself =
     (let apps = filter node_is_app (net_vertices (em_graph emul)) in
      case fold_opt
             (\<lambda>n acc. case (node_runs_on n myself, node_host n) of
                (Some r, Some h) \<Rightarrow> Some (if r then acc else hs_insert (=) h acc)
              | _ \<Rightarrow> None)
             apps [] of
        None \<Rightarrow> None
      | Some other_host \<Rightarrow>
          map_option (\<lambda>ip_to_map. (ip_to_map, other_host))
            (fold_opt (\<lambda>n acc. map_option (\<lambda>ip. hm_insert (=) ip n acc) (node_ip n)) apps []))"

definition ec_new :: "emulation \<Rightarrow> cluster_node_info \<Rightarrow> cluster_node_info \<Rightarrow> emul_core option" where
  "ec_new emul myself cluster_leader =
     map_option
       (\<lambda>(ip_to_app, other_hosts).
          \<lparr>ec_leader = cluster_leader, ec_graph = em_graph emul, ec_events = Some (em_events emul),
           ec_apps = [], ec_others = other_hosts, ec_ip = ip_to_app, ec_myself = myself, ec_id = em_uuid emul\<rparr>)
       (parse_emulation emul myself)"

section \<open>Sends\<close>

definition to_reporter :: "ec_world \<Rightarrow> node \<Rightarrow> emul_message \<Rightarrow> (ec_effect, unit) action" where
  "to_reporter w n m = act_send (ToReporter n m) (cw_tc w n)"

text \<open>\<^verbatim>\<open>my_apps.get_mut(node).unwrap()\<close> panics for a node that is not one of ours.\<close>

definition to_my_app ::
  "ec_world \<Rightarrow> emul_core \<Rightarrow> node \<Rightarrow> emul_message \<Rightarrow> (ec_effect, unit) action" where
  "to_my_app w c n m =
     (case hm_get node_eq (ec_apps c) n of None \<Rightarrow> None | Some _ \<Rightarrow> to_reporter w n m)"

definition broadcast_flow ::
  "ec_world \<Rightarrow> flow_conf \<Rightarrow> cluster_node_info list \<Rightarrow> uuid \<Rightarrow> (ec_effect, unit) action" where
  "broadcast_flow w flow destination emul_id =
     act_each (\<lambda>host. act_send (ToHost host (EmulCoreInterchange (cw_show w emul_id) (FlowUpdate flow)))
                (cw_host w host)) destination"

definition stop_app_if_necessary :: "ec_world \<Rightarrow> node \<Rightarrow> (ec_effect, unit) action" where
  "stop_app_if_necessary w n =
     (case node_as_app n of
        None \<Rightarrow> None
      | Some app \<Rightarrow>
          (case app_kind app of
             BareMetal \<Rightarrow> act_return ()
           | Container config \<Rightarrow>
               (case cc_image config of
                  None \<Rightarrow> act_return ()
                | Some _ \<Rightarrow> act_send (StopContainer (cc_name config)) (cw_dock w (cc_name config)))))"

section \<open>Flow updates\<close>

text \<open>The update is printed first; an address that is not of the emulation is skipped.\<close>

text \<open>The new active flows and bandwidth graph, and whether the flow is a deletion.\<close>

definition apply_flow ::
  "node network \<Rightarrow> node flow \<Rightarrow> node flow list \<Rightarrow> node network
   \<Rightarrow> (node flow list \<times> node network \<times> bool) option" where
  "apply_flow graph new_flow active_flows bw_graph =
     (if fl_used new_flow = 0
      then (if hs_contains (flow_eq node_eq) active_flows new_flow
            then map_option (\<lambda>(_, flows, bw). (flows, bw, True)) (remove_flow node_eq active_flows new_flow graph)
            else Some (active_flows, bw_graph, True))
      else map_option (\<lambda>(_, flows, bw). (flows, bw, False))
             (update_flows node_eq active_flows new_flow graph bw_graph))"

definition tc_conf_full ::
  "ip_addr \<Rightarrow> u32 \<Rightarrow> fval \<Rightarrow> fval \<times> fval \<Rightarrow> tc_conf" where
  "tc_conf_full dest bw loss lat_jitter =
     \<lparr>tc_dest = dest, tc_bandwidth_kbitps = Some bw, tc_latency_and_jitter = Some lat_jitter, tc_drop = Some loss\<rparr>"

definition used_bandwidth :: "u32 option \<Rightarrow> u32 \<Rightarrow> u32" where
  "used_bandwidth throughput max_bandwidth =
     (case throughput of None \<Rightarrow> 0 | Some bw \<Rightarrow> min bw max_bandwidth)"

definition on_flow_update :: "ec_world \<Rightarrow> flow_conf \<Rightarrow> ec_loop \<Rightarrow> (ec_effect, ec_loop) action" where
  "on_flow_update w fc st =
     (let c = el_core st in
      case (hm_get (=) (ec_ip c) (fc_src fc), hm_get (=) (ec_ip c) (fc_dest fc)) of
        (Some src, Some dest) \<Rightarrow>
          act_bind (act_unwrap (node_display (cw_show_ip w) src)) (\<lambda>src_text.
          act_bind (act_unwrap (node_display (cw_show_ip w) dest)) (\<lambda>dest_text.
          act_bind (act_unwrap (net_properties_between node_eq (ec_graph c) src dest)) (\<lambda>props.
            (case props of
               None \<Rightarrow> act_fail (error_new ''emulcore'' InvalidData
                         (''New flow between applications that do not have a connection!?: '' @ src_text
                          @ '' -> '' @ dest_text))
             | Some (max_bandwidth, loss, lat_jitter) \<Rightarrow>
                 act_bind (act_unwrap (apply_flow (ec_graph c)
                     (flow_build src dest max_bandwidth (used_bandwidth (fc_throughput fc) max_bandwidth))
                     (el_flows st) (el_bw st)))
                   (\<lambda>(flows, bw, flow_deletion).
                     act_bind (act_unwrap (node_runs_on src (ec_myself c))) (\<lambda>mine.
                       act_bind
                         (if mine
                          then act_bind
                                 (if flow_deletion
                                  then act_bind (act_unwrap (node_ip dest)) (\<lambda>ip.
                                         to_my_app w c src
                                           (TCUpdate (tc_conf_full ip max_bandwidth loss lat_jitter)))
                                  else act_return ())
                                 (\<lambda>_. broadcast_flow w fc (ec_others c) (ec_id c))
                          else act_return ())
                         (\<lambda>_. act_return (st\<lparr>el_flows := flows, el_bw := bw\<rparr>))))))))
      | _ \<Rightarrow> act_return st)"

section \<open>Programmed events\<close>

text \<open>The flows to remove are collected first, each with its address pair and its own data.\<close>

definition flows_from :: "node \<Rightarrow> node flow list \<Rightarrow> (flow_conf \<times> node flow) list option" where
  "flows_from n active_flows =
     map_opt (\<lambda>f. case (node_ip (fl_source f), node_ip (fl_destination f)) of
                (Some s, Some d) \<Rightarrow> Some (\<lparr>fc_src = s, fc_dest = d, fc_throughput = None\<rparr>, f)
              | _ \<Rightarrow> None)
       (filter (\<lambda>f. node_eq (fl_source f) n) active_flows)"

fun remove_listed ::
  "ec_world \<Rightarrow> emul_core \<Rightarrow> (flow_conf \<times> node flow) list \<Rightarrow> node flow list \<Rightarrow> node network
   \<Rightarrow> (ec_effect, node flow list \<times> node network) action" where
  "remove_listed w c [] flows bw = act_return (flows, bw)"
| "remove_listed w c ((fc, f) # rest) flows bw =
     act_bind
       (act_unwrap
          (if hs_contains (flow_eq node_eq) flows f
           then map_option snd (remove_flow node_eq flows f (ec_graph c))
           else Some (flows, bw)))
       (\<lambda>(flows', bw'). act_bind (broadcast_flow w fc (ec_others c) (ec_id c))
          (\<lambda>_. remove_listed w c rest flows' bw'))"

definition remove_all_flows_from ::
  "ec_world \<Rightarrow> node \<Rightarrow> ec_loop \<Rightarrow> (ec_effect, ec_loop) action" where
  "remove_all_flows_from w n st =
     act_bind (act_unwrap (flows_from n (el_flows st))) (\<lambda>to_remove.
       act_bind (remove_listed w (el_core st) to_remove (el_flows st) (el_bw st))
         (\<lambda>(flows, bw). act_return (st\<lparr>el_flows := flows, el_bw := bw\<rparr>)))"

definition set_status :: "node \<Rightarrow> app_status \<Rightarrow> ec_loop \<Rightarrow> ec_loop" where
  "set_status n status st =
     st\<lparr>el_core := (el_core st)\<lparr>ec_apps := hm_update node_eq n (\<lambda>_. status) (ec_apps (el_core st))\<rparr>\<rparr>"

text \<open>The first join of an application sets the properties of its paths to all the others.\<close>

definition init_paths :: "ec_world \<Rightarrow> node \<Rightarrow> emul_core \<Rightarrow> (ec_effect, unit) action" where
  "init_paths w n c =
     act_each
       (\<lambda>other.
          if node_eq other n then act_return ()
          else act_bind (act_unwrap (net_properties_between node_eq (ec_graph c) n other)) (\<lambda>props.
                 case props of
                   None \<Rightarrow> act_return ()
                 | Some (bw, loss, lat_jitter) \<Rightarrow>
                     act_bind (act_unwrap (node_ip other))
                       (\<lambda>ip. to_reporter w n (TCUpdate (tc_conf_full ip bw loss lat_jitter)))))
       (filter node_is_app (net_vertices (ec_graph c)))"

definition on_join :: "ec_world \<Rightarrow> node \<Rightarrow> app_status \<Rightarrow> ec_loop \<Rightarrow> (ec_effect, ec_loop) action" where
  "on_join w n status st =
     (case status of
        NotInit \<Rightarrow> act_bind (init_paths w n (el_core st)) (\<lambda>_. act_return (set_status n Running st))
      | Stopped \<Rightarrow> act_bind (to_reporter w n TCReconnect) (\<lambda>_. act_return (set_status n Running st))
      | _ \<Rightarrow> act_return st)"

definition on_quit :: "ec_world \<Rightarrow> node \<Rightarrow> ec_loop \<Rightarrow> (ec_effect, ec_loop) action" where
  "on_quit w n st =
     act_bind (remove_all_flows_from w n st) (\<lambda>st1.
       act_bind (to_reporter w n TCDisconnect) (\<lambda>_. act_return (set_status n Stopped st1)))"

definition node_index :: "node \<Rightarrow> nat option" where
  "node_index n = (case node_as_app n of None \<Rightarrow> None | Some a \<Rightarrow> app_index a)"

definition on_crash :: "ec_world \<Rightarrow> node \<Rightarrow> ec_loop \<Rightarrow> (ec_effect, ec_loop) action" where
  "on_crash w n st =
     act_bind (remove_all_flows_from w n st) (\<lambda>st1.
       act_bind (to_reporter w n TCDisconnect) (\<lambda>_.
         act_bind (stop_app_if_necessary w n) (\<lambda>_.
           act_bind (act_unwrap (node_index n)) (\<lambda>i.
             act_bind
               (act_send (ToLeader (CleanStop (cw_show w (ec_id (el_core st))) (ec_myself (el_core st)) i)) (cw_leader w))
               (\<lambda>_. act_return (set_status n Crashed st1))))))"

text \<open>The application of an event: the last of ours with its identifier.\<close>

definition event_app :: "emul_core \<Rightarrow> u32 \<Rightarrow> (node \<times> app_status) option" where
  "event_app c i =
     (case rev (filter (\<lambda>(n, _). node_is_same_by_id n i) (ec_apps c)) of [] \<Rightarrow> None | p # _ \<Rightarrow> Some p)"

definition on_event :: "ec_world \<Rightarrow> emulation_event \<Rightarrow> ec_loop \<Rightarrow> (ec_effect, ec_loop) action" where
  "on_event w ev st =
     (case event_app (el_core st) (ev_app_id ev) of
        None \<Rightarrow> act_return st
      | Some (n, status) \<Rightarrow>
          (case ev_action ev of
             Join \<Rightarrow> on_join w n status st
           | Quit \<Rightarrow> on_quit w n st
           | Crash \<Rightarrow> on_crash w n st))"

section \<open>The loop\<close>

text \<open>The authorised bandwidth of every flow of ours is sent at the end of each turn.\<close>

definition send_bandwidths :: "ec_world \<Rightarrow> ec_loop \<Rightarrow> (ec_effect, unit) action" where
  "send_bandwidths w st =
     act_each
       (\<lambda>f. act_bind (act_unwrap (node_runs_on (fl_source f) (ec_myself (el_core st)))) (\<lambda>mine.
          if mine
          then act_bind (act_unwrap (node_ip (fl_destination f))) (\<lambda>ip.
                 to_my_app w (el_core st) (fl_source f)
                   (TCUpdate (bandwidth_kbs (fl_authorized f) (tc_default ip))))
          else act_return ()))
       (el_flows st)"

definition all_crashed :: "emul_core \<Rightarrow> bool" where
  "all_crashed c \<longleftrightarrow> list_all (\<lambda>(_, status). status = Crashed) (ec_apps c)"

definition on_message :: "ec_world \<Rightarrow> emul_message \<Rightarrow> ec_loop \<Rightarrow> (ec_effect, ec_loop) action" where
  "on_message w m st =
     (case m of
        FlowUpdate fc \<Rightarrow> on_flow_update w fc st
      | EmulEvent ev \<Rightarrow> on_event w ev st
      | _ \<Rightarrow> act_return st)"

definition ec_turn :: "ec_world \<Rightarrow> emul_message \<Rightarrow> ec_loop \<Rightarrow> (ec_effect, ec_loop) action" where
  "ec_turn w m st =
     act_bind (on_message w m st) (\<lambda>st'. act_bind (send_bandwidths w st') (\<lambda>_. act_return st'))"

text \<open>The messages of the channel; the loop stops when every application of ours has crashed.\<close>

fun flow_turns :: "(ec_world \<times> emul_message) list \<Rightarrow> ec_loop \<Rightarrow> (ec_effect, ec_loop) action" where
  "flow_turns [] st = act_return st"
| "flow_turns ((w, m) # ms) st =
     act_bind (ec_turn w m st) (\<lambda>st'. if all_crashed (el_core st') then act_return st' else flow_turns ms st')"

text \<open>The scheduler (\<^verbatim>\<open>emulation/src/scheduler.rs\<close>): a task per event, which sends it to the channel
  of the loop after its time; each message with the instant before which it is not sent. A send that
  fails is ignored.\<close>

definition schedule :: "nat \<Rightarrow> emulation_event list \<Rightarrow> (nat \<times> emul_message) list" where
  "schedule start events = map (\<lambda>event. (start + ev_time_ns event, EmulEvent event)) events"

lemma schedule_in_order:
  "sorted (map ev_time_ns events) \<Longrightarrow> sort_key fst (schedule start events) = schedule start events"
  by (rule sort_key_id_if_sorted) (simp add: schedule_def sorted_wrt_map comp_def)

text \<open>The programmed events are taken out of the core and handed to the scheduler.\<close>

definition flow_loop ::
  "(ec_world \<times> emul_message) list \<Rightarrow> emul_core \<Rightarrow> (ec_effect, emulation_event list \<times> ec_loop) action" where
  "flow_loop ms c =
     act_bind (act_unwrap (ec_events c)) (\<lambda>events.
       act_bind (flow_turns ms \<lparr>el_core = c\<lparr>ec_events := None\<rparr>, el_flows = [], el_bw = ec_graph c\<rparr>)
         (\<lambda>st. act_return (events, st)))"

text \<open>Dropping a core tears down every application that has not crashed; failures are ignored.\<close>

definition ec_drop :: "ec_world \<Rightarrow> emul_core \<Rightarrow> ec_effect list option" where
  "ec_drop w c =
     fold_opt
       (\<lambda>(n, status) sent.
          if status = Crashed then Some sent
          else map_option (\<lambda>(es, _). sent @ ToReporter n TCTeardown # es) (stop_app_if_necessary w n))
       (ec_apps c) []"

section \<open>Synchronisation\<close>

text \<open>\<^verbatim>\<open>Ord\<close> of \<^verbatim>\<open>IpAddr\<close>: version 4 before version 6, then by the parts.\<close>

fun parts_le :: "'a::linorder list \<Rightarrow> 'a list \<Rightarrow> bool" where
  "parts_le [] _ = True"
| "parts_le (_ # _) [] = False"
| "parts_le (a # as) (b # bs) = (a < b \<or> a = b \<and> parts_le as bs)"

fun ip_le :: "ip_addr \<Rightarrow> ip_addr \<Rightarrow> bool" where
  "ip_le (V4 a) (V4 b) = parts_le a b"
| "ip_le (V4 _) (V6 _) = True"
| "ip_le (V6 _) (V4 _) = False"
| "ip_le (V6 a) (V6 b) = parts_le a b"

fun ip_insert :: "ip_addr \<Rightarrow> ip_addr list \<Rightarrow> ip_addr list" where
  "ip_insert a [] = [a]"
| "ip_insert a (b # bs) = (if ip_le a b then a # b # bs else b # ip_insert a bs)"

definition ip_sort :: "ip_addr list \<Rightarrow> ip_addr list" where
  "ip_sort xs = foldr ip_insert xs []"

text \<open>The position of this host in the ring and the address of the next; none when alone.\<close>

definition sync_port :: u16 where
  "sync_port = 9090"

definition sync_ring :: "emul_core \<Rightarrow> (nat \<times> cluster_node_info) option" where
  "sync_ring c =
     (let all = map cni_ip_addr (ec_others c) @ [cni_ip_addr (ec_myself c)]
      in if length all = 1 then None
         else let sorted_all = ip_sort all;
                  my_position = length (takeWhile (\<lambda>ip. ip \<noteq> cni_ip_addr (ec_myself c)) sorted_all)
              in Some (my_position, cni_new (sorted_all ! ((my_position + 1) mod length sorted_all)) sync_port))"

text \<open>The outcome of a message: the loop goes on, or it ends with the time to begin, or with an
  error. Instants are nanoseconds of the clock of this host; \<^verbatim>\<open>now\<close> is when the message is
  handled.\<close>

datatype sync_step = Continue "synchro_message list" | Begin int "synchro_message list" | SyncError error

definition second :: int where
  "second = 10 ^ 9"

definition sync_err :: "string \<Rightarrow> error" where
  "sync_err m = error_new ''emulation synchronization'' CommandFailed m"

text \<open>The leader keeps the time of its last proposal and the proposed begin time, as its own
  instants: they do not go over the wire. The time elapsed since an instant is not negative.\<close>

definition sync_leader_start :: "int \<Rightarrow> (int \<times> int) \<times> synchro_message list" where
  "sync_leader_start now = ((now, now + 5 * second), [EmulStart (now + 5 * second)])"

definition elapsed :: "int \<Rightarrow> int \<Rightarrow> int" where
  "elapsed now time = max 0 (now - time)"

fun sync_leader ::
  "int \<Rightarrow> synchro_message \<times> bool \<Rightarrow> int \<times> int \<Rightarrow> sync_step \<times> (int \<times> int)" where
  "sync_leader now (EmulStart begin_time, True) (time, mine) =
     (let round_duration = elapsed now time
      in if now + (round_duration + second) < begin_time
         then (Continue [EmulStartOk], (time, mine))
         else (let mine' = now + (round_duration * 2 + 2 * second)
               in (Continue [EmulStart mine'], (now, mine'))))"
| "sync_leader now (EmulStartOk, True) (time, mine) =
     (if now < mine then (Begin mine [], (time, mine))
      else (SyncError (sync_err
        ''Leader of synchronization failed because validation token received after begin time.''), (time, mine)))"
| "sync_leader now (_, False) st =
     (SyncError (sync_err ''Leader received bad message during sync, waiting on begin time.''), st)"

fun sync_follower :: "int \<Rightarrow> synchro_message \<times> bool \<Rightarrow> int \<Rightarrow> sync_step \<times> int" where
  "sync_follower now (EmulStart begin_time, True) mine = (Continue [EmulStart begin_time], begin_time)"
| "sync_follower now (EmulStartOk, True) mine =
     (if now < mine then (Begin mine [EmulStartOk], mine)
      else (SyncError (sync_err
        ''Synchronization failed because validation token received after begin time.''), mine))"
| "sync_follower now (_, False) mine =
     (SyncError (sync_err ''Leader received bad message during sync, waiting on begin time.''), mine)"

text \<open>The two loops over the messages that arrive. A turn is a message of the wire, the instants
  (of this host) at which it is read, handled and answered, whether it carries its responder, and
  the outcome of the send that answers it. The result is what is sent on, as it goes over the wire,
  and how the loop ended (\<^verbatim>\<open>None\<close> while it waits). A send that fails delivers nothing.\<close>

record sync_turn =
  tn_read :: int
  tn_now :: int
  tn_wire :: synchro_wire
  tn_responder :: bool
  tn_written :: int
  tn_sent :: "unit result"

fun sync_run ::
  "millis \<Rightarrow> (int \<Rightarrow> synchro_message \<times> bool \<Rightarrow> 's \<Rightarrow> sync_step \<times> 's) \<Rightarrow> sync_turn list \<Rightarrow> 's
   \<Rightarrow> synchro_wire list \<times> (int + error) option" where
  "sync_run ml step [] s = ([], None)"
| "sync_run ml step (t # ts) s =
     (case step (tn_now t) (synchro_from_wire ml (tn_read t) (tn_wire t), tn_responder t) s of
        (SyncError e, s') \<Rightarrow> ([], Some (Inr e))
      | (Continue out, s') \<Rightarrow>
          (case (if out = [] then Inr () else tn_sent t) of
             Inl e \<Rightarrow> ([], Some (Inr e))
           | Inr _ \<Rightarrow> (let (outs, r) = sync_run ml step ts s'
                      in (List.map (synchro_to_wire ml (tn_written t)) out @ outs, r)))
      | (Begin b out, s') \<Rightarrow>
          (case (if out = [] then Inr () else tn_sent t) of
             Inl e \<Rightarrow> ([], Some (Inr e))
           | Inr _ \<Rightarrow> (List.map (synchro_to_wire ml (tn_written t)) out, Some (Inl b))))"

end
