(* ===== verification/Emulinit.thy ===== *)
theory Emulinit
  imports Emulcore
begin

text \<open>
  The start of an emulation core (\<^verbatim>\<open>init_emulation\<close> and the functions it calls in
  \<^verbatim>\<open>emulation/src/emulcore.rs\<close>): the containers and the reporters of the applications
  that run here are started one after the other, then the reporters are told to initialise.
  Containers, processes and sockets are the world's; what is asked of them is listed.
\<close>

datatype init_effect =
    StartContainer string string ip_addr "string option"
  | StartReporter "string list"
  | InitCommand node emul_message

record init_world =
  iw_show_uuid :: "uuid \<Rightarrow> string"
  iw_show_ip :: "ip_addr \<Rightarrow> string"
  iw_exists :: "string \<Rightarrow> bool"
  iw_flow_socket :: "unit result"
  iw_launch :: "string \<Rightarrow> unit result"
  iw_pid :: "string \<Rightarrow> u32 result"
  iw_spawn :: "string list \<Rightarrow> unit result"
  iw_ready :: "node \<Rightarrow> bool"
  iw_tc_socket :: "node \<Rightarrow> unit result"
  iw_sync_socket :: "unit result"

section \<open>Sockets\<close>

definition verify_socket_exists :: "init_world \<Rightarrow> string \<Rightarrow> string result" where
  "verify_socket_exists w name =
     (if \<not> iw_exists w name then Inr name
      else Inl (error_new ''emulcore'' AlreadyExists (''The socket '' @ name @ '' already exists'')))"

definition generate_flow_socket :: "init_world \<Rightarrow> uuid \<Rightarrow> string result" where
  "generate_flow_socket w emul_id =
     verify_socket_exists w (''/tmp/kollaps_'' @ iw_show_uuid w emul_id @ ''_flows.sock'')"

definition generate_tc_socket :: "init_world \<Rightarrow> uuid \<Rightarrow> u32 \<Rightarrow> string result" where
  "generate_tc_socket w emul_id ident =
     verify_socket_exists w
       (''/tmp/kollaps_'' @ iw_show_uuid w emul_id @ ''_'' @ show_nat (unat ident) @ ''_tc.sock'')"

section \<open>One application\<close>

definition act_result :: "'a result \<Rightarrow> ('e, 'a) action" where
  "act_result r = Some ([], r)"

lemma act_result_eq_Some [simp]: "act_result r = Some (es, r') \<longleftrightarrow> es = [] \<and> r' = r"
  by (auto simp: act_result_def)

definition start_container_and_get_pid ::
  "init_world \<Rightarrow> container_config \<Rightarrow> string \<Rightarrow> ip_addr \<Rightarrow> (init_effect, u32) action" where
  "start_container_and_get_pid w config img app_addr =
     act_bind (act_send (StartContainer img (cc_name config) app_addr (cc_command config)) (iw_launch w (cc_name config)))
       (\<lambda>_. act_result (iw_pid w (cc_name config)))"

text \<open>A bare-metal application and a container without an image panic.\<close>

definition launch_reporter_for_app ::
  "init_world \<Rightarrow> uuid \<Rightarrow> application \<Rightarrow> string \<Rightarrow> u32 \<Rightarrow> string \<Rightarrow> (init_effect, string) action" where
  "launch_reporter_for_app w emul_id app flow_socket_name ident reporter_path =
     act_bind
       (case app_kind app of
          BareMetal \<Rightarrow> None
        | Container config \<Rightarrow>
            (case (cc_image config, app_ip app) of
               (Some img, Some a) \<Rightarrow> start_container_and_get_pid w config img a
             | _ \<Rightarrow> None))
       (\<lambda>pid. act_bind (act_result (generate_tc_socket w emul_id ident)) (\<lambda>tc_socket_name.
          act_bind (act_unwrap (app_ip app)) (\<lambda>a.
            let args = [''sudo'', ''-S'', ''nsenter'', ''-t'', show_nat (unat pid), ''-n'', reporter_path,
                        ''--flow-socket'', flow_socket_name, ''--tc-socket'', tc_socket_name,
                        ''--ip'', iw_show_ip w a]
            in act_bind (act_send (StartReporter args) (iw_spawn w args))
                 (\<lambda>_. act_return tc_socket_name))))"

section \<open>The start\<close>

text \<open>The applications of this host; \<^verbatim>\<open>runs_on\<close> panics for one without a host.\<close>

definition my_nodes :: "emul_core \<Rightarrow> node list option" where
  "my_nodes c =
     fold_opt (\<lambda>n acc. map_option (\<lambda>r. if r then acc @ [n] else acc) (node_runs_on n (ec_myself c)))
       (filter node_is_app (net_vertices (ec_graph c))) []"

text \<open>Every reporter is launched and must be ready within five seconds.\<close>

fun launch_reporters ::
  "init_world \<Rightarrow> uuid \<Rightarrow> string \<Rightarrow> string \<Rightarrow> node list \<Rightarrow> (init_effect, (node, string) hmap) action" where
  "launch_reporters w emul_id flow_socket reporter_path [] = act_return []"
| "launch_reporters w emul_id flow_socket reporter_path (n # ns) =
     act_bind (act_unwrap (node_as_app n)) (\<lambda>app.
     act_bind (launch_reporter_for_app w emul_id app flow_socket (node_id n) reporter_path) (\<lambda>tc_socket.
     if iw_ready w n
     then act_bind (launch_reporters w emul_id flow_socket reporter_path ns)
            (\<lambda>sockets. act_return (hm_insert node_eq n tc_socket sockets))
     else act_fail (error_new ''emulcore start'' CommandFailed
            ''The reporter didn't send ready in the defined timeout'')))"

text \<open>The reporters are connected and told to initialise; those done are in \<^verbatim>\<open>my_apps\<close>, also
  when a later one fails.\<close>

fun connect_reporters ::
  "init_world \<Rightarrow> node list \<Rightarrow> emul_core \<Rightarrow> (init_effect list \<times> emul_core \<times> unit result) option" where
  "connect_reporters w [] c = Some ([], c, Inr ())"
| "connect_reporters w (n # ns) c =
     (case node_ip n of
        None \<Rightarrow> None
      | Some a \<Rightarrow>
          (case iw_tc_socket w n of
             Inl e \<Rightarrow> Some ([InitCommand n (TCInit (tc_default a))], c, Inl e)
           | Inr _ \<Rightarrow>
               map_option (\<lambda>(es, c', r). (InitCommand n (TCInit (tc_default a)) # es, c', r))
                 (connect_reporters w ns (c\<lparr>ec_apps := hm_insert node_eq n NotInit (ec_apps c)\<rparr>))))"

text \<open>The result, the core as it is left, and whether it entered the channels of the manager.\<close>

definition init_emulation ::
  "init_world \<Rightarrow> string \<Rightarrow> emul_core \<Rightarrow> (init_effect list \<times> emul_core \<times> bool \<times> unit result) option" where
  "init_emulation w reporter_path c =
     (case generate_flow_socket w (ec_id c) of
        Inl e \<Rightarrow> Some ([], c, False, Inl e)
      | Inr flow_socket \<Rightarrow>
          (case iw_flow_socket w of
             Inl e \<Rightarrow> Some ([], c, False, Inl e)
           | Inr _ \<Rightarrow>
               (case my_nodes c of
                  None \<Rightarrow> None
                | Some mine \<Rightarrow>
                    (case launch_reporters w (ec_id c) flow_socket reporter_path mine of
                       None \<Rightarrow> None
                     | Some (es, Inl e) \<Rightarrow> Some (es, c, False, Inl e)
                     | Some (es, Inr sockets) \<Rightarrow>
                         (case connect_reporters w (hm_keys sockets) c of
                            None \<Rightarrow> None
                          | Some (es', c', Inl e) \<Rightarrow> Some (es @ es', c', False, Inl e)
                          | Some (es', c', Inr _) \<Rightarrow> Some (es @ es', c', True, iw_sync_socket w))))))"

section \<open>What a start leaves behind\<close>

definition started_containers :: "init_effect list \<Rightarrow> string list" where
  "started_containers es = concat (map (\<lambda>e. case e of StartContainer _ name _ _ \<Rightarrow> [name] | _ \<Rightarrow> []) es)"

definition stopped_containers :: "ec_effect list \<Rightarrow> string list" where
  "stopped_containers es = concat (map (\<lambda>e. case e of StopContainer name \<Rightarrow> [name] | _ \<Rightarrow> []) es)"

definition container_of :: "node \<Rightarrow> string option" where
  "container_of n =
     (case node_as_app n of
        Some a \<Rightarrow> (case app_kind a of Container c \<Rightarrow> map_option (\<lambda>_. cc_name c) (cc_image c) | _ \<Rightarrow> None)
      | None \<Rightarrow> None)"

text \<open>Dropping a core stops the containers of the applications in \<^verbatim>\<open>my_apps\<close> only.\<close>

lemma ec_drop_stops:
  assumes "ec_drop w c = Some es"
  shows "set (stopped_containers es) =
    {name. \<exists>(n, s) \<in> set (ec_apps c). s \<noteq> Crashed \<and> container_of n = Some name}"
proof -
  have "set (stopped_containers es') = set (stopped_containers es0)
      \<union> {name. \<exists>(n, s) \<in> set apps. s \<noteq> Crashed \<and> container_of n = Some name}"
    if "fold_opt (\<lambda>(n, status) sent.
          if status = Crashed then Some sent
          else map_option (\<lambda>(es, _). sent @ ToReporter n TCTeardown # es) (stop_app_if_necessary w n)) apps es0 = Some es'"
    for apps es0 es'
    using that
  proof (induction apps arbitrary: es0)
    case (Cons p apps)
    obtain n s where p: "p = (n, s)" by force
    show ?case
    proof (cases "s = Crashed")
      case True
      then show ?thesis using Cons by (simp add: p)
    next
      case False
      then obtain es1 r where 1: "stop_app_if_necessary w n = Some (es1, r)"
        and 2: "fold_opt (\<lambda>(n, status) sent.
          if status = Crashed then Some sent
          else map_option (\<lambda>(es, _). sent @ ToReporter n TCTeardown # es) (stop_app_if_necessary w n)) apps
            (es0 @ ToReporter n TCTeardown # es1) = Some es'"
        using Cons.prems by (auto simp: p split: option.splits)
      have "set (stopped_containers es1) = {name. container_of n = Some name}"
        using 1 by (auto simp: stop_app_if_necessary_def container_of_def stopped_containers_def
            split: option.splits application_kind.splits)
      then show ?thesis
        using Cons.IH[OF 2] False by (auto simp: p stopped_containers_def)
    qed
  qed simp
  from this[OF assms[unfolded ec_drop_def]] show ?thesis by (simp add: stopped_containers_def)
qed

text \<open>The applications of a topology that the placement put on a host.\<close>

definition placed_on :: "node network \<Rightarrow> cluster_node_info \<Rightarrow> node \<Rightarrow> bool" where
  "placed_on g me n \<longleftrightarrow>
     n \<in> set (net_vertices g) \<and> (\<exists>a. node_as_app n = Some a \<and> app_host a = Some me)"

lemma placed_step:
  "node_is_app n \<Longrightarrow> node_runs_on n me = Some r
     \<Longrightarrow> r \<longleftrightarrow> (\<exists>a. node_as_app n = Some a \<and> app_host a = Some me)"
  by (auto simp: node_runs_on_def app_runs_on_def split: option.splits)

lemma my_nodes_placed:
  assumes "my_nodes c = Some mine"
  shows "n \<in> set mine \<longleftrightarrow> placed_on (ec_graph c) (ec_myself c) n"
proof -
  have "set res = set acc \<union> {n \<in> set ns. \<exists>a. node_as_app n = Some a \<and> app_host a = Some (ec_myself c)}"
    if "fold_opt (\<lambda>n acc. map_option (\<lambda>r. if r then acc @ [n] else acc) (node_runs_on n (ec_myself c))) ns acc
        = Some res" "\<forall>n \<in> set ns. node_is_app n" for ns acc res
    using that
  proof (induction ns arbitrary: acc)
    case (Cons n ns)
    obtain r where r: "node_runs_on n (ec_myself c) = Some r" using Cons.prems(1) by (auto split: option.splits)
    have "r \<longleftrightarrow> (\<exists>a. node_as_app n = Some a \<and> app_host a = Some (ec_myself c))"
      using placed_step[OF _ r] Cons.prems(2) by simp
    then show ?case
      using Cons.IH[of "if r then acc @ [n] else acc"] Cons.prems r by auto
  qed simp
  from this[OF assms[unfolded my_nodes_def]] show ?thesis
    by (cases n) (auto simp: placed_on_def)
qed

text \<open>A start only adds to the applications of the core.\<close>

lemma connect_reporters_id: "connect_reporters w ns c = Some (es, c', r) \<Longrightarrow> ec_id c' = ec_id c"
  by (induction ns arbitrary: c es) (auto split: option.splits sum.splits)

lemma init_emulation_id: "init_emulation w path c = Some (es, c', entered, r) \<Longrightarrow> ec_id c' = ec_id c"
  by (auto simp: init_emulation_def dest!: connect_reporters_id split: option.splits sum.splits)

lemma ec_new_id: "ec_new emul me leader = Some c \<Longrightarrow> ec_id c = em_uuid emul \<and> ec_apps c = []"
  by (auto simp: ec_new_def)

end
