(* ===== verification/Docker.thy ===== *)
theory Docker
  imports Subnet Hash_Collections
begin

text \<open>
  The docker helper (\<^verbatim>\<open>dockhelper/src/cmd.rs\<close>, \<^verbatim>\<open>dockhelper/src/lib.rs\<close>): builders
  of command lines, their execution, and the operations of the helper. A command is its list of
  arguments after \<^verbatim>\<open>docker\<close>; running one is the world's, which gives back the exit status
  and the two outputs (as the text that \<^verbatim>\<open>from_utf8_lossy\<close> makes of them), or an I/O error.
\<close>

section \<open>Running a command\<close>

record proc_output =
  po_success :: bool
  po_stdout :: string
  po_stderr :: string

record docker_world =
  dw_run :: "string list \<Rightarrow> string + proc_output"
  dw_debug :: "string list \<Rightarrow> string"
  dw_show_ip :: "ip_addr \<Rightarrow> string"
  dw_ip :: "string \<Rightarrow> ip_addr option"

definition launch_command_and_get_output :: "docker_world \<Rightarrow> string list \<Rightarrow> proc_output result" where
  "launch_command_and_get_output w com =
     (case dw_run w com of
        Inl e \<Rightarrow> Inl (error_from e)
      | Inr res \<Rightarrow>
          if po_success res then Inr res
          else Inl (error_new ''docker helper'' CommandFailed
                 (''Command '' @ dw_debug w com @ '' as failed with response: '' @ po_stderr res)))"

section \<open>docker run, stop, inspect\<close>

record run_opts =
  ro_rm :: bool
  ro_detach :: bool
  ro_interactive :: bool
  ro_tty :: bool
  ro_network :: "string option"
  ro_name :: "string option"
  ro_volume :: "string option"
  ro_ip :: "ip_addr option"

definition run_opts_new :: run_opts where
  "run_opts_new =
     \<lparr>ro_rm = False, ro_detach = False, ro_interactive = False, ro_tty = False, ro_network = None,
      ro_name = None, ro_volume = None, ro_ip = None\<rparr>"

definition ro_set_rm :: "bool \<Rightarrow> run_opts \<Rightarrow> run_opts" where
  "ro_set_rm b o' = o'\<lparr>ro_rm := b\<rparr>"

definition ro_set_detach :: "bool \<Rightarrow> run_opts \<Rightarrow> run_opts" where
  "ro_set_detach b o' = o'\<lparr>ro_detach := b\<rparr>"

definition ro_set_interactive :: "bool \<Rightarrow> run_opts \<Rightarrow> run_opts" where
  "ro_set_interactive b o' = o'\<lparr>ro_interactive := b\<rparr>"

definition ro_set_tty :: "bool \<Rightarrow> run_opts \<Rightarrow> run_opts" where
  "ro_set_tty b o' = o'\<lparr>ro_tty := b\<rparr>"

definition ro_with_network :: "string \<Rightarrow> run_opts \<Rightarrow> run_opts" where
  "ro_with_network network o' = o'\<lparr>ro_network := Some network\<rparr>"

definition ro_with_name :: "string \<Rightarrow> run_opts \<Rightarrow> run_opts" where
  "ro_with_name name o' = o'\<lparr>ro_name := Some name\<rparr>"

definition ro_with_volume :: "string \<Rightarrow> run_opts \<Rightarrow> run_opts" where
  "ro_with_volume volume o' = o'\<lparr>ro_volume := Some volume\<rparr>"

definition ro_with_ip :: "ip_addr \<Rightarrow> run_opts \<Rightarrow> run_opts" where
  "ro_with_ip a o' = o'\<lparr>ro_ip := Some a\<rparr>"

definition flag :: "bool \<Rightarrow> string \<Rightarrow> string list" where
  "flag b arg = (if b then [arg] else [])"

definition opt_arg :: "string \<Rightarrow> string option \<Rightarrow> string list" where
  "opt_arg arg v = (case v of None \<Rightarrow> [] | Some x \<Rightarrow> [arg, x])"

definition run_args :: "docker_world \<Rightarrow> run_opts \<Rightarrow> string \<Rightarrow> string option \<Rightarrow> string list" where
  "run_args w opts img command =
     [''run''] @ flag (ro_rm opts) ''--rm'' @ flag (ro_detach opts) ''-d'' @ flag (ro_interactive opts) ''-i''
     @ flag (ro_tty opts) ''-t'' @ opt_arg ''--network'' (ro_network opts) @ opt_arg ''--name'' (ro_name opts)
     @ opt_arg ''-v'' (ro_volume opts) @ opt_arg ''--ip'' (map_option (dw_show_ip w) (ro_ip opts))
     @ [img] @ (case command of None \<Rightarrow> [] | Some c \<Rightarrow> [c])"

definition docker_run ::
  "docker_world \<Rightarrow> run_opts \<Rightarrow> string \<Rightarrow> string option \<Rightarrow> proc_output result" where
  "docker_run w opts img command = launch_command_and_get_output w (run_args w opts img command)"

definition docker_stop :: "docker_world \<Rightarrow> string \<Rightarrow> proc_output result" where
  "docker_stop w name = launch_command_and_get_output w [''stop'', name]"

definition docker_inspect :: "docker_world \<Rightarrow> string \<Rightarrow> string \<Rightarrow> proc_output result" where
  "docker_inspect w fmt id_or_name =
     launch_command_and_get_output w [''inspect'', ''--format'', fmt, id_or_name]"

text \<open>The one command that is not \<^verbatim>\<open>docker\<close>: \<^verbatim>\<open>run\<close> takes the name of a program.\<close>

definition start_docker :: "(string \<Rightarrow> string list \<Rightarrow> string + proc_output) \<Rightarrow> docker_world \<Rightarrow> proc_output result" where
  "start_docker run w =
     launch_command_and_get_output (w\<lparr>dw_run := run ''sudo systemctl''\<rparr>) [''start'', ''docker'']"

section \<open>docker network\<close>

datatype network_driver = BridgeDriver | MacVlan | IpVlan

fun driver_to_arg :: "network_driver \<Rightarrow> string" where
  "driver_to_arg BridgeDriver = ''bridge''"
| "driver_to_arg MacVlan = ''macvlan''"
| "driver_to_arg IpVlan = ''ipvlan''"

record network_ls_opts =
  ls_filters :: "(string, string) hmap"
  ls_quiet :: bool

definition ls_opts_new :: network_ls_opts where
  "ls_opts_new = \<lparr>ls_filters = [], ls_quiet = False\<rparr>"

definition ls_filter :: "string \<times> string \<Rightarrow> network_ls_opts \<Rightarrow> network_ls_opts" where
  "ls_filter f o' = o'\<lparr>ls_filters := hm_insert (=) (fst f) (snd f) (ls_filters o')\<rparr>"

definition ls_set_quiet :: "bool \<Rightarrow> network_ls_opts \<Rightarrow> network_ls_opts" where
  "ls_set_quiet b o' = o'\<lparr>ls_quiet := b\<rparr>"

record network_create_opts =
  nc_driver :: network_driver
  nc_gateway :: "ip_addr option"
  nc_subnet :: "subnet option"
  nc_opts :: "(string, string) hmap"
  nc_range :: "subnet option"

definition create_opts_new :: network_create_opts where
  "create_opts_new =
     \<lparr>nc_driver = BridgeDriver, nc_gateway = None, nc_subnet = None, nc_opts = [], nc_range = None\<rparr>"

definition nc_set_driver :: "network_driver \<Rightarrow> network_create_opts \<Rightarrow> network_create_opts" where
  "nc_set_driver d o' = o'\<lparr>nc_driver := d\<rparr>"

definition nc_set_gateway :: "ip_addr \<Rightarrow> network_create_opts \<Rightarrow> network_create_opts" where
  "nc_set_gateway g o' = o'\<lparr>nc_gateway := Some g\<rparr>"

definition nc_set_subnet :: "subnet \<Rightarrow> network_create_opts \<Rightarrow> network_create_opts" where
  "nc_set_subnet sn o' = o'\<lparr>nc_subnet := Some sn\<rparr>"

definition nc_set_range :: "subnet \<Rightarrow> network_create_opts \<Rightarrow> network_create_opts" where
  "nc_set_range r o' = o'\<lparr>nc_range := Some r\<rparr>"

definition nc_opt :: "string \<times> string \<Rightarrow> network_create_opts \<Rightarrow> network_create_opts" where
  "nc_opt f o' = o'\<lparr>nc_opts := hm_insert (=) (fst f) (snd f) (nc_opts o')\<rparr>"

definition key_value :: "string \<times> string \<Rightarrow> string" where
  "key_value p = fst p @ ''='' @ snd p"

definition network_create_args :: "docker_world \<Rightarrow> network_create_opts \<Rightarrow> string \<Rightarrow> string list" where
  "network_create_args w opts name =
     [''network'', ''create'', ''-d'', driver_to_arg (nc_driver opts)]
     @ (case nc_gateway opts of None \<Rightarrow> [] | Some g \<Rightarrow> [key_value (''--gateway'', dw_show_ip w g)])
     @ (case nc_subnet opts of None \<Rightarrow> [] | Some s \<Rightarrow> [key_value (''--subnet'', subnet_display s)])
     @ concat (map (\<lambda>o'. [''-o'', key_value o']) (nc_opts opts))
     @ opt_arg ''--ip-range'' (map_option subnet_display (nc_range opts)) @ [name]"

definition network_create ::
  "docker_world \<Rightarrow> network_create_opts \<Rightarrow> string \<Rightarrow> proc_output result" where
  "network_create w opts name = launch_command_and_get_output w (network_create_args w opts name)"

definition network_ls_args :: "network_ls_opts \<Rightarrow> string list" where
  "network_ls_args opts =
     [''network'', ''ls''] @ flag (ls_quiet opts) ''--quiet''
     @ concat (map (\<lambda>f. [''--filter'', key_value f]) (ls_filters opts))"

definition network_ls :: "docker_world \<Rightarrow> network_ls_opts \<Rightarrow> proc_output result" where
  "network_ls w opts = launch_command_and_get_output w (network_ls_args opts)"

definition network_rm :: "docker_world \<Rightarrow> string \<Rightarrow> proc_output result" where
  "network_rm w name = launch_command_and_get_output w [''network'', ''rm'', name]"

section \<open>White space\<close>

text \<open>The Unicode white space that \<^verbatim>\<open>trim\<close> removes, as UTF-8.\<close>

definition white_space :: "string list" where
  "white_space =
     [[CHR 0x09], [CHR 0x0A], [CHR 0x0B], [CHR 0x0C], [CHR 0x0D], [CHR 0x20], [CHR 0xC2, CHR 0x85],
      [CHR 0xC2, CHR 0xA0], [CHR 0xE1, CHR 0x9A, CHR 0x80], [CHR 0xE2, CHR 0x80, CHR 0xA8],
      [CHR 0xE2, CHR 0x80, CHR 0xA9], [CHR 0xE2, CHR 0x80, CHR 0xAF], [CHR 0xE2, CHR 0x81, CHR 0x9F],
      [CHR 0xE3, CHR 0x80, CHR 0x80]]
     @ map (\<lambda>k. [CHR 0xE2, CHR 0x80, char_of (128 + k)]) [0..<11]"

definition strip_one :: "string list \<Rightarrow> string \<Rightarrow> string option" where
  "strip_one ws s = map_option (\<lambda>w. drop (length w) s) (find (\<lambda>w. w \<noteq> [] \<and> take (length w) s = w) ws)"

function strip_front :: "string list \<Rightarrow> string \<Rightarrow> string" where
  "strip_front ws s = (case strip_one ws s of None \<Rightarrow> s | Some s' \<Rightarrow> strip_front ws s')"
  by pat_completeness auto

termination
  by (relation "measure (length \<circ> snd)")
    (auto simp: strip_one_def find_Some_iff split: if_splits,
     metis diff_less length_greater_0_conv list.size(3) take_eq_Nil2)

declare strip_front.simps [simp del]

definition trim :: "string \<Rightarrow> string" where
  "trim s = rev (strip_front (map rev white_space) (rev (strip_front white_space s)))"

definition ascii_punctuation :: "char \<Rightarrow> bool" where
  "ascii_punctuation c =
     (let k = (of_char c :: nat)
      in 33 \<le> k \<and> k \<le> 47 \<or> 58 \<le> k \<and> k \<le> 64 \<or> 91 \<le> k \<and> k \<le> 96 \<or> 123 \<le> k \<and> k \<le> 126)"

definition trim_matches :: "(char \<Rightarrow> bool) \<Rightarrow> string \<Rightarrow> string" where
  "trim_matches P s = rev (dropWhile P (rev (dropWhile P s)))"

section \<open>The helper\<close>

definition check_command :: "proc_output result \<Rightarrow> string result" where
  "check_command res =
     (case res of
        Inr o' \<Rightarrow> Inr (trim (po_stdout o'))
      | Inl e \<Rightarrow> Inl (error_wrap ''docker helper'' CommandFailed ''cannot execute command'' (error_display e)))"

definition network_name :: string where
  "network_name = ''kollaps_ipvlan''"

definition create_ipvlan_network ::
  "docker_world \<Rightarrow> string \<Rightarrow> subnet \<Rightarrow> string \<Rightarrow> unit result option" where
  "create_ipvlan_network w interface sn gateway =
     (case dw_ip w gateway of
        None \<Rightarrow> None
      | Some g \<Rightarrow>
          (let opts = nc_opt (''parent'', interface)
                 (nc_set_subnet sn (nc_set_gateway g (nc_set_driver IpVlan create_opts_new)))
           in case check_command (network_create w opts network_name) of
                Inr _ \<Rightarrow> Some (Inr ())
              | Inl e \<Rightarrow> Some (Inl (error_wrap ''docker helper'' DockerInit
                           ''Cannot create the docker network'' (error_display e)))))"

definition docker_init ::
  "docker_world \<Rightarrow> string \<Rightarrow> subnet \<Rightarrow> string \<Rightarrow> string result option" where
  "docker_init w interface sn gateway =
     (case check_command (network_ls w (ls_filter (''name'', network_name) (ls_set_quiet True ls_opts_new))) of
        Inl e \<Rightarrow> Some (Inl e)
      | Inr listed \<Rightarrow>
          if listed = []
          then (case create_ipvlan_network w interface sn gateway of
                  None \<Rightarrow> None
                | Some (Inl e) \<Rightarrow> Some (Inl e)
                | Some (Inr _) \<Rightarrow> Some (Inr network_name))
          else Some (Inr network_name))"

definition launch_container ::
  "docker_world \<Rightarrow> string \<Rightarrow> string \<Rightarrow> string \<Rightarrow> ip_addr \<Rightarrow> string option \<Rightarrow> string result" where
  "launch_container w helper img name a cmd =
     check_command (docker_run w
       (ro_with_ip a (ro_with_name name (ro_with_network helper
         (ro_set_detach True (ro_set_tty True (ro_set_interactive True (ro_set_rm True run_opts_new))))))) img cmd)"

definition stop_container :: "docker_world \<Rightarrow> string \<Rightarrow> string result" where
  "stop_container w name = check_command (docker_stop w name)"

definition pid_format :: string where
  "pid_format = CHR 0x27 # ''{{.State.Pid}}'' @ [CHR 0x27]"

text \<open>The display of the error of \<^verbatim>\<open>u32::from_str\<close> is a parameter.\<close>

definition get_pid :: "docker_world \<Rightarrow> (string \<Rightarrow> string) \<Rightarrow> string \<Rightarrow> u32 result" where
  "get_pid w parse_error id_or_name =
     (case check_command (docker_inspect w pid_format id_or_name) of
        Inl e \<Rightarrow> Inl e
      | Inr res \<Rightarrow>
          (let digits = trim_matches ascii_punctuation res
           in case parse_uint 32 digits of
                Some v \<Rightarrow> Inr (of_nat v)
              | None \<Rightarrow> Inl (error_wrap ''docker helper'' CommandFailed
                          ''cannot parse the pid of the container'' (parse_error digits))))"

definition delete_network :: "docker_world \<Rightarrow> string \<Rightarrow> string result" where
  "delete_network w helper = check_command (network_rm w helper)"

section \<open>Reading a process id\<close>

lemma strip_front_keep: "strip_one ws s = None \<Longrightarrow> strip_front ws s = s"
  by (subst strip_front.simps) simp

lemma strip_front_step: "strip_one ws s = Some s' \<Longrightarrow> strip_front ws s = strip_front ws s'"
  by (subst strip_front.simps) simp

lemma strip_one_none: "list_all (\<lambda>w. hd w \<noteq> c) ws \<Longrightarrow> strip_one ws (c # s) = None"
proof -
  assume ne: "list_all (\<lambda>w. hd w \<noteq> c) ws"
  have "take (length w) (c # s) \<noteq> w" if "w \<in> set ws" "w \<noteq> []" for w
    using ne that by (cases w) (auto simp: list_all_iff)
  then show ?thesis by (auto simp: strip_one_def find_None_iff)
qed

text \<open>Docker prints the id in the quotes of the format, and a newline.\<close>

lemma trim_quoted:
  "trim (CHR 0x27 # s @ [CHR 0x27, CHR 0x0A]) = CHR 0x27 # s @ [CHR 0x27]"
proof -
  have fronts: "list_all (\<lambda>w. hd w \<noteq> CHR 0x27) white_space"
    and backs: "list_all (\<lambda>w. hd w \<noteq> CHR 0x27) (map rev white_space)" by code_simp+
  have 1: "strip_one white_space (CHR 0x27 # s @ [CHR 0x27, CHR 0x0A]) = None"
    by (rule strip_one_none[OF fronts])
  have 2: "strip_one (map rev white_space) (CHR 0x0A # CHR 0x27 # rev s @ [CHR 0x27]) = Some (CHR 0x27 # rev s @ [CHR 0x27])"
    by (simp add: strip_one_def white_space_def)
  have 3: "strip_one (map rev white_space) (CHR 0x27 # rev s @ [CHR 0x27]) = None"
    by (rule strip_one_none[OF backs])
  show ?thesis
    by (simp add: trim_def strip_front_keep[OF 1] strip_front_step[OF 2] strip_front_keep[OF 3])
qed

lemma trim_punctuation:
  assumes "\<forall>c \<in> set s. \<not> ascii_punctuation c" "s \<noteq> []"
  shows "trim_matches ascii_punctuation (CHR 0x27 # s @ [CHR 0x27]) = s"
proof -
  have q: "ascii_punctuation (CHR 0x27)" by (simp add: ascii_punctuation_def)
  have front: "dropWhile ascii_punctuation (CHR 0x27 # s @ [CHR 0x27]) = s @ [CHR 0x27]"
    using assms q by (cases s) auto
  have rear: "dropWhile ascii_punctuation (CHR 0x27 # rev s) = rev s"
    using assms q by (cases s rule: rev_cases) auto
  show ?thesis by (simp add: trim_matches_def front rear del: dropWhile.simps)
qed

lemma get_pid_result:
  assumes "dw_run w [''inspect'', ''--format'', pid_format, name] = Inr out" "po_success out"
    and "po_stdout out = CHR 0x27 # show_nat (unat pid) @ [CHR 0x27, CHR 0x0A]"
  shows "get_pid w pe name = Inr (pid :: u32)"
proof -
  have "\<forall>c \<in> set (show_nat (unat pid)). \<not> ascii_punctuation c"
    by (auto dest!: show_nat_codes simp: ascii_punctuation_def)
  moreover have "unat pid < 2 ^ 32" using unsigned_less[of pid, where ?'a = nat] by simp
  ultimately show ?thesis
    using assms by (simp add: get_pid_def docker_inspect_def launch_command_and_get_output_def check_command_def
        trim_quoted trim_punctuation parse_show_nat)
qed

end
