(* ===== verification/Emanager.thy ===== *)
theory Emanager
  imports Emulinit Docker
begin

text \<open>
  The emulation manager of a node (\<^verbatim>\<open>emulation/src/emanager.rs\<close>): the experiments it
  keeps, the messages of its loop, and the two tasks a message may spawn. The cores that are
  ready wait in a map until their experiment starts; a running one belongs to its task.
  \<^verbatim>\<open>None\<close> is a panic. A task awaits several times; here it is one step, with the state of the manager
  as it is when the task touches it, so what other tasks do in between is not interleaved with it.
\<close>

section \<open>State\<close>

record emanager =
  mg_myself :: cluster_node_info
  mg_reporter_path :: string
  mg_channels :: "uuid list"
  mg_abort :: "uuid list"
  mg_cores :: "(uuid, emul_core) hmap"
  mg_omanager :: "cluster_node_info option"

text \<open>What the libraries do: the parser and printer of identifiers, whether a channel takes a
  message (a channel that is full is awaited until it has room, one that is closed does not take
  it), whether the sender of a message still waits for its answer.\<close>

record mg_world =
  gw_parse_uuid :: "string \<Rightarrow> uuid option"
  gw_show_uuid :: "uuid \<Rightarrow> string"
  gw_channel :: "uuid \<Rightarrow> bool"
  gw_abort :: "uuid \<Rightarrow> bool"
  gw_waiting :: bool

datatype mg_effect =
    SpawnCreate emulation cluster_node_info
  | SpawnStart uuid cluster_node_info
  | ToCore uuid emul_message
  | AbortCore uuid
  | Answered

text \<open>Only a bad address of the node is an error; a bad gateway or subnet, and a docker network
  that cannot be set up, panic.\<close>

definition mg_build ::
  "docker_world \<Rightarrow> string + ip_addr \<Rightarrow> u16 \<Rightarrow> string \<Rightarrow> string \<Rightarrow> string \<Rightarrow> string
   \<Rightarrow> emanager result option" where
  "mg_build dw parsed_ip emanager_port interface subnet_text gateway_text reporter_path =
     (case parsed_ip of
        Inl e \<Rightarrow> Some (Inl (error_wrap ''EMUL CTRL'' NotASocketAddr ''Cannot parse the IP address'' e))
      | Inr my_ip \<Rightarrow>
          (case (dw_ip dw gateway_text, subnet_from_str subnet_text) of
             (Some gateway, Some sn) \<Rightarrow>
               (case docker_init dw interface sn (dw_show_ip dw gateway) of
                  Some (Inr _) \<Rightarrow>
                    Some (Inr \<lparr>mg_myself = cni_new my_ip emanager_port, mg_reporter_path = reporter_path,
                               mg_channels = [], mg_abort = [], mg_cores = [], mg_omanager = None\<rparr>)
                | _ \<Rightarrow> None)
           | _ \<Rightarrow> None))"

section \<open>Messages\<close>

text \<open>\<^verbatim>\<open>let _ = sender.send(None)\<close> when there is a sender.\<close>

definition mg_answer :: "bool \<Rightarrow> mg_effect list" where
  "mg_answer has_sender = (if has_sender then [Answered] else [])"

definition on_experiment_new ::
  "cluster_node_info \<Rightarrow> emulation \<Rightarrow> bool \<Rightarrow> emanager \<Rightarrow> (mg_effect list \<times> emanager) option" where
  "on_experiment_new leader emul has_sender s =
     (let om = (case mg_omanager s of None \<Rightarrow> leader | Some l \<Rightarrow> l)
      in Some (SpawnCreate emul om # mg_answer has_sender, s\<lparr>mg_omanager := Some om\<rparr>))"

text \<open>The message of another core, with a sender: an experiment that is over is skipped; a
  closed channel and a sender that has gone panic. The wait for room in a full channel is not a step
  of its own.\<close>

definition on_interchange ::
  "mg_world \<Rightarrow> string \<Rightarrow> emul_message \<Rightarrow> emanager \<Rightarrow> (mg_effect list \<times> emanager) option" where
  "on_interchange w ident mess s =
     (case gw_parse_uuid w ident of
        None \<Rightarrow> None
      | Some u \<Rightarrow>
          (if hs_contains (=) (mg_channels s) u \<and> \<not> gw_channel w u then None
           else if \<not> gw_waiting w then None
           else Some ((if hs_contains (=) (mg_channels s) u then [ToCore u mess] else []) @ [Answered], s)))"

definition on_experiment_stop ::
  "mg_world \<Rightarrow> string \<Rightarrow> bool \<Rightarrow> emanager \<Rightarrow> (mg_effect list \<times> emanager) option" where
  "on_experiment_stop w ident has_sender s =
     (case gw_parse_uuid w ident of
        None \<Rightarrow> None
      | Some u \<Rightarrow>
          Some ((if hs_contains (=) (mg_abort s) u \<and> gw_abort w u then [AbortCore u] else []) @ mg_answer has_sender,
                s\<lparr>mg_abort := hs_remove (=) u (mg_abort s)\<rparr>))"

definition on_experiment_ready ::
  "mg_world \<Rightarrow> string \<Rightarrow> bool \<Rightarrow> emanager \<Rightarrow> (mg_effect list \<times> emanager) option" where
  "on_experiment_ready w ident has_sender s =
     (case (gw_parse_uuid w ident, mg_omanager s) of
        (Some u, Some leader) \<Rightarrow>
          Some (SpawnStart u leader # mg_answer has_sender, s\<lparr>mg_abort := hs_insert (=) u (mg_abort s)\<rparr>)
      | _ \<Rightarrow> None)"

definition mg_handle ::
  "mg_world \<Rightarrow> emanager_message \<times> bool \<Rightarrow> emanager \<Rightarrow> (mg_effect list \<times> emanager) option" where
  "mg_handle w m s =
     (case m of
        (ExperimentNew leader emul, has_sender) \<Rightarrow> on_experiment_new leader emul has_sender s
      | (EmulCoreInterchange ident mess, True) \<Rightarrow> on_interchange w ident mess s
      | (ExperimentStop ident, has_sender) \<Rightarrow> on_experiment_stop w ident has_sender s
      | (ExperimentReady ident, has_sender) \<Rightarrow> on_experiment_ready w ident has_sender s
      | _ \<Rightarrow> Some ([], s))"

section \<open>Tasks\<close>

text \<open>What a task sends to the leader.\<close>

record task_world =
  tw_init :: init_world
  tw_core :: ec_world
  tw_leader :: "omanager_message \<Rightarrow> unit result"

datatype task_effect = Init init_effect | FromCore ec_effect | Tell omanager_message

text \<open>An error drops the core, and is reported to the leader; that send must not fail.\<close>

definition report_abort ::
  "task_world \<Rightarrow> mg_world \<Rightarrow> uuid \<Rightarrow> task_effect list \<Rightarrow> emanager \<Rightarrow> (task_effect list \<times> emanager) option" where
  "report_abort tw w u es s =
     (case tw_leader tw (Abort (gw_show_uuid w u)) of
        Inl _ \<Rightarrow> None
      | Inr _ \<Rightarrow> Some (es @ [Tell (Abort (gw_show_uuid w u))], s))"

definition create_emulation ::
  "task_world \<Rightarrow> mg_world \<Rightarrow> emulation \<Rightarrow> cluster_node_info \<Rightarrow> emanager \<Rightarrow> (task_effect list \<times> emanager) option" where
  "create_emulation tw w emul cluster_omanager s =
     (let u = em_uuid emul in
      case ec_new emul (mg_myself s) cluster_omanager of
        None \<Rightarrow> None
      | Some c \<Rightarrow>
          (case init_emulation (tw_init tw) (mg_reporter_path s) c of
             None \<Rightarrow> None
           | Some (es, c', entered, Inl e) \<Rightarrow>
               (case ec_drop (tw_core tw) c' of
                  None \<Rightarrow> None
                | Some drops \<Rightarrow>
                    report_abort tw w u (map Init es @ map FromCore drops)
                      (s\<lparr>mg_channels := hs_remove (=) u (mg_channels s)\<rparr>))
           | Some (es, c', entered, Inr _) \<Rightarrow>
               (let s' = s\<lparr>mg_channels := hs_insert (=) u (mg_channels s),
                           mg_cores := hm_insert (=) u c' (mg_cores s)\<rparr>;
                    ready = EmulationReady (gw_show_uuid w u) (mg_myself s)
                in case tw_leader tw ready of
                     Inr _ \<Rightarrow> Some (map Init es @ [Tell ready], s')
                   | Inl e \<Rightarrow> report_abort tw w u (map Init es @ [Tell ready]) s')))"

text \<open>How a started experiment ends: it is aborted, or its synchronisation or its loop fails, or
  it runs to its end; what it did before (\<^verbatim>\<open>es\<close>) and its core at that point.\<close>

datatype ending = Aborted | Failed | Ended

definition start_emulation ::
  "task_world \<Rightarrow> mg_world \<Rightarrow> uuid \<Rightarrow> (emul_core \<Rightarrow> ec_effect list \<times> emul_core \<times> ending) \<Rightarrow> emanager
   \<Rightarrow> (task_effect list \<times> emanager) option" where
  "start_emulation tw w u run s =
     (case hm_get (=) (mg_cores s) u of
        None \<Rightarrow> None
      | Some c \<Rightarrow>
          (let (es, c', how) = run c;
               s' = s\<lparr>mg_cores := hm_remove (=) u (mg_cores s), mg_channels := hs_remove (=) u (mg_channels s)\<rparr>
           in case ec_drop (tw_core tw) c' of
                None \<Rightarrow> None
              | Some drops \<Rightarrow>
                  (case how of
                     Failed \<Rightarrow> report_abort tw w u (map FromCore (es @ drops)) s'
                   | _ \<Rightarrow> Some (map FromCore (es @ drops), s'))))"

section \<open>The life of an experiment\<close>

text \<open>The leader knows an experiment to be ready exactly when its core waits here and its channel
  is open: a core that waits has a channel.\<close>

definition mg_inv :: "emanager \<Rightarrow> bool" where
  "mg_inv s \<longleftrightarrow> hm_distinct (=) (mg_cores s) \<and> distinct (mg_channels s) \<and> distinct (mg_abort s)
     \<and> set (hm_keys (mg_cores s)) \<subseteq> set (mg_channels s)
     \<and> (\<forall>(u, c) \<in> set (mg_cores s). ec_id c = u)"

lemmas mg_defs = mg_handle_def on_experiment_new_def on_interchange_def on_experiment_stop_def
  on_experiment_ready_def

lemma mg_handle_keeps:
  assumes "mg_handle w m s = Some (es, s')" "mg_inv s"
  shows "mg_inv s'"
proof -
  obtain mess has_sender where "m = (mess, has_sender)" by force
  then show ?thesis
    using assms by (cases mess; cases has_sender)
      (auto simp: mg_defs mg_inv_def Let_def plain_sets split: option.splits if_splits)
qed

lemma create_emulation_keeps:
  assumes "create_emulation tw w emul om s = Some (es, s')" "mg_inv s"
    and "hm_get (=) (mg_cores s) (em_uuid emul) = None"
  shows "mg_inv s'"
proof -
  let ?u = "em_uuid emul"
  have out: "?u \<notin> set (hm_keys (mg_cores s))"
    using assms(3) by (simp add: hm_get_None_HOL)
  have s': "s' = s\<lparr>mg_channels := hs_remove (=) ?u (mg_channels s)\<rparr>
    \<or> (\<exists>c'. ec_id c' = ?u \<and> s' = s\<lparr>mg_channels := hs_insert (=) ?u (mg_channels s),
                                    mg_cores := hm_insert (=) ?u c' (mg_cores s)\<rparr>)"
    using assms(1)
    by (auto simp: create_emulation_def report_abort_def Let_def dest!: init_emulation_id ec_new_id
        split: option.splits sum.splits prod.splits)
  then show ?thesis
  proof
    assume "s' = s\<lparr>mg_channels := hs_remove (=) ?u (mg_channels s)\<rparr>"
    then show ?thesis using assms(2) out by (auto simp: mg_inv_def plain_sets)
  next
    assume "\<exists>c'. ec_id c' = ?u \<and> s' = s\<lparr>mg_channels := hs_insert (=) ?u (mg_channels s),
                                    mg_cores := hm_insert (=) ?u c' (mg_cores s)\<rparr>"
    then show ?thesis
      using assms(2) set_hm_insert_HOL
      by (fastforce simp: mg_inv_def plain_sets hol_eq.hm_keys_insert hol_eq.hm_distinct_insert)
  qed
qed

lemma start_emulation_keeps:
  assumes "start_emulation tw w u run s = Some (es, s')" "mg_inv s"
  shows "mg_inv s' \<and> hm_get (=) (mg_cores s') u = None \<and> u \<notin> set (mg_channels s')"
proof -
  have s': "s' = s\<lparr>mg_cores := hm_remove (=) u (mg_cores s), mg_channels := hs_remove (=) u (mg_channels s)\<rparr>"
    using assms(1)
    by (auto simp: start_emulation_def report_abort_def Let_def split: option.splits sum.splits prod.splits ending.splits)
  have d: "distinct (map fst (mg_cores s))"
    using assms(2) by (simp add: mg_inv_def hm_distinct_def plain_sets hm_keys_def)
  show ?thesis
    using assms(2) d
    by (auto simp: s' mg_inv_def plain_sets hm_remove_filter hol_eq.hm_distinct_remove hm_get_None_HOL
        hm_keys_def hm_distinct_def distinct_map_filter)
qed

end
