(* ===== verification/Node.thy ===== *)
theory Node
  imports Omanager_Life Control_Props Emanager Text
begin

text \<open>
  A machine of the cluster as a whole: the configuration and the start of the programs
  (\<^verbatim>\<open>common/src/runner_config.rs\<close>, \<^verbatim>\<open>runner/src/main.rs\<close>,
  \<^verbatim>\<open>cmanager/src/lib.rs\<close>, the start of \<^verbatim>\<open>emulation/src/emanager.rs\<close>), and the channel on
  which the controller of a leader sends the changes of the cluster to its orchestration manager. The
  parser of the command line (clap) and the file system are parameters.
\<close>

section \<open>Configuration\<close>

record runner_config =
  rn_leader :: bool
  rn_ip_address :: string
  rn_local_speed :: u64
  rn_ip_range :: string
  rn_subnet :: string
  rn_gateway :: string
  rn_interface :: string
  rn_sufficient_speed :: u64
  rn_cmanager_port :: u16
  rn_emanager_port :: u16
  rn_omanager_port :: u16
  rn_perf_port :: u16
  rn_iperf3_port :: u16
  rn_emulation_begin_delay :: u16
  rn_max_load_per_node :: nat
  rn_event_channel_size :: nat
  rn_heartbeat_misses :: nat
  rn_heartbeat_timeout_seconds :: u64
  rn_heartbeat_sleep_seconds :: u64
  rn_perf_test_duration_seconds :: u8
  rn_perf_test_retries :: nat
  rn_cjq_timeout_duration_seconds :: u64
  rn_cjq_retry :: nat
  rn_cjq_waiting_time_seconds :: u64
  rn_reporter_exec_path :: string

text \<open>The options that have to be given, with the defaults for all others.\<close>

definition runner_defaults :: "bool \<Rightarrow> string \<Rightarrow> u64 \<Rightarrow> string \<Rightarrow> string \<Rightarrow> string \<Rightarrow> runner_config" where
  "runner_defaults leader ip_address local_speed subnet gateway interface =
     \<lparr>rn_leader = leader, rn_ip_address = ip_address, rn_local_speed = local_speed, rn_ip_range = [],
      rn_subnet = subnet, rn_gateway = gateway, rn_interface = interface, rn_sufficient_speed = - 1,
      rn_cmanager_port = 8081, rn_emanager_port = 8082, rn_omanager_port = 8080, rn_perf_port = 8083,
      rn_iperf3_port = 5201, rn_emulation_begin_delay = 5, rn_max_load_per_node = 4,
      rn_event_channel_size = 1000, rn_heartbeat_misses = 3, rn_heartbeat_timeout_seconds = 5,
      rn_heartbeat_sleep_seconds = 5, rn_perf_test_duration_seconds = 15, rn_perf_test_retries = 3,
      rn_cjq_timeout_duration_seconds = 20, rn_cjq_retry = 2, rn_cjq_waiting_time_seconds = 30,
      rn_reporter_exec_path = ''/home/agost/workspace/MSc/development/kollaps/target/release/reporter''\<rparr>"

text \<open>What the controller reads of it.\<close>

definition ctrl_config_of :: "runner_config \<Rightarrow> ctrl_config" where
  "ctrl_config_of config =
     \<lparr>cf_cjq_retry = rn_cjq_retry config, cf_cjq_timeout = unat (rn_cjq_timeout_duration_seconds config),
      cf_cjq_waiting_time = unat (rn_cjq_waiting_time_seconds config),
      cf_heartbeat_misses = rn_heartbeat_misses config,
      cf_heartbeat_sleep = unat (rn_heartbeat_sleep_seconds config),
      cf_sufficient_speed = rn_sufficient_speed config, cf_perf_test_retries = rn_perf_test_retries config,
      cf_iperf3_port = rn_iperf3_port config, cf_cmanager_port = rn_cmanager_port config,
      cf_leader = rn_leader config, cf_local_speed = rn_local_speed config\<rparr>"

section \<open>The checks of the runner\<close>

text \<open>A program is found in a directory of \<^verbatim>\<open>PATH\<close>; without that variable it is not.\<close>

definition command_found :: "(string \<Rightarrow> bool) \<Rightarrow> string option \<Rightarrow> string \<Rightarrow> bool" where
  "command_found exists_file env_path cmd =
     (case env_path of
        None \<Rightarrow> False
      | Some dirs \<Rightarrow> list_ex (\<lambda>p. exists_file (p @ ''/'' @ cmd)) (split_on (CHR '':'') dirs))"

fun check_software_dependency :: "(string \<Rightarrow> bool) \<Rightarrow> string option \<Rightarrow> string list \<Rightarrow> unit result" where
  "check_software_dependency exists_file env_path [] = Inr ()"
| "check_software_dependency exists_file env_path (cmd # software) =
     (if command_found exists_file env_path cmd then check_software_dependency exists_file env_path software
      else Inl (error_new ''program check'' NotFound (''Command '' @ cmd @ '' not found in your $PATH'')))"

definition check_reporter_executable :: "(string \<Rightarrow> bool) \<Rightarrow> string \<Rightarrow> string result" where
  "check_reporter_executable exists_file reporter =
     (if exists_file reporter then Inr reporter
      else Inl (error_new ''program check'' NotFound ''Cannot find the reporter executable''))"

definition needed_software :: "string list" where
  "needed_software = [''docker'', ''iperf3'', ''ip'', ''sudo'', ''nsenter'']"

text \<open>Everything that \<^verbatim>\<open>main\<close> does before it starts the two parts.\<close>

definition runner_check :: "(string \<Rightarrow> bool) \<Rightarrow> string option \<Rightarrow> runner_config \<Rightarrow> runner_config result" where
  "runner_check exists_file env_path config =
     (case check_software_dependency exists_file env_path needed_software of
        Inl e \<Rightarrow> Inl e
      | Inr _ \<Rightarrow>
          (case check_reporter_executable exists_file (rn_reporter_exec_path config) of
             Inl e \<Rightarrow> Inl e
           | Inr _ \<Rightarrow> Inr config))"

lemma check_software_all:
  "check_software_dependency exists_file env_path software = Inr () \<longleftrightarrow> (\<forall>cmd \<in> set software. command_found exists_file env_path cmd)"
  by (induction software) auto

lemma runner_check_ok:
  "runner_check exists_file env_path config = Inr config' \<longleftrightarrow> config' = config
     \<and> (\<forall>cmd \<in> set needed_software. command_found exists_file env_path cmd) \<and> exists_file (rn_reporter_exec_path config)"
  using check_software_all[of exists_file env_path needed_software]
  by (auto simp: runner_check_def check_reporter_executable_def split: sum.split)

section \<open>The two parts\<close>

text \<open>\<^verbatim>\<open>cmanager::run\<close>: the address that was parsed, whether the bindings could be made, what the
  two calls of \<^verbatim>\<open>listen\<close> gave, then the messages of the loop.\<close>

definition cmanager_run ::
  "runner_config \<Rightarrow> string + ip_addr \<Rightarrow> bool \<Rightarrow> unit result \<Rightarrow> unit result \<Rightarrow> world
   \<Rightarrow> (world \<times> cevent \<times> bool) list \<Rightarrow> turn" where
  "cmanager_run config parsed_ip bindings_ok tcp_listen udp_listen w ms =
     (case ctrl_build parsed_ip bindings_ok (ctrl_config_of config) of
        None \<Rightarrow> None
      | Some (Inl e) \<Rightarrow> Some (Inl e)
      | Some (Inr c0) \<Rightarrow>
          (case ctrl_init tcp_listen udp_listen c0 of
             Inl e \<Rightarrow> Some (Inl e)
           | Inr _ \<Rightarrow>
               (case ctrl_begin w c0 of
                  None \<Rightarrow> None
                | Some (Inl e) \<Rightarrow> Some (Inl e)
                | Some (Inr (c1, outs)) \<Rightarrow>
                    (case ctrl_loop ms c1 of
                       None \<Rightarrow> None
                     | Some (Inl e) \<Rightarrow> Some (Inl e)
                     | Some (Inr (c2, outs')) \<Rightarrow> Some (Inr (c2, outs @ outs'))))))"

text \<open>The updates that the controller puts on the channel of the orchestration manager.\<close>

definition updates :: "effect list \<Rightarrow> cgraph_update list" where
  "updates outs = List.map_filter (\<lambda>e. case e of Update u \<Rightarrow> Some u | _ \<Rightarrow> None) outs"

text \<open>\<^verbatim>\<open>EManager::start\<close> on a leader: the first update has to be a new graph, or it panics; the
  orchestration manager is built from that graph and gets the channel.\<close>

definition start_omanager :: "runner_config \<Rightarrow> emanager \<Rightarrow> cgraph_update option \<Rightarrow> omanager option" where
  "start_omanager config m first =
     (case first of
        Some (New graph) \<Rightarrow>
          om_build (mg_myself m) (rn_omanager_port config) (rn_emanager_port config) graph (rn_max_load_per_node config)
      | _ \<Rightarrow> None)"

section \<open>What the controller sends\<close>

lemma updates_append [simp]: "updates (xs @ ys) = updates xs @ updates ys"
  by (simp add: updates_def map_filter_def)

lemma updates_simps [simp]:
  "updates [] = []" "updates (Update u # outs) = u # updates outs" "(\<And>u. e \<noteq> Update u) \<Longrightarrow> updates (e # outs) = updates outs"
  by (auto simp: updates_def map_filter_simps split: effect.split)

text \<open>A graph that is sent is one that was received.\<close>

lemma handle_updates:
  assumes "ctrl_handle w (m, b) c = Some (Inr (c', outs))" "New g \<in> set (updates outs)"
  shows "m = CGraphUpdate g"
proof -
  have mem: "Update (New g) \<in> set outs" using assms(2) by (auto simp: updates_def map_filter_def split: effect.splits)
  show ?thesis
  proof (cases m)
    case (CJQResponse k)
    then show ?thesis using assms(1) mem
      by (cases b; cases k) (auto simp: on_cjq_response_def Let_def split: option.splits sum.splits if_splits)
  next
    case CJQRetry
    then show ?thesis using assms(1) mem
      by (cases b) (auto simp: on_cjq_retry_def send_cluster_joining_request_def Let_def split: sum.splits if_splits list.splits)
  next
    case (CJQRequest i)
    then show ?thesis using assms(1) mem
      by (cases b) (auto simp: on_cjq_request_def Let_def split: option.splits if_splits)
  next
    case (CHeartbeat i t)
    then show ?thesis using assms(1) mem by (cases b) (auto simp: on_heartbeat_def)
  next
    case CHeartbeatCheck
    then show ?thesis using assms(1) mem
      by (cases b) (auto simp: perform_heartbeat_check_def split: option.splits if_splits)
  next
    case (NodeFailure i)
    then show ?thesis using assms(1) mem
      by (cases b) (auto simp: on_node_failure_def split: option.splits sum.splits if_splits)
  next
    case PClient
    then show ?thesis using assms(1) mem by (cases b) (auto split: sum.splits)
  next
    case (CGraphUpdate graph)
    then show ?thesis using assms(1) mem by (cases b) (auto simp: on_cgraph_update_def split: if_splits)
  qed (use assms(1) mem in \<open>cases b; auto\<close>)+
qed

lemma loop_updates:
  assumes "ctrl_loop ms c = Some (Inr (c', outs))" "New g \<in> set (updates outs)"
  shows "\<exists>w b. (w, CGraphUpdate g, b) \<in> set ms"
  using assms
proof (induction ms arbitrary: c outs)
  case (Cons a ms)
  obtain w m b where a: "a = (w, m, b)" by (cases a)
  obtain c1 o1 o2 where 1: "ctrl_handle w (m, b) c = Some (Inr (c1, o1))" "ctrl_loop ms c1 = Some (Inr (c', o2))" "outs = o1 @ o2"
    using Cons.prems(1) a by (auto split: option.splits sum.splits)
  then consider "New g \<in> set (updates o1)" | "New g \<in> set (updates o2)" using Cons.prems(2) by auto
  then show ?case
  proof cases
    case 1
    then show ?thesis using handle_updates[OF \<open>ctrl_handle w (m, b) c = _\<close>] a by auto
  next
    case 2
    then show ?thesis using Cons.IH[OF 1(2)] by auto
  qed
qed simp

text \<open>A leader begins with the graph of itself alone, and sends it.\<close>

lemma leader_begin_updates:
  assumes "ct_is_leader c" "ctrl_begin w c = Some (Inr (c1, outs))"
  shows "\<exists>g. updates outs = [New g] \<and> usable_graph g"
proof -
  obtain c' o1 where 1: "create_cluster w (c\<lparr>ct_retries := cf_cjq_retry (ct_config c)\<rparr>) = Some (c', Inr o1)"
    "outs = o1 @ [Update (New (ct_cgraph c'))]"
    using assms by (auto simp: ctrl_begin_def Let_def split: option.splits sum.splits if_splits)
  then obtain g0 g node where g: "cg_new = Some g0" "cg_add_node (ct_my_speed c) (ct_my_info c) g0 = Some (g, Inr node)"
    "ct_cgraph c' = g" "o1 = [After 1 CHeartbeatCheck]"
    by (auto simp: create_cluster_def split: option.splits sum.splits)
  obtain g0' :: wcgraph where g0: "cg_new = Some g0'" "cg_inv g0'" "cg_nodes g0' = []" "cg_n g0' = 0" using cg_new_result by blast
  have "Some g0' = Some g0" by (rule trans[OF g0(1)[symmetric] g(1)])
  then have "g0' = g0" by simp
  then have A: "cg_inv g" "node_added (ct_my_speed c) (ct_my_info c) g0 g node"
    using cg_add_node_result[OF g0(2), of "ct_my_speed c" "ct_my_info c"] g(2) g0(4) by auto
  then have "usable_graph g" using g0(3) \<open>g0' = g0\<close> by (simp add: usable_graph_def node_added_def)
  then show ?thesis using 1(2) g(3,4) by simp
qed

lemma om_build_total: "usable_graph g \<Longrightarrow> \<exists>s. om_build me op ep g max_load = Some s"
proof -
  assume "usable_graph g"
  then have "cg_inv g" by (simp add: usable_graph_def)
  from cg_speeds_result[OF cg_map_nodes_result(1)[OF this, of "\<lambda>cni. cni\<lparr>cni_port := ep\<rparr>"]] show ?thesis
    by (auto simp: om_build_def or_new_def convert_cgraph_nodeinfo_def)
qed

section \<open>The leader\<close>

text \<open>The updates among what the manager takes; everything else comes from clients and hosts.\<close>

definition taken_updates :: "oinput list \<Rightarrow> cgraph_update list" where
  "taken_updates inputs = List.map_filter (\<lambda>(w, i). case i of Inl m \<Rightarrow> None | Inr u \<Rightarrow> Some u) inputs"

definition admissible_message :: "oinput \<Rightarrow> bool" where
  "admissible_message i \<longleftrightarrow> (case snd i of Inl m \<Rightarrow> admissible i | Inr u \<Rightarrow> True)"

lemma admissible_inputs:
  assumes "\<forall>i \<in> set inputs. admissible_message i" "\<And>g. New g \<in> set (taken_updates inputs) \<Longrightarrow> usable_graph g"
  shows "\<forall>i \<in> set inputs. admissible i"
proof
  fix i
  assume i: "i \<in> set inputs"
  obtain w input where wi: "i = (w, input)" by (cases i)
  show "admissible i"
  proof (cases input)
    case (Inr u)
    show ?thesis
    proof (cases u)
      case (New g)
      have "New g \<in> set (taken_updates inputs)"
        using i wi Inr New by (force simp: taken_updates_def map_filter_def)
      then show ?thesis using assms(2) wi Inr New by (simp add: admissible_def)
    qed (simp add: wi Inr admissible_def)
  next
    case (Inl m)
    then show ?thesis using assms(1) i wi by (auto simp: admissible_message_def)
  qed
qed

text \<open>C9: on a leader, whatever its controller goes through, the first update that it sends is a new
  graph, so the start of the orchestration manager does not panic; and when the manager takes
  the further updates in their order, anyhow mixed with the messages of clients and hosts, its
  orchestrator stays sound and loads no host above the limit of the configuration. The graphs that
  joining nodes send must be well-formed with nodes of different addresses, and the topologies of the
  clients have fewer than \<^verbatim>\<open>2 ^ 26\<close> applications.\<close>

theorem leader_node_sound:
  assumes "rn_leader config"
    and "cmanager_run config parsed_ip bindings_ok tcp_listen udp_listen w ms = Some (Inr (c, outs))"
    and "\<forall>(w, m, b) \<in> set ms. \<forall>g. m = CGraphUpdate g \<longrightarrow> usable_graph g"
  shows "\<exists>g0 us s0. updates outs = New g0 # us \<and> start_omanager config manager (Some (New g0)) = Some s0
    \<and> (\<forall>inputs rest sent s. us = taken_updates inputs @ rest \<and> (\<forall>i \<in> set inputs. admissible_message i)
          \<and> accept_topology inputs s0 = Some (sent, s)
        \<longrightarrow> or_sound (om_orchestrator s) \<and> (\<forall>h. (\<Sum>u \<in> UNIV. load_of (om_orchestrator s) h u) \<le> rn_max_load_per_node config))"
proof -
  obtain c0 c1 outs1 outs2 where run: "ctrl_build parsed_ip bindings_ok (ctrl_config_of config) = Some (Inr c0)"
    "ctrl_begin w c0 = Some (Inr (c1, outs1))" "ctrl_loop ms c1 = Some (Inr (c, outs2))" "outs = outs1 @ outs2"
    using assms(2) by (auto simp: cmanager_run_def split: option.splits sum.splits)
  have "ct_is_leader c0"
    using run(1) assms(1) by (auto simp: ctrl_build_def ctrl_config_of_def split: sum.splits if_splits option.splits)
  from leader_begin_updates[OF this run(2)] obtain g0 where g0: "updates outs1 = [New g0]" "usable_graph g0" by blast
  let ?us = "updates outs2"
  have us: "updates outs = New g0 # ?us" using run(4) g0(1) by simp
  have usable: "usable_graph g" if "New g \<in> set ?us" for g
    using loop_updates[OF run(3) that] assms(3) by fastforce
  obtain s0 where s0: "om_build (mg_myself manager) (rn_omanager_port config) (rn_emanager_port config) g0
      (rn_max_load_per_node config) = Some s0" using om_build_total[OF g0(2)] by blast
  then have start: "start_omanager config manager (Some (New g0)) = Some s0" by (simp add: start_omanager_def)
  have om: "om_start s0" unfolding om_start_def using g0(2) s0 by blast
  have limit0: "or_max_load (om_orchestrator s0) = rn_max_load_per_node config"
    using s0 by (auto simp: om_build_def or_new_def split: option.splits)
  have "or_sound (om_orchestrator s) \<and> (\<forall>h. (\<Sum>u \<in> UNIV. load_of (om_orchestrator s) h u) \<le> rn_max_load_per_node config)"
    if i: "?us = taken_updates inputs @ rest" "\<forall>i \<in> set inputs. admissible_message i" "accept_topology inputs s0 = Some (sent, s)"
    for inputs rest sent s
  proof -
    have "New g \<in> set ?us" if "New g \<in> set (taken_updates inputs)" for g using that i(1) by simp
    then have "\<forall>i \<in> set inputs. admissible i" by (intro admissible_inputs[OF i(2)] usable)
    then have steps: "om_step\<^sup>*\<^sup>* s0 s" by (rule accept_topology_steps[OF i(3)])
    have sound: "or_sound (om_orchestrator s)" by (rule omgr.reachable_keeps[OF om steps])
    have "or_max_load (om_orchestrator s) = rn_max_load_per_node config"
      by (rule omgr.run_mark[OF steps omgr.start_keeps[OF om] limit0])
    with sound show ?thesis by (simp add: or_sound_def loads_ok_def)
  qed
  then show ?thesis using us start by blast
qed

definition witness_config :: runner_config where
  "witness_config =
     (runner_defaults True ''10.0.0.1'' 1000 ''10.0.0.0/8'' ''10.0.0.254'' ''eth0'')
       \<lparr>rn_cjq_retry := 3, rn_cjq_timeout_duration_seconds := 1, rn_cjq_waiting_time_seconds := 5, rn_heartbeat_misses := 2,
        rn_heartbeat_sleep_seconds := 2, rn_sufficient_speed := 100, rn_perf_test_retries := 1, rn_cmanager_port := 8080\<rparr>"

text \<open>Another machine joins; then a client aborts an emulation that does not exist.\<close>

theorem leader_node_sound_witness:
  "\<forall>manager net. \<exists>g c outs g0 us s0 sent s. two_machines = Some g
    \<and> cmanager_run witness_config (Inr (V4 [10, 0, 0, 1])) True (Inr ()) (Inr ()) quiet_world
        [(quiet_world, CGraphUpdate g, True)] = Some (Inr (c, outs))
    \<and> updates outs = New g0 # us \<and> us \<noteq> [] \<and> start_omanager witness_config manager (Some (New g0)) = Some s0
    \<and> accept_topology [(topology_world net True, Inl (Abort ''i'', True))] s0 = Some (sent, s) \<and> or_sound (om_orchestrator s)"
proof (intro allI)
  fix manager net
  obtain c0 c1 o1 where s: "ctrl_build (Inr (V4 [10, 0, 0, 1])) True leader_config = Some (Inr c0)"
    "ctrl_begin quiet_world c0 = Some (Inr (c1, o1))" by (rule leader_setting)
  have "ctrl_config_of witness_config = leader_config"
    by (simp add: witness_config_def runner_defaults_def ctrl_config_of_def leader_config_def)
  moreover have "\<not> ct_started c0" using s(1) by (auto simp: ctrl_build_def split: option.splits)
  then have "ctrl_init (Inr ()) (Inr ()) c0 = Inr ()" by (simp add: ctrl_init_def)
  moreover obtain g where g: "two_machines = Some g" "usable_graph g"
    by (rule two_machines_manager)
  moreover obtain c o2 where l: "ctrl_loop [(quiet_world, CGraphUpdate g, True)] c1 = Some (Inr (c, o2))" "updates o2 = [New g]"
    by (simp add: on_cgraph_update_def quiet_world_def)
  ultimately have run: "cmanager_run witness_config (Inr (V4 [10, 0, 0, 1])) True (Inr ()) (Inr ()) quiet_world
      [(quiet_world, CGraphUpdate g, True)] = Some (Inr (c, o1 @ o2))"
    using s by (simp add: cmanager_run_def del: ctrl_loop.simps)
  have lead: "rn_leader witness_config" by (simp add: witness_config_def runner_defaults_def)
  let ?is = "[(topology_world net True, Inl (Abort ''i'', True))] :: oinput list"
  have "\<forall>(w, m, b) \<in> set [(quiet_world, CGraphUpdate g, True)]. \<forall>g. m = CGraphUpdate g \<longrightarrow> usable_graph g" using g(2) by simp
  from leader_node_sound[OF lead run this, of manager] obtain g0 us s0 where
    L: "updates (o1 @ o2) = New g0 # us" "start_omanager witness_config manager (Some (New g0)) = Some s0"
    "\<forall>inputs rest sent s. us = taken_updates inputs @ rest \<and> (\<forall>i \<in> set inputs. admissible_message i)
          \<and> accept_topology inputs s0 = Some (sent, s)
        \<longrightarrow> or_sound (om_orchestrator s) \<and> (\<forall>h. (\<Sum>u \<in> UNIV. load_of (om_orchestrator s) h u) \<le> rn_max_load_per_node witness_config)"
    by (elim exE conjE)
  have us: "us \<noteq> []" using L(1) l(2) leader_begin_updates[OF _ s(2)] s(1)
    by (auto simp: ctrl_build_def leader_config_def split: option.splits)
  let ?w = "topology_world net True"
  obtain sent s' where ab: "abort_emulations ?w [7] s0 = (sent, s')" by (cases "abort_emulations ?w [7] s0")
  have "ow_parse_uuid ?w ''i'' = Some 7" by (simp add: topology_world_def)
  then have acc: "accept_topology ?is s0 = Some (sent @ [Reply None], s')"
    by (simp add: on_abort_def ab del: abort_emulations.simps)
  have "us = taken_updates ?is @ us" "\<forall>i \<in> set ?is. admissible_message i"
    by (simp_all add: taken_updates_def map_filter_simps admissible_message_def admissible_def)
  then have "or_sound (om_orchestrator s')" using L(3) acc by blast
  then show "\<exists>g c outs g0 us s0 sent s. two_machines = Some g
    \<and> cmanager_run witness_config (Inr (V4 [10, 0, 0, 1])) True (Inr ()) (Inr ()) quiet_world
        [(quiet_world, CGraphUpdate g, True)] = Some (Inr (c, outs))
    \<and> updates outs = New g0 # us \<and> us \<noteq> [] \<and> start_omanager witness_config manager (Some (New g0)) = Some s0
    \<and> accept_topology [(topology_world net True, Inl (Abort ''i'', True))] s0 = Some (sent, s) \<and> or_sound (om_orchestrator s)"
    using g(1) run L(1,2) us acc
    by (intro exI[of _ g] exI[of _ c] exI[of _ "o1 @ o2"] exI[of _ g0] exI[of _ us] exI[of _ s0] exI[of _ "sent @ [Reply None]"] exI[of _ s']) (simp del: accept_topology.simps)
qed

end
