(* ===== verification/Emulcore_Props.thy ===== *)
theory Emulcore_Props
  imports Emanager "HOL-Library.Sublist"
begin

text \<open>
  What the emulation cores guarantee: the hosts of an emulation agree on the time it begins, up to
  the error of their clocks; an
  update of a flow is told once to every other host, and by the host of its source only; the
  status of an application follows its events; a start that fails, and what it leaves behind.
\<close>

section \<open>Agreement on the begin time\<close>

definition arrived :: "sync_turn list \<Rightarrow> synchro_wire list" where
  "arrived ins = List.map tn_wire ins"

lemma arrived_simps [simp]: "arrived [] = []" "arrived (i # ins) = tn_wire i # arrived ins"
  by (simp_all add: arrived_def)

text \<open>A host of the ring that is not the leader: the time at which each instant of its clock really
  is, its conversions, its turns, and the begin time it starts with.\<close>

record ring_host =
  rh_real :: "int \<Rightarrow> int"
  rh_millis :: millis
  rh_turns :: "sync_turn list"
  rh_mine :: int

definition follower_passes :: "ring_host \<Rightarrow> synchro_wire list" where
  "follower_passes h = fst (sync_run (rh_millis h) sync_follower (rh_turns h) (rh_mine h))"

definition follower_end :: "ring_host \<Rightarrow> (int + error) option" where
  "follower_end h = snd (sync_run (rh_millis h) sync_follower (rh_turns h) (rh_mine h))"

text \<open>The ring: the host after the leader gets what the leader sent, each further one what the one
  before it sent on, and the leader what the last one sent on; some of it may still be under way.\<close>

fun ring_passes :: "synchro_wire list \<Rightarrow> ring_host list \<Rightarrow> synchro_wire list \<Rightarrow> bool" where
  "ring_passes out [] back \<longleftrightarrow> prefix back out"
| "ring_passes out (h # hs) back \<longleftrightarrow>
     prefix (arrived (rh_turns h)) out \<and> ring_passes (follower_passes h) hs back"

text \<open>A begin time of a host, as its loop ended.\<close>

definition begins_at :: "(int + error) option \<Rightarrow> int \<Rightarrow> bool" where
  "begins_at r t \<longleftrightarrow> r = Some (Inl t)"

text \<open>The conversions of a host are exact up to \<^verbatim>\<open>eps\<close> nanoseconds, whenever they are made: its
  clocks and the truncation to milliseconds are off by no more than that.\<close>

definition keeps_time :: "int \<Rightarrow> (int \<Rightarrow> int) \<Rightarrow> millis \<Rightarrow> bool" where
  "keeps_time eps clock ml \<longleftrightarrow>
     (\<forall>now t. \<bar>ml_out ml now t * 10 ^ 6 - clock t\<bar> \<le> eps)
   \<and> (\<forall>now m. \<bar>clock (ml_in ml now m) - m * 10 ^ 6\<bar> \<le> eps)"

text \<open>Which messages are the confirmation: that does not change on the way.\<close>

definition oks :: "synchro_wire list \<Rightarrow> bool list" where
  "oks ws = List.map (\<lambda>w. w = WireOk) ws"

lemma oks_simps [simp]:
  "oks [] = []" "oks (w # ws) = (w = WireOk) # oks ws" "oks (ws @ vs) = oks ws @ oks vs"
  by (simp_all add: oks_def)

lemma oks_prefix: "prefix ws vs \<Longrightarrow> prefix (oks ws) (oks vs)"
  by (simp add: oks_def map_mono_prefix)

lemma confirmation_in: "WireOk \<in> set ws \<longleftrightarrow> True \<in> set (oks ws)"
  by (auto simp: oks_def)

lemma not_ok: "w \<noteq> WireOk \<Longrightarrow> \<exists>m. w = WireStart m"
  by (cases w) simp_all

lemma follower_passes_on: "sync_run ml sync_follower ins mine = (outs, r) \<Longrightarrow> prefix (oks outs) (oks (arrived ins))"
proof (induction ins arbitrary: mine outs r)
  case (Cons i ins)
  show ?case
    using Cons.prems
    by (cases "tn_wire i"; cases "tn_responder i"; cases "tn_sent i")
       (auto dest: Cons.IH split: prod.splits if_splits)
qed simp

lemma ring_back_prefix: "ring_passes out hs back \<Longrightarrow> prefix (oks back) (oks out)"
proof (induction hs arbitrary: out)
  case Nil
  then show ?case by (simp add: oks_prefix)
next
  case (Cons h hs)
  obtain o1 r where run: "sync_run (rh_millis h) sync_follower (rh_turns h) (rh_mine h) = (o1, r)" by force
  have "prefix (oks back) (oks o1)" "prefix (oks (arrived (rh_turns h))) (oks out)"
    using Cons by (simp_all add: follower_passes_def run oks_prefix)
  then show ?case using follower_passes_on[OF run] by (meson prefix_order.trans)
qed

text \<open>What the leader ever sends: proposals, and after the last of them one confirmation.\<close>

definition proposals :: "int list \<Rightarrow> bool \<Rightarrow> synchro_wire list" where
  "proposals ms confirmed = List.map WireStart ms @ (if confirmed then [WireOk] else [])"

lemma proposals_Cons [simp]:
  "proposals (m # ms) confirmed = WireStart m # proposals ms confirmed"
  "proposals [] True = [WireOk]" "proposals [] False = []"
  by (simp_all add: proposals_def)

lemma leader_run:
  assumes "sync_run ml sync_leader ins (time, mine) = (outs, r)"
    and "prefix (oks (arrived ins)) (False # oks outs)"
  shows "\<exists>ms confirmed b k. WireStart (ml_out ml n mine) # outs = proposals ms confirmed \<and> ms \<noteq> []
    \<and> last ms = ml_out ml k b
    \<and> (\<forall>t. r = Some (Inl t) \<longrightarrow> confirmed \<and> t = b \<and> WireOk \<in> set (arrived ins))"
  using assms
proof (induction ins arbitrary: time mine n outs r)
  case Nil
  then show ?case by (intro exI[of _ "[ml_out ml n mine]"] exI[of _ False] exI[of _ mine] exI[of _ n]) simp
next
  case (Cons i ins)
  let ?m = "ml_out ml n mine"
  obtain x where wire: "tn_wire i = WireStart x" using Cons.prems(2) not_ok by auto
  let ?d = "elapsed (tn_now i) time" and ?b = "ml_in ml (tn_read i) x"
  consider (bad) "\<not> tn_responder i \<or> (\<exists>e. tn_sent i = Inl e)"
    | (time) "tn_responder i" "tn_sent i = Inr ()" "tn_now i + (?d + second) < ?b"
    | (late) "tn_responder i" "tn_sent i = Inr ()" "\<not> tn_now i + (?d + second) < ?b"
    by (cases "tn_sent i") auto
  then show ?case
  proof cases
    case bad
    then have "outs = []" "\<And>t. r \<noteq> Some (Inl t)"
      using Cons.prems(1) by (cases "tn_responder i"; auto simp: wire Let_def split: if_splits)+
    then show ?thesis
      by (intro exI[of _ "[?m]"] exI[of _ False] exI[of _ mine] exI[of _ n]) simp
  next
    case time
    obtain o1 where o1: "sync_run ml sync_leader ins (time, mine) = (o1, r)" "outs = WireOk # o1"
      using Cons.prems(1) time by (auto simp: wire Let_def split: prod.splits)
    have confirmed: "o1 = [] \<and> (\<forall>t. r = Some (Inl t) \<longrightarrow> t = mine \<and> WireOk \<in> set (arrived ins))"
    proof (cases ins)
      case Nil
      then show ?thesis using o1(1) by simp
    next
      case (Cons j js)
      then have "tn_wire j = WireOk"
        using o1(2) \<open>prefix (oks (arrived (i # ins))) (False # oks outs)\<close> by simp
      then show ?thesis using o1(1) Cons by (cases "tn_responder j") (auto split: if_splits)
    qed
    then show ?thesis
      using o1(2) by (intro exI[of _ "[?m]"] exI[of _ True] exI[of _ mine] exI[of _ n]) auto
  next
    case late
    let ?mine = "tn_now i + (?d * 2 + 2 * second)"
    obtain o1 where o1: "sync_run ml sync_leader ins (tn_now i, ?mine) = (o1, r)"
      "outs = WireStart (ml_out ml (tn_written i) ?mine) # o1"
      using Cons.prems(1) late by (auto simp: wire Let_def split: prod.splits)
    then have "prefix (oks (arrived ins)) (False # oks o1)" using Cons.prems(2) by simp
    from Cons.IH[OF o1(1) this, of "tn_written i"] obtain ms c b k
      where "WireStart (ml_out ml (tn_written i) ?mine) # o1 = proposals ms c" "ms \<noteq> []" "last ms = ml_out ml k b"
      "\<forall>t. r = Some (Inl t) \<longrightarrow> c \<and> t = b \<and> WireOk \<in> set (arrived ins)" by blast
    then show ?thesis
      using o1(2) by (intro exI[of _ "?m # ms"] exI[of _ c] exI[of _ b] exI[of _ k]) auto
  qed
qed

text \<open>A follower sends on what it takes, each proposal read and written again, up to the
  confirmation, and begins at the last proposal as it read it.\<close>

definition relayed :: "millis \<Rightarrow> int \<Rightarrow> int \<Rightarrow> bool" where
  "relayed ml m m' \<longleftrightarrow> (\<exists>k n. m' = ml_out ml n (ml_in ml k m))"

lemma relays_exist: "\<exists>ms'. list_all2 (relayed ml) ms ms'"
  by (intro exI[of _ "List.map (\<lambda>m. ml_out ml 0 (ml_in ml 0 m)) ms"])
     (auto simp: list_all2_conv_all_nth relayed_def)

lemma follower_run:
  assumes "sync_run ml sync_follower ins mine = (outs, r)" "prefix (arrived ins) (proposals ms confirmed)"
  shows "\<exists>ms'. list_all2 (relayed ml) ms ms' \<and> prefix outs (proposals ms' confirmed)
    \<and> (\<forall>t. r = Some (Inl t) \<longrightarrow> confirmed \<and> (if ms = [] then t = mine else \<exists>k. t = ml_in ml k (last ms)))
    \<and> (WireOk \<in> set outs \<longrightarrow> (\<exists>t. r = Some (Inl t)))"
  using assms
proof (induction ins arbitrary: mine outs r ms)
  case Nil
  then show ?case using relays_exist[of ml ms] by auto
next
  case (Cons i ins)
  note run = \<open>sync_run ml sync_follower (i # ins) mine = (outs, r)\<close>
  show ?case
  proof (cases ms)
    case Nil
    then have m: "confirmed" "tn_wire i = WireOk" using Cons.prems(2) by (cases confirmed; simp)+
    then show ?thesis using Cons.prems(1) Nil by (cases "tn_responder i"; cases "tn_sent i") (auto split: if_splits)
  next
    case (Cons m ms1)
    then have m: "tn_wire i = WireStart m" "prefix (arrived ins) (proposals ms1 confirmed)"
      using \<open>prefix (arrived (i # ins)) (proposals ms confirmed)\<close> by simp_all
    let ?t = "ml_in ml (tn_read i) m"
    show ?thesis
    proof (cases "tn_responder i \<and> tn_sent i = Inr ()")
      case True
      obtain o1 where o1: "sync_run ml sync_follower ins ?t = (o1, r)"
        "outs = WireStart (ml_out ml (tn_written i) ?t) # o1"
        using m(1) True run by (auto split: prod.splits)
      from Cons.IH[OF o1(1) m(2)] obtain ms' where ms': "list_all2 (relayed ml) ms1 ms'"
        "prefix o1 (proposals ms' confirmed)"
        "\<forall>t. r = Some (Inl t) \<longrightarrow> confirmed \<and> (if ms1 = [] then t = ?t else \<exists>k. t = ml_in ml k (last ms1))"
        "WireOk \<in> set o1 \<longrightarrow> (\<exists>t. r = Some (Inl t))" by blast
      have "relayed ml m (ml_out ml (tn_written i) ?t)" by (auto simp: relayed_def)
      then show ?thesis
        using ms' o1(2) Cons
        by (intro exI[of _ "ml_out ml (tn_written i) ?t # ms'"]) auto
    next
      case False
      then have "outs = []" "\<And>t. r \<noteq> Some (Inl t)"
        using run m(1) by (cases "tn_responder i"; cases "tn_sent i"; auto)+
      then show ?thesis using relays_exist[of ml ms] by auto
    qed
  qed
qed

lemma relayed_error:
  assumes "keeps_time eps clock ml" "relayed ml m m'" "\<bar>m * 10 ^ 6 - T\<bar> \<le> e"
  shows "\<bar>m' * 10 ^ 6 - T\<bar> \<le> e + 2 * eps"
proof -
  obtain k n where m': "m' = ml_out ml n (ml_in ml k m)" using assms(2) by (auto simp: relayed_def)
  have "\<bar>m' * 10 ^ 6 - clock (ml_in ml k m)\<bar> \<le> eps" "\<bar>clock (ml_in ml k m) - m * 10 ^ 6\<bar> \<le> eps"
    using assms(1) by (simp_all only: keeps_time_def m')
  then show ?thesis using assms(3) by linarith
qed

text \<open>What comes back over the ring has passed every host of it.\<close>

lemma confirmation_passes_all:
  assumes "ring_passes out hs back" "prefix out (proposals ms confirmed)" "WireOk \<in> set back"
  shows "\<forall>h \<in> set hs. \<exists>t. follower_end h = Some (Inl t)"
  using assms(1,2)
proof (induction hs arbitrary: out ms)
  case (Cons h hs)
  obtain o1 r where run: "sync_run (rh_millis h) sync_follower (rh_turns h) (rh_mine h) = (o1, r)" by force
  have here: "follower_passes h = o1" "follower_end h = r"
    by (simp_all add: follower_passes_def follower_end_def run)
  have pre: "prefix (arrived (rh_turns h)) (proposals ms confirmed)" "ring_passes o1 hs back"
    using Cons.prems prefix_order.trans by (auto simp: here)
  obtain ms' where ms': "prefix o1 (proposals ms' confirmed)" "WireOk \<in> set o1 \<longrightarrow> (\<exists>t. r = Some (Inl t))"
    using follower_run[OF run pre(1)] by blast
  have rest: "\<forall>h \<in> set hs. \<exists>t. follower_end h = Some (Inl t)" by (rule Cons.IH[OF pre(2) ms'(1)])
  have "WireOk \<in> set o1"
    using ring_back_prefix[OF pre(2)] assms(3) set_mono_prefix unfolding confirmation_in by blast
  then show ?case using ms'(2) rest by (simp add: here)
qed simp

text \<open>The begin time of the host at place \<^verbatim>\<open>k\<close> of the ring.\<close>

lemma ring_times:
  assumes "ring_passes out hs back" "prefix out (proposals ms confirmed)" "ms \<noteq> []"
    and "\<forall>h \<in> set hs. keeps_time eps (rh_real h) (rh_millis h)" "\<bar>last ms * 10 ^ 6 - T\<bar> \<le> e"
    and "k < length hs" "follower_end (hs ! k) = Some (Inl t)"
  shows "\<bar>rh_real (hs ! k) t - T\<bar> \<le> e + (2 * int k + 1) * eps"
  using assms
proof (induction hs arbitrary: out ms e k)
  case (Cons h hs)
  obtain o1 r where run: "sync_run (rh_millis h) sync_follower (rh_turns h) (rh_mine h) = (o1, r)" by force
  have here: "follower_passes h = o1" "follower_end h = r"
    by (simp_all add: follower_passes_def follower_end_def run)
  have pre: "prefix (arrived (rh_turns h)) (proposals ms confirmed)" "ring_passes o1 hs back"
    using Cons.prems(1,2) prefix_order.trans by (auto simp: here)
  obtain ms' where ms': "list_all2 (relayed (rh_millis h)) ms ms'" "prefix o1 (proposals ms' confirmed)"
    "\<forall>t. r = Some (Inl t) \<longrightarrow> (\<exists>k. t = ml_in (rh_millis h) k (last ms))"
    using follower_run[OF run pre(1)] Cons.prems(3) by auto
  have kt: "keeps_time eps (rh_real h) (rh_millis h)" using Cons.prems(4) by simp
  show ?case
  proof (cases k)
    case 0
    then obtain n where "t = ml_in (rh_millis h) n (last ms)" using ms'(3) Cons.prems(7) by (auto simp: here)
    then have "\<bar>rh_real h t - last ms * 10 ^ 6\<bar> \<le> eps" using kt by (simp only: keeps_time_def)
    then show ?thesis using Cons.prems(5) 0 by simp
  next
    case (Suc j)
    have ne: "ms' \<noteq> []" using ms'(1) Cons.prems(3) by auto
    have "relayed (rh_millis h) (last ms) (last ms')"
      using ms'(1) Cons.prems(3) ne list_all2_lengthD[OF ms'(1)]
      by (simp add: last_conv_nth list_all2_conv_all_nth)
    from relayed_error[OF kt this Cons.prems(5)]
    have "\<bar>rh_real (hs ! j) t - T\<bar> \<le> (e + 2 * eps) + (2 * int j + 1) * eps"
      using Cons.IH[OF pre(2) ms'(2) ne] Cons.prems(4,6,7) Suc by simp
    then show ?thesis using Suc by (simp add: algebra_simps)
  qed
qed simp

lemma ring_agreement:
  assumes "sync_leader_start t0 = (s, first)" "sync_run ml sync_leader li s = (out, r)"
    and ring: "ring_passes (List.map (synchro_to_wire ml n) first @ out) hs (arrived li)"
    and time: "keeps_time eps clock ml" "\<forall>h \<in> set hs. keeps_time eps (rh_real h) (rh_millis h)"
  shows "\<exists>T. (\<forall>b. begins_at r b \<longrightarrow> clock b = T \<and> (\<forall>h \<in> set hs. \<exists>t. begins_at (follower_end h) t))
    \<and> (\<forall>k < length hs. \<forall>t. begins_at (follower_end (hs ! k)) t
         \<longrightarrow> \<bar>rh_real (hs ! k) t - T\<bar> \<le> 2 * (int k + 1) * eps)"
proof -
  let ?mine = "t0 + 5 * second"
  have s: "s = (t0, ?mine)" "first = [EmulStart ?mine]"
    using assms(1) by (simp_all add: sync_leader_start_def)
  have pre: "prefix (oks (arrived li)) (False # oks out)"
    using ring_back_prefix[OF ring] by (simp add: s)
  obtain ms c b k where ms: "WireStart (ml_out ml n ?mine) # out = proposals ms c" "ms \<noteq> []"
    "last ms = ml_out ml k b" "\<forall>t. r = Some (Inl t) \<longrightarrow> c \<and> t = b \<and> WireOk \<in> set (arrived li)"
    using leader_run[OF assms(2)[unfolded s(1)] pre, of n] by blast
  have out: "prefix (List.map (synchro_to_wire ml n) first @ out) (proposals ms c)" using ms(1) by (simp add: s)
  have "\<bar>last ms * 10 ^ 6 - clock b\<bar> \<le> eps" using time(1) ms(3) by (simp only: keeps_time_def)
  from ring_times[OF ring out ms(2) time(2) this]
  have "\<bar>rh_real (hs ! j) t - clock b\<bar> \<le> 2 * (int j + 1) * eps"
    if "j < length hs" "follower_end (hs ! j) = Some (Inl t)" for j t
    using that by (simp add: algebra_simps)
  moreover have "\<forall>h \<in> set hs. \<exists>t. follower_end h = Some (Inl t)" if "r = Some (Inl t)" for t
    using confirmation_passes_all[OF ring out] ms(4) that by simp
  ultimately show ?thesis
    using ms(4) by (intro exI[of _ "clock b"]) (auto simp: begins_at_def)
qed

section \<open>Events\<close>

definition next_status :: "event_action \<Rightarrow> app_status \<Rightarrow> app_status" where
  "next_status a s =
     (case a of
        Join \<Rightarrow> if s = NotInit \<or> s = Stopped then Running else s
      | Quit \<Rightarrow> Stopped
      | Crash \<Rightarrow> Crashed)"

lemma remove_all_flows_core:
  "remove_all_flows_from w n st = Some (es, Inr st1) \<Longrightarrow> el_core st1 = el_core st"
  by (auto simp: remove_all_flows_from_def act_bind_eq_Some)

lemma on_event_status:
  assumes run: "on_event w ev st = Some (es, Inr st')" and d: "hm_distinct node_eq (ec_apps (el_core st))"
    and app: "event_app (el_core st) (ev_app_id ev) = Some (n, s)"
  shows "hm_get node_eq (ec_apps (el_core st')) k
    = (if node_eq n k then Some (next_status (ev_action ev) s) else hm_get node_eq (ec_apps (el_core st)) k)"
proof -
  let ?apps = "ec_apps (el_core st)"
  obtain ps where "rev (filter (\<lambda>(n, _). node_is_same_by_id n (ev_app_id ev)) ?apps) = (n, s) # ps"
    using app by (simp add: event_app_def split: list.splits)
  then have "(n, s) \<in> set (rev (filter (\<lambda>(n, _). node_is_same_by_id n (ev_app_id ev)) ?apps))" by simp
  then have mem: "(n, s) \<in> set ?apps" by simp
  have get: "hm_get node_eq ?apps n = Some s" by (rule nd.hm_get_member[OF d mem])
  then have get_k: "hm_get node_eq ?apps k = Some s" if "node_eq n k"
    using nd.hm_get_cong[OF that, of ?apps] by simp
  have set_st: "hm_get node_eq (ec_apps (el_core (set_status n v st1))) k
      = (if node_eq n k then Some v else hm_get node_eq ?apps k)" if "el_core st1 = el_core st" for v st1
    using that get_k by (cases "node_eq n k") (simp_all add: set_status_def nd.hm_get_update)
  show ?thesis
  proof (cases "ev_action ev")
    case Join
    then have run: "on_join w n s st = Some (es, Inr st')" using run app by (simp add: on_event_def)
    show ?thesis
    proof (cases "s = NotInit \<or> s = Stopped")
      case True
      then have "st' = set_status n Running st"
        using run by (auto simp: on_join_def act_bind_eq_Some)
      then show ?thesis using set_st[of st Running] Join True by (simp add: next_status_def)
    next
      case False
      then have "st' = st" using run by (cases s) (auto simp: on_join_def)
      then show ?thesis
        using Join False get_k by (auto simp: next_status_def)
    qed
  next
    case Quit
    then obtain st1 where "st' = set_status n Stopped st1" "el_core st1 = el_core st"
      using run app by (auto simp: on_event_def on_quit_def act_bind_eq_Some dest: remove_all_flows_core)
    then show ?thesis using set_st Quit by (simp add: next_status_def)
  next
    case Crash
    then obtain st1 where "st' = set_status n Crashed st1" "el_core st1 = el_core st"
      using run app by (auto simp: on_event_def on_crash_def act_bind_eq_Some dest: remove_all_flows_core)
    then show ?thesis using set_st Crash by (simp add: next_status_def)
  qed
qed

section \<open>Updates of flows\<close>

definition host_sends :: "ec_effect list \<Rightarrow> ec_effect list" where
  "host_sends es = filter (\<lambda>e. case e of ToHost _ _ \<Rightarrow> True | _ \<Rightarrow> False) es"

definition flow_copies :: "ec_world \<Rightarrow> emul_core \<Rightarrow> flow_conf \<Rightarrow> ec_effect list" where
  "flow_copies w c fc =
     map (\<lambda>host. ToHost host (EmulCoreInterchange (cw_show w (ec_id c)) (FlowUpdate fc))) (ec_others c)"

lemma broadcast_sent:
  "broadcast_flow w fc hosts u = Some (es, Inr r)
   \<Longrightarrow> es = map (\<lambda>host. ToHost host (EmulCoreInterchange (cw_show w u) (FlowUpdate fc))) hosts"
  unfolding broadcast_flow_def by (induction hosts arbitrary: es) (auto simp: act_bind_eq_Some)

lemma to_my_app_sent: "to_my_app w c n m = Some (es, r) \<Longrightarrow> es = [ToReporter n m]"
  by (auto simp: to_my_app_def to_reporter_def split: option.splits)

lemma host_sends_simps [simp]:
  "host_sends [] = []" "host_sends (es @ es') = host_sends es @ host_sends es'"
  "host_sends (ToReporter n m # es) = host_sends es" "host_sends (flow_copies w c fc) = flow_copies w c fc"
  by (simp_all add: host_sends_def flow_copies_def)

text \<open>Both ends belong to the emulation, and the first of them runs on this host.\<close>

definition source_here :: "emul_core \<Rightarrow> flow_conf \<Rightarrow> bool" where
  "source_here c fc \<longleftrightarrow> (\<exists>src dest. hm_get (=) (ec_ip c) (fc_src fc) = Some src
     \<and> hm_get (=) (ec_ip c) (fc_dest fc) = Some dest \<and> node_runs_on src (ec_myself c) = Some True)"

lemma on_flow_update_sent:
  assumes run: "on_flow_update w fc st = Some (es, Inr st')"
  shows "host_sends es = (if source_here (el_core st) fc then flow_copies w (el_core st) fc else [])"
    and "el_core st' = el_core st"
proof -
  let ?c = "el_core st"
  have "host_sends es = (if source_here ?c fc then flow_copies w ?c fc else []) \<and> el_core st' = ?c"
  proof (cases "hm_get (=) (ec_ip ?c) (fc_src fc) = None \<or> hm_get (=) (ec_ip ?c) (fc_dest fc) = None")
    case True
    then have "on_flow_update w fc st = act_return st"
      by (cases "hm_get (=) (ec_ip ?c) (fc_src fc)") (auto simp: on_flow_update_def Let_def)
    with run have "es = []" "st' = st" by simp_all
    then show ?thesis using True by (auto simp: source_here_def)
  next
    case False
    then obtain src dest where ends: "hm_get (=) (ec_ip ?c) (fc_src fc) = Some src"
      "hm_get (=) (ec_ip ?c) (fc_dest fc) = Some dest" by auto
    obtain ps flows bw del mine where props: "node_runs_on src (ec_myself ?c) = Some mine"
      "st' = st\<lparr>el_flows := flows, el_bw := bw\<rparr>"
      and sends: "(if mine then
          act_bind (if del then act_bind (act_unwrap (node_ip dest)) (\<lambda>ip. to_my_app w ?c src (ps ip)) else act_return ())
            (\<lambda>_. broadcast_flow w fc (ec_others ?c) (ec_id ?c))
        else act_return ()) = Some (es, Inr ())"
      using run ends
      by (auto simp: on_flow_update_def Let_def act_bind_eq_Some split: option.splits)
    have "host_sends es = (if mine then flow_copies w ?c fc else [])"
      using sends by (auto simp: act_bind_eq_Some flow_copies_def[symmetric]
          dest!: broadcast_sent to_my_app_sent split: if_splits)
    then show ?thesis using props ends by (auto simp: source_here_def)
  qed
  then show "host_sends es = (if source_here ?c fc then flow_copies w ?c fc else [])" "el_core st' = ?c"
    by simp_all
qed

section \<open>The start of a core\<close>

lemma launch_reporters_nodes:
  "launch_reporters w u fs path ns = Some (es, Inr sockets)
   \<Longrightarrow> hs_contains node_eq (hm_keys sockets) k = hs_contains node_eq ns k"
proof (induction ns arbitrary: es sockets)
  case Nil
  then show ?case by (simp add: hm_keys_def)
next
  case (Cons n ns)
  then obtain es' sockets' tc where "launch_reporters w u fs path ns = Some (es', Inr sockets')"
    "sockets = hm_insert node_eq n tc sockets'"
    by (auto simp: act_bind_eq_Some split: if_splits)
  then show ?case
    using Cons.IH by (auto simp: nd.hm_keys_insert nd.hs_contains_insert hs_contains_simps)
qed

lemma connect_reporters_apps:
  "connect_reporters w ns c = Some (es, c', Inr u)
   \<Longrightarrow> hm_get node_eq (ec_apps c') k
       = (if hs_contains node_eq ns k then Some NotInit else hm_get node_eq (ec_apps c) k)"
  by (induction ns arbitrary: c es)
    (auto simp: hs_contains_simps nd.hm_get_insert split: option.splits sum.splits)

text \<open>A core that starts has exactly the applications of its host, none of them joined.\<close>

lemma init_emulation_apps:
  assumes "init_emulation w path c = Some (es, c', entered, Inr u)" "ec_apps c = []"
  shows "\<exists>mine. my_nodes c = Some mine \<and> entered
    \<and> (\<forall>k. hm_get node_eq (ec_apps c') k = (if hs_contains node_eq mine k then Some NotInit else None))"
proof -
  obtain fs mine les sockets es' u' where
    "my_nodes c = Some mine" "launch_reporters w (ec_id c) fs path mine = Some (les, Inr sockets)"
    "connect_reporters w (hm_keys sockets) c = Some (es', c', Inr u')" "entered"
    using assms(1) by (auto simp: init_emulation_def split: option.splits sum.splits)
  then show ?thesis
    using launch_reporters_nodes connect_reporters_apps[of w "hm_keys sockets" c] assms(2) by auto
qed

lemma report_abort_result:
  "report_abort tw w u es s = Some (es', s') \<longleftrightarrow>
     tw_leader tw (Abort (gw_show_uuid w u)) = Inr () \<and> es' = es @ [Tell (Abort (gw_show_uuid w u))] \<and> s' = s"
  by (auto simp: report_abort_def split: sum.split)

lemma create_emulation_started:
  assumes run: "create_emulation tw w emul om s = Some (es, s')"
    and ready: "Tell (EmulationReady (gw_show_uuid w (em_uuid emul)) (mg_myself s)) \<in> set es"
  shows "\<exists>c'. hm_get (=) (mg_cores s') (em_uuid emul) = Some c' \<and> em_uuid emul \<in> set (mg_channels s')
    \<and> (\<forall>k. hm_get node_eq (ec_apps c') k
        = (if \<exists>n. placed_on (em_graph emul) (mg_myself s) n \<and> node_eq n k then Some NotInit else None))"
proof -
  obtain c where c: "ec_new emul (mg_myself s) om = Some c"
    using run by (auto simp: create_emulation_def Let_def split: option.splits)
  obtain ies c' entered r where i: "init_emulation (tw_init tw) (mg_reporter_path s) c = Some (ies, c', entered, r)"
    using run c by (auto simp: create_emulation_def Let_def split: option.splits)
  have "ec_apps c = []" using ec_new_id[OF c] by simp
  note apps = init_emulation_apps[OF _ this]
  show ?thesis
  proof (cases r)
    case (Inl e)
    then show ?thesis
      using run c i ready by (auto simp: create_emulation_def Let_def report_abort_result split: option.splits)
  next
    case (Inr u)
    then have "s' = s\<lparr>mg_channels := hs_insert (=) (em_uuid emul) (mg_channels s),
        mg_cores := hm_insert (=) (em_uuid emul) c' (mg_cores s)\<rparr>"
      using run c i by (auto simp: create_emulation_def Let_def report_abort_result split: sum.splits)
    moreover obtain mine where "my_nodes c = Some mine"
      "\<forall>k. hm_get node_eq (ec_apps c') k = (if hs_contains node_eq mine k then Some NotInit else None)"
      using apps[OF i[unfolded Inr]] by blast
    moreover have "ec_graph c = em_graph emul" "ec_myself c = mg_myself s" using c by (auto simp: ec_new_def)
    moreover have "hs_contains node_eq mine k \<longleftrightarrow> (\<exists>n. n \<in> set mine \<and> node_eq n k)" for k
      by (auto simp: hs_contains_def list_ex_iff)
    ultimately show ?thesis
      by (intro exI[of _ c']) (simp add: hol_eq.hm_get_insert plain_sets my_nodes_placed)
  qed
qed

text \<open>When a reporter cannot be launched, the containers started before it stay: the core that is
  dropped has no application yet.\<close>

lemma create_emulation_leaks:
  assumes c: "ec_new emul (mg_myself s) om = Some c" and mine: "my_nodes c = Some mine"
    and sockets: "generate_flow_socket (tw_init tw) (em_uuid emul) = Inr fs" "iw_flow_socket (tw_init tw) = Inr ()"
    and fails: "launch_reporters (tw_init tw) (em_uuid emul) fs (mg_reporter_path s) mine = Some (ies, Inl e)"
    and told: "tw_leader tw (Abort (gw_show_uuid w (em_uuid emul))) = Inr ()"
  shows "create_emulation tw w emul om s = Some (map Init ies @ [Tell (Abort (gw_show_uuid w (em_uuid emul)))],
      s\<lparr>mg_channels := hs_remove (=) (em_uuid emul) (mg_channels s)\<rparr>)"
proof -
  have "init_emulation (tw_init tw) (mg_reporter_path s) c = Some (ies, c, False, Inl e)"
    using ec_new_id[OF c] mine sockets fails by (simp add: init_emulation_def)
  moreover have "ec_drop (tw_core tw) c = Some []" using ec_new_id[OF c] by (simp add: ec_drop_def)
  ultimately show ?thesis using c told by (simp add: create_emulation_def report_abort_def Let_def)
qed

end
