(* ===== verification/Topology.thy ===== *)
theory Topology
  imports Data
begin

text \<open>
  The parser of topology files (\<^verbatim>\<open>emulation/src/xmlgraphparser.rs\<close>). The XML library
  (\<^verbatim>\<open>roxmltree\<close>) and the regular expression library are parameters: the parsed document
  is a tree of elements, and the two captures of the one pattern are a function of the text.
  \<^verbatim>\<open>from_str\<close> of the floating-point types is the standard library's: the decimal number
  is rounded once. Every unwrap is a panic (\<^verbatim>\<open>None\<close>), every error of the parser an
  error value.
\<close>

section \<open>Floating-point numbers\<close>

definition is_digit :: "char \<Rightarrow> bool" where
  "is_digit c \<longleftrightarrow> digit_val c \<noteq> None"

definition ascii_lower :: "char \<Rightarrow> char" where
  "ascii_lower c = (let k = (of_char c :: nat) in if 65 \<le> k \<and> k \<le> 90 then char_of (k + 32) else c)"

definition take_sign :: "string \<Rightarrow> bool \<times> string" where
  "take_sign s =
     (case s of
        c # r \<Rightarrow> if c = CHR ''-'' then (True, r) else if c = CHR ''+'' then (False, r) else (False, s)
      | [] \<Rightarrow> (False, []))"

definition take_digits :: "string \<Rightarrow> string \<times> string" where
  "take_digits s = (takeWhile is_digit s, dropWhile is_digit s)"

text \<open>The exponent after the digits: nothing, or a sign and at least one digit.\<close>

definition parse_exponent :: "string \<Rightarrow> int option" where
  "parse_exponent s =
     (case s of
        [] \<Rightarrow> Some 0
      | c # r \<Rightarrow>
          if ascii_lower c \<noteq> CHR ''e'' then None
          else (let (neg, ds) = take_sign r
                in if ds = [] then None
                   else map_option (\<lambda>n. if neg then - int n else int n) (digits_val 0 ds)))"

definition pow10 :: "int \<Rightarrow> rat" where
  "pow10 e = (if 0 \<le> e then 10 ^ nat e else 1 / 10 ^ nat (- e))"

definition parse_decimal :: "string \<Rightarrow> rat option" where
  "parse_decimal s =
     (let (whole, r) = take_digits s;
          (frac, r') = (case r of c # t \<Rightarrow> if c = CHR ''.'' then take_digits t else ([], r) | [] \<Rightarrow> ([], []))
      in if whole = [] \<and> frac = [] then None
         else (case (digits_val 0 (whole @ frac), parse_exponent r') of
                 (Some n, Some e) \<Rightarrow> Some (of_nat n * pow10 (e - int (length frac)))
               | _ \<Rightarrow> None))"

definition float_from_str :: "fformat \<Rightarrow> string \<Rightarrow> fval option" where
  "float_from_str fmt s =
     (let (neg, r) = take_sign s; l = map ascii_lower r
      in if l = ''inf'' \<or> l = ''infinity'' then Some (if neg then NInf else PInf)
         else if l = ''nan'' then Some NaN
         else map_option (\<lambda>q. fround fmt (if neg then - q else q)) (parse_decimal r))"

section \<open>Documents\<close>

datatype xml = Element string "(string \<times> string) list" "xml list" | Other

fun tag_name :: "xml \<Rightarrow> string" where
  "tag_name (Element t _ _) = t"
| "tag_name Other = []"

fun attribute :: "xml \<Rightarrow> string \<Rightarrow> string option" where
  "attribute (Element _ attrs _) name = map_of attrs name"
| "attribute Other name = None"

fun children :: "xml \<Rightarrow> xml list" where
  "children (Element _ _ cs) = cs"
| "children Other = []"

fun is_element :: "xml \<Rightarrow> bool" where
  "is_element (Element _ _ _) \<longleftrightarrow> True"
| "is_element Other \<longleftrightarrow> False"

definition has_attribute :: "xml \<Rightarrow> string \<Rightarrow> bool" where
  "has_attribute n name \<longleftrightarrow> attribute n name \<noteq> None"

text \<open>\<^verbatim>\<open>to_uppercase\<close>, as far as the keywords can tell: outside ASCII only the dotless i and
  the long s have a keyword letter as upper case.\<close>

fun to_uppercase :: "string \<Rightarrow> string" where
  "to_uppercase (a # b # s) =
     (if a = CHR 0xC4 \<and> b = CHR 0xB1 then CHR ''I'' # to_uppercase s
      else if a = CHR 0xC5 \<and> b = CHR 0xBF then CHR ''S'' # to_uppercase s
      else ascii_upper a # to_uppercase (b # s))"
| "to_uppercase [a] = [ascii_upper a]"
| "to_uppercase [] = []"

text \<open>The libraries: the top-level nodes of a document or a parse error, the captures of
  \<^verbatim>\<open>([0-9]+)([KMG])bps\<close>, the parser of IP addresses, the printer of identifiers, and
  the order in which a hash map lists its entries.\<close>

record libs =
  lb_document :: "string \<Rightarrow> xml list option"
  lb_captures :: "string \<Rightarrow> (string \<times> string) option"
  lb_ip :: "string \<Rightarrow> ip_addr option"
  lb_uuid :: "uuid \<Rightarrow> string"
  lb_order :: "(string \<times> node) list \<Rightarrow> (string \<times> node) list"

section \<open>Results that may panic\<close>

type_synonym 'a outcome = "'a result option"

definition out_bind :: "'a outcome \<Rightarrow> ('a \<Rightarrow> 'b outcome) \<Rightarrow> 'b outcome" where
  "out_bind m f = (case m of None \<Rightarrow> None | Some (Inl e) \<Rightarrow> Some (Inl e) | Some (Inr x) \<Rightarrow> f x)"

definition out_unwrap :: "'a option \<Rightarrow> 'a outcome" where
  "out_unwrap m = map_option Inr m"

definition produce_err :: "string \<Rightarrow> 'a outcome" where
  "produce_err text = Some (Inl (error_new ''parse topology'' Parse text))"

definition out_require :: "bool \<Rightarrow> string \<Rightarrow> unit outcome" where
  "out_require b text = (if b then Some (Inr ()) else produce_err text)"

fun out_fold :: "('a \<Rightarrow> 's \<Rightarrow> 's outcome) \<Rightarrow> 'a list \<Rightarrow> 's \<Rightarrow> 's outcome" where
  "out_fold f [] s = Some (Inr s)"
| "out_fold f (x # xs) s = out_bind (f x s) (out_fold f xs)"

lemma out_bind_simps [simp]:
  "out_bind None f = None"
  "out_bind (Some (Inl e)) f = Some (Inl e)"
  "out_bind (Some (Inr x)) f = f x"
  by (simp_all add: out_bind_def)

lemma out_bind_eq: "out_bind m f = Some (Inr y) \<longleftrightarrow> (\<exists>x. m = Some (Inr x) \<and> f x = Some (Inr y))"
  by (auto simp: out_bind_def split: option.splits sum.splits)

lemma out_unwrap_eq [simp]: "out_unwrap m = Some (Inr x) \<longleftrightarrow> m = Some x"
  by (auto simp: out_unwrap_def)

lemma out_require_eq [simp]: "out_require b t = Some (Inr u) \<longleftrightarrow> b"
  by (simp add: out_require_def produce_err_def)

lemma produce_err_eq [simp]: "produce_err t \<noteq> Some (Inr x)"
  by (simp add: produce_err_def)

lemma out_fold_invar:
  assumes "out_fold f xs s = Some (Inr s')" "I s"
    and "\<And>x s s'. x \<in> set xs \<Longrightarrow> I s \<Longrightarrow> f x s = Some (Inr s') \<Longrightarrow> I s'"
  shows "I s'"
  using assms by (induction xs arbitrary: s) (auto simp: out_bind_eq)

section \<open>Services and bridges\<close>

definition produce_name_for_container :: "libs \<Rightarrow> uuid \<Rightarrow> u32 \<Rightarrow> string" where
  "produce_name_for_container lb emul_id ident =
     ''kollaps_'' @ lb_uuid lb emul_id @ ''_'' @ show_nat (unat ident)"

definition service_kind_of :: "libs \<Rightarrow> uuid \<Rightarrow> u32 \<Rightarrow> xml \<Rightarrow> application_kind outcome" where
  "service_kind_of lb emul_id current_node service =
     (case attribute service ''kind'' of
        None \<Rightarrow> produce_err ''No \"kind\" attribute detected on the service!''
      | Some kind \<Rightarrow>
          if to_uppercase kind = ''CONTAINER'' then
            (if \<not> has_attribute service ''image'' \<and> \<not> has_attribute service ''command''
                \<and> has_attribute service ''name'' \<and> has_attribute service ''ip''
             then produce_err ''Attaching to an existing container is not supported for now''
             else (case (attribute service ''image'', attribute service ''command'') of
                     (Some img, Some command) \<Rightarrow>
                       out_bind
                         (out_unwrap (container_config_new (produce_name_for_container lb emul_id current_node)
                            None (Some (img, Some command))))
                         (\<lambda>c. Some (Inr (Container c)))
                   | _ \<Rightarrow> produce_err ''A Container Service must have no image+command attribute if attaching to existing one, or have image+command if we must deploy one.''))
          else if to_uppercase kind = ''BAREMETAL'' then Some (Inr BareMetal)
          else produce_err ''Kind can be either baremetal | container'')"

definition parse_service ::
  "libs \<Rightarrow> uuid \<Rightarrow> xml \<Rightarrow> (string, node) hmap \<times> u32 \<Rightarrow> ((string, node) hmap \<times> u32) outcome" where
  "parse_service lb emul_id service st =
     (let (nodes, current_node) = st
      in if \<not> is_element service then Some (Inr st)
         else if tag_name service \<noteq> ''service''
         then produce_err (''Invalid tag inside <services> '' @ tag_name service)
         else out_bind (service_kind_of lb emul_id current_node service) (\<lambda>kind.
                case attribute service ''name'' of
                  None \<Rightarrow> produce_err ''A service must have a name''
                | Some name \<Rightarrow>
                    out_bind (case attribute service ''ip'' of
                                None \<Rightarrow> Some (Inr None)
                              | Some a \<Rightarrow> out_bind (out_unwrap (lb_ip lb a)) (\<lambda>ip. Some (Inr (Some ip))))
                      (\<lambda>ip. Some (Inr (hm_insert (=) name (App current_node (app_build ip None name kind)) nodes,
                                       current_node + 1)))))"

definition parse_services ::
  "libs \<Rightarrow> xml \<Rightarrow> uuid \<Rightarrow> (string, node) hmap \<Rightarrow> (string, node) hmap outcome" where
  "parse_services lb services emul_id nodes =
     out_bind (out_fold (parse_service lb emul_id) (children services) (nodes, of_nat (length nodes)))
       (\<lambda>(nodes', _). Some (Inr nodes'))"

definition parse_bridge :: "xml \<Rightarrow> (string, node) hmap \<times> u32 \<Rightarrow> ((string, node) hmap \<times> u32) outcome" where
  "parse_bridge bridge st =
     (let (nodes, current_node) = st
      in if \<not> is_element bridge then Some (Inr st)
         else if tag_name bridge \<noteq> ''bridge''
         then produce_err (''Invalid tag inside <bridges>: '' @ tag_name bridge)
         else (case attribute bridge ''name'' of
                 None \<Rightarrow> produce_err ''A bridge needs to have a name''
               | Some name \<Rightarrow> Some (Inr (hm_insert (=) name (Bridge current_node) nodes, current_node + 1))))"

definition parse_bridges :: "xml \<Rightarrow> (string, node) hmap \<Rightarrow> (string, node) hmap outcome" where
  "parse_bridges bridges nodes =
     out_bind (out_fold parse_bridge (children bridges) (nodes, of_nat (length nodes)))
       (\<lambda>(nodes', _). Some (Inr nodes'))"

definition process_active_paths :: "string \<Rightarrow> string list" where
  "process_active_paths activepaths =
     map (filter (\<lambda>c. c \<noteq> CHR 0x27))
       (split_on CHR '','' (filter (\<lambda>c. c \<noteq> CHR '']'') (filter (\<lambda>c. c \<noteq> CHR ''['') activepaths)))"

section \<open>Links\<close>

definition parse_bandwidth :: "libs \<Rightarrow> string \<Rightarrow> fval outcome" where
  "parse_bandwidth lb bandwidth =
     (case lb_captures lb bandwidth of
        None \<Rightarrow> Some (Inl (error_new ''xml parse bandwidth'' Parse ''cannot parse the bandwidth''))
      | Some (digits, multiplier) \<Rightarrow>
          (case float_from_str F32 digits of
             None \<Rightarrow> None
           | Some base \<Rightarrow>
               let base = (if multiplier = ''M'' then fmul F32 base (Fin 1024) else base);
                   base = (if multiplier = ''G'' then fmul F32 (fmul F32 base (Fin 1024)) (Fin 1024) else base)
               in Some (Inr base)))"

definition float_attribute :: "xml \<Rightarrow> string \<Rightarrow> fval option" where
  "float_attribute n name =
     (case attribute n name of None \<Rightarrow> Some (Fin 0) | Some s \<Rightarrow> float_from_str F32 s)"

text \<open>The error of the bandwidth is returned after the other attributes were parsed.\<close>

definition parse_link :: "libs \<Rightarrow> (string, node) hmap \<Rightarrow> xml \<Rightarrow> node network \<Rightarrow> node network outcome" where
  "parse_link lb name_to_node link network =
     (if \<not> is_element link then Some (Inr network)
      else if tag_name link \<noteq> ''link''
      then produce_err (''Invalid tag inside <link> '' @ tag_name link)
      else
        (case (attribute link ''origin'', attribute link ''dest'', attribute link ''bandwidth'') of
           (Some origin, Some dest, Some bw) \<Rightarrow>
             (case (hm_get (=) name_to_node origin, hm_get (=) name_to_node dest, parse_bandwidth lb bw,
                    float_attribute link ''jitter'', float_attribute link ''latency'', float_attribute link ''drop'') of
                (Some source, Some destination, Some bandwidth, Some jitter, Some latency, Some loss) \<Rightarrow>
                  out_bind (Some bandwidth) (\<lambda>b.
                    out_unwrap (net_add_edge_with_props node_eq network source destination (f_to_u32 b)
                      (latency, jitter) loss))
              | _ \<Rightarrow> None)
         | _ \<Rightarrow> produce_err ''Incomplete network description''))"

definition parse_links ::
  "libs \<Rightarrow> xml \<Rightarrow> (string, node) hmap \<Rightarrow> node network \<Rightarrow> node network outcome" where
  "parse_links lb links name_to_node network =
     out_fold (parse_link lb name_to_node) (children links) network"

section \<open>The schedule\<close>

definition parse_action :: "string \<Rightarrow> event_action outcome" where
  "parse_action s =
     (let u = to_uppercase s
      in if u = ''JOIN'' then Some (Inr Join)
         else if u = ''LEAVE'' then Some (Inr Quit)
         else if u = ''CRASH'' then Some (Inr Crash)
         else produce_err ''Event action not recognized'')"

text \<open>The name and the action are only rejected when both are missing; one missing panics.\<close>

definition parse_event ::
  "(string, node) hmap \<Rightarrow> xml \<Rightarrow> emulation_event list \<Rightarrow> emulation_event list outcome" where
  "parse_event name_to_service event events =
     (if \<not> is_element event then Some (Inr events)
      else if tag_name event \<noteq> ''schedule''
      then produce_err (''Only <schedule> is allowed inside <dynamic> '' @ tag_name event @ '' '')
      else
        out_bind
          (case attribute event ''time'' of
             None \<Rightarrow> Some (Inr (Fin 0))
           | Some s \<Rightarrow>
               (case float_from_str F64 s of
                  None \<Rightarrow> None
                | Some time \<Rightarrow>
                    if flt time (Fin 0) then produce_err ''time attribute must be a positive number''
                    else Some (Inr time)))
          (\<lambda>time.
            if \<not> has_attribute event ''name'' \<and> \<not> has_attribute event ''action''
            then produce_err ''Event must have an associated name and action''
            else
              (case (attribute event ''name'', attribute event ''action'') of
                 (Some node_name, Some action_text) \<Rightarrow>
                   out_bind (parse_action action_text) (\<lambda>action.
                     case hm_get (=) name_to_service node_name of
                       None \<Rightarrow> produce_err (''The node '' @ node_name
                                 @ '' found in the scheduled event is not in the services.'')
                     | Some n \<Rightarrow> Some (Inr (events @
                         [\<lparr>ev_app_id = node_id n, ev_time_ns = f_to_usize time * 10 ^ 9, ev_action = action\<rparr>])))
               | _ \<Rightarrow> None)))"

definition parse_schedule :: "(string, node) hmap \<Rightarrow> xml option \<Rightarrow> emulation_event list outcome" where
  "parse_schedule name_to_service dynamic =
     (case dynamic of
        None \<Rightarrow> Some (Inr [])
      | Some d \<Rightarrow> out_fold (parse_event name_to_service) (children d) [])"

section \<open>The whole document\<close>

text \<open>The four blocks: each may occur once.\<close>

record blocks =
  bl_services :: "xml option"
  bl_bridges :: "xml option"
  bl_links :: "xml option"
  bl_dynamic :: "xml option"

definition take_block :: "xml \<Rightarrow> blocks \<Rightarrow> blocks outcome" where
  "take_block n b =
     (if \<not> is_element n then Some (Inr b)
      else if tag_name n = ''services''
      then out_bind (out_require (bl_services b = None) ''Only one <services> block is allowed.'')
             (\<lambda>_. Some (Inr (b\<lparr>bl_services := Some n\<rparr>)))
      else if tag_name n = ''bridges''
      then out_bind (out_require (bl_bridges b = None) ''Only one <bridges> block is allowed.'')
             (\<lambda>_. Some (Inr (b\<lparr>bl_bridges := Some n\<rparr>)))
      else if tag_name n = ''links''
      then out_bind (out_require (bl_links b = None) ''Only one <links> block is allowed.'')
             (\<lambda>_. Some (Inr (b\<lparr>bl_links := Some n\<rparr>)))
      else if tag_name n = ''dynamic''
      then out_bind (out_require (bl_dynamic b = None) ''Only one <dynamic> block is allowed.'')
             (\<lambda>_. Some (Inr (b\<lparr>bl_dynamic := Some n\<rparr>)))
      else Some (Inr b))"

definition parse_nodes :: "libs \<Rightarrow> uuid \<Rightarrow> blocks \<Rightarrow> (string, node) hmap outcome" where
  "parse_nodes lb emul_id b =
     (case bl_services b of
        None \<Rightarrow> produce_err ''No services declared in topology''
      | Some services \<Rightarrow>
          out_bind (parse_services lb services emul_id []) (\<lambda>nodes.
            case bl_bridges b of None \<Rightarrow> Some (Inr nodes) | Some bridges \<Rightarrow> parse_bridges bridges nodes))"

definition parse_topology ::
  "libs \<Rightarrow> string \<Rightarrow> uuid \<Rightarrow> (node network \<times> emulation_event list) outcome" where
  "parse_topology lb document_text emul_id =
     (case lb_document lb document_text of
        Some (root_el # _) \<Rightarrow>
          out_bind (out_require (tag_name root_el = ''experiment'')
              ''Not a valid Kollaps topology file, root is not <experiment>'') (\<lambda>_.
          out_bind (out_require (has_attribute root_el ''boot'')
              ''<experiment boot = > The experiment needs a valid boostrapper image name'') (\<lambda>_.
          out_bind (out_fold take_block (children root_el)
              \<lparr>bl_services = None, bl_bridges = None, bl_links = None, bl_dynamic = None\<rparr>) (\<lambda>b.
          out_bind (parse_nodes lb emul_id b) (\<lambda>nodes_map.
          out_bind (out_unwrap (network_new node_eq (map snd (lb_order lb nodes_map)) ShortestPath)) (\<lambda>net.
            (case bl_links b of
               None \<Rightarrow> produce_err ''No links declared in topology''
             | Some links \<Rightarrow>
                 out_bind (parse_links lb links nodes_map net) (\<lambda>net'.
                 out_bind (parse_schedule nodes_map (bl_dynamic b)) (\<lambda>schedule. Some (Inr (net', schedule))))))))))
      | _ \<Rightarrow> None)"

end
