(* ===== verification/Topology_Props.thy ===== *)
theory Topology_Props
  imports Topology Netqueries
begin

text \<open>
  What a topology file that is accepted gives: a well-formed network whose vertices are the parsed
  services and bridges, with pairwise different identities, and events that all refer to them.
\<close>

section \<open>Node maps\<close>

definition identity :: "node \<Rightarrow> bool \<times> u32" where
  "identity n = (node_is_app n, node_id n)"

lemma node_eq_identity: "node_eq a b \<longleftrightarrow> identity a = identity b"
  by (simp add: node_eq_iff identity_def)

lemma hs_distinct_identity: "hs_distinct node_eq ns \<longleftrightarrow> distinct (map identity ns)"
  by (induction ns) (auto simp: hs_contains_iff node_eq_identity image_iff)

definition values_of :: "(string, node) hmap \<Rightarrow> node list" where
  "values_of m = map snd m"

lemma hm_insert_values:
  obtains rest where "mset (values_of (hm_insert (=) k v m)) = add_mset v rest" "rest \<subseteq># mset (values_of m)"
proof -
  have "\<exists>rest. mset (values_of (hm_insert (=) k v m)) = add_mset v rest \<and> rest \<subseteq># mset (values_of m)"
  proof (induction m)
    case (Cons p m)
    obtain a b where p: "p = (a, b)" by (cases p)
    show ?case
    proof (cases "a = k")
      case True
      then show ?thesis by (intro exI[of _ "mset (values_of m)"]) (auto simp: p values_of_def)
    next
      case False
      obtain rest where "mset (values_of (hm_insert (=) k v m)) = add_mset v rest" "rest \<subseteq># mset (values_of m)"
        using Cons by blast
      then show ?thesis using False
        by (intro exI[of _ "add_mset b rest"]) (auto simp: p values_of_def)
    qed
  qed (simp add: values_of_def)
  then show ?thesis using that by blast
qed

text \<open>The nodes so far: their identities differ, and those of one kind are numbered below the
  counter.\<close>

definition numbered :: "bool \<Rightarrow> (string, node) hmap \<times> u32 \<Rightarrow> bool" where
  "numbered kind st \<longleftrightarrow> distinct (map identity (values_of (fst st)))
     \<and> (\<forall>n \<in> set (values_of (fst st)). node_is_app n = kind \<longrightarrow> unat (node_id n) < unat (snd st))"

lemma numbered_insert:
  assumes "numbered kind (nodes, cur)" "node_is_app n = kind" "node_id n = cur" "unat cur + 1 < 2 ^ 32"
  shows "numbered kind (hm_insert (=) name n nodes, cur + 1)"
proof -
  obtain rest where r: "mset (values_of (hm_insert (=) name n nodes)) = add_mset n rest" "rest \<subseteq># mset (values_of nodes)"
    by (rule hm_insert_values)
  obtain ns where ns: "mset ns = rest" using ex_mset by blast
  have sub: "set ns \<subseteq> set (values_of nodes)" using r(2) ns by (metis set_mset_mono set_mset_mset)
  obtain zs where "mset (values_of nodes) = mset (ns @ zs)"
    using r(2) ns by (metis ex_mset mset_append mset_subset_eq_exists_conv)
  then have "mset (map identity (values_of nodes)) = mset (map identity (ns @ zs))" by (simp only: mset_map)
  then have "distinct (map identity (ns @ zs))"
    using assms(1) by (metis fst_conv mset_eq_imp_distinct_iff numbered_def)
  then have "distinct (map identity ns)" by simp
  moreover have "identity n \<notin> identity ` set ns"
    using sub assms(1-3) by (force simp: numbered_def identity_def)
  ultimately have "distinct (map identity (n # ns))" by simp
  moreover have perm: "mset (values_of (hm_insert (=) name n nodes)) = mset (n # ns)" using r(1) ns by simp
  ultimately have "distinct (map identity (values_of (hm_insert (=) name n nodes)))"
    by (metis mset_eq_imp_distinct_iff mset_map)
  moreover have "unat (cur + 1) = unat cur + 1" using assms(4) by (simp add: unat_word_ariths)
  moreover have "set (values_of (hm_insert (=) name n nodes)) = insert n (set ns)"
    using perm by (metis list.simps(15) set_mset_mset)
  ultimately show ?thesis using assms(1-3) sub by (force simp: numbered_def)
qed

section \<open>Services and bridges\<close>

definition entered :: "bool \<Rightarrow> (string, node) hmap \<times> u32 \<Rightarrow> (string, node) hmap \<times> u32 \<Rightarrow> bool" where
  "entered kind st st' \<longleftrightarrow> (\<exists>name n. st' = (hm_insert (=) name n (fst st), snd st + 1)
     \<and> node_is_app n = kind \<and> node_id n = snd st)"

lemma enteredI:
  "entered True (nodes, cur) (hm_insert (=) name (App cur a) nodes, cur + 1)"
  "entered False (nodes, cur) (hm_insert (=) name (Bridge cur) nodes, cur + 1)"
  unfolding entered_def by force+

lemma parse_service_step:
  assumes "parse_service lb u x st = Some (Inr st')"
  shows "st' = st \<or> entered True st st'"
  using assms enteredI(1)
  by (cases st) (auto simp: parse_service_def Let_def out_bind_eq split: if_splits option.splits)

lemma parse_bridge_step:
  assumes "parse_bridge x st = Some (Inr st')"
  shows "st' = st \<or> entered False st st'"
  using assms enteredI(2)
  by (cases st) (auto simp: parse_bridge_def Let_def split: if_splits option.splits)

lemma hm_insert_length: "length (hm_insert eq k v m) \<le> Suc (length m)"
  by (induction m) auto

text \<open>A loop whose every turn keeps the state or enters one more node of the kind.\<close>

lemma numbering_loop:
  assumes run: "out_fold f xs st = Some (Inr st')"
    and step: "\<And>x st st'. f x st = Some (Inr st') \<Longrightarrow> st' = st \<or> entered kind st st'"
    and "numbered kind st" "unat (snd st) + length xs < 2 ^ 32"
  shows "numbered kind st' \<and> length (fst st') \<le> length (fst st) + length xs"
  using run assms(3,4)
proof (induction xs arbitrary: st)
  case (Cons x xs)
  obtain nodes cur where st: "st = (nodes, cur)" by force
  obtain st1 where 1: "f x (nodes, cur) = Some (Inr st1)" "out_fold f xs st1 = Some (Inr st')"
    using Cons.prems(1) by (auto simp: st out_bind_eq)
  from step[OF 1(1)] show ?case
  proof
    assume "st1 = (nodes, cur)"
    then show ?thesis using Cons.IH[OF 1(2)] Cons.prems(2,3) by (auto simp: st)
  next
    assume "entered kind (nodes, cur) st1"
    then obtain name n where n: "st1 = (hm_insert (=) name n nodes, cur + 1)" "node_is_app n = kind" "node_id n = cur"
      by (auto simp: entered_def)
    have cur: "unat cur + 1 < 2 ^ 32" using Cons.prems(3) by (simp add: st)
    then have "unat (cur + 1) = unat cur + 1" by (simp add: unat_word_ariths)
    then have "numbered kind st' \<and> length (fst st') \<le> length (fst st1) + length xs"
      using Cons.IH[OF 1(2)] numbered_insert[OF _ n(2,3) cur] Cons.prems(2,3) by (simp add: st n(1))
    then show ?thesis using hm_insert_length[of "(=)" name n nodes] by (auto simp: st n(1))
  qed
qed simp

lemma numbered_only_apps:
  "numbered True st \<Longrightarrow> (\<forall>n \<in> set (values_of (fst st)). node_is_app n) \<Longrightarrow> numbered False (fst st, c)"
  by (auto simp: numbered_def)

lemma set_values_insert: "set (values_of (hm_insert (=) k v m)) \<subseteq> insert v (set (values_of m))"
  using set_hm_insert_HOL[of k v m] by (auto simp: values_of_def)

lemma parse_services_result:
  assumes "parse_services lb s u [] = Some (Inr nodes)" "length (children s) < 2 ^ 25"
  shows "(\<forall>n \<in> set (values_of nodes). node_is_app n)" "length nodes \<le> length (children s)"
    "distinct (map identity (values_of nodes))"
proof -
  obtain c where run: "out_fold (parse_service lb u) (children s) ([], 0) = Some (Inr (nodes, c))"
    using assms(1) by (auto simp: parse_services_def out_bind_eq)
  have "numbered True (nodes, c) \<and> length nodes \<le> length (children s)"
    using numbering_loop[OF run parse_service_step] assms(2) by (simp add: numbered_def values_of_def)
  then show "length nodes \<le> length (children s)" "distinct (map identity (values_of nodes))"
    by (auto simp: numbered_def)
  have "\<forall>n \<in> set (values_of (fst (nodes, c))). node_is_app n"
  proof (rule out_fold_invar[OF run])
    fix x and st st' :: "(string, node) hmap \<times> u32"
    assume "\<forall>n \<in> set (values_of (fst st)). node_is_app n" "parse_service lb u x st = Some (Inr st')"
    then show "\<forall>n \<in> set (values_of (fst st')). node_is_app n"
      using parse_service_step[of lb u x st st'] set_values_insert by (fastforce simp: entered_def)
  qed (simp add: values_of_def)
  then show "\<forall>n \<in> set (values_of nodes). node_is_app n" by simp
qed

lemma parse_nodes_result:
  assumes "parse_nodes lb u b = Some (Inr nodes)"
    and "\<And>s. bl_services b = Some s \<or> bl_bridges b = Some s \<Longrightarrow> length (children s) < 2 ^ 25"
  shows "distinct (map identity (values_of nodes))" "length nodes < 2 ^ 26"
proof -
  obtain s nodes1 where s: "bl_services b = Some s" "parse_services lb s u [] = Some (Inr nodes1)"
    and rest: "(case bl_bridges b of None \<Rightarrow> Some (Inr nodes1) | Some bridges \<Rightarrow> parse_bridges bridges nodes1)
      = Some (Inr nodes)"
    using assms(1) by (auto simp: parse_nodes_def out_bind_eq split: option.splits)
  note r = parse_services_result[OF s(2)]
  have len: "length (children s) < 2 ^ 25" using assms(2) s(1) by blast
  show "distinct (map identity (values_of nodes))" and "length nodes < 2 ^ 26"
  proof -
    have "distinct (map identity (values_of nodes)) \<and> length nodes < 2 ^ 26"
    proof (cases "bl_bridges b")
      case None
      then show ?thesis using rest r(2,3)[OF len] len by simp
    next
      case (Some br)
      obtain c where run: "out_fold parse_bridge (children br) (nodes1, of_nat (length nodes1)) = Some (Inr (nodes, c))"
        using rest Some by (auto simp: parse_bridges_def out_bind_eq)
      have lb: "length (children br) < 2 ^ 25" using assms(2) Some by blast
      have start: "numbered False (nodes1, of_nat (length nodes1))"
        using r(1,3)[OF len] by (auto simp: numbered_def)
      have "unat (of_nat (length nodes1) :: u32) \<le> length nodes1" by (simp add: unat_of_nat)
      then have "unat (of_nat (length nodes1) :: u32) + length (children br) < 2 ^ 32"
        using r(2)[OF len] len lb by simp
      then have "numbered False (nodes, c) \<and> length nodes \<le> length nodes1 + length (children br)"
        using numbering_loop[OF run parse_bridge_step] start by simp
      then show ?thesis using r(2)[OF len] len lb by (simp add: numbered_def)
    qed
    then show "distinct (map identity (values_of nodes))" and "length nodes < 2 ^ 26" by simp_all
  qed
qed

section \<open>The network and the schedule\<close>

lemma parse_link_step:
  assumes "parse_link lb m x net = Some (Inr net')" "net_inv node_eq net"
  shows "net_inv node_eq net' \<and> net_mapper net' = net_mapper net"
proof (cases "net' = net")
  case False
  then obtain a b bw lj dr where e: "net_add_edge_with_props node_eq net a b bw lj dr = Some net'"
    using assms(1)
    by (auto simp: parse_link_def out_bind_eq split: if_splits option.splits)
  obtain net1 where "net_add_edge_with_props node_eq net a b bw lj dr = Some net1"
    "edge_added node_eq net a b (\<lambda>i j _. Some (link_build_all a b i j bw lj dr)) net1"
    using add_edge_with_props_result[OF assms(2)] by blast
  then show ?thesis using e by (simp add: edge_added_def)
qed (use assms in simp)

lemma parse_links_result:
  assumes "parse_links lb links m net = Some (Inr net')" "net_inv node_eq net"
  shows "net_inv node_eq net' \<and> net_vertices net' = net_vertices net"
proof -
  have "net_inv node_eq net' \<and> net_mapper net' = net_mapper net"
    by (rule out_fold_invar[OF assms(1)[unfolded parse_links_def]])
      (use assms(2) parse_link_step in \<open>auto\<close>)
  then show ?thesis by (simp add: net_vertices_def)
qed

lemma new_vertices:
  assumes "network_new node_eq vs st = Some net" "hs_distinct node_eq vs"
  shows "net_vertices net = vs"
proof -
  have "hm_keys (fold (\<lambda>i acc. hm_insert node_eq (vs ! i) i acc) is m)
      = fold (hs_insert node_eq) (map (\<lambda>i. vs ! i) is) (hm_keys m)" for "is" and m :: "(node, nat) hmap"
    by (induction "is" arbitrary: m) (simp_all add: nd.hm_keys_insert)
  from this[of "[0..<length vs]" "[]"] show ?thesis
    using assms nd.fold_insert_new[of "[]" vs]
    by (auto simp: network_new_def net_vertices_def map_nth hm_keys_def split: option.splits)
qed

definition names_node :: "(string, node) hmap \<Rightarrow> emulation_event \<Rightarrow> bool" where
  "names_node nodes ev \<longleftrightarrow> (\<exists>n \<in> set (values_of nodes). ev_app_id ev = node_id n)"

lemma hm_get_value: "hm_get (=) m k = Some n \<Longrightarrow> n \<in> set (values_of m)"
  by (drule hm_get_in) (force simp: values_of_def)

lemma parse_schedule_result:
  assumes "parse_schedule nodes d = Some (Inr events)"
  shows "\<forall>ev \<in> set events. names_node nodes ev"
proof -
  have step: "\<forall>ev \<in> set events'. names_node nodes ev"
    if "parse_event nodes x events = Some (Inr events')" "\<forall>ev \<in> set events. names_node nodes ev" for x events events'
    using that hm_get_value[of nodes]
    by (auto simp: parse_event_def out_bind_eq names_node_def split: if_splits option.splits) blast+
  show ?thesis
  proof (cases d)
    case None
    then show ?thesis using assms by (simp add: parse_schedule_def)
  next
    case (Some x)
    then have "out_fold (parse_event nodes) (children x) [] = Some (Inr events)"
      using assms by (simp add: parse_schedule_def)
    then show ?thesis by (rule out_fold_invar) (use step in auto)
  qed
qed

text \<open>The blocks are children of the root.\<close>

definition blocks_in :: "xml list \<Rightarrow> blocks \<Rightarrow> bool" where
  "blocks_in ns b \<longleftrightarrow> set_option (bl_services b) \<union> set_option (bl_bridges b) \<subseteq> set ns"

lemma take_block_in:
  "take_block x b = Some (Inr b') \<Longrightarrow> x \<in> set ns \<Longrightarrow> blocks_in ns b \<Longrightarrow> blocks_in ns b'"
  by (auto simp: take_block_def out_bind_eq blocks_in_def split: if_splits)

lemma blocks_of_root:
  assumes "out_fold take_block ns \<lparr>bl_services = None, bl_bridges = None, bl_links = None, bl_dynamic = None\<rparr>
    = Some (Inr b)"
  shows "blocks_in ns b"
proof (rule out_fold_invar[OF assms, of "blocks_in ns"])
  show "blocks_in ns \<lparr>bl_services = None, bl_bridges = None, bl_links = None, bl_dynamic = None\<rparr>"
    by (simp add: blocks_in_def)
qed (rule take_block_in)

lemma parse_topology_result:
  assumes run: "parse_topology lb text u = Some (Inr (net, events))"
    and perm: "\<And>m. mset (lb_order lb m) = mset m"
    and small: "\<And>root rest n. lb_document lb text = Some (root # rest) \<Longrightarrow> n \<in> set (children root)
      \<Longrightarrow> length (children n) < 2 ^ 25"
  shows "net_inv node_eq net \<and> distinct (map identity (net_vertices net))
    \<and> (\<forall>ev \<in> set events. \<exists>n \<in> set (net_vertices net). ev_app_id ev = node_id n)"
proof -
  obtain root rest b nodes net0 links where doc: "lb_document lb text = Some (root # rest)"
    and b: "out_fold take_block (children root)
        \<lparr>bl_services = None, bl_bridges = None, bl_links = None, bl_dynamic = None\<rparr> = Some (Inr b)"
    and nodes: "parse_nodes lb u b = Some (Inr nodes)"
    and net0: "network_new node_eq (map snd (lb_order lb nodes)) ShortestPath = Some net0"
    and links: "parse_links lb links nodes net0 = Some (Inr net)"
    and events: "parse_schedule nodes (bl_dynamic b) = Some (Inr events)"
    using run by (auto simp: parse_topology_def out_bind_eq split: option.splits list.splits)
  have n: "distinct (map identity (values_of nodes))" "length nodes < 2 ^ 26"
    using parse_nodes_result[OF nodes] small[OF doc] blocks_of_root[OF b] by (auto simp: blocks_in_def)
  let ?vs = "map snd (lb_order lb nodes)"
  have vs: "mset ?vs = mset (values_of nodes)" using perm by (simp add: values_of_def)
  then have "length ?vs < 2 ^ 26" using n(2) by (metis length_map size_mset values_of_def)
  then obtain net1 where "network_new node_eq ?vs ShortestPath = Some net1" "net_inv node_eq net1"
    using nd.network_new_result by blast
  then have inv: "net_inv node_eq net0" using net0 by simp
  have "mset (map identity ?vs) = mset (map identity (values_of nodes))" using vs by (metis mset_map)
  then have d: "distinct (map identity ?vs)" using n(1) by (metis mset_eq_imp_distinct_iff)
  then have "net_vertices net0 = ?vs" using new_vertices[OF net0] by (simp add: hs_distinct_identity del: map_map)
  then have v: "net_inv node_eq net" "net_vertices net = ?vs" using parse_links_result[OF links inv] by simp_all
  moreover have "set ?vs = set (values_of nodes)" using vs by (metis set_mset_mset)
  ultimately show ?thesis using d parse_schedule_result[OF events] by (auto simp: names_node_def)
qed

end
