(* ===== verification/Emulation_Properties.thy ===== *)
theory Emulation_Properties
  imports Machines Emulcore_Props Topology_Props
begin

text \<open>
  What the parts that run an emulation on a host guarantee: the topology parser
  (\<^verbatim>\<open>emulation/src/xmlgraphparser.rs\<close>), the emulation manager
  (\<^verbatim>\<open>emulation/src/emanager.rs\<close>) and the emulation core
  (\<^verbatim>\<open>emulation/src/emulcore.rs\<close>). The witnesses use an emulation of two
  applications on two hosts.
\<close>

section \<open>A concrete emulation\<close>

definition worker :: "u8 \<Rightarrow> cluster_node_info" where
  "worker k = cni_new (V4 [192, 168, 1, k]) 8082"

definition box_app :: "u8 \<Rightarrow> node" where
  "box_app k = App (ucast k)
     \<lparr>app_ip = Some (V4 [10, 0, 0, k]), app_host = Some (worker k), app_name = ''a'',
      app_kind = Container \<lparr>cc_name = ''box'', cc_id = None, cc_image_command = Some (''image'', None)\<rparr>,
      app_index = Some 0\<rparr>"

definition good_core_world :: ec_world where
  "good_core_world =
     \<lparr>cw_tc = \<lambda>_. Inr (), cw_host = \<lambda>_. Inr (), cw_dock = \<lambda>_. Inr (), cw_leader = Inr (),
      cw_show = \<lambda>_. ''u'', cw_show_ip = \<lambda>_. ''ip''\<rparr>"

text \<open>The core on the first host, once its application has a status.\<close>

definition box_core :: "node network \<Rightarrow> app_status \<Rightarrow> emul_core" where
  "box_core g status =
     \<lparr>ec_leader = worker 1, ec_graph = g, ec_events = None, ec_apps = [(box_app 1, status)],
      ec_others = [worker 2],
      ec_ip = [(V4 [10, 0, 0, 1], box_app 1), (V4 [10, 0, 0, 2], box_app 2)],
      ec_myself = worker 1, ec_id = 7\<rparr>"

definition box_loop :: "node network \<Rightarrow> app_status \<Rightarrow> ec_loop" where
  "box_loop g status = \<lparr>el_core = box_core g status, el_flows = [], el_bw = g\<rparr>"

lemmas box_defs = box_loop_def box_core_def box_app_def worker_def good_core_world_def cni_new_def

section \<open>Beginning together\<close>

text \<open>A host whose clock is behind by a fixed number of nanoseconds, and conversions that only cut to
  milliseconds.\<close>

definition behind_clock :: "int \<Rightarrow> int \<Rightarrow> int" where
  "behind_clock off t = t + off"

definition behind_millis :: "int \<Rightarrow> millis" where
  "behind_millis off = \<lparr>ml_out = \<lambda>_ t. (t + off) div 10 ^ 6, ml_in = \<lambda>_ m. m * 10 ^ 6 - off\<rparr>"

lemma behind_keeps_time: "keeps_time (10 ^ 6) (behind_clock off) (behind_millis off)"
proof -
  have "\<bar>x div m * m - x\<bar> \<le> m" if "0 < m" for x m :: int
  proof -
    have "x div m * m - x = - (x mod m)" by (simp add: minus_mod_eq_div_mult [symmetric])
    then show ?thesis using pos_mod_bound[OF that, of x] pos_mod_sign[OF that, of x] by linarith
  qed
  from this[of "10 ^ 6"] show ?thesis
    by (simp add: keeps_time_def behind_clock_def behind_millis_def abs_minus_commute)
qed

text \<open>C4: when the messages of the synchronisation travel in order around the ring of hosts, there is
  one time at which an emulation begins, up to the error of the conversions, which adds up along the
  ring: the leader, when it begins, begins at that time exactly, and then every other host begins
  too; and a host at place \<^verbatim>\<open>k\<close> after the leader, counted from 0, that begins is off by at most
  \<^verbatim>\<open>2 * (k + 1) * eps\<close>, when each conversion of an instant to or from the milliseconds of the wire
  (the \<^verbatim>\<open>serde_millis\<close> crate, by the clocks of the host where it runs) is off by at most \<^verbatim>\<open>eps\<close>. Any
  sends may fail, and any host may be slow.\<close>

theorem hosts_begin_together:
  assumes "sync_leader_start t0 = (s, first)" "sync_run ml sync_leader li s = (out, r)"
    and "ring_passes (List.map (synchro_to_wire ml n) first @ out) hs (arrived li)"
    and "keeps_time eps clock ml" "\<forall>h \<in> set hs. keeps_time eps (rh_real h) (rh_millis h)"
  shows "\<exists>T. (\<forall>b. begins_at r b \<longrightarrow> clock b = T \<and> (\<forall>h \<in> set hs. \<exists>t. begins_at (follower_end h) t))
    \<and> (\<forall>k < length hs. \<forall>t. begins_at (follower_end (hs ! k)) t
         \<longrightarrow> \<bar>rh_real (hs ! k) t - T\<bar> \<le> 2 * (int k + 1) * eps)"
  using assms by (rule ring_agreement)

text \<open>A leader 400 nanoseconds behind, and a host 3 seconds behind that starts with a begin time of 0
  on its own clock: they agree up to the 400 nanoseconds cut off.\<close>

definition sync_leader_turns :: "sync_turn list" where
  "sync_leader_turns =
     [\<lparr>tn_read = 10 ^ 9, tn_now = 10 ^ 9, tn_wire = WireStart 5000, tn_responder = True, tn_written = 10 ^ 9,
       tn_sent = Inr ()\<rparr>,
      \<lparr>tn_read = 2 * 10 ^ 9, tn_now = 2 * 10 ^ 9, tn_wire = WireOk, tn_responder = True, tn_written = 2 * 10 ^ 9,
       tn_sent = Inr ()\<rparr>]"

definition sync_other_host :: ring_host where
  "sync_other_host =
     \<lparr>rh_real = behind_clock (3 * 10 ^ 9), rh_millis = behind_millis (3 * 10 ^ 9),
      rh_turns =
        [\<lparr>tn_read = 0, tn_now = 0, tn_wire = WireStart 5000, tn_responder = True, tn_written = 0, tn_sent = Inr ()\<rparr>,
         \<lparr>tn_read = 10 ^ 8, tn_now = 10 ^ 8, tn_wire = WireOk, tn_responder = True, tn_written = 10 ^ 8,
          tn_sent = Inr ()\<rparr>],
      rh_mine = 0\<rparr>"

theorem hosts_begin_together_witness:
  "snd (sync_run (behind_millis 400) sync_leader sync_leader_turns (0, 5 * 10 ^ 9)) = Some (Inl (5 * 10 ^ 9))
   \<and> follower_end sync_other_host = Some (Inl (2 * 10 ^ 9))
   \<and> \<bar>behind_clock (3 * 10 ^ 9) (2 * 10 ^ 9) - behind_clock 400 (5 * 10 ^ 9)\<bar> \<le> 2 * 10 ^ 6"
proof -
  have s: "sync_leader_start 0 = ((0, 5 * 10 ^ 9), [EmulStart (5 * 10 ^ 9)])"
    by (simp add: sync_leader_start_def second_def)
  have l: "sync_run (behind_millis 400) sync_leader sync_leader_turns (0, 5 * 10 ^ 9)
      = ([WireOk], Some (Inl (5 * 10 ^ 9)))"
    by (simp add: sync_leader_turns_def behind_millis_def second_def elapsed_def)
  have f: "follower_passes sync_other_host = [WireStart 5000, WireOk]"
    "follower_end sync_other_host = Some (Inl (2 * 10 ^ 9))"
    by (simp_all add: follower_passes_def follower_end_def sync_other_host_def behind_millis_def)
  have ring: "ring_passes (List.map (synchro_to_wire (behind_millis 400) 0) [EmulStart (5 * 10 ^ 9)] @ [WireOk])
      [sync_other_host] (arrived sync_leader_turns)"
    by (simp add: f sync_leader_turns_def) (simp add: sync_other_host_def behind_millis_def)
  have "\<forall>h \<in> set [sync_other_host]. keeps_time (10 ^ 6) (rh_real h) (rh_millis h)"
    by (simp add: sync_other_host_def behind_keeps_time del: power_numeral)
  from hosts_begin_together[OF s l ring behind_keeps_time this] l f(2) show ?thesis
    by (auto simp: begins_at_def sync_other_host_def)
qed

section \<open>Updates of flows\<close>

text \<open>C13: a flow update that is handled without an error is passed to every other host of the
  emulation, once and unchanged, exactly when the source of the flow runs on this host; a host
  that gets the update from another passes it to nobody.\<close>

theorem flow_update_told_once:
  assumes "on_flow_update w fc st = Some (es, Inr st')"
  shows "host_sends es = (if source_here (el_core st) fc then flow_copies w (el_core st) fc else [])
    \<and> el_core st' = el_core st"
  using on_flow_update_sent[OF assms] by simp

text \<open>The two applications joined by one link.\<close>

lemma box_net:
  "\<exists>net ps. net_properties_between node_eq net (box_app 1) (box_app 2) = Some (Some ps)"
proof -
  let ?vs = "[box_app 1, box_app 2]"
  have "hs_distinct node_eq ?vs" by (simp add: box_app_def hs_contains_simps)
  then obtain n0 where n0: "net_inv node_eq n0" "net_size n0 = 2" "\<forall>i < 2. net_map node_eq n0 (?vs ! i) = Some i"
    using nd.network_new_result[of ?vs ShortestPath] by auto
  obtain n1 where inv: "net_inv node_eq n1" "net_size n1 = 2"
    and link: "net_link n1 0 1 \<noteq> None" "net_link n1 1 0 \<noteq> None" and same: "net_mapper n1 = net_mapper n0"
  proof -
    have m: "net_map_two node_eq n0 (box_app 1) (box_app 2) = Some (0, 1)"
      using n0(3)[rule_format, of 0] n0(3)[rule_format, of 1] by (simp add: net_map_two_Some)
    obtain n1 where "edge_added node_eq n0 (box_app 1) (box_app 2) (\<lambda>i j _. Some (link_build (box_app 1) (box_app 2) i j 100)) n1"
      using add_edge_result[OF n0(1)] by blast
    then show ?thesis using that m n0(2) by (auto simp: edge_added_def)
  qed
  have m: "net_map_two node_eq n1 (box_app 1) (box_app 2) = Some (0, 1)"
    using n0(3)[rule_format, of 0] n0(3)[rule_format, of 1] same by (simp add: net_map_two_Some net_map_def)
  have "reachable n1 0 1"
    unfolding reachable_def
    by (rule exI[of _ "[1, 0]"]) (use inv link in \<open>simp add: walk_between_def adjacent_def\<close>)
  then obtain p where "net_properties_between node_eq n1 (box_app 1) (box_app 2)
      = Some (Some (fold add_link_props (walk_links n1 p) (- 1, Fin 0, Fin 0, Fin 0)))"
    using properties_between_spec[OF inv(1), of "box_app 1" "box_app 2"] m
    by (auto simp: properties_spec_def)
  then show ?thesis by (rule exI[of _ n1, OF exI])
qed

theorem flow_update_told_once_witness:
  "\<exists>net es st'. on_flow_update good_core_world \<lparr>fc_src = V4 [10, 0, 0, 1], fc_dest = V4 [10, 0, 0, 2], fc_throughput = None\<rparr>
      (box_loop net Running) = Some (es, Inr st')
    \<and> host_sends es = [ToHost (worker 2) (EmulCoreInterchange ''u''
        (FlowUpdate \<lparr>fc_src = V4 [10, 0, 0, 1], fc_dest = V4 [10, 0, 0, 2], fc_throughput = None\<rparr>))]"
proof -
  let ?fc = "\<lparr>fc_src = V4 [10, 0, 0, 1], fc_dest = V4 [10, 0, 0, 2], fc_throughput = None\<rparr>"
  obtain net ps where net: "net_properties_between node_eq net (box_app 1) (box_app 2) = Some (Some ps)"
    using box_net by blast
  obtain bw loss lj where ps: "ps = (bw, loss, lj)" by (cases ps) auto
  have a: "node_as_app (box_app k) = Some \<lparr>app_ip = Some (V4 [10, 0, 0, k]), app_host = Some (worker k), app_name = ''a'',
      app_kind = Container \<lparr>cc_name = ''box'', cc_id = None, cc_image_command = Some (''image'', None)\<rparr>,
      app_index = Some 0\<rparr>" for k by (simp add: box_app_def)
  have facts: "node_runs_on (box_app 1) (worker 1) = Some True" "node_ip (box_app 2) = Some (V4 [10, 0, 0, 2])"
    "\<exists>t. node_display (\<lambda>_. ''ip'') (box_app k) = Some t" for k
    by (simp_all add: node_runs_on_def node_ip_def a app_runs_on_def cni_eq_def)
      (simp add: box_app_def app_display_def)
  obtain t1 t2 where t: "node_display (\<lambda>_. ''ip'') (box_app 1) = Some t1"
    "node_display (\<lambda>_. ''ip'') (box_app 2) = Some t2" using facts(3) by blast
  have core: "el_core (box_loop net Running) = box_core net Running" "el_flows (box_loop net Running) = []"
    "ec_graph (box_core net Running) = net" "ec_myself (box_core net Running) = worker 1"
    "ec_others (box_core net Running) = [worker 2]" "ec_apps (box_core net Running) = [(box_app 1, Running)]"
    "hm_get (=) (ec_ip (box_core net Running)) (V4 [10, 0, 0, 1]) = Some (box_app 1)"
    "hm_get (=) (ec_ip (box_core net Running)) (V4 [10, 0, 0, 2]) = Some (box_app 2)"
    by (simp_all add: box_loop_def box_core_def)
  have flow: "apply_flow net (flow_build (box_app 1) (box_app 2) bw (used_bandwidth None bw)) [] B = Some ([], B, True)" for B
    by (simp add: apply_flow_def flow_build_def used_bandwidth_def hs_contains_simps)
  obtain es st' where run: "on_flow_update good_core_world ?fc (box_loop net Running) = Some (es, Inr st')"
    by (simp add: on_flow_update_def core t net ps flow facts(1,2) to_my_app_def to_reporter_def broadcast_flow_def
        good_core_world_def act_send_def nd.refl act_return_def)
  have "source_here (box_core net Running) ?fc" using core facts(1) by (simp add: source_here_def)
  with flow_update_told_once[OF run] run core show ?thesis
    by (intro exI[of _ net] exI[of _ es] exI[of _ st']) (simp add: flow_copies_def good_core_world_def)
qed

section \<open>Events of an application\<close>

text \<open>C21: an event changes the status of its application as the table of the code says, and of no other
  application: Join is ignored unless the application has not joined or has left, so also after a
  crash; Quit is never ignored, not even after a crash, and after it the application may join
  again.\<close>

theorem event_status:
  assumes "on_event w ev st = Some (es, Inr st')" "hm_distinct node_eq (ec_apps (el_core st))"
    and "event_app (el_core st) (ev_app_id ev) = Some (n, s)"
  shows "hm_get node_eq (ec_apps (el_core st')) k
    = (if node_eq n k then Some (next_status (ev_action ev) s) else hm_get node_eq (ec_apps (el_core st)) k)"
  using assms by (rule on_event_status)

theorem event_status_witness:
  "\<forall>net. \<exists>es st'. on_event good_core_world \<lparr>ev_app_id = 1, ev_time_ns = 0, ev_action = Quit\<rparr> (box_loop net Crashed)
      = Some (es, Inr st')
    \<and> hm_get node_eq (ec_apps (el_core st')) (box_app 1) = Some Stopped"
proof
  fix net :: "node network"
  let ?ev = "\<lparr>ev_app_id = 1, ev_time_ns = 0, ev_action = Quit\<rparr>" and ?st = "box_loop net Crashed"
  have app: "event_app (el_core ?st) (ev_app_id ?ev) = Some (box_app 1, Crashed)"
    by (simp add: event_app_def box_loop_def box_core_def node_is_same_by_id_def box_app_def)
  then obtain es st' where run: "on_event good_core_world ?ev ?st = Some (es, Inr st')"
    by (simp add: on_event_def on_quit_def remove_all_flows_from_def flows_from_def to_reporter_def good_core_world_def
        act_send_def act_return_def) (simp add: box_loop_def act_return_def)
  have "hm_distinct node_eq (ec_apps (el_core ?st))"
    by (simp add: box_loop_def box_core_def hm_distinct_def hm_keys_def hs_contains_simps)
  from event_status[OF run this app, of "box_app 1"] run
  show "\<exists>es st'. on_event good_core_world ?ev ?st = Some (es, Inr st')
    \<and> hm_get node_eq (ec_apps (el_core st')) (box_app 1) = Some Stopped"
    by (intro exI[of _ es] exI[of _ st']) (simp add: nd.refl next_status_def)
qed

section \<open>The start of an emulation on a host\<close>

text \<open>C20: when a host tells the leader that it is ready, its core waits in the manager with an open
  channel, and the applications of the core are exactly those vertices of the topology that are
  applications and were placed on this host, none of them joined yet.\<close>

theorem ready_host_has_its_apps:
  assumes "create_emulation tw w emul om s = Some (es, s')"
    and "Tell (EmulationReady (gw_show_uuid w (em_uuid emul)) (mg_myself s)) \<in> set es"
  shows "\<exists>c'. hm_get (=) (mg_cores s') (em_uuid emul) = Some c' \<and> em_uuid emul \<in> set (mg_channels s')
    \<and> (\<forall>k. hm_get node_eq (ec_apps c') k
        = (if \<exists>n. placed_on (em_graph emul) (mg_myself s) n \<and> node_eq n k then Some NotInit else None))"
  using assms by (rule create_emulation_started)

text \<open>One application on the first host; the only thing that may go wrong is its reporter.\<close>

definition box_emulation :: "node link option sym_matrix \<Rightarrow> emulation" where
  "box_emulation links =
     emulation_build 7 \<lparr>net_links = links, net_mapper = [(box_app 1, 0)], net_strategy = ShortestPath\<rparr> []"

definition box_init :: "bool \<Rightarrow> init_world" where
  "box_init ready =
     \<lparr>iw_show_uuid = \<lambda>_. ''u'', iw_show_ip = \<lambda>_. ''ip'', iw_exists = \<lambda>_. False, iw_flow_socket = Inr (),
      iw_launch = \<lambda>_. Inr (), iw_pid = \<lambda>_. Inr 42, iw_spawn = \<lambda>_. Inr (), iw_ready = \<lambda>_. ready,
      iw_tc_socket = \<lambda>_. Inr (), iw_sync_socket = Inr ()\<rparr>"

definition box_task :: "bool \<Rightarrow> task_world" where
  "box_task ready = \<lparr>tw_init = box_init ready, tw_core = good_core_world, tw_leader = \<lambda>_. Inr ()\<rparr>"

definition box_world :: mg_world where
  "box_world =
     \<lparr>gw_parse_uuid = \<lambda>_. Some 7, gw_show_uuid = \<lambda>_. ''u'', gw_channel = \<lambda>_. True, gw_abort = \<lambda>_. True,
      gw_waiting = True\<rparr>"

definition box_manager :: emanager where
  "box_manager =
     \<lparr>mg_myself = worker 1, mg_reporter_path = ''reporter'', mg_channels = [], mg_abort = [], mg_cores = [],
      mg_omanager = None\<rparr>"

lemma box_new:
  "\<exists>c. ec_new (box_emulation l) (worker 1) (worker 1) = Some c \<and> ec_id c = 7 \<and> ec_apps c = []
     \<and> my_nodes c = Some [box_app 1]"
proof -
  have runs: "node_runs_on (box_app 1) (worker 1) = Some True" "node_host (box_app 1) = Some (worker 1)"
    "node_is_app (box_app 1)" "node_ip (box_app 1) = Some (V4 [10, 0, 0, 1])"
    by (simp_all add: node_runs_on_def node_host_def node_ip_def box_app_def app_runs_on_def cni_eq_def)
  then show ?thesis
    by (simp add: ec_new_def parse_emulation_def my_nodes_def box_emulation_def emulation_build_def net_vertices_def
        hm_keys_def)
qed

lemma box_socket: "\<exists>fs. generate_flow_socket (box_init b) u = Inr fs"
  by (simp add: generate_flow_socket_def verify_socket_exists_def box_init_def)

lemma box_launch:
  "\<exists>es args. launch_reporters (box_init b) u fs path [box_app 1]
     = Some ([StartContainer ''image'' ''box'' (V4 [10, 0, 0, 1]) None, StartReporter args], es)
   \<and> (b \<longrightarrow> (\<exists>tc. es = Inr [(box_app 1, tc)])) \<and> (\<not> b \<longrightarrow> (\<exists>e. es = Inl e))"
  by (simp add: box_app_def launch_reporter_for_app_def start_container_and_get_pid_def generate_tc_socket_def
      verify_socket_exists_def box_init_def cc_image_def cc_command_def act_send_def act_result_def act_return_def
      act_fail_def Let_def)

lemma box_task_simps:
  "em_uuid (box_emulation links) = 7" "mg_myself box_manager = worker 1" "mg_reporter_path box_manager = ''reporter''"
  "tw_init (box_task b) = box_init b" "tw_leader (box_task b) m = Inr ()" "gw_show_uuid box_world u = ''u''"
  "iw_flow_socket (box_init b) = Inr ()" "mg_cores box_manager = []"
  "box_manager\<lparr>mg_channels := hs_remove (=) u (mg_channels box_manager)\<rparr> = box_manager"
  by (simp_all add: box_emulation_def emulation_build_def box_manager_def box_task_def box_world_def box_init_def)

lemma box_created:
  "\<exists>es s'. create_emulation (box_task True) box_world (box_emulation links) (worker 1) box_manager
    = Some (map Init es @ [Tell (EmulationReady ''u'' (worker 1))], s')"
proof -
  obtain c where c: "ec_new (box_emulation links) (worker 1) (worker 1) = Some c" "ec_id c = 7" "ec_apps c = []"
    "my_nodes c = Some [box_app 1]" using box_new by blast
  obtain fs where fs: "generate_flow_socket (box_init True) 7 = Inr fs" using box_socket by blast
  obtain args tc where l: "launch_reporters (box_init True) 7 fs ''reporter'' [box_app 1]
     = Some ([StartContainer ''image'' ''box'' (V4 [10, 0, 0, 1]) None, StartReporter args], Inr [(box_app 1, tc)])"
    using box_launch[of True 7 fs "''reporter''"] by auto
  have ip: "node_ip (box_app 1) = Some (V4 [10, 0, 0, 1])" by (simp add: node_ip_def box_app_def)
  have iw: "iw_flow_socket (box_init True) = Inr ()" "iw_tc_socket (box_init True) n = Inr ()"
    "iw_sync_socket (box_init True) = Inr ()" for n by (simp_all add: box_init_def)
  obtain es c' where init: "init_emulation (box_init True) ''reporter'' c = Some (es, c', True, Inr ())"
    by (simp add: init_emulation_def c fs l iw hm_keys_def ip del: launch_reporters.simps)
  show ?thesis by (rule exI[of _ es]) (simp add: create_emulation_def Let_def box_task_simps c(1) init)
qed

theorem ready_host_has_its_apps_witness:
  "\<forall>links. \<exists>es s' c'. create_emulation (box_task True) box_world (box_emulation links) (worker 1) box_manager = Some (es, s')
    \<and> hm_get (=) (mg_cores s') 7 = Some c' \<and> hm_get node_eq (ec_apps c') (box_app 1) = Some NotInit"
proof
  fix links
  obtain es s' where run: "create_emulation (box_task True) box_world (box_emulation links) (worker 1) box_manager
      = Some (map Init es @ [Tell (EmulationReady ''u'' (worker 1))], s')" using box_created by blast
  obtain c2 where "hm_get (=) (mg_cores s') 7 = Some c2"
    "\<forall>k. hm_get node_eq (ec_apps c2) k
       = (if \<exists>n. placed_on (em_graph (box_emulation links)) (worker 1) n \<and> node_eq n k then Some NotInit else None)"
    using ready_host_has_its_apps[OF run] by (auto simp: box_task_simps)
  moreover have "placed_on (em_graph (box_emulation links)) (worker 1) (box_app 1)"
    by (simp add: placed_on_def box_emulation_def emulation_build_def net_vertices_def hm_keys_def box_app_def)
  ultimately show "\<exists>es s' c'. create_emulation (box_task True) box_world (box_emulation links) (worker 1) box_manager = Some (es, s')
    \<and> hm_get (=) (mg_cores s') 7 = Some c' \<and> hm_get node_eq (ec_apps c') (box_app 1) = Some NotInit"
    using run nd.refl by auto
qed

text \<open>C35: when a reporter of the host cannot be started, or is not ready in time, the leader is told to
  abort and the manager keeps nothing of the emulation; but nothing stops the containers that were
  started before: the core that is dropped does not list their applications yet.\<close>

theorem failed_start_leaves_containers:
  assumes "ec_new emul (mg_myself s) om = Some c" "my_nodes c = Some mine"
    and "generate_flow_socket (tw_init tw) (em_uuid emul) = Inr fs" "iw_flow_socket (tw_init tw) = Inr ()"
    and "launch_reporters (tw_init tw) (em_uuid emul) fs (mg_reporter_path s) mine = Some (ies, Inl e)"
    and "tw_leader tw (Abort (gw_show_uuid w (em_uuid emul))) = Inr ()"
  shows "create_emulation tw w emul om s = Some (map Init ies @ [Tell (Abort (gw_show_uuid w (em_uuid emul)))],
      s\<lparr>mg_channels := hs_remove (=) (em_uuid emul) (mg_channels s)\<rparr>)"
  using assms by (rule create_emulation_leaks)

theorem failed_start_leaves_containers_witness:
  "\<forall>links. \<exists>args. create_emulation (box_task False) box_world (box_emulation links) (worker 1) box_manager
    = Some ([Init (StartContainer ''image'' ''box'' (V4 [10, 0, 0, 1]) None), Init (StartReporter args), Tell (Abort ''u'')],
            box_manager)"
proof
  fix links
  obtain c where c: "ec_new (box_emulation links) (worker 1) (worker 1) = Some c" "my_nodes c = Some [box_app 1]"
    using box_new by blast
  obtain fs where fs: "generate_flow_socket (box_init False) 7 = Inr fs" using box_socket by blast
  obtain args e where l: "launch_reporters (box_init False) 7 fs ''reporter'' [box_app 1]
     = Some ([StartContainer ''image'' ''box'' (V4 [10, 0, 0, 1]) None, StartReporter args], Inl e)"
    using box_launch[of False 7 fs "''reporter''"] by auto
  show "\<exists>args. create_emulation (box_task False) box_world (box_emulation links) (worker 1) box_manager
    = Some ([Init (StartContainer ''image'' ''box'' (V4 [10, 0, 0, 1]) None), Init (StartReporter args), Tell (Abort ''u'')],
            box_manager)"
    using failed_start_leaves_containers[of "box_emulation links" box_manager "worker 1" c "[box_app 1]" "box_task False" fs]
      c fs l by (simp add: box_task_simps del: launch_reporters.simps)
qed

section \<open>The life of the emulation manager\<close>

text \<open>What happens to the state of a manager: the messages of its loop, and the ends of the tasks it
  spawned. The leader gives every new emulation an identifier of its own.\<close>

inductive mg_step :: "emanager \<Rightarrow> emanager \<Rightarrow> bool" where
  message: "mg_handle w m s = Some (es, s') \<Longrightarrow> mg_step s s'"
| created: "create_emulation tw w emul om s = Some (tes, s') \<Longrightarrow> hm_get (=) (mg_cores s) (em_uuid emul) = None \<Longrightarrow> mg_step s s'"
| ended: "start_emulation tw w u run s = Some (tes, s') \<Longrightarrow> mg_step s s'"

inductive_cases mg_stepE: "mg_step s s'"

lemma mg_step_inv: "mg_step s s' \<Longrightarrow> mg_inv s \<Longrightarrow> mg_inv s'"
  by (erule mg_stepE) (blast intro: mg_handle_keeps create_emulation_keeps start_emulation_keeps[THEN conjunct1])+

lemma mg_build_inv: "mg_build dw ip port itf sn gw path = Some (Inr s) \<Longrightarrow> mg_inv s"
  by (auto simp: mg_build_def mg_inv_def hm_distinct_def hm_keys_def split: sum.splits option.splits)

definition mg_start :: "emanager \<Rightarrow> bool" where
  "mg_start s \<longleftrightarrow> (\<exists>dw ip port itf sn gw path. mg_build dw ip port itf sn gw path = Some (Inr s))"

interpretation mgr: step_system mg_step mg_start mg_inv
  by unfold_locales (auto simp: mg_start_def intro: mg_build_inv mg_step_inv)

text \<open>C22: in every state that a manager reaches, each core that waits for its start is kept under its
  own identifier, once, and its channel is open, so a message for it is not lost.\<close>

theorem manager_invariant:
  assumes "mg_build dw ip port itf sn gw path = Some (Inr s0)" and "mg_step\<^sup>*\<^sup>* s0 s"
  shows "mg_inv s"
proof (rule mgr.reachable_keeps[OF _ assms(2)])
  show "mg_start s0" unfolding mg_start_def using assms(1) by blast
qed

definition listed_world :: docker_world where
  "listed_world =
     \<lparr>dw_run = \<lambda>_. Inr \<lparr>po_success = True, po_stdout = [CHR 0x27, CHR 0x27, CHR 0x0A], po_stderr = []\<rparr>,
      dw_debug = \<lambda>_. [], dw_show_ip = \<lambda>_. [], dw_ip = \<lambda>_. Some (V4 [10, 0, 0, 254])\<rparr>"

theorem manager_invariant_witness:
  "\<forall>links. \<exists>s0 s. mg_build listed_world (Inr (V4 [192, 168, 1, 1])) 8082 ''eth0'' (ipv4_display [10, 0, 0, 0] @ ''/'' @ show_nat 8) ''g'' ''reporter''
      = Some (Inr s0)
    \<and> (\<exists>es. create_emulation (box_task True) box_world (box_emulation links) (worker 1) s0 = Some (es, s)) \<and> mg_inv s"
proof
  fix links
  let ?sn = "ipv4_display [10, 0, 0, 0] @ ''/'' @ show_nat 8"
  obtain sn where sn: "subnet_from_str ?sn = Some sn" using subnet_text[of "[10, 0, 0, 0]" 8] by auto
  have "check_command (network_ls listed_world opts) = Inr [CHR 0x27, CHR 0x27]" for opts
    using trim_quoted[of "[]"]
    by (simp add: network_ls_def launch_command_and_get_output_def check_command_def listed_world_def)
  then have "docker_init listed_world itf sn gw = Some (Inr network_name)" for itf gw
    by (simp add: docker_init_def)
  then have built: "mg_build listed_world (Inr (V4 [192, 168, 1, 1])) 8082 ''eth0'' ?sn ''g'' ''reporter'' = Some (Inr box_manager)"
    using sn by (simp add: mg_build_def box_manager_def worker_def listed_world_def)
  obtain es s where run: "create_emulation (box_task True) box_world (box_emulation links) (worker 1) box_manager
      = Some (map Init es @ [Tell (EmulationReady ''u'' (worker 1))], s)" using box_created by blast
  have "mg_step box_manager s" by (rule mg_step.created[OF run]) (simp add: box_task_simps)
  then have "mg_inv s" by (intro manager_invariant[OF built] r_into_rtranclp)
  with built run show "\<exists>s0 s. mg_build listed_world (Inr (V4 [192, 168, 1, 1])) 8082 ''eth0'' ?sn ''g'' ''reporter'' = Some (Inr s0)
    \<and> (\<exists>es. create_emulation (box_task True) box_world (box_emulation links) (worker 1) s0 = Some (es, s)) \<and> mg_inv s"
    by blast
qed

section \<open>Topology files\<close>

text \<open>C19: the network of a topology file that is accepted is well formed, its services and bridges have
  pairwise different identities (a service and a bridge are never equal), and every event of its
  schedule refers to one of them; the blocks of the file have fewer than \<^verbatim>\<open>2^25\<close> children.\<close>

theorem accepted_topology:
  assumes "parse_topology lb document u = Some (Inr (net, events))"
    and "\<And>m. mset (lb_order lb m) = mset m"
    and "\<And>el rest n. lb_document lb document = Some (el # rest) \<Longrightarrow> n \<in> set (children el)
      \<Longrightarrow> length (children n) < 2 ^ 25"
  shows "net_inv node_eq net \<and> distinct (map identity (net_vertices net))
    \<and> (\<forall>ev \<in> set events. \<exists>n \<in> set (net_vertices net). ev_app_id ev = node_id n)"
  using assms by (rule parse_topology_result)

definition small_document :: "xml list" where
  "small_document =
     [Element ''experiment'' [(''boot'', ''b'')]
        [Element ''services'' [] [Element ''service'' [(''kind'', ''baremetal''), (''name'', ''a'')] []],
         Element ''bridges'' [] [Element ''bridge'' [(''name'', ''s'')] []],
         Element ''links'' [] [],
         Element ''dynamic'' [] [Element ''schedule'' [(''name'', ''a''), (''action'', ''join'')] []]]]"

definition small_libs :: libs where
  "small_libs =
     \<lparr>lb_document = \<lambda>_. Some small_document, lb_captures = \<lambda>_. None, lb_ip = \<lambda>_. None,
      lb_uuid = \<lambda>_. ''u'', lb_order = \<lambda>m. m\<rparr>"

lemma small_nodes:
  "parse_nodes small_libs 7 \<lparr>bl_services = Some (children (hd small_document) ! 0),
      bl_bridges = Some (children (hd small_document) ! Suc 0), bl_links = Some (children (hd small_document) ! 2),
      bl_dynamic = Some (children (hd small_document) ! 3)\<rparr>
   = Some (Inr [(''a'', App 0 (app_build None None ''a'' BareMetal)), (''s'', Bridge 1)])"
  by code_simp

lemma small_blocks:
  "out_fold take_block (children (hd small_document)) \<lparr>bl_services = None, bl_bridges = None, bl_links = None, bl_dynamic = None\<rparr>
   = Some (Inr \<lparr>bl_services = Some (children (hd small_document) ! 0),
      bl_bridges = Some (children (hd small_document) ! Suc 0), bl_links = Some (children (hd small_document) ! 2),
      bl_dynamic = Some (children (hd small_document) ! 3)\<rparr>)"
  by code_simp

lemma small_schedule:
  "\<exists>t. parse_schedule [(''a'', App 0 (app_build None None ''a'' BareMetal)), (''s'', Bridge 1)]
      (Some (children (hd small_document) ! 3)) = Some (Inr [\<lparr>ev_app_id = 0, ev_time_ns = t, ev_action = Join\<rparr>])"
proof -
  have "to_uppercase ''join'' = ''JOIN''" by code_simp
  then show ?thesis
    by (simp add: small_document_def parse_schedule_def parse_event_def parse_action_def has_attribute_def
        del: to_uppercase.simps)
qed

theorem accepted_topology_witness:
  "\<exists>net events. parse_topology small_libs ''file'' 7 = Some (Inr (net, events)) \<and> length events = 1
    \<and> net_inv node_eq net \<and> distinct (map identity (net_vertices net))"
proof -
  let ?vs = "[App 0 (app_build None None ''a'' BareMetal), Bridge 1]"
  obtain net where net: "network_new node_eq ?vs ShortestPath = Some net"
    using nd.network_new_result[of ?vs ShortestPath] by (auto simp: hs_contains_simps)
  obtain t where t: "parse_schedule [(''a'', App 0 (app_build None None ''a'' BareMetal)), (''s'', Bridge 1)]
      (Some (children (hd small_document) ! 3)) = Some (Inr [\<lparr>ev_app_id = 0, ev_time_ns = t, ev_action = Join\<rparr>])"
    using small_schedule by blast
  have doc: "lb_document small_libs ''file'' = Some (hd small_document # [])" "lb_order small_libs m = m"
    "tag_name (hd small_document) = ''experiment''" "has_attribute (hd small_document) ''boot''"
    "children (children (hd small_document) ! 2) = []" for m
    by (simp_all add: small_libs_def small_document_def has_attribute_def)
  have run: "parse_topology small_libs ''file'' 7 = Some (Inr (net, [\<lparr>ev_app_id = 0, ev_time_ns = t, ev_action = Join\<rparr>]))"
    by (simp add: parse_topology_def doc out_require_def small_blocks small_nodes t net out_unwrap_def parse_links_def
        del: out_fold.simps(2))
  have "net_inv node_eq net \<and> distinct (map identity (net_vertices net))
    \<and> (\<forall>ev \<in> set [\<lparr>ev_app_id = 0, ev_time_ns = t, ev_action = Join\<rparr>]. \<exists>n \<in> set (net_vertices net). ev_app_id ev = node_id n)"
    by (rule accepted_topology[OF run]) (auto simp: small_libs_def small_document_def)
  with run show ?thesis by auto
qed

end
