(* ===== verification/Reporter.thy ===== *)
theory Reporter
  imports Messages Hash_Collections
begin

text \<open>
  The reporter that runs beside an application (\<^verbatim>\<open>reporter/src/lib.rs\<close> and
  \<^verbatim>\<open>reporter/src/tc_manager.rs\<close>). One half applies the traffic-control commands of the
  emulation core; the C library it loads is what its calls go to, so a command is the list of
  calls it makes. The other half watches the throughput of the flows, which the kernel program
  writes into a map, and tells the emulation core what has changed. Instants are nanoseconds.
\<close>

section \<open>Calls of the traffic-control library\<close>

datatype tc_call =
    Lib_init u32 u32 u32
  | Lib_initDestination u32 u32 fval fval fval
  | Lib_changeBandwidth u32 u32
  | Lib_changeLoss u32 fval
  | Lib_changeLatency u32 fval fval
  | Lib_disconnect
  | Lib_reconnect
  | Lib_tearDown u32

definition tcm_init :: "u32 \<Rightarrow> tc_call" where
  "tcm_init ip = Lib_init 7073 1000 ip"

definition tcm_initialize_path :: "u32 \<Rightarrow> u32 \<Rightarrow> fval \<Rightarrow> fval \<Rightarrow> fval \<Rightarrow> tc_call" where
  "tcm_initialize_path ip bandwidth_kbit latency jitter loss =
     Lib_initDestination ip bandwidth_kbit latency jitter loss"

definition tcm_disable_path :: "u32 \<Rightarrow> tc_call" where
  "tcm_disable_path ip = Lib_initDestination ip 10000 (Fin 1) (Fin 0) (Fin 1)"

definition tcm_change_bandwidth :: "u32 \<Rightarrow> u32 \<Rightarrow> tc_call" where
  "tcm_change_bandwidth ip bandwidth_kbit = Lib_changeBandwidth ip bandwidth_kbit"

definition tcm_change_loss :: "u32 \<Rightarrow> fval \<Rightarrow> tc_call" where
  "tcm_change_loss ip loss = Lib_changeLoss ip loss"

definition tcm_change_latency :: "u32 \<Rightarrow> fval \<Rightarrow> fval \<Rightarrow> tc_call" where
  "tcm_change_latency ip latency jitter = Lib_changeLatency ip latency jitter"

definition tcm_disconnect :: tc_call where
  "tcm_disconnect = Lib_disconnect"

definition tcm_reconnect :: tc_call where
  "tcm_reconnect = Lib_reconnect"

definition tcm_tear_down :: tc_call where
  "tcm_tear_down = Lib_tearDown 0"

section \<open>Commands of the emulation core\<close>

text \<open>The paths already initialised, and whether a panic has poisoned the mutex of the manager:
  from then on \<^verbatim>\<open>lock().ok()?\<close> returns before anything is done. The result of a command is
  the calls it makes, the new state, and whether it returns (or panics).\<close>

record tc_handler =
  th_paths :: "u32 list"
  th_poisoned :: bool

type_synonym tc_turn = "tc_call list \<times> tc_handler \<times> bool"

definition tc_handler_new :: tc_handler where
  "tc_handler_new = \<lparr>th_paths = [], th_poisoned = False\<rparr>"

definition with_manager :: "tc_handler \<Rightarrow> tc_turn \<Rightarrow> tc_turn" where
  "with_manager h turn = (if th_poisoned h then ([], h, True) else turn)"

definition poisoning :: "tc_handler \<Rightarrow> tc_turn" where
  "poisoning h = ([], h\<lparr>th_poisoned := True\<rparr>, False)"

text \<open>\<^verbatim>\<open>conf.dest.as_v4().unwrap().to_u32()\<close>; an IPv6 address is announced as ignored, and
  then panics.\<close>

definition tc_destination :: "tc_conf \<Rightarrow> u32 option" where
  "tc_destination conf = (case as_v4 (tc_dest conf) of Inl _ \<Rightarrow> None | Inr a \<Rightarrow> Some (ipv4_to_u32 a))"

definition handle_init :: "tc_conf \<Rightarrow> tc_handler \<Rightarrow> tc_turn" where
  "handle_init conf h =
     with_manager h
       (case tc_destination conf of None \<Rightarrow> poisoning h | Some ip \<Rightarrow> ([tcm_init ip], h, True))"

definition change_path :: "u32 \<Rightarrow> tc_conf \<Rightarrow> tc_call list" where
  "change_path ip conf =
     (case tc_bandwidth_kbitps conf of None \<Rightarrow> [] | Some bw \<Rightarrow> [tcm_change_bandwidth ip bw]) @
     (case tc_latency_and_jitter conf of None \<Rightarrow> [] | Some (lat, jit) \<Rightarrow> [tcm_change_latency ip lat jit]) @
     (case tc_drop conf of None \<Rightarrow> [] | Some loss \<Rightarrow> [tcm_change_loss ip loss])"

definition handle_update :: "tc_conf \<Rightarrow> tc_handler \<Rightarrow> tc_turn" where
  "handle_update conf h =
     with_manager h
       (case tc_destination conf of
          None \<Rightarrow> poisoning h
        | Some ip \<Rightarrow>
            if hs_contains (=) (th_paths h) ip then (change_path ip conf, h, True)
            else (case (tc_bandwidth_kbitps conf, tc_latency_and_jitter conf, tc_drop conf) of
                    (Some bw, Some (lat, jit), Some loss) \<Rightarrow>
                      ([tcm_initialize_path ip bw lat jit loss],
                       h\<lparr>th_paths := hs_insert (=) ip (th_paths h)\<rparr>, True)
                  | _ \<Rightarrow> poisoning h))"

text \<open>The signal to the cleaner is sent before the manager is locked; it panics when the cleaner
  is gone.\<close>

definition handle_teardown :: "bool \<Rightarrow> tc_handler \<Rightarrow> tc_turn" where
  "handle_teardown cleaner h =
     (if cleaner then with_manager h ([tcm_tear_down], h, True) else ([], h, False))"

definition tc_handle :: "emul_serde \<Rightarrow> bool \<Rightarrow> u8 list \<Rightarrow> tc_handler \<Rightarrow> tc_turn" where
  "tc_handle sd cleaner bytes h =
     (case emul_from_bytes sd bytes of
        None \<Rightarrow> ([], h, False)
      | Some (Inl _) \<Rightarrow> ([], h, True)
      | Some (Inr mess) \<Rightarrow>
          (case mess of
             TCInit conf \<Rightarrow> handle_init conf h
           | TCUpdate conf \<Rightarrow> handle_update conf h
           | TCDisconnect \<Rightarrow> with_manager h ([tcm_disconnect], h, True)
           | TCReconnect \<Rightarrow> with_manager h ([tcm_reconnect], h, True)
           | TCTeardown \<Rightarrow> handle_teardown cleaner h
           | _ \<Rightarrow> ([], h, True)))"

text \<open>The handler is shared by the connections of its socket: a panic ends one of them, the next
  command comes on another.\<close>

fun tc_run :: "emul_serde \<Rightarrow> (bool \<times> u8 list) list \<Rightarrow> tc_handler \<Rightarrow> tc_call list \<times> tc_handler" where
  "tc_run sd [] h = ([], h)"
| "tc_run sd ((cleaner, bytes) # ms) h =
     (let (calls, h', _) = tc_handle sd cleaner bytes h; (calls', h'') = tc_run sd ms h'
      in (calls @ calls', h''))"

section \<open>The flows\<close>

text \<open>The configuration of the reporter (\<^verbatim>\<open>common/src/reporter_config.rs\<close>): three options
  have to be given, the others have defaults.\<close>

record reporter_config =
  rc_flow_socket :: string
  rc_tc_socket :: string
  rc_ip :: string
  rc_percentage_variation :: fval
  rc_ignore_threshold :: u32
  rc_kill_flow_duration_ms :: u64
  rc_flow_control_interval :: u64
  rc_network_interface :: string

definition reporter_defaults :: "string \<Rightarrow> string \<Rightarrow> string \<Rightarrow> reporter_config" where
  "reporter_defaults flow_socket tc_socket ip =
     \<lparr>rc_flow_socket = flow_socket, rc_tc_socket = tc_socket, rc_ip = ip, rc_percentage_variation = Fin 5,
      rc_ignore_threshold = 5, rc_kill_flow_duration_ms = 2000, rc_flow_control_interval = 100,
      rc_network_interface = ''eth0''\<rparr>"

record reporter =
  rp_usage :: "(u32, u32 \<times> nat) hmap"
  rp_old_values :: "(u32, u32) hmap"

definition to_ip_addr_u32 :: "u32 \<Rightarrow> ip_addr" where
  "to_ip_addr_u32 mia = V4 (ipv4_of_u32 mia)"

text \<open>An event of the kernel program: destination and throughput.\<close>

definition on_perf_event :: "ip_addr \<Rightarrow> nat \<Rightarrow> u32 \<times> u32 \<Rightarrow> (u32, u32 \<times> nat) hmap \<Rightarrow> (u32, u32 \<times> nat) hmap" where
  "on_perf_event my_ip now message usage =
     (let (dst, throughput) = message
      in if to_ip_addr_u32 dst = my_ip then usage else hm_insert (=) dst (throughput, now) usage)"

fun f_abs :: "fval \<Rightarrow> fval" where
  "f_abs (Fin q) = Fin \<bar>q\<bar>"
| "f_abs NInf = PInf"
| "f_abs x = x"

definition variation :: "u32 option \<Rightarrow> u32 \<Rightarrow> fval" where
  "variation before throughput =
     (case before of
        None \<Rightarrow> Fin 100
      | Some o' \<Rightarrow>
          (let old = f_of_int F32 (uint o'); new = f_of_int F32 (uint throughput)
           in fmul F32 (fdiv F32 (f_abs (fsub F32 old new)) old) (Fin 100)))"

definition finished :: "reporter_config \<Rightarrow> nat \<Rightarrow> bool" where
  "finished conf elapsed \<longleftrightarrow> unat (rc_kill_flow_duration_ms conf) * 10 ^ 6 < elapsed"

text \<open>One entry of the map: \<^verbatim>\<open>old_values\<close>, the keys to remove, the messages so far. The
  clock tells at what time the entry is looked at; a send that fails panics.\<close>

definition check_entry ::
  "reporter_config \<Rightarrow> ip_addr \<Rightarrow> (u32 \<Rightarrow> nat) \<Rightarrow> (u32 \<Rightarrow> bool) \<Rightarrow> u32 \<times> u32 \<times> nat
   \<Rightarrow> (u32, u32) hmap \<times> u32 list \<times> emul_message list
   \<Rightarrow> ((u32, u32) hmap \<times> u32 list \<times> emul_message list) option" where
  "check_entry conf my_ip clock up entry acc =
     (let (dst, throughput, instant) = entry; (old_values, to_remove, sent) = acc
      in if throughput \<le> rc_ignore_threshold conf then Some acc
         else if finished conf (clock dst - instant)
         then (if up dst
               then Some (hm_remove (=) dst old_values, to_remove @ [dst],
                          sent @ [FlowUpdate (flow_conf_build my_ip (to_ip_addr_u32 dst) None)])
               else None)
         else if fle (rc_percentage_variation conf) (variation (hm_get (=) old_values dst) throughput)
         then (if up dst
               then Some (hm_insert (=) dst throughput old_values, to_remove,
                          sent @ [FlowUpdate (flow_conf_build my_ip (to_ip_addr_u32 dst) (Some throughput))])
               else None)
         else Some acc)"

text \<open>A round is one step: measures that arrive while the code iterates over the map come before the
  round or after it here. (In the code a measure that arrives for a flow between its verdict and the
  removal at the end of the round is removed with it.)\<close>

definition check_round ::
  "reporter_config \<Rightarrow> ip_addr \<Rightarrow> (u32 \<Rightarrow> nat) \<Rightarrow> (u32 \<Rightarrow> bool) \<Rightarrow> reporter \<Rightarrow> (reporter \<times> emul_message list) option" where
  "check_round conf my_ip clock up st =
     (case fold_opt (check_entry conf my_ip clock up) (rp_usage st) (rp_old_values st, [], []) of
        None \<Rightarrow> None
      | Some (old_values, to_remove, sent) \<Rightarrow>
          Some (\<lparr>rp_usage = fold (hm_remove (=)) to_remove (rp_usage st), rp_old_values = old_values\<rparr>, sent))"

text \<open>The main loop, for a number of rounds; before each, the events that came in between.\<close>

fun check_flows ::
  "reporter_config \<Rightarrow> ip_addr \<Rightarrow> ((nat \<times> u32 \<times> u32) list \<times> (u32 \<Rightarrow> nat)) list \<Rightarrow> reporter
   \<Rightarrow> (reporter \<times> emul_message list) option" where
  "check_flows conf my_ip [] st = Some (st, [])"
| "check_flows conf my_ip ((events, clock) # rounds) st =
     (let usage = fold (\<lambda>(now, m). on_perf_event my_ip now m) events (rp_usage st)
      in case check_round conf my_ip clock (\<lambda>_. True) (st\<lparr>rp_usage := usage\<rparr>) of
           None \<Rightarrow> None
         | Some (st', sent) \<Rightarrow> map_option (\<lambda>(st'', sent'). (st'', sent @ sent')) (check_flows conf my_ip rounds st'))"

section \<open>Every path is initialised once, before it is changed\<close>

fun paths_in_order :: "u32 set \<Rightarrow> tc_call list \<Rightarrow> bool" where
  "paths_in_order known [] \<longleftrightarrow> True"
| "paths_in_order known (c # cs) \<longleftrightarrow>
     (case c of
        Lib_initDestination ip _ _ _ _ \<Rightarrow> ip \<notin> known \<and> paths_in_order (insert ip known) cs
      | Lib_changeBandwidth ip _ \<Rightarrow> ip \<in> known \<and> paths_in_order known cs
      | Lib_changeLoss ip _ \<Rightarrow> ip \<in> known \<and> paths_in_order known cs
      | Lib_changeLatency ip _ _ \<Rightarrow> ip \<in> known \<and> paths_in_order known cs
      | _ \<Rightarrow> paths_in_order known cs)"

fun paths_after :: "u32 set \<Rightarrow> tc_call list \<Rightarrow> u32 set" where
  "paths_after known [] = known"
| "paths_after known (c # cs) =
     (case c of Lib_initDestination ip _ _ _ _ \<Rightarrow> paths_after (insert ip known) cs | _ \<Rightarrow> paths_after known cs)"

lemma paths_in_order_append:
  "paths_in_order known (cs @ ds) \<longleftrightarrow> paths_in_order known cs \<and> paths_in_order (paths_after known cs) ds"
  by (induction cs arbitrary: known) (auto split: tc_call.split)

lemma paths_after_append: "paths_after known (cs @ ds) = paths_after (paths_after known cs) ds"
  by (induction cs arbitrary: known) (auto split: tc_call.split)

lemmas tcm_defs = tcm_init_def tcm_initialize_path_def tcm_change_bandwidth_def tcm_change_loss_def
  tcm_change_latency_def tcm_disconnect_def tcm_reconnect_def tcm_tear_down_def

lemma change_path_in_order:
  "ip \<in> known \<Longrightarrow> paths_in_order known (change_path ip conf) \<and> paths_after known (change_path ip conf) = known"
  by (auto simp: change_path_def tcm_defs split: option.split)

declare hs_contains_HOL [simp] set_hs_insert_HOL [simp]

lemma tc_handle_in_order:
  assumes "tc_handle sd cleaner bytes h = (calls, h', ok)"
  shows "paths_in_order (set (th_paths h)) calls \<and> paths_after (set (th_paths h)) calls = set (th_paths h')"
  using assms change_path_in_order[of _ "set (th_paths h)"]
  by (auto simp: tc_handle_def handle_init_def handle_update_def handle_teardown_def with_manager_def
      poisoning_def tcm_defs split: option.splits sum.splits emul_message.splits if_splits)

lemma tc_run_in_order:
  assumes "tc_run sd ms h = (calls, h')"
  shows "paths_in_order (set (th_paths h)) calls \<and> paths_after (set (th_paths h)) calls = set (th_paths h')"
  using assms
proof (induction ms arbitrary: h calls h')
  case Nil
  then show ?case by simp
next
  case (Cons m ms)
  obtain cleaner bytes where m: "m = (cleaner, bytes)" by force
  obtain c1 h1 ok where 1: "tc_handle sd cleaner bytes h = (c1, h1, ok)" by (cases "tc_handle sd cleaner bytes h") auto
  obtain c2 h2 where 2: "tc_run sd ms h1 = (c2, h2)" by force
  show ?case
    using Cons.prems Cons.IH[OF 2] tc_handle_in_order[OF 1] 1 2
    by (auto simp: m paths_in_order_append paths_after_append)
qed

text \<open>Read off the list of calls: the call that initialises a path stands before those that
  change it, and only once.\<close>

definition changes_path :: "u32 \<Rightarrow> tc_call \<Rightarrow> bool" where
  "changes_path ip c \<longleftrightarrow>
     (case c of Lib_changeBandwidth i _ \<Rightarrow> i = ip | Lib_changeLoss i _ \<Rightarrow> i = ip
      | Lib_changeLatency i _ _ \<Rightarrow> i = ip | _ \<Rightarrow> False)"

definition initialises_path :: "u32 \<Rightarrow> tc_call \<Rightarrow> bool" where
  "initialises_path ip c \<longleftrightarrow> (case c of Lib_initDestination i _ _ _ _ \<Rightarrow> i = ip | _ \<Rightarrow> False)"

lemma paths_after_known:
  "ip \<in> paths_after known cs \<longleftrightarrow> ip \<in> known \<or> list_ex (initialises_path ip) cs"
  by (induction cs arbitrary: known) (auto simp: initialises_path_def split: tc_call.splits)

lemma initialises_path_iff: "initialises_path ip c \<longleftrightarrow> (\<exists>bw lat jit loss. c = Lib_initDestination ip bw lat jit loss)"
  by (cases c) (auto simp: initialises_path_def)

lemma paths_in_order_at:
  assumes "paths_in_order known (cs @ c # ds)"
  shows "changes_path ip c \<Longrightarrow> ip \<in> known \<or> list_ex (initialises_path ip) cs"
    and "initialises_path ip c \<Longrightarrow> ip \<notin> known \<and> \<not> list_ex (initialises_path ip) cs"
  using assms paths_after_known[of ip known cs] unfolding paths_in_order_append initialises_path_iff
  by (cases c; force simp: changes_path_def)+

section \<open>A round of the flows\<close>

text \<open>What a round does with an entry, said without the loop.\<close>

datatype verdict = Ignored | Finished | Changed | Unchanged

definition verdict ::
  "reporter_config \<Rightarrow> (u32 \<Rightarrow> nat) \<Rightarrow> (u32, u32) hmap \<Rightarrow> u32 \<times> u32 \<times> nat \<Rightarrow> verdict" where
  "verdict conf clock old_values entry =
     (let (dst, throughput, instant) = entry
      in if throughput \<le> rc_ignore_threshold conf then Ignored
         else if finished conf (clock dst - instant) then Finished
         else if fle (rc_percentage_variation conf) (variation (hm_get (=) old_values dst) throughput)
         then Changed else Unchanged)"

definition report :: "reporter_config \<Rightarrow> ip_addr \<Rightarrow> (u32 \<Rightarrow> nat) \<Rightarrow> (u32, u32) hmap \<Rightarrow> u32 \<times> u32 \<times> nat \<Rightarrow> emul_message list" where
  "report conf my_ip clock old_values entry =
     (let msg = (\<lambda>t. [FlowUpdate (flow_conf_build my_ip (to_ip_addr_u32 (fst entry)) t)])
      in case verdict conf clock old_values entry of
           Finished \<Rightarrow> msg None | Changed \<Rightarrow> msg (Some (fst (snd entry))) | _ \<Rightarrow> [])"

definition remember :: "reporter_config \<Rightarrow> (u32 \<Rightarrow> nat) \<Rightarrow> (u32, u32) hmap \<Rightarrow> u32 \<times> u32 \<times> nat \<Rightarrow> u32 option" where
  "remember conf clock old_values entry =
     (case verdict conf clock old_values entry of
        Finished \<Rightarrow> None | Changed \<Rightarrow> Some (fst (snd entry)) | _ \<Rightarrow> hm_get (=) old_values (fst entry))"

lemmas check_defs = verdict_def report_def remember_def

lemma verdict_cong:
  assumes "hm_get (=) old1 (fst e) = hm_get (=) old2 (fst e)"
  shows "verdict conf clock old1 e = verdict conf clock old2 e"
    "report conf my_ip clock old1 e = report conf my_ip clock old2 e"
    "remember conf clock old1 e = remember conf clock old2 e"
  using assms by (auto simp: check_defs split: prod.split)

lemma check_entry_result:
  assumes "hm_distinct (=) old" "up (fst e)"
  obtains old' where
    "check_entry conf my_ip clock up e (old, rem, sent) =
       Some (old', rem @ (if verdict conf clock old e = Finished then [fst e] else []),
             sent @ report conf my_ip clock old e)"
    "hm_distinct (=) old'" "hm_get (=) old' (fst e) = remember conf clock old e"
    "\<And>k. k \<noteq> fst e \<Longrightarrow> hm_get (=) old' k = hm_get (=) old k"
proof -
  obtain dst thr t where e: "e = (dst, thr, t)" by (cases e) auto
  show ?thesis
    by (rule that[of "case verdict conf clock old e of
          Finished \<Rightarrow> hm_remove (=) dst old | Changed \<Rightarrow> hm_insert (=) dst thr old | _ \<Rightarrow> old"])
      (use assms in \<open>auto simp: e check_entry_def check_defs hol_eq.hm_get_insert hol_eq.hm_get_remove
         hol_eq.hm_distinct_insert hol_eq.hm_distinct_remove\<close>)
qed

lemma check_loop_result:
  assumes "distinct (map fst us)" "hm_distinct (=) old" "\<And>k. up k"
  shows "\<exists>old'. fold_opt (check_entry conf my_ip clock up) us (old, rem, sent) =
      Some (old', rem @ map fst (filter (\<lambda>e. verdict conf clock old e = Finished) us),
            sent @ concat (map (report conf my_ip clock old) us))
    \<and> hm_distinct (=) old'
    \<and> (\<forall>e \<in> set us. hm_get (=) old' (fst e) = remember conf clock old e)
    \<and> (\<forall>k. k \<notin> fst ` set us \<longrightarrow> hm_get (=) old' k = hm_get (=) old k)"
  using assms
proof (induction us arbitrary: old rem sent)
  case (Cons e us)
  obtain old1 where 1: "check_entry conf my_ip clock up e (old, rem, sent) =
       Some (old1, rem @ (if verdict conf clock old e = Finished then [fst e] else []),
             sent @ report conf my_ip clock old e)"
    "hm_distinct (=) old1" "hm_get (=) old1 (fst e) = remember conf clock old e"
    "\<And>k. k \<noteq> fst e \<Longrightarrow> hm_get (=) old1 k = hm_get (=) old k"
    using check_entry_result[OF Cons.prems(2), of up e conf my_ip clock rem sent] Cons.prems(3) by metis
  have same: "hm_get (=) old1 (fst e') = hm_get (=) old (fst e')" if "e' \<in> set us" for e'
    using Cons.prems(1) that by (intro 1(4)) (force simp: rev_image_eqI)
  have fs: "filter (\<lambda>e. verdict conf clock old1 e = Finished) us = filter (\<lambda>e. verdict conf clock old e = Finished) us"
    "map (report conf my_ip clock old1) us = map (report conf my_ip clock old) us"
    using verdict_cong[OF same] by (auto intro!: filter_cong)
  have rs: "remember conf clock old1 e' = remember conf clock old e'" if "e' \<in> set us" for e'
    using verdict_cong(3)[OF same[OF that]] .
  have fresh: "fst e \<notin> fst ` set us" and d: "distinct (map fst us)" using Cons.prems(1) by auto
  obtain old2 where 2: "fold_opt (check_entry conf my_ip clock up) us
        (old1, rem @ (if verdict conf clock old e = Finished then [fst e] else []), sent @ report conf my_ip clock old e) =
      Some (old2, (rem @ (if verdict conf clock old e = Finished then [fst e] else []))
              @ map fst (filter (\<lambda>e. verdict conf clock old1 e = Finished) us),
            (sent @ report conf my_ip clock old e) @ concat (map (report conf my_ip clock old1) us))"
    "hm_distinct (=) old2" "\<forall>e \<in> set us. hm_get (=) old2 (fst e) = remember conf clock old1 e"
    "\<forall>k. k \<notin> fst ` set us \<longrightarrow> hm_get (=) old2 k = hm_get (=) old1 k"
    using Cons.IH[OF d 1(2) Cons.prems(3)] by metis
  show ?case
    by (rule exI[of _ old2]) (use 1 2 fs rs fresh in auto)
qed simp

lemma remove_keys_keep:
  "distinct (map fst m) \<Longrightarrow> fold (hm_remove (=)) ks m = filter (\<lambda>e. fst e \<notin> set ks) m"
proof (induction ks arbitrary: m)
  case (Cons k ks)
  have "distinct (map fst (filter (\<lambda>e. fst e \<noteq> k) m))" using Cons.prems by (rule distinct_map_filter)
  then have "fold (hm_remove (=)) (k # ks) m = filter (\<lambda>e. fst e \<notin> set ks) (filter (\<lambda>e. fst e \<noteq> k) m)"
    using Cons by (simp add: hm_remove_filter)
  then show ?case by (simp add: conj_commute)
qed simp

lemma remove_keys_filter:
  assumes "distinct (map fst m)"
  shows "fold (hm_remove (=)) (map fst (filter P m)) m = filter (\<lambda>e. \<not> P e) m"
proof -
  have "fst e \<in> fst ` {x \<in> set m. P x} \<longleftrightarrow> P e" if "e \<in> set m" for e
    using that assms by (auto simp: distinct_map inj_on_def)
  then show ?thesis using assms by (auto simp: remove_keys_keep intro!: filter_cong)
qed

lemma check_round_result:
  assumes "distinct (hm_keys (rp_usage st))" "hm_distinct (=) (rp_old_values st)" "\<And>k. up k"
  obtains old' where
    "check_round conf my_ip clock up st =
       Some (\<lparr>rp_usage = filter (\<lambda>e. verdict conf clock (rp_old_values st) e \<noteq> Finished) (rp_usage st),
              rp_old_values = old'\<rparr>,
             concat (map (report conf my_ip clock (rp_old_values st)) (rp_usage st)))"
    "hm_distinct (=) old'"
    "\<And>e. e \<in> set (rp_usage st) \<Longrightarrow> hm_get (=) old' (fst e) = remember conf clock (rp_old_values st) e"
    "\<And>k. k \<notin> fst ` set (rp_usage st) \<Longrightarrow> hm_get (=) old' k = hm_get (=) (rp_old_values st) k"
proof -
  have d: "distinct (map fst (rp_usage st))" using assms(1) by (simp add: hm_keys_def)
  obtain old' where old': "fold_opt (check_entry conf my_ip clock up) (rp_usage st) (rp_old_values st, [], []) =
      Some (old', map fst (filter (\<lambda>e. verdict conf clock (rp_old_values st) e = Finished) (rp_usage st)),
            concat (map (report conf my_ip clock (rp_old_values st)) (rp_usage st)))"
    and "hm_distinct (=) old'"
    and "\<forall>e \<in> set (rp_usage st). hm_get (=) old' (fst e) = remember conf clock (rp_old_values st) e"
    and "\<forall>k. k \<notin> fst ` set (rp_usage st) \<longrightarrow> hm_get (=) old' k = hm_get (=) (rp_old_values st) k"
    using check_loop_result[OF d assms(2), where up = up and rem = "[]" and sent = "[]" and conf = conf
        and my_ip = my_ip and clock = clock] assms(3) unfolding append_Nil by blast
  then show ?thesis
    by (intro that[of old']) (simp_all add: check_round_def remove_keys_filter[OF d])
qed

section \<open>Flows at or below the threshold\<close>

lemma ipv4_of_u32_inj: "ipv4_of_u32 a = ipv4_of_u32 b \<longleftrightarrow> a = b"
proof
  assume eq: "ipv4_of_u32 a = ipv4_of_u32 b"
  show "a = b"
  proof (rule bit_word_eqI)
    fix n :: nat
    assume n: "n < LENGTH(32)"
    have bits: "bit (ucast (drop_bit k a) :: u8) i = bit (ucast (drop_bit k b) :: u8) i" if "k \<in> {0, 8, 16, 24}" for k i
      using eq that by (auto simp: ipv4_of_u32_def)
    have "n = 8 * (n div 8) + n mod 8" "n div 8 < 4" using n by simp_all
    then have "8 * (n div 8) \<in> {0, 8, 16, 24}" by (cases "n div 8") auto
    from bits[OF this, of "n mod 8"] show "bit a n = bit b n"
      by (simp add: bit_unsigned_iff bit_drop_bit_eq)
  qed
qed simp

definition concerns :: "u32 \<Rightarrow> emul_message \<Rightarrow> bool" where
  "concerns dst m \<longleftrightarrow> (case m of FlowUpdate fc \<Rightarrow> fc_dest fc = to_ip_addr_u32 dst | _ \<Rightarrow> False)"

lemma report_concerns:
  "m \<in> set (report conf my_ip clock old e) \<Longrightarrow> concerns dst m \<longleftrightarrow> fst e = dst"
  by (auto simp: report_def concerns_def flow_conf_build_def to_ip_addr_u32_def ipv4_of_u32_inj
      split: verdict.splits)

lemma events_keep:
  assumes "distinct (hm_keys usage)" "\<forall>(now, d, thr) \<in> set events. d \<noteq> dst"
  shows "distinct (hm_keys (fold (\<lambda>(now, m). on_perf_event my_ip now m) events usage))
    \<and> hm_get (=) (fold (\<lambda>(now, m). on_perf_event my_ip now m) events usage) dst = hm_get (=) usage dst"
  using assms
proof (induction events arbitrary: usage)
  case (Cons ev events)
  obtain now d thr where ev: "ev = (now, d, thr)" by (cases ev) auto
  have "distinct (hm_keys (on_perf_event my_ip now (d, thr) usage))"
    "hm_get (=) (on_perf_event my_ip now (d, thr) usage) dst = hm_get (=) usage dst"
    using Cons.prems by (auto simp: on_perf_event_def ev hol_eq.hm_keys_insert hol_eq.hm_get_insert hs_insert_def)
  then show ?case using Cons.IH Cons.prems(2) by (simp add: ev)
qed simp

lemma quiet_flow:
  assumes "check_flows conf my_ip rounds st = Some (st', sent)"
    and "distinct (hm_keys (rp_usage st))" "hm_distinct (=) (rp_old_values st)"
    and "hm_get (=) (rp_usage st) dst = Some (thr, t)" "thr \<le> rc_ignore_threshold conf"
    and "\<forall>(events, clock) \<in> set rounds. \<forall>(now, d, thr) \<in> set events. d \<noteq> dst"
  shows "(\<forall>m \<in> set sent. \<not> concerns dst m)
    \<and> hm_get (=) (rp_usage st') dst = Some (thr, t)
    \<and> hm_get (=) (rp_old_values st') dst = hm_get (=) (rp_old_values st) dst"
  using assms
proof (induction rounds arbitrary: st sent)
  case (Cons r rounds)
  obtain events clock where r: "r = (events, clock)" by force
  define usage where "usage = fold (\<lambda>(now, m). on_perf_event my_ip now m) events (rp_usage st)"
  have usage: "distinct (hm_keys usage)" "hm_get (=) usage dst = Some (thr, t)"
    using events_keep[OF Cons.prems(2), of events dst my_ip] Cons.prems(4,6) by (auto simp: usage_def r)
  let ?st = "st\<lparr>rp_usage := usage\<rparr>" and ?old = "rp_old_values st"
  obtain old' where 1: "check_round conf my_ip clock (\<lambda>_. True) ?st =
       Some (\<lparr>rp_usage = filter (\<lambda>e. verdict conf clock (rp_old_values ?st) e \<noteq> Finished) (rp_usage ?st),
              rp_old_values = old'\<rparr>,
             concat (map (report conf my_ip clock (rp_old_values ?st)) (rp_usage ?st)))"
    "hm_distinct (=) old'"
    and old': "\<And>e. e \<in> set (rp_usage ?st) \<Longrightarrow> hm_get (=) old' (fst e) = remember conf clock (rp_old_values ?st) e"
    and "\<And>k. k \<notin> fst ` set (rp_usage ?st) \<Longrightarrow> hm_get (=) old' k = hm_get (=) (rp_old_values ?st) k"
    by (rule check_round_result[of ?st "\<lambda>_. True" conf my_ip clock]) (simp_all add: usage(1) Cons.prems(3))
  let ?usage = "filter (\<lambda>e. verdict conf clock ?old e \<noteq> Finished) usage"
  have mem: "(dst, thr, t) \<in> set usage" using hm_get_in[OF usage(2)] by auto
  have only: "e = (dst, thr, t)" if "e \<in> set usage" "fst e = dst" for e
    using that mem usage(1) eq_key_imp_eq_value[of usage dst "snd e" "(thr, t)"] by (auto simp: hm_keys_def prod_eq_iff)
  have v: "verdict conf clock ?old (dst, thr, t) = Ignored"
    using Cons.prems(5) by (simp add: verdict_def)
  then have silent: "\<not> concerns dst m" if "e \<in> set usage" "m \<in> set (report conf my_ip clock ?old e)" for e m
    using report_concerns[OF that(2)] only[OF that(1)] that(2) by (auto simp: report_def)
  have get: "hm_get (=) ?usage dst = Some (thr, t)"
    using mem usage(1) v by (intro hm_get_distinct) (auto simp: hm_keys_def distinct_map_filter)
  obtain sent2 where 2: "check_flows conf my_ip rounds \<lparr>rp_usage = ?usage, rp_old_values = old'\<rparr> = Some (st', sent2)"
    and sent: "sent = concat (map (report conf my_ip clock ?old) usage) @ sent2"
    using Cons.prems(1) 1(1) by (auto simp: r usage_def[symmetric])
  have "distinct (hm_keys ?usage)" using usage(1) by (simp add: hm_keys_def distinct_map_filter)
  then have "(\<forall>m \<in> set sent2. \<not> concerns dst m) \<and> hm_get (=) (rp_usage st') dst = Some (thr, t)
      \<and> hm_get (=) (rp_old_values st') dst = hm_get (=) old' dst"
    using Cons.IH[OF 2] 1(2) get Cons.prems(5,6) by simp
  moreover have "hm_get (=) old' dst = hm_get (=) ?old dst"
    using old'[of "(dst, thr, t)"] mem v by (simp add: remember_def)
  ultimately show ?case using silent by (auto simp: sent)
qed simp

end
