(* ===== verification/Repstart.thy ===== *)
theory Repstart
  imports Reporter Bindings
begin

text \<open>
  The start of the reporter (\<^verbatim>\<open>UsageAnalyzer::build\<close> and \<^verbatim>\<open>start\<close> in
  \<^verbatim>\<open>reporter/src/lib.rs\<close>, \<^verbatim>\<open>reporter/src/main.rs\<close>): it opens the socket for the
  commands, lets everybody write to it, connects to the socket of the flows and announces that it is
  ready. The two sockets are the bindings of \<^verbatim>\<open>Bindings\<close>; what the system answers is the
  world's. The \<^verbatim>\<open>Cleaner\<close> holds the socket for the commands until the teardown.
\<close>

record analyzer_world =
  aw_parse_ip :: "string \<Rightarrow> ip_addr option"
  aw_os_bind :: "string \<Rightarrow> string + unit"
  aw_permissions :: "string + unit"
  aw_set_permissions :: "string + unit"
  aw_os_connect :: "string \<Rightarrow> string + conn"

text \<open>The analyzer: its usage is empty, its own address is parsed; a bad address panics.\<close>

record usage_analyzer =
  ua_config :: reporter_config
  ua_my_ip :: ip_addr

definition analyzer_build :: "analyzer_world \<Rightarrow> reporter_config \<Rightarrow> usage_analyzer option" where
  "analyzer_build w config =
     map_option (\<lambda>a. \<lparr>ua_config = config, ua_my_ip = a\<rparr>) (aw_parse_ip w (rc_ip config))"

text \<open>The socket of the commands, listening with the handler; every failure is unwrapped.\<close>

definition open_tc_socket ::
  "analyzer_world \<Rightarrow> emul_message handler \<Rightarrow> usage_analyzer \<Rightarrow> emul_message unix_binding option" where
  "open_tc_socket w handler ua =
     (case check_is_socket (rc_tc_socket (ua_config ua)) of
        None \<Rightarrow> None
      | Some addr \<Rightarrow>
          (case unix_bind_addr addr (Some handler) of
             Inl _ \<Rightarrow> None
           | Inr b \<Rightarrow>
               (case unix_listen (aw_os_bind w) b of
                  Some (Inr _, b') \<Rightarrow> Some b'
                | _ \<Rightarrow> None)))"

text \<open>\<^verbatim>\<open>fs::metadata(..)?\<close> is passed on, \<^verbatim>\<open>set_permissions(..).unwrap()\<close> panics.\<close>

definition open_permissions :: "analyzer_world \<Rightarrow> unit result option" where
  "open_permissions w =
     (case aw_permissions w of
        Inl e \<Rightarrow> Some (Inl (error_from e))
      | Inr _ \<Rightarrow> (case aw_set_permissions w of Inl _ \<Rightarrow> None | Inr _ \<Rightarrow> Some (Inr ())))"

definition connect_flow_socket ::
  "analyzer_world \<Rightarrow> (emul_message \<Rightarrow> u8 list) \<Rightarrow> usage_analyzer \<Rightarrow> emul_message unix_binding option" where
  "connect_flow_socket w encode ua =
     (case check_is_socket (rc_flow_socket (ua_config ua)) of
        None \<Rightarrow> None
      | Some addr \<Rightarrow>
          (case unix_bind_addr addr None of
             Inl _ \<Rightarrow> None
           | Inr b \<Rightarrow>
               (case unix_connect (aw_os_connect w) b of
                  (Inl _, _) \<Rightarrow> None
                | (Inr _, b') \<Rightarrow>
                    (case unix_send encode SocketReady b' of
                       (Inl _, _) \<Rightarrow> None
                     | (Inr _, b'') \<Rightarrow> Some b''))))"

text \<open>The two bindings with which the reporter goes on to listen to the kernel and to check the flows.\<close>

definition analyzer_start ::
  "analyzer_world \<Rightarrow> emul_message handler \<Rightarrow> (emul_message \<Rightarrow> u8 list) \<Rightarrow> usage_analyzer
   \<Rightarrow> (emul_message unix_binding \<times> emul_message unix_binding) result option" where
  "analyzer_start w handler encode ua =
     (case open_tc_socket w handler ua of
        None \<Rightarrow> None
      | Some tc \<Rightarrow>
          (case open_permissions w of
             None \<Rightarrow> None
           | Some (Inl e) \<Rightarrow> Some (Inl e)
           | Some (Inr _) \<Rightarrow> map_option (\<lambda>flow. Inr (tc, flow)) (connect_flow_socket w encode ua)))"

text \<open>\<^verbatim>\<open>wait_to_clean\<close>: at the signal, or when its sender is gone, the binding is dropped;
  whether the file of the socket was deleted.\<close>

definition wait_to_clean :: "bool \<Rightarrow> (string \<Rightarrow> bool) \<Rightarrow> emul_message unix_binding \<Rightarrow> bool option" where
  "wait_to_clean alive path_exists listener = unix_drop alive path_exists listener"

section \<open>What a started reporter is\<close>

lemma unix_write_frame:
  assumes "unix_write_to_stream encode m c = (Inr (), c')"
  shows "c_in c' = c_in c \<and> c_out c' = c_out c @ prepare_data_to_send (encode m)"
  using assms
  by (auto simp: unix_write_to_stream_def write_all_def prepare_data_to_send_def Let_def
      split: option.splits sum.splits if_splits prod.splits)

lemma open_tc_socketD:
  assumes "open_tc_socket w handler ua = Some tc"
  shows "x_mode tc = Listening \<and> x_path tc = rc_tc_socket (ua_config ua) \<and> x_handler tc = Some handler \<and> x_close tc"
proof -
  obtain addr b r where a: "check_is_socket (rc_tc_socket (ua_config ua)) = Some addr"
    and b: "unix_bind_addr addr (Some handler) = Inr b" and l: "unix_listen (aw_os_bind w) b = Some (Inr r, tc)"
    using assms by (auto simp: open_tc_socket_def split: option.splits sum.splits)
  have "addr = Some (rc_tc_socket (ua_config ua))"
    using a b by (auto simp: check_is_socket_def unix_bind_addr_def split: option.splits if_splits)
  with b l show ?thesis by (auto simp: unix_bind_addr_def unix_listen_def split: sum.splits)
qed

text \<open>The announcement is the first thing on the socket of the flows, and by then the socket of the
  commands is listening; the teardown removes its file.\<close>

lemma analyzer_started:
  assumes "analyzer_start w handler encode ua = Some (Inr (tc, flow))"
  shows "x_mode tc = Listening \<and> x_path tc = rc_tc_socket (ua_config ua) \<and> x_handler tc = Some handler
    \<and> (\<exists>c c'. aw_os_connect w (rc_flow_socket (ua_config ua)) = Inr c \<and> x_mode flow = Connected c'
         \<and> c_out c' = c_out c @ prepare_data_to_send (encode SocketReady))
    \<and> wait_to_clean True path_exists tc = Some (path_exists (rc_tc_socket (ua_config ua)))"
proof -
  have tc: "open_tc_socket w handler ua = Some tc" and fl: "connect_flow_socket w encode ua = Some flow"
    using assms by (auto simp: analyzer_start_def split: option.splits sum.splits)
  obtain addr b r b' r' where a: "check_is_socket (rc_flow_socket (ua_config ua)) = Some addr"
    and b: "unix_bind_addr addr None = Inr b" and c: "unix_connect (aw_os_connect w) b = (Inr r, b')"
    and s: "unix_send encode SocketReady b' = (Inr r', flow)"
    using fl by (auto simp: connect_flow_socket_def split: option.splits sum.splits prod.splits)
  have "addr = Some (rc_flow_socket (ua_config ua))"
    using a b by (auto simp: check_is_socket_def unix_bind_addr_def split: option.splits if_splits)
  with b c obtain cn where cn: "aw_os_connect w (rc_flow_socket (ua_config ua)) = Inr cn" "x_mode b' = Connected cn"
    by (auto simp: unix_bind_addr_def unix_connect_def split: sum.splits)
  obtain c' where c': "unix_write_to_stream encode SocketReady cn = (Inr (), c')" "x_mode flow = Connected c'"
    using s cn(2) by (auto simp: unix_send_def unix_get_stream_def split: prod.splits)
  show ?thesis
    using open_tc_socketD[OF tc] cn(1) c'(2) unix_write_frame[OF c'(1)]
    by (auto simp: wait_to_clean_def unix_drop_def)
qed

end
