(* ===== verification/Monitor.thy ===== *)
theory Monitor
  imports Hash_Collections "HOL-Library.Word"
begin

text \<open>
  The program that the reporter loads into the kernel (\<^verbatim>\<open>monitor/src/usage/main.rs\<close>):
  a socket filter that sees every packet, counts the bytes sent to each destination and, at most
  every 100 ms, emits a message with the throughput. Its two maps hold at most 4096 entries; an
  insertion into a full map fails, and the code does not look at that. Integers have the width
  of the code; the loads from the packet and the clock are the kernel's.
\<close>

section \<open>State\<close>

record skb =
  sk_load8 :: "nat \<Rightarrow> u8 option"
  sk_load16 :: "nat \<Rightarrow> u16 option"
  sk_load32 :: "nat \<Rightarrow> u32 option"
  sk_len :: u32

record usage_maps =
  um_usage :: "(u32, u64) hmap"
  um_time :: "(u32, u64) hmap"

record usage_message =
  ms_dst :: u32
  ms_throughput :: u32

definition max_entries :: nat where
  "max_entries = 4096"

text \<open>\<^verbatim>\<open>set\<close> of a kernel map: a new key does not enter a full map.\<close>

definition bpf_set :: "u32 \<Rightarrow> u64 \<Rightarrow> (u32, u64) hmap \<Rightarrow> (u32, u64) hmap" where
  "bpf_set k v m = (if hm_get (=) m k = None \<and> max_entries \<le> length m then m else hm_insert (=) k v m)"

section \<open>The filter\<close>

definition eth_len :: nat where
  "eth_len = 14"

definition eth_p_ip :: u32 where
  "eth_p_ip = 0x0800"

text \<open>\<^verbatim>\<open>offset_of!(iphdr, ttl) + 4 + 4\<close> behind the Ethernet header.\<close>

definition dest_addr_offset :: nat where
  "dest_addr_offset = eth_len + 8 + 4 + 4"

definition interval_ns :: u64 where
  "interval_ns = 100000000"

text \<open>A zero divisor panics.\<close>

definition throughput :: "u64 \<Rightarrow> u64 \<Rightarrow> u32 option" where
  "throughput bytes delta_time_ns =
     (if delta_time_ns * 1024 = 0 then None
      else Some (ucast ((bytes * 8 * 1000000000) div (delta_time_ns * 1024))))"

definition count_packet ::
  "u64 \<Rightarrow> u32 \<Rightarrow> u64 \<Rightarrow> usage_maps \<Rightarrow> (usage_maps \<times> usage_message list) option" where
  "count_packet current_time dst len s =
     (case hm_get (=) (um_time s) dst of
        None \<Rightarrow> Some (s\<lparr>um_time := bpf_set dst current_time (um_time s)\<rparr>, [])
      | Some old_time \<Rightarrow>
          (case hm_get (=) (um_usage s) dst of
             None \<Rightarrow> Some (s\<lparr>um_usage := bpf_set dst len (um_usage s)\<rparr>, [])
           | Some v \<Rightarrow>
               let new_value = v + len; delta_time_ns = current_time - old_time
               in if interval_ns < delta_time_ns
                  then (case throughput new_value delta_time_ns of
                          None \<Rightarrow> None
                        | Some t \<Rightarrow>
                            Some (\<lparr>um_usage = bpf_set dst 0 (um_usage s), um_time = bpf_set dst current_time (um_time s)\<rparr>,
                                  [\<lparr>ms_dst = dst, ms_throughput = t\<rparr>]))
                  else Some (s\<lparr>um_usage := bpf_set dst new_value (um_usage s)\<rparr>, [])))"

text \<open>The destination of a packet that is counted: an IPv4 packet whose headers can be loaded. A load
  that fails ends the filter with an error, other packets end it without; either way nothing is
  counted.\<close>

definition counted_destination :: "skb \<Rightarrow> u32 option" where
  "counted_destination p =
     (case sk_load16 p 12 of
        None \<Rightarrow> None
      | Some eth_proto \<Rightarrow>
          if ucast eth_proto \<noteq> eth_p_ip then None
          else (case sk_load8 p eth_len of
                  None \<Rightarrow> None
                | Some b \<Rightarrow> if drop_bit 4 b \<noteq> 4 then None else sk_load32 p dest_addr_offset))"

definition measure_tcp_lifetime ::
  "u64 \<Rightarrow> skb \<Rightarrow> usage_maps \<Rightarrow> (usage_maps \<times> usage_message list) option" where
  "measure_tcp_lifetime current_time p s =
     (case counted_destination p of
        None \<Rightarrow> Some (s, [])
      | Some dst \<Rightarrow> count_packet current_time dst (ucast (sk_len p)) s)"

fun monitor_run :: "(u64 \<times> skb) list \<Rightarrow> usage_maps \<Rightarrow> (usage_maps \<times> usage_message list) option" where
  "monitor_run [] s = Some (s, [])"
| "monitor_run ((now, p) # ps) s =
     (case measure_tcp_lifetime now p s of
        None \<Rightarrow> None
      | Some (s', ms) \<Rightarrow> map_option (\<lambda>(s'', ms'). (s'', ms @ ms')) (monitor_run ps s'))"

definition no_usage :: usage_maps where
  "no_usage = \<lparr>um_usage = [], um_time = []\<rparr>"

section \<open>The meter of one destination\<close>

text \<open>What the two maps say of a destination, and what a packet to it does: the first one only starts
  the clock, the second one only starts the count, and from then on each interval that is over is
  reported when the next packet comes.\<close>

datatype meter = Silent | Timed u64 | Counting u64 u64

definition meter_of :: "usage_maps \<Rightarrow> u32 \<Rightarrow> meter" where
  "meter_of s d =
     (case hm_get (=) (um_time s) d of
        None \<Rightarrow> Silent
      | Some t \<Rightarrow> (case hm_get (=) (um_usage s) d of None \<Rightarrow> Timed t | Some b \<Rightarrow> Counting t b))"

fun meter_step :: "u64 \<Rightarrow> u64 \<Rightarrow> meter \<Rightarrow> (meter \<times> u32 list) option" where
  "meter_step now len Silent = Some (Timed now, [])"
| "meter_step now len (Timed t) = Some (Counting t len, [])"
| "meter_step now len (Counting t b) =
     (if interval_ns < now - t
      then map_option (\<lambda>r. (Counting now 0, [r])) (throughput (b + len) (now - t))
      else Some (Counting t (b + len), []))"

fun meter_run :: "(u64 \<times> u64) list \<Rightarrow> meter \<Rightarrow> (meter \<times> u32 list) option" where
  "meter_run [] m = Some (m, [])"
| "meter_run ((now, len) # ps) m =
     (case meter_step now len m of
        None \<Rightarrow> None
      | Some (m', rs) \<Rightarrow> map_option (\<lambda>(m'', rs'). (m'', rs @ rs')) (meter_run ps m'))"

text \<open>Every counted destination has a time, so there is room for the one when there is for the other.\<close>

definition um_inv :: "usage_maps \<Rightarrow> bool" where
  "um_inv s \<longleftrightarrow> distinct (hm_keys (um_time s)) \<and> distinct (hm_keys (um_usage s))
     \<and> set (hm_keys (um_usage s)) \<subseteq> set (hm_keys (um_time s))"

definition has_room :: "u32 \<Rightarrow> usage_maps \<Rightarrow> bool" where
  "has_room d s \<longleftrightarrow> d \<in> set (hm_keys (um_time s)) \<or> length (um_time s) < max_entries"

lemma bpf_set_insert: "hm_get (=) m k \<noteq> None \<or> length m < max_entries \<Longrightarrow> bpf_set k v m = hm_insert (=) k v m"
  by (auto simp: bpf_set_def)

lemma um_inv_length: "um_inv s \<Longrightarrow> length (um_usage s) \<le> length (um_time s)"
proof -
  assume "um_inv s"
  then have "card (set (hm_keys (um_usage s))) \<le> card (set (hm_keys (um_time s)))"
    by (intro card_mono) (auto simp: um_inv_def)
  with \<open>um_inv s\<close> show ?thesis by (simp add: um_inv_def distinct_card) (simp add: hm_keys_def)
qed

lemma um_inv_usage_room:
  assumes "um_inv s" "hm_get (=) (um_time s) d \<noteq> None" "hm_get (=) (um_usage s) d = None" "length (um_time s) \<le> max_entries"
  shows "length (um_usage s) < max_entries"
proof -
  have "set (hm_keys (um_usage s)) \<subset> set (hm_keys (um_time s))"
    using assms(1-3) by (auto simp: um_inv_def hm_get_None_HOL)
  then have "card (set (hm_keys (um_usage s))) < card (set (hm_keys (um_time s)))" by (intro psubset_card_mono) simp_all
  with assms(1,4) show ?thesis by (simp add: um_inv_def distinct_card) (simp add: hm_keys_def)
qed

definition as_messages :: "u32 \<Rightarrow> u32 list \<Rightarrow> usage_message list" where
  "as_messages d rs = map (\<lambda>r. \<lparr>ms_dst = d, ms_throughput = r\<rparr>) rs"

lemma um_inv_cases:
  assumes "um_inv s" "has_room d s" "length (um_time s) \<le> max_entries"
  obtains "meter_of s d = Silent" "hm_get (=) (um_time s) d = None" "hm_get (=) (um_usage s) d = None"
      "length (um_time s) < max_entries"
    | t where "meter_of s d = Timed t" "hm_get (=) (um_time s) d = Some t" "hm_get (=) (um_usage s) d = None"
      "length (um_usage s) < max_entries"
    | t b where "meter_of s d = Counting t b" "hm_get (=) (um_time s) d = Some t" "hm_get (=) (um_usage s) d = Some b"
proof (cases "hm_get (=) (um_time s) d")
  case None
  then have "hm_get (=) (um_usage s) d = None" using assms(1) by (auto simp: um_inv_def hm_get_None_HOL)
  then show ?thesis using that(1) None assms(2) by (auto simp: meter_of_def has_room_def hm_get_None_HOL)
next
  case (Some t)
  show ?thesis
  proof (cases "hm_get (=) (um_usage s) d")
    case None
    then show ?thesis using that(2) Some um_inv_usage_room[OF assms(1) _ None assms(3)] by (simp add: meter_of_def)
  next
    case (Some b)
    then show ?thesis using that(3) \<open>hm_get (=) (um_time s) d = Some t\<close> by (simp add: meter_of_def)
  qed
qed

text \<open>A packet is one step of the meter of its destination and of no other.\<close>

definition metered :: "u32 \<Rightarrow> meter \<Rightarrow> usage_maps \<Rightarrow> usage_maps \<Rightarrow> bool" where
  "metered d m s s' \<longleftrightarrow> um_inv s' \<and> set (hm_keys (um_time s')) = insert d (set (hm_keys (um_time s)))
     \<and> (\<forall>k. meter_of s' k = (if k = d then m else meter_of s k))"

lemmas meter_simps = metered_def meter_of_def um_inv_def hol_eq.hm_get_insert hol_eq.hm_keys_insert plain_sets

lemma in_keys: "hm_get (=) m k = Some v \<Longrightarrow> k \<in> set (hm_keys m)"
  using hm_get_None_HOL[of m k] by auto

lemma count_packet_meter:
  assumes "um_inv s" "has_room d s" "length (um_time s) \<le> max_entries"
    and "count_packet now d len s = Some (s', ms)"
  shows "\<exists>m rs. meter_step now len (meter_of s d) = Some (m, rs) \<and> ms = as_messages d rs \<and> metered d m s s'"
proof (rule um_inv_cases[OF assms(1-3)])
  assume "meter_of s d = Silent" "hm_get (=) (um_time s) d = None" "hm_get (=) (um_usage s) d = None"
    "length (um_time s) < max_entries"
  then show ?thesis
    using assms(1,4) by (auto simp: count_packet_def bpf_set_insert as_messages_def meter_simps cong: option.case_cong)
next
  fix t
  assume "meter_of s d = Timed t" "hm_get (=) (um_time s) d = Some t" "hm_get (=) (um_usage s) d = None"
    "length (um_usage s) < max_entries"
  then show ?thesis
    using assms(1,4) in_keys[of "um_time s" d]
    by (auto simp: count_packet_def bpf_set_insert as_messages_def meter_simps cong: option.case_cong)
next
  fix t b
  assume c: "meter_of s d = Counting t b" "hm_get (=) (um_time s) d = Some t" "hm_get (=) (um_usage s) d = Some b"
  show ?thesis
  proof (cases "interval_ns < now - t")
    case True
    then obtain r where "throughput (b + len) (now - t) = Some r"
      "s' = \<lparr>um_usage = hm_insert (=) d 0 (um_usage s), um_time = hm_insert (=) d now (um_time s)\<rparr>"
      "ms = [\<lparr>ms_dst = d, ms_throughput = r\<rparr>]"
      using c assms(4) by (auto simp: count_packet_def bpf_set_insert split: option.splits)
    then show ?thesis
      using True c assms(1) in_keys[of "um_time s" d] by (auto simp: as_messages_def meter_simps cong: option.case_cong)
  next
    case False
    then show ?thesis
      using c assms(1,4) in_keys[of "um_time s" d]
      by (auto simp: count_packet_def bpf_set_insert as_messages_def meter_simps cong: option.case_cong)
  qed
qed

section \<open>Runs\<close>

definition packets_to :: "u32 \<Rightarrow> (u64 \<times> skb) list \<Rightarrow> (u64 \<times> u64) list" where
  "packets_to d ps = map (\<lambda>(now, p). (now, ucast (sk_len p))) (filter (\<lambda>(now, p). counted_destination p = Some d) ps)"

definition destinations :: "(u64 \<times> skb) list \<Rightarrow> u32 set" where
  "destinations ps = {d. \<exists>(now, p) \<in> set ps. counted_destination p = Some d}"

lemma packets_to_Cons:
  "packets_to d ((now, p) # ps)
    = (if counted_destination p = Some d then (now, ucast (sk_len p)) # packets_to d ps else packets_to d ps)"
  by (simp add: packets_to_def)

lemma destinations_Cons:
  "destinations ((now, p) # ps) = set_option (counted_destination p) \<union> destinations ps"
  by (auto simp: destinations_def)

definition room_for :: "u32 set \<Rightarrow> usage_maps \<Rightarrow> bool" where
  "room_for D s \<longleftrightarrow> um_inv s \<and> finite D \<and> card D \<le> max_entries \<and> set (hm_keys (um_time s)) \<subseteq> D"

lemma room_forD:
  assumes "room_for D s" "d \<in> D"
  shows "um_inv s" "has_room d s" "length (um_time s) \<le> max_entries"
proof -
  have len: "length (um_time s) = card (set (hm_keys (um_time s)))"
    using assms(1) by (simp add: room_for_def um_inv_def distinct_card) (simp add: hm_keys_def)
  have "length (um_time s) < max_entries" if "d \<notin> set (hm_keys (um_time s))"
  proof -
    have "set (hm_keys (um_time s)) \<subset> D" using assms that by (auto simp: room_for_def)
    then have "card (set (hm_keys (um_time s))) < card D" using assms(1) by (auto simp: room_for_def intro: psubset_card_mono)
    then show ?thesis using len assms(1) by (simp add: room_for_def)
  qed
  then show "um_inv s" "has_room d s" using assms(1) by (auto simp: room_for_def has_room_def)
  have "card (set (hm_keys (um_time s))) \<le> card D" using assms(1) by (auto simp: room_for_def intro: card_mono)
  then show "length (um_time s) \<le> max_entries" using len assms(1) by (simp add: room_for_def)
qed

lemma monitor_run_meter:
  assumes "monitor_run ps s = Some (s', ms)" "room_for D s" "destinations ps \<subseteq> D"
  shows "\<exists>rs. meter_run (packets_to d ps) (meter_of s d) = Some (meter_of s' d, rs)
    \<and> filter (\<lambda>m. ms_dst m = d) ms = as_messages d rs"
  using assms
proof (induction ps arbitrary: s ms)
  case Nil
  then show ?case by (simp add: packets_to_def as_messages_def)
next
  case (Cons a ps)
  obtain now p where a: "a = (now, p)" by force
  obtain s1 ms1 ms2 where 1: "measure_tcp_lifetime now p s = Some (s1, ms1)" "monitor_run ps s1 = Some (s', ms2)"
    "ms = ms1 @ ms2" using Cons.prems(1) by (auto simp: a split: option.splits)
  have D: "destinations ps \<subseteq> D" using Cons.prems(3) by (simp add: a destinations_Cons)
  show ?case
  proof (cases "counted_destination p")
    case None
    then have "s1 = s" "ms1 = []" using 1(1) by (simp_all add: measure_tcp_lifetime_def)
    then show ?thesis using Cons.IH[OF 1(2) _ D] Cons.prems(2) 1(3) None by (simp add: a packets_to_Cons)
  next
    case (Some e)
    then have e: "e \<in> D" using Cons.prems(3) by (simp add: a destinations_Cons)
    have "count_packet now e (ucast (sk_len p)) s = Some (s1, ms1)" using 1(1) Some by (simp add: measure_tcp_lifetime_def)
    from count_packet_meter[OF room_forD[OF Cons.prems(2) e] this] obtain m rs where
      step: "meter_step now (ucast (sk_len p)) (meter_of s e) = Some (m, rs)" "ms1 = as_messages e rs" "metered e m s s1"
      by blast
    have "room_for D s1" using Cons.prems(2) step(3) e by (simp add: room_for_def metered_def)
    from Cons.IH[OF 1(2) this D] obtain rs2 where
      2: "meter_run (packets_to d ps) (meter_of s1 d) = Some (meter_of s' d, rs2)"
         "filter (\<lambda>m. ms_dst m = d) ms2 = as_messages d rs2" by blast
    show ?thesis
    proof (cases "e = d")
      case True
      then have "meter_of s1 d = m" using step(3) by (simp add: metered_def)
      then show ?thesis using 1(3) 2 step Some True by (simp add: a packets_to_Cons as_messages_def filter_map comp_def)
    next
      case False
      then have "meter_of s1 d = meter_of s d" using step(3) by (simp add: metered_def)
      moreover have "filter (\<lambda>m. ms_dst m = d) ms1 = []" using False step(2) by (simp add: as_messages_def)
      ultimately show ?thesis using 1(3) 2 Some False by (simp add: a packets_to_Cons)
    qed
  qed
qed

lemma room_for_start: "finite D \<Longrightarrow> card D \<le> max_entries \<Longrightarrow> room_for D no_usage"
  by (simp add: room_for_def um_inv_def no_usage_def hm_keys_def)

lemma finite_destinations: "finite (destinations ps)"
  by (rule finite_subset[of _ "set (List.map_filter (\<lambda>(now, p). counted_destination p) ps)"])
    (force simp: destinations_def map_filter_def)+

text \<open>Where the integers are wide enough, the throughput is the bits per second of the interval,
  divided by 1024 and rounded down.\<close>

lemma throughput_exact:
  assumes "unat bytes * 8000000000 < 2 ^ 64" "0 < unat delta" "unat delta * 1024 < 2 ^ 64"
    and "unat bytes * 8000000000 div (unat delta * 1024) < 2 ^ 32"
  shows "\<exists>r. throughput bytes delta = Some r \<and> unat r = unat bytes * 8000000000 div (unat delta * 1024)"
proof -
  have b: "unat (bytes * 8 * 1000000000) = unat bytes * 8000000000"
    using assms(1) by (simp add: unat_word_ariths mult.assoc)
  have d: "unat (delta * 1024) = unat delta * 1024" using assms(3) by (simp add: unat_word_ariths)
  then have "delta * 1024 \<noteq> 0" using assms(2) by (metis mult_is_0 not_gr0 unat_0 zero_neq_numeral)
  moreover have "unat (ucast ((bytes * 8 * 1000000000) div (delta * 1024)) :: u32) = unat bytes * 8000000000 div (unat delta * 1024)"
    using b d assms(4) by (simp add: unsigned_ucast_eq unat_div take_bit_eq_mod)
  ultimately show ?thesis by (simp add: throughput_def)
qed

end
