(* ===== verification/Metering.thy ===== *)
theory Metering
  imports Monitor Reporter
begin

text \<open>
  The way of a measure from the kernel to the reporter: the task that \<^verbatim>\<open>listen_ebpf\<close>
  (\<^verbatim>\<open>reporter/src/lib.rs\<close>) starts takes the batches of events of the loaded program
  and keeps the latest throughput of each destination. An event is a message of the filter with
  the instant at which it is taken. Loading the program is the kernel's.
\<close>

type_synonym batch = "string \<times> (nat \<times> usage_message) list"

definition perf_events :: string where
  "perf_events = ''perf_events''"

definition listen_batch :: "ip_addr \<Rightarrow> batch \<Rightarrow> (u32, u32 \<times> nat) hmap \<Rightarrow> (u32, u32 \<times> nat) hmap" where
  "listen_batch my_ip batch usage =
     (let (name, events) = batch
      in if name = perf_events
         then fold (\<lambda>(now, m). on_perf_event my_ip now (ms_dst m, ms_throughput m)) events usage
         else usage)"

definition listen_ebpf :: "ip_addr \<Rightarrow> batch list \<Rightarrow> (u32, u32 \<times> nat) hmap \<Rightarrow> (u32, u32 \<times> nat) hmap" where
  "listen_ebpf my_ip batches usage = fold (listen_batch my_ip) batches usage"

section \<open>What is kept of a destination\<close>

definition perf_messages :: "batch list \<Rightarrow> usage_message list" where
  "perf_messages batches = concat (map (\<lambda>(name, events). if name = perf_events then map snd events else []) batches)"

definition latest :: "u32 \<Rightarrow> usage_message list \<Rightarrow> u32 option \<Rightarrow> u32 option" where
  "latest d ms old = fold (\<lambda>m v. if ms_dst m = d then Some (ms_throughput m) else v) ms old"

definition kept :: "u32 \<Rightarrow> (u32, u32 \<times> nat) hmap \<Rightarrow> u32 option" where
  "kept d usage = map_option fst (hm_get (=) usage d)"

lemma latest_append [simp]: "latest d (ms @ ms') old = latest d ms' (latest d ms old)"
  by (simp add: latest_def)

lemma latest_filter: "latest d ms old = latest d (filter (\<lambda>m. ms_dst m = d) ms) old"
  by (induction ms arbitrary: old) (simp_all add: latest_def)

lemma latest_messages: "latest d (as_messages d rs) old = (if rs = [] then old else Some (last rs))"
  by (induction rs arbitrary: old) (simp_all add: latest_def as_messages_def)

lemma events_kept:
  "kept d (fold (\<lambda>(now, m). on_perf_event my_ip now (ms_dst m, ms_throughput m)) events usage)
     = (if to_ip_addr_u32 d = my_ip then kept d usage else latest d (map snd events) (kept d usage))"
  by (induction events arbitrary: usage)
    (auto simp: latest_def kept_def on_perf_event_def hol_eq.hm_get_insert)

lemma listen_ebpf_kept:
  "kept d (listen_ebpf my_ip batches usage)
     = (if to_ip_addr_u32 d = my_ip then kept d usage else latest d (perf_messages batches) (kept d usage))"
  by (induction batches arbitrary: usage)
    (auto simp: listen_ebpf_def listen_batch_def perf_messages_def events_kept split: prod.split,
     simp_all add: latest_def)

end
