(* ===== verification/Reporter_Properties.thy ===== *)
theory Reporter_Properties
  imports Reporter Repstart Metering Service_Properties
begin

text \<open>
  What the reporter beside an application (\<^verbatim>\<open>reporter/src/lib.rs\<close>) guarantees: the
  order of its calls to the traffic-control library, and what it tells of the flows.
\<close>

section \<open>Traffic control\<close>

text \<open>C23: whatever commands a reporter is sent, in whatever order and with whatever panics in between,
  no property of a path is changed before the path was initialised, and no path is initialised
  twice.\<close>

theorem paths_initialised_once:
  assumes "tc_run sd ms tc_handler_new = (cs @ c # ds, h')"
  shows "(changes_path ip c \<longrightarrow> list_ex (initialises_path ip) cs)
    \<and> (initialises_path ip c \<longrightarrow> \<not> list_ex (initialises_path ip) cs)"
  using paths_in_order_at[of "{}" cs c ds ip] tc_run_in_order[OF assms] by (auto simp: tc_handler_new_def)

definition shaped :: tc_conf where
  "shaped =
     \<lparr>tc_dest = V4 [10, 0, 0, 2], tc_bandwidth_kbitps = Some 100, tc_latency_and_jitter = Some (Fin 1, Fin 0),
      tc_drop = Some (Fin 0)\<rparr>"

definition shaped_serde :: emul_serde where
  "shaped_serde =
     \<lparr>es_flow = one_serde one_flow, es_tc = one_serde shaped,
      es_event = one_serde \<lparr>ev_app_id = 0, ev_time_ns = 0, ev_action = Join\<rparr>\<rparr>"

theorem paths_initialised_once_witness:
  "\<exists>ip h'. tc_run shaped_serde (replicate 2 (True, emul_to_bytes shaped_serde (TCUpdate shaped))) tc_handler_new
      = ([Lib_initDestination ip 100 (Fin 1) (Fin 0) (Fin 0)]
           @ Lib_changeBandwidth ip 100 # [Lib_changeLatency ip (Fin 1) (Fin 0), Lib_changeLoss ip (Fin 0)], h')
    \<and> changes_path ip (Lib_changeBandwidth ip 100)
    \<and> list_ex (initialises_path ip) [Lib_initDestination ip 100 (Fin 1) (Fin 0) (Fin 0)]"
proof -
  have "emul_faithful shaped_serde (TCUpdate shaped)" by (simp add: shaped_serde_def one_serde_ok)
  then have bytes: "emul_from_bytes shaped_serde (emul_to_bytes shaped_serde (TCUpdate shaped)) = Some (Inr (TCUpdate shaped))"
    by (rule emul.decode_encode)
  obtain ip where ip: "tc_destination shaped = Some ip" by (simp add: tc_destination_def shaped_def)
  have "tc_run shaped_serde (replicate 2 (True, emul_to_bytes shaped_serde (TCUpdate shaped))) tc_handler_new
      = ([Lib_initDestination ip 100 (Fin 1) (Fin 0) (Fin 0)]
           @ Lib_changeBandwidth ip 100 # [Lib_changeLatency ip (Fin 1) (Fin 0), Lib_changeLoss ip (Fin 0)],
         tc_handler_new\<lparr>th_paths := [ip]\<rparr>)"
    using bytes ip
    by (simp add: numeral_2_eq_2 tc_handle_def handle_update_def with_manager_def tc_handler_new_def shaped_def
        change_path_def tcm_defs hs_insert_def)
  from this paths_initialised_once[OF this, of ip] show ?thesis
    by (intro exI[of _ ip] exI) (auto simp: changes_path_def)
qed

section \<open>Flows\<close>

text \<open>C24: in a round over the flows each destination is judged by its own entry alone: a flow above the
  threshold that was quiet for too long is reported as ended and forgotten, one whose throughput
  moved enough since it was last reported is reported and remembered, nothing else is sent, and
  the other entries are kept.\<close>

theorem round_reports:
  assumes "distinct (hm_keys (rp_usage st))" "hm_distinct (=) (rp_old_values st)" "\<forall>k. up k"
  shows "\<exists>old'. check_round conf my_ip clock up st =
       Some (\<lparr>rp_usage = filter (\<lambda>e. verdict conf clock (rp_old_values st) e \<noteq> Finished) (rp_usage st),
              rp_old_values = old'\<rparr>,
             concat (map (report conf my_ip clock (rp_old_values st)) (rp_usage st)))
    \<and> hm_distinct (=) old'
    \<and> (\<forall>e \<in> set (rp_usage st). hm_get (=) old' (fst e) = remember conf clock (rp_old_values st) e)
    \<and> (\<forall>k. k \<notin> fst ` set (rp_usage st) \<longrightarrow> hm_get (=) old' k = hm_get (=) (rp_old_values st) k)"
  by (rule check_round_result[OF assms(1,2), of up conf my_ip clock]) (use assms(3) in blast)+

definition strict_config :: reporter_config where
  "strict_config = (reporter_defaults ''/tmp/flow.sock'' ''/tmp/tc.sock'' ''10.0.0.1'')
     \<lparr>rc_percentage_variation := Fin 10, rc_ignore_threshold := 50, rc_kill_flow_duration_ms := 1\<rparr>"

theorem round_reports_witness:
  "\<exists>old'. check_round strict_config (V4 [10, 0, 0, 1]) (\<lambda>_. 3 * 10 ^ 6) (\<lambda>_. True)
      \<lparr>rp_usage = [(7, 100, 0), (8, 20, 0)], rp_old_values = []\<rparr>
    = Some (\<lparr>rp_usage = [(8, 20, 0)], rp_old_values = old'\<rparr>,
        [FlowUpdate (flow_conf_build (V4 [10, 0, 0, 1]) (to_ip_addr_u32 7) None)])"
  using round_reports[of "\<lparr>rp_usage = [(7, 100, 0), (8, 20, 0)], rp_old_values = []\<rparr>" "\<lambda>_. True"
      strict_config "V4 [10, 0, 0, 1]" "\<lambda>_. 3 * 10 ^ 6"]
  by (auto simp: hm_keys_def hm_distinct_def check_defs strict_config_def reporter_defaults_def finished_def)

text \<open>C36: a flow whose last measured throughput is at or below the threshold is never reported again
  while no new measure of it comes in, not even as ended, and the value reported before stays: the
  threshold is looked at before the time.\<close>

theorem quiet_flow_forgotten:
  assumes "check_flows conf my_ip rounds st = Some (st', sent)"
    and "distinct (hm_keys (rp_usage st))" "hm_distinct (=) (rp_old_values st)"
    and "hm_get (=) (rp_usage st) dst = Some (thr, t)" "thr \<le> rc_ignore_threshold conf"
    and "\<forall>(events, clock) \<in> set rounds. \<forall>(now, d, thr) \<in> set events. d \<noteq> dst"
  shows "(\<forall>m \<in> set sent. \<not> concerns dst m)
    \<and> hm_get (=) (rp_usage st') dst = Some (thr, t)
    \<and> hm_get (=) (rp_old_values st') dst = hm_get (=) (rp_old_values st) dst"
  using assms by (rule quiet_flow)

theorem quiet_flow_forgotten_witness:
  "\<exists>st' sent. check_flows strict_config (V4 [10, 0, 0, 1]) [([], \<lambda>_. 3 * 10 ^ 6), ([], \<lambda>_. 10 ^ 12)]
      \<lparr>rp_usage = [(8, 20, 0)], rp_old_values = [(8, 500)]\<rparr> = Some (st', sent)
    \<and> (\<forall>m \<in> set sent. \<not> concerns 8 m) \<and> hm_get (=) (rp_old_values st') 8 = Some 500"
proof -
  let ?st = "\<lparr>rp_usage = [(8, 20, 0)], rp_old_values = [(8, 500)]\<rparr>"
  have run: "check_flows strict_config (V4 [10, 0, 0, 1]) [([], \<lambda>_. 3 * 10 ^ 6), ([], \<lambda>_. 10 ^ 12)] ?st = Some (?st, [])"
    by (simp add: check_round_def check_entry_def strict_config_def reporter_defaults_def)
  from quiet_flow_forgotten[OF run, of 8 20 0] run show ?thesis
    by (simp add: hm_keys_def hm_distinct_def hs_contains_simps strict_config_def reporter_defaults_def)
qed

section \<open>The filter in the kernel\<close>

text \<open>C39: as long as no more destinations than entries of the kernel maps are seen, the filter measures
  each destination as a meter of its own would, from its own packets alone: the messages of a
  destination and what the maps keep of it are those of the meter; and when the reporter has taken all
  messages, in whatever batches, what it keeps of a destination is the last throughput that the meter
  gave, and of its own address nothing.\<close>

theorem monitor_meters_each_destination:
  assumes "monitor_run ps no_usage = Some (s', ms)" and "card (destinations ps) \<le> max_entries"
    and "perf_messages batches = ms"
  shows "\<exists>rs. meter_run (packets_to d ps) Silent = Some (meter_of s' d, rs)
    \<and> filter (\<lambda>m. ms_dst m = d) ms = as_messages d rs
    \<and> map_option fst (hm_get (=) (listen_ebpf my_ip batches []) d)
        = (if to_ip_addr_u32 d = my_ip \<or> rs = [] then None else Some (last rs))"
proof -
  have "meter_of no_usage d = Silent" by (simp add: meter_of_def no_usage_def)
  with monitor_run_meter[OF assms(1) room_for_start[OF finite_destinations assms(2)] subset_refl, of d]
  obtain rs where "meter_run (packets_to d ps) Silent = Some (meter_of s' d, rs)"
    and rs: "filter (\<lambda>m. ms_dst m = d) ms = as_messages d rs" by auto
  moreover have "latest d ms None = (if rs = [] then None else Some (last rs))"
    unfolding latest_filter[of d ms] rs by (rule latest_messages)
  ultimately show ?thesis
    using listen_ebpf_kept[of d my_ip batches "[]"] assms(3) by (auto simp: kept_def)
qed

text \<open>An IPv4 packet of 1500 bytes.\<close>

definition packet_to :: "u32 \<Rightarrow> skb" where
  "packet_to d = \<lparr>sk_load8 = (\<lambda>_. Some 0x45), sk_load16 = (\<lambda>_. Some 0x0800), sk_load32 = (\<lambda>_. Some d), sk_len = 1500\<rparr>"

definition monitored :: "(u64 \<times> skb) list" where
  "monitored = [(0, packet_to 7), (1000, packet_to 7), (5000, packet_to 9), (200000000, packet_to 7)]"

lemma monitored_run:
  "map_option snd (monitor_run monitored no_usage) = Some [\<lparr>ms_dst = 7, ms_throughput = 117\<rparr>]"
  by code_simp

definition taken :: "batch list" where
  "taken = [(perf_events, []), (''other'', [(1, \<lparr>ms_dst = 7, ms_throughput = 1\<rparr>)]),
            (perf_events, [(200000100, \<lparr>ms_dst = 7, ms_throughput = 117\<rparr>)])]"

theorem monitor_meters_each_destination_witness:
  "\<exists>s'. monitor_run monitored no_usage = Some (s', [\<lparr>ms_dst = 7, ms_throughput = 117\<rparr>])
    \<and> meter_run (packets_to 7 monitored) Silent = Some (meter_of s' 7, [117])
    \<and> map_option fst (hm_get (=) (listen_ebpf (to_ip_addr_u32 1) taken []) 7) = Some 117"
proof -
  obtain s' where s': "monitor_run monitored no_usage = Some (s', [\<lparr>ms_dst = 7, ms_throughput = 117\<rparr>])"
    using monitored_run by auto
  have "destinations monitored \<subseteq> {7, 9}"
    by (auto simp: destinations_def monitored_def packet_to_def counted_destination_def split: if_splits)
  then have "card (destinations monitored) \<le> card {7, 9 :: u32}" by (rule card_mono[rotated]) simp
  then have c: "card (destinations monitored) \<le> max_entries" by (simp add: max_entries_def)
  have p: "perf_messages taken = [\<lparr>ms_dst = 7, ms_throughput = 117\<rparr>]"
    by (simp add: perf_messages_def taken_def perf_events_def)
  have me: "to_ip_addr_u32 7 \<noteq> to_ip_addr_u32 1" by (simp add: to_ip_addr_u32_def ipv4_of_u32_inj)
  from monitor_meters_each_destination[OF s' c p, of 7 "to_ip_addr_u32 1"] obtain rs where
    rs: "meter_run (packets_to 7 monitored) Silent = Some (meter_of s' 7, rs)"
        "[\<lparr>ms_dst = 7, ms_throughput = 117\<rparr>] = as_messages 7 rs"
        "map_option fst (hm_get (=) (listen_ebpf (to_ip_addr_u32 1) taken []) 7) = (if rs = [] then None else Some (last rs))"
    using me by auto
  from rs(2) have "rs = [117]" by (auto simp: as_messages_def Cons_eq_map_conv)
  with rs s' show ?thesis by (intro exI[of _ s']) simp
qed

end
