(* ===== verification/Netprint.thy ===== *)
theory Netprint
  imports Netpaths Text
begin

text \<open>
  What \<^verbatim>\<open>netgraph/src/lib.rs\<close> writes of a network: the \<^verbatim>\<open>Display\<close> of links and
  networks, and \<^verbatim>\<open>print_graph\<close>, which describes a network to Graphviz. A vertex is
  written by its own \<^verbatim>\<open>Display\<close>, a parameter.
\<close>

section \<open>Display\<close>

definition newline :: string where
  "newline = [CHR 0x0A]"

definition link_display :: "('v \<Rightarrow> string) \<Rightarrow> 'v link \<Rightarrow> string" where
  "link_display vertex lk =
     vertex (lk_source lk) @ '' -> '' @ vertex (lk_destination lk) @ '' : ''
     @ show_nat (unat (lk_bandwidth lk)) @ '' '' @ newline"

text \<open>The loops over \<^verbatim>\<open>i in 0..size\<close> and \<^verbatim>\<open>j in 0..i\<close>.\<close>

definition below_diagonal :: "nat \<Rightarrow> (nat \<times> nat) list" where
  "below_diagonal n = concat (map (\<lambda>i. map (\<lambda>j. (i, j)) [0..<i]) [0..<n])"

definition each_link :: "(nat \<Rightarrow> nat \<Rightarrow> 'v link \<Rightarrow> 'a list) \<Rightarrow> 'v network \<Rightarrow> 'a list option" where
  "each_link f net =
     map_option concat
       (map_opt (\<lambda>(i, j). map_option (\<lambda>lk. case lk of None \<Rightarrow> [] | Some l \<Rightarrow> f i j l) (sm_get (net_links net) i j))
         (below_diagonal (net_size net)))"

definition network_display :: "('v \<Rightarrow> string) \<Rightarrow> 'v network \<Rightarrow> string option" where
  "network_display vertex net = each_link (\<lambda>_ _ lk. link_display vertex lk) net"

section \<open>Graphviz\<close>

definition name_function :: "nat \<Rightarrow> nat \<Rightarrow> string" where
  "name_function nb_term x = (if x < nb_term then show_nat x else ''S'' @ show_nat (x - nb_term))"

definition quoted :: "string \<Rightarrow> string" where
  "quoted s = CHR 0x22 # s @ [CHR 0x22]"

definition attributes :: "nat \<Rightarrow> nat \<Rightarrow> nat \<Rightarrow> string" where
  "attributes nb_term i j =
     (if nb_term \<le> i \<and> nb_term \<le> j then '' color='' @ quoted ''red'' @ '' penwidth=2.0'' else [])"

definition edge_line :: "nat \<Rightarrow> nat \<Rightarrow> nat \<Rightarrow> 'v link \<Rightarrow> string" where
  "edge_line nb_term i j edge =
     CHR 0x09 # name_function nb_term i @ '' -- '' @ name_function nb_term j
     @ '' [label='' @ show_nat (unat (link_bandwidth edge)) @ attributes nb_term i j @ ''];''"

definition bridge_line :: "nat \<Rightarrow> nat \<Rightarrow> string" where
  "bridge_line nb_term i = CHR 0x09 # name_function nb_term i @ '' [color='' @ quoted ''red'' @ '']''"

text \<open>The lines that are printed.\<close>

definition print_graph :: "nat \<Rightarrow> 'v network \<Rightarrow> string list option" where
  "print_graph nb_term net =
     map_option (\<lambda>edges. [''graph network_graph {''] @ edges
                  @ map (bridge_line nb_term) [nb_term..<net_size net] @ [''}''])
       (each_link (\<lambda>i j edge. [edge_line nb_term i j edge]) net)"

section \<open>Every link is written once\<close>

lemma below_diagonal_iff: "(i, j) \<in> set (below_diagonal n) \<longleftrightarrow> j < i \<and> i < n"
  by (auto simp: below_diagonal_def intro: bexI[of _ i])

lemma distinct_below_diagonal: "distinct (below_diagonal n)"
  by (induction n) (auto simp: below_diagonal_def distinct_map inj_on_def)

definition linked_pairs :: "'v network \<Rightarrow> (nat \<times> nat) list" where
  "linked_pairs net = filter (\<lambda>(i, j). net_link net i j \<noteq> None) (below_diagonal (net_size net))"

text \<open>The pairs of indices with a link, each in one order only.\<close>

lemma linked_pairs_iff:
  "(i, j) \<in> set (linked_pairs net) \<longleftrightarrow> j < i \<and> i < net_size net \<and> net_link net i j \<noteq> None"
  by (auto simp: linked_pairs_def below_diagonal_iff)

lemma each_link_result:
  assumes "net_wf net"
  shows "each_link f net = Some (concat (map (\<lambda>(i, j). f i j (the (net_link net i j))) (linked_pairs net)))"
proof -
  let ?cell = "\<lambda>(i, j). case net_link net i j of None \<Rightarrow> [] | Some l \<Rightarrow> f i j l"
  have "map_opt (\<lambda>(i, j). map_option (\<lambda>lk. case lk of None \<Rightarrow> [] | Some l \<Rightarrow> f i j l) (sm_get (net_links net) i j))
      (below_diagonal (net_size net)) = Some (map ?cell (below_diagonal (net_size net)))"
    using assms by (intro map_opt_total) (auto simp: below_diagonal_iff net_cell)
  moreover have "concat (map ?cell ps)
      = concat (map (\<lambda>(i, j). f i j (the (net_link net i j))) (filter (\<lambda>(i, j). net_link net i j \<noteq> None) ps))" for ps
    by (induction ps) (auto split: option.split)
  ultimately show ?thesis by (simp add: each_link_def linked_pairs_def)
qed

lemma print_graph_lines:
  assumes "net_wf net"
  shows "print_graph nb_term net =
    Some ([''graph network_graph {'']
      @ map (\<lambda>(i, j). edge_line nb_term i j (the (net_link net i j))) (linked_pairs net)
      @ map (bridge_line nb_term) [nb_term..<net_size net] @ [''}''])"
proof -
  have "concat (map (\<lambda>(i, j). [g i j]) ps) = map (\<lambda>(i, j). g i j) ps" for g and ps :: "(nat \<times> nat) list"
    by (induction ps) auto
  then show ?thesis by (simp add: print_graph_def each_link_result[OF assms])
qed

lemma print_graph_length:
  assumes "net_wf net"
  shows "map_option length (print_graph nb_term net)
    = Some (2 + card {(i, j). j < i \<and> i < net_size net \<and> net_link net i j \<noteq> None} + (net_size net - nb_term))"
proof -
  have "set (linked_pairs net) = {(i, j). j < i \<and> i < net_size net \<and> net_link net i j \<noteq> None}"
    using linked_pairs_iff by auto
  moreover have "distinct (linked_pairs net)" by (simp add: linked_pairs_def distinct_below_diagonal)
  ultimately have "length (linked_pairs net) = card {(i, j). j < i \<and> i < net_size net \<and> net_link net i j \<noteq> None}"
    by (metis distinct_card)
  then show ?thesis by (simp add: print_graph_lines[OF assms])
qed

lemma network_display_total: "net_wf net \<Longrightarrow> network_display vertex net \<noteq> None"
  by (simp add: network_display_def each_link_result)

end
