(* ===== verification/Client.thy ===== *)
theory Client
  imports Bindings Transport
begin

text \<open>
  The client (\<^verbatim>\<open>client/src/main.rs\<close>): it reads a topology file and broadcasts it to the
  orchestration manager of the cluster. The file system, the resolution of addresses and the socket
  are the world's. What the orchestration manager's UDP binding makes of the datagram is shown with
  the handler that both programs use (\<^verbatim>\<open>DefaultHandler\<close>).
\<close>

section \<open>The program\<close>

record client_config =
  cl_topology_file :: string
  cl_omanager_port :: u16

definition client_defaults :: client_config where
  "client_defaults =
     \<lparr>cl_topology_file = ''/home/agost/workspace/MSc/development/kollaps/client/topology.xml'',
      cl_omanager_port = 8080\<rparr>"

record 'a client_world =
  wc_read :: "string \<Rightarrow> string option"
  wc_resolve :: "string \<Rightarrow> 'a result"
  wc_resolve_port :: "string \<Rightarrow> u16 \<Rightarrow> 'a result"
  wc_bind :: "'a \<Rightarrow> string + unit"
  wc_set_broadcast :: "string + unit"
  wc_get_broadcast :: "string + bool"
  wc_send :: "u8 list \<Rightarrow> 'a \<Rightarrow> string + nat"

text \<open>The handler of a binding whose messages go to \<^verbatim>\<open>controller\<close>; where it panics there is
  no answer.\<close>

definition default_handler :: "'m serde \<Rightarrow> ('m \<Rightarrow> 'm option option) \<Rightarrow> 'm handler" where
  "default_handler sd controller bytes =
     (case default_handle (default_from_bytes sd) (Some controller) bytes of Some r \<Rightarrow> r | None \<Rightarrow> None)"

text \<open>Every failure is unwrapped. What is left is the datagrams that went out and the binding:
  \<^verbatim>\<open>main\<close> then waits for a message from the handler of the binding, but it never makes the
  binding listen, so nothing calls that handler.\<close>

definition client_main ::
  "'a client_world \<Rightarrow> omanager_message serde \<Rightarrow> client_config
   \<Rightarrow> ('a datagram list \<times> (omanager_message, 'a) udp_binding) option" where
  "client_main w sd config =
     (case wc_read w (cl_topology_file config) of
        None \<Rightarrow> None
      | Some data \<Rightarrow>
          (case udp_bind_addr (wc_resolve w ''0.0.0.0:0'') (wc_bind w) (Some (default_handler sd (\<lambda>_. None))) of
             Inl _ \<Rightarrow> None
           | Inr binding \<Rightarrow>
               (case udp_broadcast (wc_set_broadcast w) (wc_get_broadcast w) (wc_send w) (default_to_bytes sd)
                       (NewTopology data) (wc_resolve_port w ''255.255.255.255'' (cl_omanager_port config)) of
                  Some (Inr _, out) \<Rightarrow> Some (out, binding)
                | _ \<Rightarrow> None)))"

section \<open>A datagram\<close>

lemma datagram_header: "get_size (datagram_into 2 (prepare_data_to_send d)) = Some (length d mod 65536)"
proof -
  have "datagram_into 2 (prepare_data_to_send d) = put_u16 (of_nat (length d))"
    by (simp add: datagram_into_def prepare_parts)
  then show ?thesis by (simp add: frame_size)
qed

text \<open>The payload that reaches the handler is the one that was framed, when its length fits.\<close>

lemma datagram_payload:
  assumes "length d < 65536"
  shows "udp_receive_and_handle os_send encode handler ignored (prepare_data_to_send d, addr)
    = (if addr \<in> set ignored then Some (Inr (), [])
       else case handler d of None \<Rightarrow> Some (Inr (), []) | Some x \<Rightarrow> Some (udp_send_to os_send encode x (Inr addr)))"
proof -
  have "datagram_into (length d + 2) (prepare_data_to_send d) = prepare_data_to_send d"
    by (simp add: datagram_into_def)
  moreover have "drop 2 (prepare_data_to_send d) = d" by (simp add: prepare_parts)
  ultimately show ?thesis
    using datagram_header[of d] assms
    by (simp add: udp_receive_and_handle_def content_length_length_def hs_contains_HOL)
qed

lemma default_handler_decodes:
  assumes "serde_ok sd m"
  shows "default_handler sd controller (default_to_bytes sd m) = (case controller m of Some r \<Rightarrow> r | None \<Rightarrow> None)"
  using plain.decode_encode[OF assms] by (simp add: default_handler_def default_handle_def split: option.split)

section \<open>From the client to the manager and back\<close>

lemma client_main_sends:
  assumes "client_main w sd config = Some (out, b)"
  shows "\<exists>data a. wc_read w (cl_topology_file config) = Some data
    \<and> wc_resolve_port w ''255.255.255.255'' (cl_omanager_port config) = Inr a
    \<and> out = [(prepare_data_to_send (default_to_bytes sd (NewTopology data)), a)]
    \<and> u_handler b = Some (default_handler sd (\<lambda>_. None))"
proof -
  obtain data where data: "wc_read w (cl_topology_file config) = Some data"
    using assms by (auto simp: client_main_def split: option.splits)
  show ?thesis
    using assms unfolding client_main_def data
    by (auto simp: udp_bind_addr_def udp_broadcast_def udp_send_to_def Let_def
        split: sum.splits if_splits)
qed

text \<open>The manager's binding hands the topology of the file to its controller, once, and sends the
  answer to where the datagram came from.\<close>

theorem client_topology_delivered:
  assumes "client_main w sd config = Some (out, b)" and "wc_read w (cl_topology_file config) = Some data"
    and "serde_ok sd (NewTopology data)" "length (default_to_bytes sd (NewTopology data)) < 65536"
    and "from_addr \<notin> set (u_ignore m)" "u_handler m = Some (default_handler sd controller)"
  shows "\<exists>d a. out = [(d, a)] \<and> udp_receive os_send (default_to_bytes sd) (d, from_addr) m
    = (case controller (NewTopology data) of
         Some (Some answer) \<Rightarrow> Some (udp_send_to os_send (default_to_bytes sd) answer (Inr from_addr))
       | _ \<Rightarrow> Some (Inr (), []))"
proof -
  obtain a where out: "out = [(prepare_data_to_send (default_to_bytes sd (NewTopology data)), a)]"
    using client_main_sends[OF assms(1)] assms(2) by auto
  have "udp_receive os_send (default_to_bytes sd) (prepare_data_to_send (default_to_bytes sd (NewTopology data)), from_addr) m
    = (case controller (NewTopology data) of
         Some (Some answer) \<Rightarrow> Some (udp_send_to os_send (default_to_bytes sd) answer (Inr from_addr))
       | _ \<Rightarrow> Some (Inr (), []))"
    by (simp add: udp_receive_def assms(5,6) datagram_payload[OF assms(4)] default_handler_decodes[OF assms(3)]
        split: option.split)
  with out show ?thesis by blast
qed

end
