(* ===== verification/Spec2Isabelle.thy ===== *)
theory Spec2Isabelle
  imports Network_Properties Flow_Properties Cluster_Properties Placement_Properties
    Service_Properties Manager_Properties Omanager_Life Node Emulation_Properties Reporter_Properties
    Netprint Client
begin

text \<open>
  Kollaps emulates a network topology on a cluster of machines: a client hands a topology file to
  the leader of the cluster, the applications of the file run in containers that are spread over
  the machines, and the links of the file are emulated by shaping the traffic that leaves each
  container. This development models the Rust crates of the repository and proves what their
  parts, and their composition, guarantee. All source paths below are under \<^verbatim>\<open>src/\<close>.

  \<^bold>\<open>The program and its parts.\<close> Every machine runs one \<^verbatim>\<open>runner\<close>. It starts the
  \<^emph>\<open>cluster manager\<close>, whose controller joins the cluster, tests the speed of the links to
  the other machines (\<^verbatim>\<open>cgraph\<close> holds the result) and exchanges heartbeats; and the
  \<^emph>\<open>emulation manager\<close>, which creates and starts experiments on its machine. On the leader
  it also starts the \<^emph>\<open>orchestration manager\<close>. The controller of the leader sends it every
  change of the cluster; clients send it topologies. It parses them (\<^verbatim>\<open>xmlgraphparser\<close> builds
  a \<^verbatim>\<open>netgraph\<close> network over a \<^verbatim>\<open>matrix\<close>), asks the \<^emph>\<open>orchestrator\<close> for a placement that
  the cluster can carry, and tells the emulation managers of the chosen hosts. Each of them starts
  an \<^emph>\<open>emulation core\<close>, which runs the containers (\<^verbatim>\<open>dockhelper\<close>) with a
  \<^emph>\<open>reporter\<close> beside each. The reporters load a filter into the kernel (the
  \<^emph>\<open>monitor\<close>) that meters the traffic to each destination, and report the flows to the
  core. The cores of an emulation agree on the time it begins, tell each other their flows, share
  the bandwidth of the topology between them (\<^verbatim>\<open>bwsync\<close>), and order the reporters to shape the
  traffic. All parts talk through the bindings of \<^verbatim>\<open>nethelper\<close> with the messages of \<^verbatim>\<open>common\<close>.

  \<^bold>\<open>Shared theories.\<close>
  \<^item> \<^verbatim>\<open>Prelude\<close>: machine integers, accesses and loops that can panic.
  \<^item> \<^verbatim>\<open>Machines\<close>: the locales \<^verbatim>\<open>step_system\<close> (what every step keeps holds in every reachable state)
    and \<^verbatim>\<open>marked_system\<close> (a mark that no step removes). They are interpreted on the TCP binding
    (\<^verbatim>\<open>tcp_life\<close>), the accept loops (\<^verbatim>\<open>lner\<close>), the emulation manager (\<^verbatim>\<open>mgr\<close>), the orchestrator (\<^verbatim>\<open>orch\<close>) and the orchestration
    manager (\<^verbatim>\<open>omgr\<close>).
  \<^item> \<^verbatim>\<open>Hash_Collections\<close>: \<^verbatim>\<open>HashMap\<close>, \<^verbatim>\<open>HashSet\<close> and \<^verbatim>\<open>Vec\<close> under a user-defined equality; the locale
    \<^verbatim>\<open>rust_eq\<close> asks that it is an equivalence, and is interpreted on the code's \<^verbatim>\<open>PartialEq\<close>
    implementations (nodes, flows, cluster nodes) and on the structural one.
  \<^item> \<^verbatim>\<open>Floats\<close>: IEEE-754 arithmetic as exact rationals with rounding, for the index
    conversions of \<^verbatim>\<open>matrix\<close> and the variation of the flows in the reporter (binary32). \<^verbatim>\<open>Text\<close>: UTF-8, decimal numbers, the string
    functions that the parsers call. \<^verbatim>\<open>Actions\<close>: handlers that send while they work, with the
    outcome of each send as an input.

  \<^bold>\<open>Theories and the code they model.\<close>
  \<^item> \<^verbatim>\<open>SymMatrix\<close>: \<^verbatim>\<open>matrix/src/lib.rs\<close> (\<^verbatim>\<open>new_fn\<close>, \<^verbatim>\<open>grow_fn\<close>, \<^verbatim>\<open>remove_id\<close>, indexed access,
    the conversions between the square and the triangle). The locale \<^verbatim>\<open>sym_store\<close> is its
    contract, proved of the code's model.
  \<^item> \<^verbatim>\<open>Netgraph\<close>, \<^verbatim>\<open>Netsearch\<close>, \<^verbatim>\<open>Randnet\<close>, \<^verbatim>\<open>Netprint\<close>: \<^verbatim>\<open>netgraph/src/lib.rs\<close> (\<^verbatim>\<open>Network\<close>, \<^verbatim>\<open>Link\<close>,
    \<^verbatim>\<open>PathStrategy\<close>, \<^verbatim>\<open>shortest_path\<close>, \<^verbatim>\<open>widest_path\<close>, the queries, \<^verbatim>\<open>generate_random_network\<close>, the texts
    that are printed). \<^verbatim>\<open>LabelSearch\<close> is the
    theory of a label-correcting search with a priority queue, as a locale; \<^verbatim>\<open>Netpaths\<close> interprets
    it on both searches of the code; \<^verbatim>\<open>Netwalks\<close> and \<^verbatim>\<open>Netqueries\<close> hold what the queries over the
    tree of parents return.
  \<^item> \<^verbatim>\<open>Bwsync\<close>, \<^verbatim>\<open>Bwflows\<close>: \<^verbatim>\<open>emulation/src/bwsync.rs\<close> and \<^verbatim>\<open>Flow\<close> of \<^verbatim>\<open>emulation/src/data.rs\<close>.
  \<^item> \<^verbatim>\<open>CGraph\<close>, \<^verbatim>\<open>CGraph_Props\<close>, \<^verbatim>\<open>CGraph_Speeds\<close>: \<^verbatim>\<open>cgraph/src/lib.rs\<close>.
  \<^item> \<^verbatim>\<open>Common\<close>, \<^verbatim>\<open>Subnet\<close>, \<^verbatim>\<open>Messages\<close>, \<^verbatim>\<open>Events\<close>, \<^verbatim>\<open>Data\<close>: \<^verbatim>\<open>common/src\<close> (errors, addresses, masks,
    messages), \<^verbatim>\<open>cmanager/src/data.rs\<close> (the cluster events) and \<^verbatim>\<open>emulation/src/data.rs\<close> (containers,
    applications, nodes, emulations). The locale \<^verbatim>\<open>codec\<close> is the round trip of a message type; its
    interpretations are the derived messages, the messages of a core and a reporter, and the
    cluster events.
  \<^item> \<^verbatim>\<open>Framing\<close>, \<^verbatim>\<open>Transport\<close>, \<^verbatim>\<open>Bindings\<close>, \<^verbatim>\<open>Listeners\<close>: \<^verbatim>\<open>nethelper/src\<close> (frames, the reading loops, the
    serving loops, the life of TCP, UDP and Unix bindings, the accept loops).
  \<^item> \<^verbatim>\<open>Control\<close>, \<^verbatim>\<open>Control_Props\<close>: \<^verbatim>\<open>cmanager/src/controller.rs\<close> and \<^verbatim>\<open>cmanager/src/perf.rs\<close>.
  \<^item> \<^verbatim>\<open>Orchestrator\<close>, \<^verbatim>\<open>Placement\<close>, \<^verbatim>\<open>Placement_Total\<close>, \<^verbatim>\<open>Placing\<close>, \<^verbatim>\<open>Deployment\<close>, \<^verbatim>\<open>Orchlife\<close>:
    \<^verbatim>\<open>emulation/src/orchestrator.rs\<close> (the definitions; the soundness of the search; its termination;
    what deploying and stopping do to loads and bandwidths; both as wholes; the whole life).
  \<^item> \<^verbatim>\<open>Omanager\<close>, \<^verbatim>\<open>Omanager_Props\<close>, \<^verbatim>\<open>Omanager_Life\<close>: \<^verbatim>\<open>emulation/src/pubapi.rs\<close>.
  \<^item> \<^verbatim>\<open>Emanager\<close>, \<^verbatim>\<open>Emulinit\<close>, \<^verbatim>\<open>Emulcore\<close>, \<^verbatim>\<open>Emulcore_Props\<close>: \<^verbatim>\<open>emulation/src/emanager.rs\<close>,
    \<^verbatim>\<open>emulation/src/emulcore.rs\<close>, \<^verbatim>\<open>emulation/src/scheduler.rs\<close>.
  \<^item> \<^verbatim>\<open>Topology\<close>, \<^verbatim>\<open>Topology_Props\<close>: \<^verbatim>\<open>emulation/src/xmlgraphparser.rs\<close>.
  \<^item> \<^verbatim>\<open>Docker\<close>: \<^verbatim>\<open>dockhelper/src/cmd.rs\<close>. \<^verbatim>\<open>Monitor\<close>: \<^verbatim>\<open>monitor/src/usage/main.rs\<close>.
  \<^item> \<^verbatim>\<open>Reporter\<close>, \<^verbatim>\<open>Repstart\<close>, \<^verbatim>\<open>Metering\<close>: \<^verbatim>\<open>reporter/src/lib.rs\<close>, \<^verbatim>\<open>reporter/src/tc_manager.rs\<close>,
    \<^verbatim>\<open>common/src/reporter_config.rs\<close> (the commands and the rounds; the start; the way of a measure from
    the kernel program to the reporter).
  \<^item> \<^verbatim>\<open>Client\<close>: \<^verbatim>\<open>client/src/main.rs\<close>, with the way of its datagram to the orchestration manager.
  \<^item> \<^verbatim>\<open>Node\<close>: \<^verbatim>\<open>common/src/runner_config.rs\<close>, \<^verbatim>\<open>runner/src/main.rs\<close>, \<^verbatim>\<open>cmanager/src/lib.rs\<close> and the start of
    the orchestration manager.

  A struct is a \<^verbatim>\<open>record\<close> whose fields carry a short prefix (\<^verbatim>\<open>or_\<close> for the orchestrator, \<^verbatim>\<open>ct_\<close> for
  the controller, \<^verbatim>\<open>om_\<close> for the orchestration manager, \<^verbatim>\<open>el_\<close> for the flow loop of a core, ...), an
  enum is a \<^verbatim>\<open>datatype\<close>, a method is a definition that takes the state and returns the new one.

  \<^bold>\<open>What is shown.\<close> The numbered properties stand in the \<^verbatim>\<open>*_Properties\<close> theories, in
  \<^verbatim>\<open>Omanager_Life\<close> and in \<^verbatim>\<open>Node\<close>, each after a text that states it, with a witness on a concrete
  input behind it.
  \<^item> \<^verbatim>\<open>Network_Properties\<close>: both path searches end without a panic and are correct against walks of
    the graph; the queries return the bandwidth of a best walk and update exactly its links; the
    random networks are connected.
  \<^item> \<^verbatim>\<open>Flow_Properties\<close>: sharing ends, respects every maximum, and takes the strictest share over the
    links of a flow; the share of a link is pinned by \<^verbatim>\<open>equal_share\<close>, the remaining bandwidth by
    \<^verbatim>\<open>bandwidth_taken\<close>; what inserting and removing flows do to the state.
  \<^item> \<^verbatim>\<open>Cluster_Properties\<close>: tests of links and the extrapolation of speeds.
  \<^item> \<^verbatim>\<open>Placement_Properties\<close>: a placement that is found respects loads and bandwidths; the search
    ends; stopping a deployment gives everything back; the loss of a host.
  \<^item> \<^verbatim>\<open>Service_Properties\<close>: serving loops, frames, messages, the modes of a binding, the end of a
    listener.
  \<^item> \<^verbatim>\<open>Manager_Properties\<close>: the invariant of the controller, one joining node at a time, the
    completion of the graph ends, heartbeats; a topology is deployed, and started only in a turn in
    which a host of it reports and the others have reported.
  \<^item> \<^verbatim>\<open>Omanager_Life\<close>: the orchestrator stays sound over all messages and updates that the orchestration
    manager is sent, as long as the topologies are below the bound of the matrix and the graphs of the
    cluster are well-formed with nodes of different addresses.
    \<^verbatim>\<open>Node\<close>: the same for a whole leader, from its configuration and whatever its controller goes
    through.
  \<^item> \<^verbatim>\<open>Emulation_Properties\<close>: accepted topology files, readiness of hosts, the agreement on the
    begin of an emulation up to the error of the clocks, flow updates, events, the manager's invariant, failing starts.
  \<^item> \<^verbatim>\<open>Reporter_Properties\<close>: the commands for traffic control, the reports of the flows, the kernel
    filter against one meter for each destination.

  \<^bold>\<open>Conventions.\<close> The programs are built in release mode, so integers wrap around
  silently; they are words where they are quantities. \<^verbatim>\<open>None\<close> is a panic, \<^verbatim>\<open>Inl\<close> is an \<^verbatim>\<open>Err\<close>. A loop
  that may not end (the serving loops, the reading of the rest of a message, the chains of parents,
  the enumeration of combinations, the completion of the cluster graph, the sharing of bandwidth) is
  a \<^verbatim>\<open>partial_function\<close>, and that it ends is a theorem where it does: there is no fuel in the
  development. Maps and sets of Rust are lists of entries in their order of iteration, so what is
  proved holds for every such order. Concurrent tasks appear as sequences of messages or steps in
  any order: a step is what a task does under its lock or in one turn of its loop. Two steps are
  coarser than the code: the task that creates an emulation and a round of the reporter await several
  times and are one step each. The clocks of the hosts are their own: in the synchronisation of the
  cores an instant means something on one host only, and what goes over the wire is milliseconds.

  \<^bold>\<open>Bounds.\<close> Matrices have fewer than \<^verbatim>\<open>2^26\<close> rows: the triangle index is computed in
  floating-point numbers, which are exact up to there. A block of a topology file has fewer than \<^verbatim>\<open>2^25\<close>
  children, so that the network stays below that bound. The length field of a message has 16 bits,
  so the round trips ask for messages of fewer than 65536 bytes. The kernel maps hold 4096 entries.

  \<^bold>\<open>Parameters.\<close> What the source calls and does not define is an argument of the
  definitions: the serialisation of \<^verbatim>\<open>serde_json\<close> (contract \<^verbatim>\<open>serde_ok\<close>: what is written is read back), the
  conversion of an instant to milliseconds and back by \<^verbatim>\<open>serde_millis\<close> (a function of the host and of
  the instant at which it runs; contract \<^verbatim>\<open>keeps_time\<close>: it is off by at most a bound), fresh
  identifiers (\<^verbatim>\<open>uuid\<close>), the sockets (streams are lists of arrivals), the document tree of the XML
  parser and its regular expressions, the outcomes of processes and of \<^verbatim>\<open>docker\<close>, the random draws
  (contract \<^verbatim>\<open>draws_in_range\<close>), the loads from a packet and the clock of the kernel, the values of the
  command line. Where a theorem needs a contract, its witness has a concrete instance.

  \<^bold>\<open>Not modelled.\<close> The start of the \<^verbatim>\<open>iperf3\<close> processes and the loading of the kernel program with
  the attachment of its socket filter: they are input and output only. The tests, in files of their own
  or inside the sources (among them the simulation in \<^verbatim>\<open>bwsync.rs\<close>), are not part of the program. Threads
  that wait or sleep have no content besides the order of messages.
\<close>

end
